(* ===== verification/Beep_Prelude.thy ===== *)
theory Beep_Prelude
  imports Main "HOL-Library.Word"
begin

text \<open>
  Shared vocabulary of the development: the machine integers of the Rust sources, byte arrays
  with the slice operations the code uses (\<open>a[i..j]\<close> and \<open>copy_from_slice\<close>), native-endian
  conversions, and the combinator for Rust's \<open>?\<close> operator in stateful code.

  beep is built for little-endian targets only (README, ``Supported platforms''; the eBPF object
  is built for \<open>bpfel-unknown-none\<close>), so \<open>to_ne_bytes\<close>/\<open>from_ne_bytes\<close> are little-endian
  and \<open>to_be\<close> swaps bytes.
\<close>

unbundle bit_operations_syntax

type_synonym u8 = "8 word"
type_synonym u16 = "16 word"
type_synonym u32 = "32 word"
type_synonym u64 = "64 word"
type_synonym bytes = "u8 list"

named_theorems wire_simps \<open>facts on byte layouts: lengths, slices and native-endian round trips\<close>
named_theorems decision_defs \<open>definitions of the pure per-packet decisions\<close>
named_theorems hook_defs \<open>definitions of the classifier programs\<close>
named_theorems state_simps \<open>how each program step changes the tables and the packet\<close>

section \<open>Byte arrays\<close>

text \<open>\<open>span xs i j\<close> is \<open>xs[i..j]\<close>; \<open>patch xs i bs\<close> is
  \<open>xs[i..i + bs.len()].copy_from_slice(bs)\<close>. Every use in the code is in range.\<close>

definition span :: "'a list \<Rightarrow> nat \<Rightarrow> nat \<Rightarrow> 'a list" where
  "span xs i j = take (j - i) (drop i xs)"

definition patch :: "'a list \<Rightarrow> nat \<Rightarrow> 'a list \<Rightarrow> 'a list" where
  "patch xs i bs = take i xs @ bs @ drop (i + length bs) xs"

definition zeroes :: "nat \<Rightarrow> bytes" where
  "zeroes n = replicate n 0"

section \<open>Native-endian integers\<close>

definition u16_to_ne :: "u16 \<Rightarrow> bytes" where
  "u16_to_ne w = [ucast w, ucast (drop_bit 8 w)]"

definition u16_of_ne :: "bytes \<Rightarrow> u16" where
  "u16_of_ne b = ucast (b ! 0) OR push_bit 8 (ucast (b ! 1))"

definition u32_to_ne :: "u32 \<Rightarrow> bytes" where
  "u32_to_ne w = [ucast w, ucast (drop_bit 8 w), ucast (drop_bit 16 w), ucast (drop_bit 24 w)]"

definition u32_of_ne :: "bytes \<Rightarrow> u32" where
  "u32_of_ne b = ucast (b ! 0) OR push_bit 8 (ucast (b ! 1))
     OR push_bit 16 (ucast (b ! 2)) OR push_bit 24 (ucast (b ! 3))"

text \<open>\<open>to_be\<close>/\<open>from_be\<close> on a little-endian target.\<close>

definition u16_swap :: "u16 \<Rightarrow> u16" where
  "u16_swap w = u16_of_ne (rev (u16_to_ne w))"

definition u32_swap :: "u32 \<Rightarrow> u32" where
  "u32_swap w = u32_of_ne (rev (u32_to_ne w))"

section \<open>The \<open>?\<close> operator in stateful code\<close>

text \<open>\<open>need x s k\<close> is \<open>let v = x?; k\<close> in a function whose effects so far are in \<open>s\<close>: a
  \<open>None\<close> ends the function with \<open>None\<close> and keeps the effects.\<close>

definition need :: "'a option \<Rightarrow> 's \<Rightarrow> ('a \<Rightarrow> 'r option \<times> 's) \<Rightarrow> 'r option \<times> 's" where
  "need x s k = (case x of None \<Rightarrow> (None, s) | Some v \<Rightarrow> k v)"

text \<open>\<open>and_then r k\<close> is \<open>f(..)?; k\<close> for a callee \<open>f\<close> that has effects of its own: they are kept
  whether or not the callee succeeds.\<close>

definition and_then ::
  "'a option \<times> 's \<Rightarrow> ('a \<Rightarrow> 's \<Rightarrow> 'r option \<times> 's) \<Rightarrow> 'r option \<times> 's" where
  "and_then r k = (case r of (None, s) \<Rightarrow> (None, s) | (Some v, s) \<Rightarrow> k v s)"

text \<open>Evaluation inlines the three combinators, so that a continuation is entered only once the value
  it waits for is known.\<close>

lemma bind_case: "Option.bind x f = (case x of None \<Rightarrow> None | Some v \<Rightarrow> f v)"
  by (cases x) auto

declare need_def [code_unfold] and_then_def [code_unfold] bind_case [code_unfold]

section \<open>Lemmas\<close>

lemma and_then_None [simp]: "and_then (None, s) k = (None, s)"
  by (simp add: and_then_def)

lemma and_then_Some [simp]: "and_then (Some v, s) k = k v s"
  by (simp add: and_then_def)

lemma and_then_split:
  "P (and_then r k) \<longleftrightarrow>
   (\<forall>s. r = (None, s) \<longrightarrow> P (None, s)) \<and> (\<forall>v s. r = (Some v, s) \<longrightarrow> P (k v s))"
  by (cases r; cases "fst r") auto

lemma need_None [simp]: "need None s k = (None, s)"
  by (simp add: need_def)

lemma need_Some [simp]: "need (Some v) s k = k v"
  by (simp add: need_def)

lemma need_split:
  "P (need x s k) \<longleftrightarrow> (x = None \<longrightarrow> P (None, s)) \<and> (\<forall>v. x = Some v \<longrightarrow> P (k v))"
  by (cases x) auto

lemma need_split_asm:
  "P (need x s k) \<longleftrightarrow> \<not> (x = None \<and> \<not> P (None, s) \<or> (\<exists>v. x = Some v \<and> \<not> P (k v)))"
  by (cases x) auto

lemmas need_splits = need_split need_split_asm

lemma length_span [simp]: "length (span xs i j) = min (j - i) (length xs - i)"
  by (simp add: span_def)

lemma length_patch [simp]:
  "i + length bs \<le> length xs \<Longrightarrow> length (patch xs i bs) = length xs"
  by (simp add: patch_def)

lemma span_patch_same [wire_simps]:
  assumes "i + length bs \<le> length xs" "j = i + length bs"
  shows "span (patch xs i bs) i j = bs"
  using assms by (simp add: span_def patch_def)

lemma span_patch_before [wire_simps]:
  assumes "j \<le> i" "i \<le> length xs"
  shows "span (patch xs i bs) k j = span xs k j"
proof -
  have "drop k (take j (patch xs i bs)) = drop k (take j xs)"
    using assms by (simp add: patch_def)
  then show ?thesis by (simp add: span_def drop_take)
qed

lemma span_patch_after [wire_simps]:
  assumes "i + length bs \<le> k" "i + length bs \<le> length xs"
  shows "span (patch xs i bs) k j = span xs k j"
proof -
  have "drop k (patch xs i bs) = drop k xs"
    using assms by (simp add: patch_def)
  then show ?thesis by (simp add: span_def)
qed

lemma nth_patch:
  assumes "i + length bs \<le> length xs" "n < length xs"
  shows "patch xs i bs ! n = (if n < i then xs ! n else if n < i + length bs then bs ! (n - i) else xs ! n)"
  using assms by (auto simp: patch_def nth_append min_def)

lemma nth_span: "k < j - i \<Longrightarrow> i + k < length xs \<Longrightarrow> span xs i j ! k = xs ! (i + k)"
  by (simp add: span_def)

lemma patch_0: "patch xs 0 bs = bs @ drop (length bs) xs"
  by (simp add: patch_def)

lemma span_append_left [wire_simps]: "j \<le> length xs \<Longrightarrow> span (xs @ ys) i j = span xs i j"
  by (simp add: span_def)

lemma span_append_right [wire_simps]:
  "length xs \<le> i \<Longrightarrow> span (xs @ ys) i j = span ys (i - length xs) (j - length xs)"
  by (simp add: span_def)

lemma span_all [simp]: "length xs \<le> j \<Longrightarrow> span xs 0 j = xs"
  by (simp add: span_def)

lemma span_empty [simp]: "j \<le> i \<Longrightarrow> span xs i j = []"
  by (simp add: span_def)

lemma span_Cons_0 [simp]: "0 < j \<Longrightarrow> span (x # xs) 0 j = x # span xs 0 (j - 1)"
  by (cases j) (auto simp: span_def)

lemma span_Cons_Suc [simp]: "0 < i \<Longrightarrow> span (x # xs) i j = span xs (i - 1) (j - 1)"
  by (cases i) (auto simp: span_def)

lemma span_join: "i \<le> j \<Longrightarrow> j \<le> k \<Longrightarrow> span xs i j @ span xs j k = span xs i k"
  using take_add [of "j - i" "k - j" "drop i xs"] by (simp add: span_def)

lemma span_single: "n < length xs \<Longrightarrow> span xs n (Suc n) = [xs ! n]"
  by (simp add: span_def take_Suc hd_drop_conv_nth)

lemma length_zeroes [simp]: "length (zeroes n) = n"
  by (simp add: zeroes_def)

text \<open>Filling a zeroed buffer from left to right, the way every encoder does.\<close>

lemma patch_fill:
  "i = length xs \<Longrightarrow> length bs \<le> n \<Longrightarrow>
   patch (xs @ zeroes n) i bs = (xs @ bs) @ zeroes (n - length bs)"
  by (simp add: patch_def zeroes_def)

lemma patch_fill_0: "length bs \<le> n \<Longrightarrow> patch (zeroes n) 0 bs = bs @ zeroes (n - length bs)"
  by (simp add: patch_def zeroes_def)

lemma zeroes_0 [simp]: "zeroes 0 = []"
  by (simp add: zeroes_def)

lemmas patch_fills = patch_fill patch_fill_0

lemma length_u16_to_ne [simp]: "length (u16_to_ne w) = 2"
  by (simp add: u16_to_ne_def)

lemma length_u32_to_ne [simp]: "length (u32_to_ne w) = 4"
  by (simp add: u32_to_ne_def)

lemma bit_u8_less: "bit (x :: u8) n \<Longrightarrow> n < 8"
  using bit_imp_le_length [of x n] by simp

lemma bit_u8_high [simp]: "8 \<le> k \<Longrightarrow> \<not> bit (x :: u8) (k + n)"
  using bit_u8_less [of x "k + n"] by auto

lemma u16_of_to_ne [simp]: "u16_of_ne (u16_to_ne w) = w"
  by (rule bit_word_eqI) (auto simp: u16_of_ne_def u16_to_ne_def bit_simps)

lemma u32_of_to_ne [simp]: "u32_of_ne (u32_to_ne w) = w"
proof (rule bit_word_eqI)
  fix n assume "n < LENGTH(32)"
  then consider "n < 8" | "8 \<le> n" "n < 16" | "16 \<le> n" "n < 24" | "24 \<le> n" "n < 32"
    by force
  then show "bit (u32_of_ne (u32_to_ne w)) n = bit w n"
    by cases (auto simp: u32_of_ne_def u32_to_ne_def bit_simps)
qed

lemma u16_to_of_ne [simp]:
  assumes "length b = 2" shows "u16_to_ne (u16_of_ne b) = b"
proof -
  obtain x y where b: "b = [x, y]"
    using assms by (auto simp: numeral_2_eq_2 length_Suc_conv)
  have "ucast (u16_of_ne b) = x" "ucast (drop_bit 8 (u16_of_ne b)) = y"
    by (auto intro!: bit_word_eqI simp: b u16_of_ne_def bit_simps)
  then show ?thesis by (simp add: u16_to_ne_def b)
qed

lemma u32_to_of_ne [simp]:
  assumes "length b = 4" shows "u32_to_ne (u32_of_ne b) = b"
proof -
  obtain x y z w where b: "b = [x, y, z, w]"
    using assms by (auto simp: numeral_eq_Suc length_Suc_conv)
  have "ucast (u32_of_ne b) = x" "ucast (drop_bit 8 (u32_of_ne b)) = y"
    "ucast (drop_bit 16 (u32_of_ne b)) = z" "ucast (drop_bit 24 (u32_of_ne b)) = w"
    by (auto intro!: bit_word_eqI simp: b u32_of_ne_def bit_simps)
  then show ?thesis by (simp add: u32_to_ne_def b)
qed

lemma u16_swap_swap [simp]: "u16_swap (u16_swap w) = w"
  by (simp add: u16_swap_def)

lemma u32_swap_swap [simp]: "u32_swap (u32_swap w) = w"
  by (simp add: u32_swap_def)

lemma u16_to_ne_inject [simp]: "u16_to_ne a = u16_to_ne b \<longleftrightarrow> a = b"
  by (metis u16_of_to_ne)

lemma u32_to_ne_inject [simp]: "u32_to_ne a = u32_to_ne b \<longleftrightarrow> a = b"
  by (metis u32_of_to_ne)

end
