(* ===== verification/Wire_Codec.thy ===== *)
theory Wire_Codec
  imports Beep_Prelude
begin

text \<open>
  The byte formats shared by the kernel programs and userspace (\<open>common/src/lib.rs\<close>): conntrack
  keys, the IPv4-in-IPv6 embedding, the map value structs, the \<open>FlowValue\<close> union as its 40 raw
  bytes, the forward Geneve option, and the L2 header length of an uplink. The interface is
  a locale \<open>codec\<close> (an encoder, a partial decoder and the inputs it is meant for), interpreted for
  every format; injectivity of the encoders, which is what keeps flows apart in the tables, is
  proved once inside it.
\<close>

section \<open>Constants and flow keys\<close>

definition TCP_FLOW_KEY_LEN :: nat where "TCP_FLOW_KEY_LEN = 37"

definition FLOW_KEY_LEN :: nat where "FLOW_KEY_LEN = TCP_FLOW_KEY_LEN + 1"

type_synonym ip16 = bytes
type_synonym tcp_flow_key = bytes
type_synonym flow_key = bytes

definition ipv4_mapped_v6 :: "u32 \<Rightarrow> ip16" where
  "ipv4_mapped_v6 wire_ip =
     (let v6 = zeroes 16;
          v6 = v6[10 := 0xff];
          v6 = v6[11 := 0xff]
      in patch v6 12 (u32_to_ne wire_ip))"

definition unmap_ipv4 :: "ip16 \<Rightarrow> u32 option" where
  "unmap_ipv4 v6 =
     (if span v6 0 10 = zeroes 10 \<and> span v6 10 12 = [0xff, 0xff]
      then Some (u32_of_ne (span v6 12 16)) else None)"

definition tunnel_remote_addr :: "bool \<Rightarrow> u32 \<Rightarrow> u32 list \<Rightarrow> ip16" where
  "tunnel_remote_addr used_ipv6 remote_ipv4 remote_ipv6 =
     (if used_ipv6
      then fold (\<lambda>(i, word) addr. patch addr (i * 4) (u32_to_ne word))
             (enumerate 0 remote_ipv6) (zeroes 16)
      else ipv4_mapped_v6 remote_ipv4)"

definition encode_tcp_flow_key :: "ip16 \<Rightarrow> u16 \<Rightarrow> ip16 \<Rightarrow> u16 \<Rightarrow> u8 \<Rightarrow> tcp_flow_key" where
  "encode_tcp_flow_key client_ip client_port other_ip other_port proto =
     (let key = zeroes TCP_FLOW_KEY_LEN;
          key = patch key 0 client_ip;
          key = patch key 16 other_ip;
          key = patch key 32 (u16_to_ne client_port);
          key = patch key 34 (u16_to_ne other_port)
      in key[36 := proto])"

definition decode_tcp_flow_key :: "tcp_flow_key \<Rightarrow> ip16 \<times> u16 \<times> ip16 \<times> u16 \<times> u8" where
  "decode_tcp_flow_key key =
     (span key 0 16, u16_of_ne (span key 32 34), span key 16 32, u16_of_ne (span key 34 36), key ! 36)"

datatype flow_direction = Forward | Reverse | PortMemo

text \<open>\<open>direction as u8\<close>: the discriminants of the \<open>#[repr(u8)]\<close> enum.\<close>

fun direction_tag :: "flow_direction \<Rightarrow> u8" where
  "direction_tag Forward = 0"
| "direction_tag Reverse = 1"
| "direction_tag PortMemo = 2"

definition encode_flow_key ::
  "ip16 \<Rightarrow> u16 \<Rightarrow> ip16 \<Rightarrow> u16 \<Rightarrow> u8 \<Rightarrow> flow_direction \<Rightarrow> flow_key" where
  "encode_flow_key client_ip client_port other_ip other_port proto direction =
     (let key = zeroes FLOW_KEY_LEN;
          key = patch key 0 (encode_tcp_flow_key client_ip client_port other_ip other_port proto)
      in key[TCP_FLOW_KEY_LEN := direction_tag direction])"

definition flow_key_direction :: "flow_key \<Rightarrow> flow_direction option" where
  "flow_key_direction key =
     (if key ! TCP_FLOW_KEY_LEN = direction_tag Forward then Some Forward
      else if key ! TCP_FLOW_KEY_LEN = direction_tag Reverse then Some Reverse
      else if key ! TCP_FLOW_KEY_LEN = direction_tag PortMemo then Some PortMemo
      else None)"

section \<open>Uplink framing and wire tokens\<close>

definition ARPHRD_ETHER :: u16 where "ARPHRD_ETHER = 1"

definition L3_ONLY_ARPHRD :: "u16 list" where
  "L3_ONLY_ARPHRD = [512, 519, 768, 769, 776, 778, 823, 0xFFFE]"

definition uplink_l2_header_len :: "u16 \<Rightarrow> u32 option" where
  "uplink_l2_header_len arphrd_type =
     (if arphrd_type = ARPHRD_ETHER then Some 14
      else if arphrd_type \<in> set L3_ONLY_ARPHRD then Some 0
      else None)"

definition wire_ip :: "u32 \<Rightarrow> u32" where "wire_ip ip = u32_swap ip"

definition wire_port :: "u16 \<Rightarrow> u16" where "wire_port port = u16_swap port"

section \<open>Map keys and values\<close>

record lb_front_key =
  lfk_front_ip :: ip16
  lfk_front_port :: u16
  lfk_proto :: u8
  lfk_pad :: u8

record lb_front_backend =
  backend_node_ip :: ip16
  pod_ip :: ip16

record front_meta =
  fm_generation :: u32
  fm_count :: u16
  fm_flags :: u16
  fm_local_count :: u16
  fm_pad :: u16

definition FRONT_FLAG_CLIENT_IP_AFFINITY :: u16 where "FRONT_FLAG_CLIENT_IP_AFFINITY = 1"

record front_endpoint_key_rec =
  fek_front :: lb_front_key
  fek_generation :: u32
  fek_slot :: u16
  fek_pad :: u16

record front_endpoint =
  fe_backend :: lb_front_backend
  fe_target_port :: u16
  fe_flags :: u16
  fe_pad :: bytes

definition ENDPOINT_FLAG_IS_LOCAL :: u16 where "ENDPOINT_FLAG_IS_LOCAL = 1"

record config =
  cfg_geneve_ifindex :: u32
  cfg_udp_parity :: u8
  cfg_tcp_parity :: u8
  cfg_pad :: bytes
  cfg_flow_hash_seed :: u64

record uplink_config =
  l2_hlen :: u32

record forward_flow_value =
  fwd_backend :: lb_front_backend
  fwd_ingress_ifindex :: u32
  fwd_target_port :: u16
  fwd_flags :: u16

record rev_flow_value =
  rev_ingress_node_ip :: ip16
  rev_front_ip :: ip16
  rev_front_port :: u16
  rev_original_client_port :: u16
  rev_pad :: u16
  rev_flags :: u16

record port_memo_value =
  memo_backend_src_port :: u16

section \<open>The \<open>FlowValue\<close> union\<close>

text \<open>A \<open>#[repr(C)]\<close> union of 40 bytes. Each arm is written over the zeroed union at its field
  offsets and read back from the same offsets, so reading an arm other than the one written
  yields whatever those bytes decode to, exactly as in the source.\<close>

type_synonym flow_value = bytes

definition flow_value_zeroed :: flow_value where
  "flow_value_zeroed = zeroes 40"

definition flow_value_flags :: "flow_value \<Rightarrow> u16" where
  "flow_value_flags v = u16_of_ne (span v 38 40)"

definition from_forward :: "forward_flow_value \<Rightarrow> flow_value" where
  "from_forward f =
     (let v = flow_value_zeroed;
          v = patch v 0 (backend_node_ip (fwd_backend f));
          v = patch v 16 (pod_ip (fwd_backend f));
          v = patch v 32 (u32_to_ne (fwd_ingress_ifindex f));
          v = patch v 36 (u16_to_ne (fwd_target_port f))
      in patch v 38 (u16_to_ne (fwd_flags f)))"

definition from_reverse :: "rev_flow_value \<Rightarrow> flow_value" where
  "from_reverse r =
     (let v = flow_value_zeroed;
          v = patch v 0 (rev_ingress_node_ip r);
          v = patch v 16 (rev_front_ip r);
          v = patch v 32 (u16_to_ne (rev_front_port r));
          v = patch v 34 (u16_to_ne (rev_original_client_port r));
          v = patch v 36 (u16_to_ne (rev_pad r))
      in patch v 38 (u16_to_ne (rev_flags r)))"

definition from_port_memo :: "port_memo_value \<Rightarrow> flow_value" where
  "from_port_memo m = patch flow_value_zeroed 0 (u16_to_ne (memo_backend_src_port m))"

definition as_forward :: "flow_value \<Rightarrow> forward_flow_value" where
  "as_forward v =
     \<lparr>fwd_backend = \<lparr>backend_node_ip = span v 0 16, pod_ip = span v 16 32\<rparr>,
      fwd_ingress_ifindex = u32_of_ne (span v 32 36),
      fwd_target_port = u16_of_ne (span v 36 38),
      fwd_flags = u16_of_ne (span v 38 40)\<rparr>"

definition as_reverse :: "flow_value \<Rightarrow> rev_flow_value" where
  "as_reverse v =
     \<lparr>rev_ingress_node_ip = span v 0 16, rev_front_ip = span v 16 32,
      rev_front_port = u16_of_ne (span v 32 34),
      rev_original_client_port = u16_of_ne (span v 34 36),
      rev_pad = u16_of_ne (span v 36 38),
      rev_flags = u16_of_ne (span v 38 40)\<rparr>"

definition as_port_memo :: "flow_value \<Rightarrow> port_memo_value" where
  "as_port_memo v = \<lparr>memo_backend_src_port = u16_of_ne (span v 0 2)\<rparr>"

section \<open>Geneve options\<close>

definition GENEVE_OPT_CLASS :: u16 where "GENEVE_OPT_CLASS = u16_swap 0xffff"

definition GENEVE_OPT_TYPE_POD_ID :: u8 where "GENEVE_OPT_TYPE_POD_ID = 0x01"

definition POD_ID_OPT_LEN :: nat where "POD_ID_OPT_LEN = 24"

definition encode_pod_id_option :: "ip16 \<Rightarrow> u16 \<Rightarrow> bytes" where
  "encode_pod_id_option pod target_port =
     (let opt = zeroes POD_ID_OPT_LEN;
          opt = patch opt 0 (u16_to_ne GENEVE_OPT_CLASS);
          opt = opt[2 := GENEVE_OPT_TYPE_POD_ID];
          opt = opt[3 := (of_nat POD_ID_OPT_LEN - 4) div 4];
          opt = patch opt 4 pod
      in patch opt 20 (u16_to_ne target_port))"

definition decode_pod_id_option :: "bytes \<Rightarrow> (ip16 \<times> u16) option" where
  "decode_pod_id_option opt =
     (if span opt 0 2 \<noteq> u16_to_ne GENEVE_OPT_CLASS
         \<or> opt ! 2 \<noteq> GENEVE_OPT_TYPE_POD_ID
         \<or> opt ! 3 \<noteq> (of_nat POD_ID_OPT_LEN - 4) div 4
      then None
      else Some (span opt 4 20, u16_of_ne [opt ! 20, opt ! 21]))"

definition geneve_overhead :: "bool \<Rightarrow> nat \<Rightarrow> nat" where
  "geneve_overhead outer_ipv6 opt_len =
     (let outer_ip = (if outer_ipv6 then 40 else 20) in 14 + outer_ip + 8 + 8 + opt_len)"

definition FRONT_SLOT_FIRST :: u16 where "FRONT_SLOT_FIRST = 0"

definition front_endpoint_key :: "lb_front_key \<Rightarrow> front_meta \<Rightarrow> front_endpoint_key_rec option" where
  "front_endpoint_key front meta =
     (if fm_count meta = 0 then None
      else Some \<lparr>fek_front = front, fek_generation = fm_generation meta,
                 fek_slot = FRONT_SLOT_FIRST, fek_pad = 0\<rparr>)"

section \<open>The interface of a byte format\<close>

text \<open>What the tables rely on: decoding an encoded value gives it back. \<open>exact_codec\<close> adds that
  every well-formed byte string that decodes is the encoding of its value.\<close>

locale codec =
  fixes enc :: "'a \<Rightarrow> 'b" and dec :: "'b \<Rightarrow> 'a option" and valid :: "'a \<Rightarrow> bool"
  assumes dec_enc: "valid x \<Longrightarrow> dec (enc x) = Some x"
begin

lemma enc_inject: "valid x \<Longrightarrow> valid y \<Longrightarrow> enc x = enc y \<longleftrightarrow> x = y"
  by (metis dec_enc option.inject)

lemma enc_inj_on: "inj_on enc {x. valid x}"
  by (auto simp: inj_on_def enc_inject)

end

locale exact_codec = codec +
  fixes wf :: "'b \<Rightarrow> bool"
  assumes wf_enc: "valid x \<Longrightarrow> wf (enc x)"
    and enc_dec: "wf b \<Longrightarrow> dec b = Some x \<Longrightarrow> valid x \<and> enc x = b"
begin

lemma dec_iff: "wf b \<Longrightarrow> dec b = Some x \<longleftrightarrow> valid x \<and> enc x = b"
  using dec_enc enc_dec by blast

lemma dec_inject: "wf b \<Longrightarrow> wf c \<Longrightarrow> dec b = Some x \<Longrightarrow> dec c = Some x \<Longrightarrow> b = c"
  using enc_dec by metis

end

section \<open>Layouts and round trips\<close>

lemma ipv4_mapped_v6_eq: "ipv4_mapped_v6 w = zeroes 10 @ [0xff, 0xff] @ u32_to_ne w"
proof -
  have "(zeroes 16)[10 := 0xff, 11 := 0xff] = zeroes 10 @ [0xff, 0xff] @ zeroes 4"
    by code_simp
  then show ?thesis by (simp add: ipv4_mapped_v6_def patch_def)
qed

lemma unmap_mapped [simp]: "unmap_ipv4 (ipv4_mapped_v6 w) = Some w"
  by (simp add: unmap_ipv4_def ipv4_mapped_v6_eq wire_simps)

lemma length_ipv4_mapped_v6 [simp]: "length (ipv4_mapped_v6 w) = 16"
  by (simp add: ipv4_mapped_v6_eq)

lemma mapped_unmap:
  assumes "length v6 = 16" "unmap_ipv4 v6 = Some w" shows "ipv4_mapped_v6 w = v6"
proof -
  have "span v6 0 10 @ span v6 10 12 @ span v6 12 16 = v6"
    using assms(1) by (simp add: span_join)
  then show ?thesis using assms
    by (auto simp: ipv4_mapped_v6_eq unmap_ipv4_def split: if_splits)
qed

lemma encode_tcp_flow_key_eq:
  assumes "length c = 16" "length q = 16"
  shows "encode_tcp_flow_key c cp q op pr = c @ q @ u16_to_ne cp @ u16_to_ne op @ [pr]"
  using assms by (simp add: encode_tcp_flow_key_def TCP_FLOW_KEY_LEN_def patch_def Let_def zeroes_def list_update_append)

lemma length_encode_tcp_flow_key:
  "length c = 16 \<Longrightarrow> length q = 16 \<Longrightarrow>
   length (encode_tcp_flow_key c cp q op pr) = TCP_FLOW_KEY_LEN"
  by (simp add: encode_tcp_flow_key_eq TCP_FLOW_KEY_LEN_def)

lemma encode_flow_key_eq:
  assumes "length c = 16" "length q = 16"
  shows "encode_flow_key c cp q op pr d = encode_tcp_flow_key c cp q op pr @ [direction_tag d]"
  using assms
  by (simp add: encode_flow_key_def encode_tcp_flow_key_eq FLOW_KEY_LEN_def TCP_FLOW_KEY_LEN_def
      patch_def Let_def zeroes_def list_update_append)

lemma decode_encode_tcp_flow_key:
  assumes "length c = 16" "length q = 16"
  shows "decode_tcp_flow_key (encode_tcp_flow_key c cp q op pr) = (c, cp, q, op, pr)"
  using assms by (simp add: encode_tcp_flow_key_eq decode_tcp_flow_key_def wire_simps nth_append)

lemma encode_decode_tcp_flow_key:
  assumes "length k = TCP_FLOW_KEY_LEN" "decode_tcp_flow_key k = (c, cp, q, op, pr)"
  shows "length c = 16 \<and> length q = 16 \<and> encode_tcp_flow_key c cp q op pr = k"
proof -
  have "span k 0 16 @ span k 16 32 @ span k 32 34 @ span k 34 36 @ span k 36 37 = k"
    using assms(1) by (simp add: span_join TCP_FLOW_KEY_LEN_def)
  moreover have "span k 36 37 = [k ! 36]"
    using assms(1) span_single [of 36 k] by (simp add: TCP_FLOW_KEY_LEN_def)
  ultimately show ?thesis using assms
    by (auto simp: encode_tcp_flow_key_eq decode_tcp_flow_key_def TCP_FLOW_KEY_LEN_def)
qed

lemma direction_tag_inject [simp]: "direction_tag d = direction_tag e \<longleftrightarrow> d = e"
  by (cases d; cases e) auto

lemma flow_key_direction_encode:
  assumes "length c = 16" "length q = 16"
  shows "flow_key_direction (encode_flow_key c cp q op pr d) = Some d"
  using assms by (cases d)
    (simp_all add: flow_key_direction_def encode_flow_key_eq encode_tcp_flow_key_eq
      TCP_FLOW_KEY_LEN_def nth_append)

lemma from_forward_eq:
  assumes "length (backend_node_ip (fwd_backend f)) = 16" "length (pod_ip (fwd_backend f)) = 16"
  shows "from_forward f = backend_node_ip (fwd_backend f) @ pod_ip (fwd_backend f)
    @ u32_to_ne (fwd_ingress_ifindex f) @ u16_to_ne (fwd_target_port f) @ u16_to_ne (fwd_flags f)"
  using assms by (simp add: from_forward_def flow_value_zeroed_def patch_fills Let_def del: append_assoc)

lemma from_reverse_eq:
  assumes "length (rev_ingress_node_ip r) = 16" "length (rev_front_ip r) = 16"
  shows "from_reverse r = rev_ingress_node_ip r @ rev_front_ip r @ u16_to_ne (rev_front_port r)
    @ u16_to_ne (rev_original_client_port r) @ u16_to_ne (rev_pad r) @ u16_to_ne (rev_flags r)"
  using assms by (simp add: from_reverse_def flow_value_zeroed_def patch_fills Let_def del: append_assoc)

lemma as_from_forward:
  assumes "length (backend_node_ip (fwd_backend f)) = 16" "length (pod_ip (fwd_backend f)) = 16"
  shows "as_forward (from_forward f) = f"
  using assms by (simp add: as_forward_def from_forward_eq wire_simps)

lemma as_from_reverse:
  assumes "length (rev_ingress_node_ip r) = 16" "length (rev_front_ip r) = 16"
  shows "as_reverse (from_reverse r) = r"
  using assms by (simp add: as_reverse_def from_reverse_eq wire_simps)

lemma as_from_port_memo: "as_port_memo (from_port_memo m) = m"
  by (simp add: as_port_memo_def from_port_memo_def wire_simps flow_value_zeroed_def)

lemma flags_from_forward:
  assumes "length (backend_node_ip (fwd_backend f)) = 16" "length (pod_ip (fwd_backend f)) = 16"
  shows "flow_value_flags (from_forward f) = fwd_flags f"
  using assms by (simp add: flow_value_flags_def from_forward_eq wire_simps)

lemma flags_from_reverse:
  assumes "length (rev_ingress_node_ip r) = 16" "length (rev_front_ip r) = 16"
  shows "flow_value_flags (from_reverse r) = rev_flags r"
  using assms by (simp add: flow_value_flags_def from_reverse_eq wire_simps)

lemma encode_pod_id_option_eq:
  assumes "length p = 16"
  shows "encode_pod_id_option p t =
    u16_to_ne GENEVE_OPT_CLASS @ [GENEVE_OPT_TYPE_POD_ID, 5] @ p @ u16_to_ne t @ [0, 0]"
proof -
  have hdr: "(patch (zeroes 24) 0 (u16_to_ne GENEVE_OPT_CLASS))
      [2 := GENEVE_OPT_TYPE_POD_ID, 3 := (of_nat 24 - 4) div 4] =
    u16_to_ne GENEVE_OPT_CLASS @ [GENEVE_OPT_TYPE_POD_ID, 5] @ zeroes 20"
    by code_simp
  have z: "zeroes 20 = zeroes 16 @ zeroes 2 @ [0, 0]"
    by code_simp
  show ?thesis using assms
    unfolding encode_pod_id_option_def POD_ID_OPT_LEN_def Let_def hdr z by (simp add: patch_def)
qed

lemma decode_encode_pod_id_option:
  assumes "length p = 16"
  shows "decode_pod_id_option (encode_pod_id_option p t) = Some (p, t)"
proof -
  have "((of_nat POD_ID_OPT_LEN - 4) div 4 :: u8) = 5" by code_simp
  moreover have "[(u16_to_ne t) ! 0, (u16_to_ne t) ! Suc 0] = u16_to_ne t" by (simp add: u16_to_ne_def)
  ultimately show ?thesis using assms
    by (simp add: decode_pod_id_option_def encode_pod_id_option_eq wire_simps nth_append nth_Cons')
qed

lemma tunnel_remote_addr_v6:
  "tunnel_remote_addr True v4 [a, b, c, d] = u32_to_ne a @ u32_to_ne b @ u32_to_ne c @ u32_to_ne d"
proof -
  have "zeroes 16 = zeroes 4 @ zeroes 4 @ zeroes 4 @ zeroes 4" by code_simp
  then show ?thesis by (simp add: tunnel_remote_addr_def patch_def)
qed

section \<open>Interpretations of the interface\<close>

text \<open>The values the formats are meant for: every address is 16 bytes.\<close>

definition valid_tuple :: "ip16 \<times> u16 \<times> ip16 \<times> u16 \<times> u8 \<Rightarrow> bool" where
  "valid_tuple = (\<lambda>(c, cp, q, op, pr). length c = 16 \<and> length q = 16)"

definition valid_backend :: "lb_front_backend \<Rightarrow> bool" where
  "valid_backend b \<longleftrightarrow> length (backend_node_ip b) = 16 \<and> length (pod_ip b) = 16"

definition valid_forward :: "forward_flow_value \<Rightarrow> bool" where
  "valid_forward f \<longleftrightarrow> valid_backend (fwd_backend f)"

definition valid_reverse :: "rev_flow_value \<Rightarrow> bool" where
  "valid_reverse r \<longleftrightarrow> length (rev_ingress_node_ip r) = 16 \<and> length (rev_front_ip r) = 16"

lemmas valid_defs = valid_tuple_def valid_backend_def valid_forward_def valid_reverse_def

interpretation v4_map: exact_codec ipv4_mapped_v6 unmap_ipv4 "\<lambda>_. True" "\<lambda>v6. length v6 = 16"
  by unfold_locales (auto simp: mapped_unmap)

interpretation tcp_key: exact_codec
  "\<lambda>(c, cp, q, op, pr). encode_tcp_flow_key c cp q op pr" "\<lambda>k. Some (decode_tcp_flow_key k)"
  valid_tuple "\<lambda>k. length k = TCP_FLOW_KEY_LEN"
  by unfold_locales (auto simp: valid_defs decode_encode_tcp_flow_key length_encode_tcp_flow_key
      dest!: encode_decode_tcp_flow_key [rotated])

text \<open>A tagged key is read as its 5-tuple prefix and its direction byte.\<close>

definition decode_flow_key ::
  "flow_key \<Rightarrow> ((ip16 \<times> u16 \<times> ip16 \<times> u16 \<times> u8) \<times> flow_direction) option" where
  "decode_flow_key k =
     map_option (Pair (decode_tcp_flow_key (span k 0 TCP_FLOW_KEY_LEN))) (flow_key_direction k)"

interpretation tagged_key: codec
  "\<lambda>((c, cp, q, op, pr), d). encode_flow_key c cp q op pr d" decode_flow_key "valid_tuple \<circ> fst"
proof unfold_locales
  fix x :: "(ip16 \<times> u16 \<times> ip16 \<times> u16 \<times> u8) \<times> flow_direction"
  assume v: "(valid_tuple \<circ> fst) x"
  obtain c cp q op pr d where x: "x = ((c, cp, q, op, pr), d)" by (metis prod.exhaust)
  with v have l: "length c = 16" "length q = 16" by (auto simp: valid_defs)
  then have "span (encode_flow_key c cp q op pr d) 0 TCP_FLOW_KEY_LEN = encode_tcp_flow_key c cp q op pr"
    by (simp add: encode_flow_key_eq length_encode_tcp_flow_key wire_simps)
  with l show "decode_flow_key ((\<lambda>((c, cp, q, op, pr), d). encode_flow_key c cp q op pr d) x) = Some x"
    by (simp add: x decode_flow_key_def flow_key_direction_encode decode_encode_tcp_flow_key)
qed

interpretation pod_opt: codec
  "\<lambda>(p, t). encode_pod_id_option p t" decode_pod_id_option "\<lambda>(p, t). length p = 16"
  by unfold_locales (auto simp: decode_encode_pod_id_option)

interpretation forward_arm: codec from_forward "\<lambda>v. Some (as_forward v)" valid_forward
  by unfold_locales (simp add: valid_defs as_from_forward)

interpretation reverse_arm: codec from_reverse "\<lambda>v. Some (as_reverse v)" valid_reverse
  by unfold_locales (simp add: valid_defs as_from_reverse)

interpretation memo_arm: codec from_port_memo "\<lambda>v. Some (as_port_memo v)" "\<lambda>_. True"
  by unfold_locales (simp add: as_from_port_memo)

lemma encode_flow_key_inject:
  assumes "length c = 16" "length q = 16" "length c' = 16" "length q' = 16"
  shows "encode_flow_key c cp q op pr d = encode_flow_key c' cp' q' op' pr' d' \<longleftrightarrow>
    (c, cp, q, op, pr, d) = (c', cp', q', op', pr', d')"
  using tagged_key.enc_inject [of "((c, cp, q, op, pr), d)" "((c', cp', q', op', pr'), d')"] assms
  by (auto simp: valid_defs)

lemma length_encode_flow_key [simp]:
  "length c = 16 \<Longrightarrow> length q = 16 \<Longrightarrow> length (encode_flow_key c cp q op pr d) = FLOW_KEY_LEN"
  by (simp add: encode_flow_key_eq encode_tcp_flow_key_eq FLOW_KEY_LEN_def TCP_FLOW_KEY_LEN_def)

section \<open>Properties\<close>

text \<open>Two table keys are equal only if they name the same client, port, peer, port, protocol and
  role: forward, reverse and memo entries of any two flows never alias.\<close>

lemma flow_keys_never_alias:
  assumes "length c = 16" "length q = 16" "length c' = 16" "length q' = 16"
    "(c, cp, q, op, pr, d) \<noteq> (c', cp', q', op', pr', d')"
  shows "encode_flow_key c cp q op pr d \<noteq> encode_flow_key c' cp' q' op' pr' d'
    \<and> length (encode_flow_key c cp q op pr d) = FLOW_KEY_LEN
    \<and> flow_key_direction (encode_flow_key c cp q op pr d) = Some d"
  using assms by (simp add: encode_flow_key_inject flow_key_direction_encode)

text \<open>The three arms of the \<open>FlowValue\<close> union read back what was written, in 40 bytes, and the flag
  word is found at the same place for a forward and a reverse row, so code that does not know
  the arm can still test it.\<close>

lemma flow_value_arms_round_trip:
  assumes "valid_forward f" "valid_reverse r"
  shows "as_forward (from_forward f) = f \<and> as_reverse (from_reverse r) = r
    \<and> as_port_memo (from_port_memo m) = m
    \<and> flow_value_flags (from_forward f) = fwd_flags f \<and> flow_value_flags (from_reverse r) = rev_flags r
    \<and> length (from_forward f) = 40 \<and> length (from_reverse r) = 40 \<and> length (from_port_memo m) = 40"
proof -
  have l: "length (from_forward f) = 40" "length (from_reverse r) = 40" "length (from_port_memo m) = 40"
    using assms by (simp_all add: valid_defs from_forward_eq from_reverse_eq from_port_memo_def flow_value_zeroed_def)
  show ?thesis using assms l
    by (simp add: valid_defs as_from_forward as_from_reverse as_from_port_memo flags_from_forward flags_from_reverse)
qed

text \<open>The IPv4-mapped form is exact: a 16-byte address unmaps to \<open>w\<close> precisely when it is the
  mapping of \<open>w\<close>, so an IPv4 flow and a genuine IPv6 flow never share a key.\<close>

lemma ipv4_embedding_exact:
  assumes "length v6 = 16"
  shows "unmap_ipv4 v6 = Some w \<longleftrightarrow> v6 = ipv4_mapped_v6 w"
  using v4_map.dec_iff [OF assms, of w] by auto

text \<open>The forward option is 24 bytes, states its own length as five words after the header, and
  decodes to the pod address and target port it was built from.\<close>

lemma pod_option_round_trip:
  assumes "length p = 16"
  shows "decode_pod_id_option (encode_pod_id_option p t) = Some (p, t)
    \<and> length (encode_pod_id_option p t) = POD_ID_OPT_LEN \<and> encode_pod_id_option p t ! 3 = 5"
  using assms decode_encode_pod_id_option [OF assms]
  by (simp add: encode_pod_id_option_eq POD_ID_OPT_LEN_def nth_append)

end
