(* ===== verification/Steering.thy ===== *)
theory Steering
  imports Wire_Codec
begin

text \<open>
  The pure decisions of \<open>common/src/lib.rs\<close> that steer a packet: flow admission on the forward
  and return legs, peer and pod membership gates, the seeded flow hash, slot selection, and the
  ingress choice of a backend (\<open>ingress_steer\<close>).
\<close>

section \<open>Admission decisions\<close>

datatype forward_admission_t = FwdEstablished | MintPending

definition forward_admission :: "bool \<Rightarrow> forward_admission_t" where
  [decision_defs]: "forward_admission in_main = (if in_main then FwdEstablished else MintPending)"

datatype fwd_pending_pin = PinInsert forward_flow_value | PinKeep

definition fwd_pending_affinity_pin ::
  "forward_flow_value option \<Rightarrow> forward_flow_value \<Rightarrow> fwd_pending_pin" where
  [decision_defs]: "fwd_pending_affinity_pin existing candidate =
     (case existing of Some _ \<Rightarrow> PinKeep | None \<Rightarrow> PinInsert candidate)"

datatype return_authorization_t = RetEstablished | RetPromote | RetDrop

definition return_authorization :: "bool \<Rightarrow> bool \<Rightarrow> return_authorization_t" where
  [decision_defs]: "return_authorization in_main in_pending =
     (if in_main then RetEstablished else if in_pending then RetPromote else RetDrop)"

datatype egress_return_admission_t = NotBackendTraffic | BackendTraffic

definition egress_return_admission :: "bool \<Rightarrow> egress_return_admission_t" where
  [decision_defs]: "egress_return_admission is_backend_pod =
     (if is_backend_pod then BackendTraffic else NotBackendTraffic)"

datatype egress_return_outcome_t = EgPassThrough | EgForward

definition egress_return_outcome :: "bool \<Rightarrow> egress_return_outcome_t" where
  [decision_defs]: "egress_return_outcome has_rev_flow_entry =
     (if has_rev_flow_entry then EgForward else EgPassThrough)"

definition REDIRECTED_RETURN_MARK :: u32 where "REDIRECTED_RETURN_MARK = 0xbeeb0001"

definition is_redirected_return_mark :: "u32 \<Rightarrow> bool" where
  [decision_defs]: "is_redirected_return_mark mark \<longleftrightarrow> mark = REDIRECTED_RETURN_MARK"

datatype decap_forward_pod_admission_t = DecapDrop | Deliver

definition decap_forward_pod_admission :: "bool \<Rightarrow> decap_forward_pod_admission_t" where
  [decision_defs]: "decap_forward_pod_admission is_local_pod = (if is_local_pod then Deliver else DecapDrop)"

datatype peer_node_admission_t = PeerDrop | PeerContinue

definition peer_node_admission :: "bool \<Rightarrow> peer_node_admission_t" where
  [decision_defs]: "peer_node_admission is_known_peer = (if is_known_peer then PeerContinue else PeerDrop)"

datatype address_rewrite_checksums_t = Ipv4HeaderAndL4Pseudo | L4PseudoOnly

definition address_rewrite_checksums :: "bool \<Rightarrow> address_rewrite_checksums_t" where
  [decision_defs]: "address_rewrite_checksums is_ipv6 =
     (if is_ipv6 then L4PseudoOnly else Ipv4HeaderAndL4Pseudo)"

section \<open>The seeded flow hash\<close>

definition mix32 :: "u32 \<Rightarrow> u32 \<Rightarrow> u32" where
  "mix32 h w = (let h = (h XOR w) * 0x9E3779B1 in h XOR drop_bit 15 h)"

definition le_words :: "ip16 \<Rightarrow> u32 list" where
  "le_words b =
     [u32_of_ne [b ! 0, b ! 1, b ! 2, b ! 3], u32_of_ne [b ! 4, b ! 5, b ! 6, b ! 7],
      u32_of_ne [b ! 8, b ! 9, b ! 10, b ! 11], u32_of_ne [b ! 12, b ! 13, b ! 14, b ! 15]]"

definition flow_hash :: "u64 \<Rightarrow> ip16 \<Rightarrow> u16 \<Rightarrow> lb_front_key \<Rightarrow> u32" where
  "flow_hash seed client_ip client_port front =
     (let c = le_words client_ip;
          f = le_words (lfk_front_ip front);
          h = 0x811C9DC5;
          h = mix32 h (ucast seed);
          h = mix32 h (ucast (drop_bit 32 seed));
          h = mix32 h (c ! 0);
          h = mix32 h (f ! 0);
          h = mix32 h (c ! 1);
          h = mix32 h (f ! 1);
          h = mix32 h (c ! 2);
          h = mix32 h (f ! 2);
          h = mix32 h (c ! 3);
          h = mix32 h (f ! 3);
          h = mix32 h (ucast client_port OR push_bit 16 (ucast (lfk_front_port front)));
          h = mix32 h (ucast (lfk_proto front));
          h = h XOR drop_bit 16 h;
          h = h * 0x85EBCA6B;
          h = h XOR drop_bit 13 h;
          h = h * 0xC2B2AE35
      in h XOR drop_bit 16 h)"

definition front_flow_hash ::
  "u64 \<Rightarrow> ip16 \<Rightarrow> u16 \<Rightarrow> lb_front_key \<Rightarrow> front_meta \<Rightarrow> u32" where
  "front_flow_hash seed client_ip client_port front meta =
     (let port = (if fm_flags meta AND FRONT_FLAG_CLIENT_IP_AFFINITY \<noteq> 0 then 0 else client_port)
      in flow_hash seed client_ip port front)"

section \<open>Slot selection and steering\<close>

definition slot_in_range :: "u32 \<Rightarrow> u32 \<Rightarrow> u32 option" where
  "slot_in_range hash n =
     (if n = 0 then None
      else Some (ucast (drop_bit 32 ((ucast hash :: u64) * (ucast n :: u64)))))"

definition select_backend_slot ::
  "u64 \<Rightarrow> ip16 \<Rightarrow> u16 \<Rightarrow> lb_front_key \<Rightarrow> u32 \<Rightarrow> u32 option" where
  "select_backend_slot seed client_ip client_port front n =
     slot_in_range (flow_hash seed client_ip client_port front) n"

definition select_endpoint_slot :: "u32 \<Rightarrow> u16 \<Rightarrow> u16 \<Rightarrow> u16 option" where
  "select_endpoint_slot hash ready_count local_count =
     (if local_count > ready_count then None
      else let range = (if local_count > 0 then local_count else ready_count)
           in map_option ucast (slot_in_range hash (ucast range)))"

datatype ingress_steer_t = SteerDrop | SteerForward lb_front_backend u16

definition ingress_steer ::
  "front_meta \<Rightarrow> forward_flow_value option \<Rightarrow> forward_flow_value option \<Rightarrow> u32 \<Rightarrow> lb_front_key \<Rightarrow>
   (front_endpoint_key_rec \<Rightarrow> front_endpoint option) \<Rightarrow> ingress_steer_t" where
  "ingress_steer meta established pending hash front endpoint_at =
     (case (case established of Some v \<Rightarrow> Some v | None \<Rightarrow> pending) of
        Some pin \<Rightarrow> SteerForward (fwd_backend pin) (fwd_target_port pin)
      | None \<Rightarrow>
          if fm_count meta = 0 then SteerDrop
          else (case select_endpoint_slot hash (fm_count meta) (fm_local_count meta) of
             None \<Rightarrow> SteerDrop
           | Some slot \<Rightarrow>
               let key = \<lparr>fek_front = front, fek_generation = fm_generation meta,
                          fek_slot = slot, fek_pad = 0\<rparr>
               in (case endpoint_at key of
                     Some endpoint \<Rightarrow>
                       if fm_local_count meta = 0 \<or> fe_flags endpoint AND ENDPOINT_FLAG_IS_LOCAL \<noteq> 0
                       then SteerForward (fe_backend endpoint) (fe_target_port endpoint)
                       else SteerDrop
                   | None \<Rightarrow> SteerDrop)))"

section \<open>Lemmas\<close>

lemma mult_shift_less:
  fixes h n :: u32
  assumes "n \<noteq> 0"
  shows "unat (drop_bit 32 ((ucast h :: u64) * ucast n)) = (unat h * unat n) div 2 ^ 32"
    and "(unat h * unat n) div 2 ^ 32 < unat n"
proof -
  have h: "unat h < 2 ^ 32" and n: "unat n < 2 ^ 32"
    using unsigned_less [of h] unsigned_less [of n] by simp_all
  have "unat h * unat n \<le> (2 ^ 32 - 1) * (2 ^ 32 - 1)"
    using h n by (intro mult_le_mono) simp_all
  then have p: "unat h * unat n < 2 ^ 64" by simp
  then have "unat ((ucast h :: u64) * ucast n) = unat h * unat n"
    using h n by (simp add: unat_word_ariths unsigned_ucast_eq take_bit_nat_eq_self)
  then show "unat (drop_bit 32 ((ucast h :: u64) * ucast n)) = (unat h * unat n) div 2 ^ 32"
    unfolding unat_drop_bit_eq by (simp add: drop_bit_eq_div)
  have "0 < unat n" using assms by (simp add: unat_gt_0)
  then have "unat h * unat n < 2 ^ 32 * unat n" using h by simp
  then show "(unat h * unat n) div 2 ^ 32 < unat n"
    by (simp add: div_less_iff_less_mult mult.commute)
qed

lemma slot_in_range_eq:
  assumes "n \<noteq> 0"
  shows "slot_in_range h n = Some (of_nat (unat h * unat n div 2 ^ 32))"
proof -
  let ?p = "drop_bit 32 ((ucast h :: u64) * ucast n)"
  have "(ucast ?p :: u32) = of_nat (unat ?p)" by (simp only: of_nat_unat)
  then show ?thesis using assms by (simp add: slot_in_range_def mult_shift_less)
qed

lemma unat_slot: "unat (of_nat (unat (h :: u32) * unat (n :: u32) div 2 ^ 32) :: u32) = unat h * unat n div 2 ^ 32"
proof (cases "n = 0")
  case False
  then have "unat h * unat n div 2 ^ 32 < unat n" by (rule mult_shift_less)
  also have "unat n < 2 ^ 32" using unsigned_less [of n] by simp
  finally show ?thesis by (simp add: unat_of_nat)
qed simp

lemma slot_in_range_iff:
  assumes "n \<noteq> 0"
  shows "slot_in_range h n = Some s \<longleftrightarrow>
    unat s * 2 ^ 32 \<le> unat h * unat n \<and> unat h * unat n < (unat s + 1) * 2 ^ 32"
proof -
  have "slot_in_range h n = Some s \<longleftrightarrow> unat h * unat n div 2 ^ 32 = unat s"
    unfolding slot_in_range_eq [OF assms] by (metis of_nat_unat option.inject ucast_id unat_slot)
  also have "\<dots> \<longleftrightarrow> unat s * 2 ^ 32 \<le> unat h * unat n \<and> unat h * unat n < (unat s + 1) * 2 ^ 32"
    by (auto simp: div_nat_eqI dividend_less_times_div)
  finally show ?thesis .
qed

lemma slot_in_range_less: "slot_in_range h n = Some s \<Longrightarrow> s < n"
  using slot_in_range_eq [of n h] mult_shift_less(2) [of n h] unat_slot [of h n]
  by (cases "n = 0") (auto simp: slot_in_range_def word_less_nat_alt)

lemma slot_in_range_total: "n \<noteq> 0 \<Longrightarrow> \<exists>s. slot_in_range h n = Some s"
  by (simp add: slot_in_range_def)

lemma unat_ucast_u16 [simp]: "unat (ucast (a :: u16) :: u32) = unat a"
proof -
  have "unat a < 2 ^ 16" using unsigned_less [of a] by simp
  then show ?thesis by (simp add: unsigned_ucast_eq take_bit_nat_eq_self)
qed

lemma ucast_u16_0 [simp]: "(ucast (a :: u16) :: u32) = 0 \<longleftrightarrow> a = 0"
  by (metis unat_ucast_u16 unat_eq_zero)

lemma select_endpoint_slot_None_iff:
  "select_endpoint_slot h ready local = None \<longleftrightarrow> ready < local \<or> ready = 0"
  by (auto simp: select_endpoint_slot_def slot_in_range_def Let_def word_gt_0)

lemma select_endpoint_slot_less:
  assumes "select_endpoint_slot h ready local = Some s"
  shows "local \<le> ready \<and> s < (if local > 0 then local else ready)"
proof -
  let ?r = "if local > 0 then local else ready"
  from assms obtain t where le: "local \<le> ready" and t: "slot_in_range h (ucast ?r) = Some t"
    and s: "s = ucast t"
    by (auto simp: select_endpoint_slot_def Let_def not_less split: if_splits)
  have "unat t < unat ?r"
    using slot_in_range_less [OF t] by (simp add: word_less_nat_alt)
  moreover have "unat (ucast t :: u16) \<le> unat t"
    by (simp add: unsigned_ucast_eq take_bit_nat_less_eq_self)
  ultimately show ?thesis using le s by (simp add: word_less_nat_alt)
qed

text \<open>How many hashes reach a slot: the multiply-shift reduction gives every slot of \<open>[0, n)\<close>
  either the floor or the ceiling of its fair share.\<close>

lemma card_multiples_between:
  fixes M n s :: nat
  assumes "0 < n"
  shows "{h. s * M \<le> h * n \<and> h * n < (s + 1) * M} = {(s * M + n - 1) div n ..< ((s + 1) * M + n - 1) div n}"
proof -
  have ge: "a \<le> h * n \<longleftrightarrow> (a + n - 1) div n \<le> h" for a h :: nat
  proof -
    have "(a + n - 1) div n \<le> h \<longleftrightarrow> a + n - 1 < (h + 1) * n"
      using assms by (metis add.commute div_less_iff_less_mult less_Suc_eq_le plus_1_eq_Suc)
    also have "\<dots> \<longleftrightarrow> a \<le> h * n" using assms by auto
    finally show ?thesis by simp
  qed
  then show ?thesis by (auto simp: not_le [symmetric])
qed

lemma ceil_gap:
  fixes M N S :: nat
  assumes "0 < N"
  shows "((S + 1) * M + N - 1) div N - (S * M + N - 1) div N \<in> {M div N, M div N + 1}"
proof -
  define a where "a = S * M + N - 1"
  have e: "(S + 1) * M + N - 1 = a + M" using assms by (simp add: a_def algebra_simps)
  have "(a mod N + M mod N) div N < 2"
    using assms by (simp add: div_less_iff_less_mult add_strict_mono mult_2)
  then show ?thesis
    unfolding e a_def [symmetric] div_add1_eq [of a M N] by auto
qed

lemma slot_share_set:
  fixes n s :: u32
  assumes "s < n"
  shows "unat ` {h. slot_in_range h n = Some s} =
    {h. unat s * 2 ^ 32 \<le> h * unat n \<and> h * unat n < (unat s + 1) * 2 ^ 32}" (is "?L = ?R")
proof (rule set_eqI)
  fix h :: nat
  have n0: "n \<noteq> 0" using assms by auto
  have "(unat s + 1) * 2 ^ 32 \<le> unat n * 2 ^ 32"
    using assms by (intro mult_le_mono1) (simp add: word_less_nat_alt)
  then have "h * unat n < (unat s + 1) * 2 ^ 32 \<Longrightarrow> h * unat n < 2 ^ 32 * unat n"
    by (simp only: mult.commute [of "2 ^ 32" "unat n"] less_le_trans)
  then have "h \<in> ?R \<Longrightarrow> h < 2 ^ 32" by simp
  then have "h \<in> ?R \<Longrightarrow> unat (of_nat h :: u32) = h" by (simp add: unat_of_nat)
  then show "h \<in> ?L \<longleftrightarrow> h \<in> ?R"
    unfolding image_iff mem_Collect_eq slot_in_range_iff [OF n0] bex_simps by metis
qed

lemma slot_share:
  fixes n s :: u32
  assumes "s < n"
  shows "card {h. slot_in_range h n = Some s} \<in> {2 ^ 32 div unat n, 2 ^ 32 div unat n + 1}"
proof -
  have pos: "0 < unat n" using assms by (auto simp: word_less_nat_alt)
  have "card {h. slot_in_range h n = Some s} = card (unat ` {h. slot_in_range h n = Some s})"
    by (rule card_image [symmetric]) (simp add: inj_on_def unsigned_word_eqI)
  also have "\<dots> = ((unat s + 1) * 2 ^ 32 + unat n - 1) div unat n - (unat s * 2 ^ 32 + unat n - 1) div unat n"
    unfolding slot_share_set [OF assms] card_multiples_between [OF pos] by (rule card_atLeastLessThan)
  also have "\<dots> \<in> {2 ^ 32 div unat n, 2 ^ 32 div unat n + 1}"
    by (rule ceil_gap [OF pos])
  finally show ?thesis .
qed

lemma ingress_steer_unpinned:
  assumes "ingress_steer meta None None hash front endpoint_at = SteerForward b t"
  obtains slot ep where
    "select_endpoint_slot hash (fm_count meta) (fm_local_count meta) = Some slot"
    "endpoint_at \<lparr>fek_front = front, fek_generation = fm_generation meta, fek_slot = slot, fek_pad = 0\<rparr> = Some ep"
    "fm_local_count meta = 0 \<or> fe_flags ep AND ENDPOINT_FLAG_IS_LOCAL \<noteq> 0"
    "b = fe_backend ep" "t = fe_target_port ep" "fm_count meta \<noteq> 0"
  using assms by (auto simp: ingress_steer_def Let_def split: if_splits option.splits)

lemma ingress_steer_pinned:
  "ingress_steer meta (Some pin) pending hash front endpoint_at = SteerForward (fwd_backend pin) (fwd_target_port pin)"
  "ingress_steer meta None (Some pin) hash front endpoint_at = SteerForward (fwd_backend pin) (fwd_target_port pin)"
  by (simp_all add: ingress_steer_def)

section \<open>Properties\<close>

text \<open>Hash spreading is fair: of the \<open>2 ^ 32\<close> hashes, each of the \<open>n\<close> slots gets the floor or the
  ceiling of \<open>2 ^ 32 / n\<close>.\<close>

lemma slots_get_equal_shares:
  assumes "s < n"
  shows "card {h. slot_in_range h n = Some s} \<in> {2 ^ 32 div unat n, 2 ^ 32 div unat n + 1}"
  by (rule slot_share [OF assms])

text \<open>A slot is chosen exactly when the front has ready endpoints and its local count is sane, and
  the slot then lies in the local prefix if there is one and below the ready count otherwise.\<close>

lemma endpoint_slot_in_bounds:
  "(select_endpoint_slot h ready local = None \<longleftrightarrow> ready < local \<or> ready = 0)
   \<and> (case select_endpoint_slot h ready local of
        Some s \<Rightarrow> s < (if local > 0 then local else ready) \<and> s < ready
      | None \<Rightarrow> True)"
  using select_endpoint_slot_None_iff [of h ready local] select_endpoint_slot_less [of h ready local]
  by (auto split: option.split if_splits)

end
