(* ===== verification/Port_Remap.thy ===== *)
theory Port_Remap
  imports Steering
begin

text \<open>
  The backend source-port remap (\<open>common/src/lib.rs\<close>, ``Decision 3''): which reverse key a flow
  gets when two fronts share a backend pod and a client reuses its port. The probe loop of
  \<open>resolve_backend_src_port\<close> is compared with a reference definition, the first free candidate in
  the sixteen-port window.
\<close>

type_synonym front_addr = "ip16 \<times> u16"
type_synonym occupant = "front_addr \<times> u16"

datatype backend_port_decision = NoRemap | Remap u16 | Exhausted

definition PROBE_LIMIT :: u16 where "PROBE_LIMIT = 16"

definition REMAP_PORT_BASE :: u16 where "REMAP_PORT_BASE = 49152"

definition REMAP_PORT_RANGE :: u16 where "REMAP_PORT_RANGE = 0xFFFF - REMAP_PORT_BASE + 1"

definition occupant_conflicts :: "occupant option \<Rightarrow> front_addr \<Rightarrow> u16 \<Rightarrow> bool" where
  "occupant_conflicts occ resolving_front resolving_client_port =
     (case occ of Some identity \<Rightarrow> identity \<noteq> (resolving_front, resolving_client_port)
                | None \<Rightarrow> False)"

definition FLOW_FLAG_CLOSED :: u16 where "FLOW_FLAG_CLOSED = 16"

definition reverse_occupant :: "rev_flow_value \<Rightarrow> occupant option" where
  "reverse_occupant row =
     (if rev_flags row AND FLOW_FLAG_CLOSED \<noteq> 0 then None
      else Some ((rev_front_ip row, rev_front_port row), rev_original_client_port row))"

definition synthetic_port_seed :: "ip16 \<Rightarrow> u16 \<Rightarrow> u16" where
  "synthetic_port_seed front_ip front_port =
     (let folded = u32_of_ne (span front_ip 0 4) XOR u32_of_ne (span front_ip 4 8)
                   XOR u32_of_ne (span front_ip 8 12) XOR u32_of_ne (span front_ip 12 16);
          mixed = folded XOR word_rotr 16 folded XOR ucast front_port XOR push_bit 3 (ucast front_port)
      in ucast mixed mod REMAP_PORT_RANGE)"

text \<open>The candidate of probe \<open>i\<close> and the \<open>while i < PROBE_LIMIT\<close> loop from probe \<open>i\<close> on.
  \<open>taken\<close> is the caller's occupancy closure.\<close>

definition probe_candidate :: "u16 \<Rightarrow> u16 \<Rightarrow> u16" where
  "probe_candidate seed i = (let offset = (seed + i) mod REMAP_PORT_RANGE in REMAP_PORT_BASE + offset)"

function probe_from :: "u16 \<Rightarrow> u16 \<Rightarrow> (u16 \<Rightarrow> bool) \<Rightarrow> u16 \<Rightarrow> backend_port_decision" where
  "probe_from seed original_port taken i =
     (if i < PROBE_LIMIT then
        let candidate = probe_candidate seed i in
        if candidate \<noteq> original_port \<and> \<not> taken candidate then Remap candidate
        else probe_from seed original_port taken (i + 1)
      else Exhausted)"
  by pat_completeness auto
termination
proof (relation "measure (\<lambda>(seed, op, taken, i). 16 - unat i)", goal_cases)
  case (2 seed op taken i x)
  then have "unat i < 16" by (simp add: PROBE_LIMIT_def word_less_nat_alt)
  then have "unat (i + 1) = unat i + 1" by (simp add: unat_word_ariths)
  with \<open>unat i < 16\<close> show ?case by simp
qed simp

declare probe_from.simps [simp del]

definition resolve_backend_src_port ::
  "occupant option \<Rightarrow> front_addr \<Rightarrow> u16 \<Rightarrow> (u16 \<Rightarrow> bool) \<Rightarrow> backend_port_decision" where
  "resolve_backend_src_port existing_occupant new_front original_port is_reverse_key_taken =
     (if \<not> occupant_conflicts existing_occupant new_front original_port then NoRemap
      else probe_from (synthetic_port_seed (fst new_front) (snd new_front)) original_port
             is_reverse_key_taken 0)"

datatype backend_port_resolution_t = Memoized u16 | Probe

definition backend_port_resolution :: "u16 option \<Rightarrow> backend_port_resolution_t" where
  [decision_defs]: "backend_port_resolution memoized_port =
     (case memoized_port of Some port \<Rightarrow> Memoized port | None \<Rightarrow> Probe)"

section \<open>The reference definition\<close>

definition probe_window :: "u16 \<Rightarrow> u16 list" where
  "probe_window seed = map (\<lambda>i. probe_candidate seed (of_nat i)) [0..<16]"

definition first_free :: "u16 list \<Rightarrow> u16 \<Rightarrow> (u16 \<Rightarrow> bool) \<Rightarrow> backend_port_decision" where
  "first_free cands original_port taken =
     (case find (\<lambda>c. c \<noteq> original_port \<and> \<not> taken c) cands of
        Some c \<Rightarrow> Remap c | None \<Rightarrow> Exhausted)"

section \<open>Lemmas\<close>

lemma probe_from_find:
  assumes "k \<le> 16"
  shows "probe_from seed op taken (of_nat k) =
    first_free (map (\<lambda>i. probe_candidate seed (of_nat i)) [k..<16]) op taken"
  using assms
proof (induction "16 - k" arbitrary: k)
  case 0
  then show ?case by (simp add: probe_from.simps PROBE_LIMIT_def first_free_def)
next
  case (Suc d)
  then have k: "k < 16" by simp
  then have lt: "(of_nat k :: u16) < PROBE_LIMIT"
    by (simp add: PROBE_LIMIT_def word_less_nat_alt unat_of_nat)
  have IH: "probe_from seed op taken (of_nat (Suc k)) =
      first_free (map (\<lambda>i. probe_candidate seed (of_nat i)) [Suc k..<16]) op taken"
    using Suc by (intro Suc.hyps) auto
  show ?case
    by (subst probe_from.simps) (use lt k IH in \<open>simp add: upt_conv_Cons first_free_def Let_def add.commute\<close>)
qed

lemma resolve_backend_src_port_eq:
  "resolve_backend_src_port occ front op taken =
    (if occupant_conflicts occ front op
     then first_free (probe_window (synthetic_port_seed (fst front) (snd front))) op taken
     else NoRemap)"
  using probe_from_find [of 0 "synthetic_port_seed (fst front) (snd front)" op taken]
  by (simp add: resolve_backend_src_port_def probe_window_def)

lemma REMAP_PORT_RANGE_eq: "REMAP_PORT_RANGE = 16384"
  by (simp add: REMAP_PORT_RANGE_def REMAP_PORT_BASE_def)

lemma unat_probe_candidate:
  "unat (probe_candidate seed i) = 49152 + unat (seed + i) mod 16384"
proof -
  have m: "unat ((seed + i) mod 16384) = unat (seed + i) mod 16384"
    by (simp add: unat_mod_distrib)
  moreover have "unat (seed + i) mod 16384 < 16384" by simp
  ultimately show ?thesis
    by (simp add: probe_candidate_def REMAP_PORT_RANGE_eq REMAP_PORT_BASE_def unat_word_ariths)
qed

lemma probe_candidate_range: "REMAP_PORT_BASE \<le> probe_candidate seed i"
  by (simp add: word_le_nat_alt unat_probe_candidate REMAP_PORT_BASE_def)

lemma synthetic_port_seed_less: "unat (synthetic_port_seed ip p) < 16384"
  by (simp add: synthetic_port_seed_def REMAP_PORT_RANGE_eq unat_mod_distrib Let_def)

lemma probe_window_distinct:
  assumes "unat seed < 16384" shows "distinct (probe_window seed)"
proof -
  have "inj_on (\<lambda>i. probe_candidate seed (of_nat i)) {0..<16}"
  proof (rule inj_onI)
    fix i j :: nat
    assume ij: "i \<in> {0..<16}" "j \<in> {0..<16}"
      and eq: "probe_candidate seed (of_nat i) = probe_candidate seed (of_nat j)"
    have u: "unat (seed + of_nat m) = unat seed + m" if "m < 16" for m
      using that assms by (simp add: unat_word_ariths unat_of_nat)
    from eq have "(unat seed + i) mod 16384 = (unat seed + j) mod 16384"
      using ij u [of i] u [of j] unat_probe_candidate [of seed "of_nat i"]
        unat_probe_candidate [of seed "of_nat j"] by simp
    then show "i = j" using ij assms by (simp add: mod_if split: if_splits)
  qed
  then show ?thesis by (simp add: probe_window_def distinct_map)
qed

lemma first_free_Remap:
  "first_free cands op taken = Remap p \<Longrightarrow> p \<in> set cands \<and> p \<noteq> op \<and> \<not> taken p"
  by (auto simp: first_free_def find_Some_iff split: option.splits)

lemma first_free_Exhausted_iff:
  "first_free cands op taken = Exhausted \<longleftrightarrow> (\<forall>c \<in> set cands. c = op \<or> taken c)"
  by (auto simp: first_free_def find_None_iff find_Some_iff split: option.splits)

lemma first_free_not_NoRemap [simp]: "first_free cands op taken \<noteq> NoRemap"
  by (auto simp: first_free_def split: option.splits)

section \<open>Properties\<close>

text \<open>C23. The unrolled probe is the plain search it stands for: without a conflict the port is kept;
  otherwise the answer is the first port of a window of sixteen distinct ports in the remap
  range that differs from the original port and is not taken, and it gives up only when there
  is none.\<close>

theorem resolve_is_first_free:
  "resolve_backend_src_port occ front op taken =
     (if \<not> occupant_conflicts occ front op then NoRemap
      else case find (\<lambda>c. c \<noteq> op \<and> \<not> taken c) (probe_window (synthetic_port_seed (fst front) (snd front))) of
             Some c \<Rightarrow> Remap c | None \<Rightarrow> Exhausted)
   \<and> distinct (probe_window (synthetic_port_seed (fst front) (snd front)))
   \<and> length (probe_window (synthetic_port_seed (fst front) (snd front))) = 16
   \<and> list_all (\<lambda>c. REMAP_PORT_BASE \<le> c) (probe_window (synthetic_port_seed (fst front) (snd front)))"
proof -
  have "distinct (probe_window (synthetic_port_seed (fst front) (snd front)))"
    by (rule probe_window_distinct [OF synthetic_port_seed_less])
  then show ?thesis
    by (simp add: resolve_backend_src_port_eq first_free_def probe_window_def probe_candidate_range list_all_iff)
qed

text \<open>A remap port is a raw wire token: on the little-endian targets the program is built for, the
  first candidate of the range is port 192 on the wire, not a port of the dynamic range the
  comment on \<open>REMAP_PORT_BASE\<close> names.\<close>

lemma remap_base_on_the_wire:
  "REMAP_PORT_BASE = wire_port 192 \<and> probe_candidate 0 0 = wire_port 192"
  by code_simp

end
