(* ===== verification/Flow_State.thy ===== *)
theory Flow_State
  imports Port_Remap
begin

text \<open>
  The flag word of a conntrack row (\<open>common/src/lib.rs\<close>): TCP teardown marks, the idle-GC parity
  bit, which sweep owns a row, and the per-packet step that refreshes them.
\<close>

definition IPPROTO_TCP :: u8 where "IPPROTO_TCP = 6"
definition IPPROTO_UDP :: u8 where "IPPROTO_UDP = 17"
definition TCP_FLAG_FIN :: u8 where "TCP_FLAG_FIN = 0x01"
definition TCP_FLAG_SYN :: u8 where "TCP_FLAG_SYN = 0x02"
definition TCP_FLAG_RST :: u8 where "TCP_FLAG_RST = 0x04"

definition FLOW_FLAG_FIN_CLIENT :: u16 where "FLOW_FLAG_FIN_CLIENT = 1"
definition FLOW_FLAG_FIN_POD :: u16 where "FLOW_FLAG_FIN_POD = 2"
definition FLOW_FLAG_UDP_PARITY :: u16 where "FLOW_FLAG_UDP_PARITY = 4"
definition FLOW_FLAG_TCP_PARITY :: u16 where "FLOW_FLAG_TCP_PARITY = 8"

lemmas proto_defs = IPPROTO_TCP_def IPPROTO_UDP_def
lemmas tcp_flag_defs = TCP_FLAG_FIN_def TCP_FLAG_SYN_def TCP_FLAG_RST_def
lemmas flow_flag_defs = FLOW_FLAG_FIN_CLIENT_def FLOW_FLAG_FIN_POD_def FLOW_FLAG_UDP_PARITY_def
  FLOW_FLAG_TCP_PARITY_def FLOW_FLAG_CLOSED_def

datatype flow_side = Client | Pod

record gc_parity =
  gp_udp :: bool
  gp_tcp :: bool

definition sweep_class :: "u16 \<Rightarrow> u8 \<Rightarrow> u8" where
  "sweep_class flags proto =
     (if proto = IPPROTO_TCP \<and> flags AND FLOW_FLAG_CLOSED \<noteq> 0 then IPPROTO_UDP else proto)"

definition parity_bit :: "u8 \<Rightarrow> u16 \<Rightarrow> gc_parity \<Rightarrow> (u16 \<times> bool) option" where
  "parity_bit proto flags parity =
     (let c = sweep_class flags proto in
      if c = IPPROTO_UDP then Some (FLOW_FLAG_UDP_PARITY, gp_udp parity)
      else if c = IPPROTO_TCP then Some (FLOW_FLAG_TCP_PARITY, gp_tcp parity)
      else None)"

definition parity_sweep_deletes :: "u16 \<Rightarrow> u8 \<Rightarrow> gc_parity \<Rightarrow> bool" where
  "parity_sweep_deletes flags proto parity =
     (case parity_bit proto flags parity of
        Some (b, global) \<Rightarrow> (flags AND b \<noteq> 0) \<noteq> global
      | None \<Rightarrow> False)"

datatype flow_step_t = StepKeep | StepWrite u16 | StepSkip

text \<open>The TCP part of the step: \<open>None\<close> is the early \<open>return FlowStep::Skip\<close>.\<close>

definition tcp_step_flags :: "bool \<Rightarrow> u16 \<Rightarrow> u8 \<Rightarrow> flow_side \<Rightarrow> u16 option" where
  "tcp_step_flags exists existing_flags tcp_flags side =
     (let flags = existing_flags;
          flags = (if tcp_flags AND TCP_FLAG_SYN \<noteq> 0
                   then flags AND NOT (FLOW_FLAG_FIN_CLIENT OR FLOW_FLAG_FIN_POD OR FLOW_FLAG_CLOSED)
                   else flags)
      in if tcp_flags AND TCP_FLAG_RST \<noteq> 0 \<and> \<not> exists then None
         else
           let flags = (if tcp_flags AND TCP_FLAG_RST \<noteq> 0 then flags OR FLOW_FLAG_CLOSED else flags);
               flags = (if tcp_flags AND TCP_FLAG_FIN \<noteq> 0
                        then flags OR (case side of Client \<Rightarrow> FLOW_FLAG_FIN_CLIENT | Pod \<Rightarrow> FLOW_FLAG_FIN_POD)
                        else flags);
               both = FLOW_FLAG_FIN_CLIENT OR FLOW_FLAG_FIN_POD
           in Some (if flags AND both = both then flags OR FLOW_FLAG_CLOSED else flags))"

definition apply_parity :: "u8 \<Rightarrow> u16 \<Rightarrow> gc_parity \<Rightarrow> u16" where
  "apply_parity proto flags parity =
     (case parity_bit proto flags parity of
        Some (b, global) \<Rightarrow> if global then flags OR b else flags AND NOT b
      | None \<Rightarrow> flags)"

definition flow_step_flags ::
  "bool \<Rightarrow> u16 \<Rightarrow> u8 \<Rightarrow> u8 \<Rightarrow> flow_side \<Rightarrow> gc_parity \<Rightarrow> flow_step_t" where
  "flow_step_flags exists existing_flags proto tcp_flags side parity =
     (case (if proto = IPPROTO_TCP then tcp_step_flags exists existing_flags tcp_flags side
            else Some existing_flags) of
        None \<Rightarrow> StepSkip
      | Some flags \<Rightarrow>
          let flags = apply_parity proto flags parity in
          if exists \<and> existing_flags = flags then StepKeep else StepWrite flags)"

definition flow_step ::
  "u16 option \<Rightarrow> u8 \<Rightarrow> u8 \<Rightarrow> flow_side \<Rightarrow> gc_parity \<Rightarrow> flow_step_t" where
  "flow_step existing proto tcp_flags side parity =
     flow_step_flags (existing \<noteq> None) (case existing of Some f \<Rightarrow> f | None \<Rightarrow> 0)
       proto tcp_flags side parity"

definition port_memo_wanted :: "u16 \<Rightarrow> u16 option \<Rightarrow> bool" where
  "port_memo_wanted memo_client_port reverse_original_port \<longleftrightarrow>
     reverse_original_port = Some memo_client_port"

section \<open>Flag words as bits\<close>

text \<open>Testing, setting and clearing a single flag, stated on bits so that the proofs below are
  case analyses over five booleans.\<close>

lemma flag_zero:
  "f AND FLOW_FLAG_FIN_CLIENT = 0 \<longleftrightarrow> \<not> bit f 0"
  "f AND FLOW_FLAG_FIN_POD = 0 \<longleftrightarrow> \<not> bit f 1"
  "f AND FLOW_FLAG_UDP_PARITY = 0 \<longleftrightarrow> \<not> bit f 2"
  "f AND FLOW_FLAG_TCP_PARITY = 0 \<longleftrightarrow> \<not> bit f 3"
  "f AND FLOW_FLAG_CLOSED = 0 \<longleftrightarrow> \<not> bit f 4"
proof -
  have *: "f AND 2 ^ n = 0 \<longleftrightarrow> \<not> bit f n" if "n < 16" for f :: u16 and n
    using that and_exp_eq_0_iff_not_bit [of f n] by simp
  show "f AND FLOW_FLAG_FIN_CLIENT = 0 \<longleftrightarrow> \<not> bit f 0" "f AND FLOW_FLAG_FIN_POD = 0 \<longleftrightarrow> \<not> bit f 1"
    "f AND FLOW_FLAG_UDP_PARITY = 0 \<longleftrightarrow> \<not> bit f 2" "f AND FLOW_FLAG_TCP_PARITY = 0 \<longleftrightarrow> \<not> bit f 3"
    "f AND FLOW_FLAG_CLOSED = 0 \<longleftrightarrow> \<not> bit f 4"
    using * [of 0 f] * [of 1 f] * [of 2 f] * [of 3 f] * [of 4 f] by (simp_all add: flow_flag_defs)
qed

lemma flag_const_bits:
  "bit FLOW_FLAG_FIN_CLIENT n \<longleftrightarrow> n = 0" "bit FLOW_FLAG_FIN_POD n \<longleftrightarrow> n = 1"
  "bit FLOW_FLAG_UDP_PARITY n \<longleftrightarrow> n = 2" "bit FLOW_FLAG_TCP_PARITY n \<longleftrightarrow> n = 3"
  "bit FLOW_FLAG_CLOSED n \<longleftrightarrow> n = 4"
proof -
  have *: "bit (2 ^ m :: u16) n \<longleftrightarrow> n = m" if "m < 16" for m
    using that by (auto simp: bit_simps)
  show "bit FLOW_FLAG_FIN_CLIENT n \<longleftrightarrow> n = 0" "bit FLOW_FLAG_FIN_POD n \<longleftrightarrow> n = 1"
    "bit FLOW_FLAG_UDP_PARITY n \<longleftrightarrow> n = 2" "bit FLOW_FLAG_TCP_PARITY n \<longleftrightarrow> n = 3"
    "bit FLOW_FLAG_CLOSED n \<longleftrightarrow> n = 4"
    using * [of 0] * [of 1] * [of 2] * [of 3] * [of 4] by (simp_all add: flow_flag_defs)
qed

lemma bit_u16_less: "bit (f :: u16) n \<Longrightarrow> n < 16"
  using bit_imp_le_length [of f n] by simp

lemma bit_and_not_u16: "bit (f AND NOT g :: u16) n \<longleftrightarrow> bit f n \<and> \<not> bit g n"
  by (auto simp: bit_simps dest: bit_u16_less)

lemma bit_marks_cleared:
  "bit (f AND (NOT FLOW_FLAG_FIN_CLIENT AND NOT FLOW_FLAG_FIN_POD AND NOT FLOW_FLAG_CLOSED)) n \<longleftrightarrow>
   bit f n \<and> n \<noteq> 0 \<and> n \<noteq> 1 \<and> n \<noteq> 4"
  by (auto simp: bit_simps flag_const_bits dest: bit_u16_less)

lemmas flag_word_bits = bit_marks_cleared bit_and_not_u16 bit_or_iff flag_const_bits

section \<open>The step on bits\<close>

definition has_syn :: "u8 \<Rightarrow> bool" where "has_syn tf \<longleftrightarrow> tf AND TCP_FLAG_SYN \<noteq> 0"
definition has_rst :: "u8 \<Rightarrow> bool" where "has_rst tf \<longleftrightarrow> tf AND TCP_FLAG_RST \<noteq> 0"
definition has_fin :: "u8 \<Rightarrow> bool" where "has_fin tf \<longleftrightarrow> tf AND TCP_FLAG_FIN \<noteq> 0"

lemma both_fins:
  "g AND (FLOW_FLAG_FIN_CLIENT OR FLOW_FLAG_FIN_POD) = FLOW_FLAG_FIN_CLIENT OR FLOW_FLAG_FIN_POD \<longleftrightarrow>
   bit g 0 \<and> bit g 1" (is "?l = ?r \<longleftrightarrow> _") for g :: u16
proof -
  have "?l = ?r \<longleftrightarrow> (\<forall>n. bit ?l n = bit ?r n)"
    using bit_eqI [of ?l ?r] by auto
  also have "\<dots> \<longleftrightarrow> (\<forall>n. n = 0 \<or> n = 1 \<longrightarrow> bit g n)"
    by (auto simp only: bit_and_iff bit_or_iff flag_const_bits)
  finally show ?thesis by auto
qed

lemma tcp_step_flags_unfold:
  "tcp_step_flags ex f tf side =
    (if has_rst tf \<and> \<not> ex then None else
     let f1 = (if has_syn tf then f AND NOT (FLOW_FLAG_FIN_CLIENT OR FLOW_FLAG_FIN_POD OR FLOW_FLAG_CLOSED) else f);
         f2 = (if has_rst tf then f1 OR FLOW_FLAG_CLOSED else f1);
         f3 = (if has_fin tf then f2 OR (case side of Client \<Rightarrow> FLOW_FLAG_FIN_CLIENT | Pod \<Rightarrow> FLOW_FLAG_FIN_POD) else f2)
     in Some (if bit f3 0 \<and> bit f3 1 then f3 OR FLOW_FLAG_CLOSED else f3))"
  by (simp only: tcp_step_flags_def Let_def has_syn_def has_rst_def has_fin_def both_fins)

lemma tcp_step_None_iff: "tcp_step_flags ex f tf side = None \<longleftrightarrow> has_rst tf \<and> \<not> ex"
  by (simp add: tcp_step_flags_unfold Let_def)

lemma tcp_step_bits:
  assumes "tcp_step_flags ex f tf side = Some g"
  defines "fin_c \<equiv> (\<not> has_syn tf \<and> bit f 0) \<or> (has_fin tf \<and> side = Client)"
    and "fin_p \<equiv> (\<not> has_syn tf \<and> bit f 1) \<or> (has_fin tf \<and> side = Pod)"
  shows "bit g n = (if n = 0 then fin_c else if n = 1 then fin_p
    else if n = 4 then (\<not> has_syn tf \<and> bit f 4) \<or> has_rst tf \<or> (fin_c \<and> fin_p) else bit f n)"
  using assms(1) unfolding fin_c_def fin_p_def
  by (cases side; cases "has_syn tf"; cases "has_rst tf"; cases "has_fin tf")
    (auto simp: tcp_step_flags_unfold Let_def flag_word_bits split: if_splits)

lemma sweep_class_cong: "bit f 4 = bit g 4 \<Longrightarrow> sweep_class f proto = sweep_class g proto"
  by (simp add: sweep_class_def flag_zero)

lemma parity_bit_cong: "bit f 4 = bit g 4 \<Longrightarrow> parity_bit proto f par = parity_bit proto g par"
  by (simp add: parity_bit_def sweep_class_cong [of f g])

lemma parity_bit_cases:
  obtains "parity_bit proto f par = None"
  | "parity_bit proto f par = Some (FLOW_FLAG_UDP_PARITY, gp_udp par)"
  | "parity_bit proto f par = Some (FLOW_FLAG_TCP_PARITY, gp_tcp par)"
  unfolding parity_bit_def Let_def by meson

lemma apply_parity_bits:
  "bit (apply_parity proto f par) n =
    (case parity_bit proto f par of
       Some (b, g) \<Rightarrow> if bit b n then g else bit f n
     | None \<Rightarrow> bit f n)"
  by (cases rule: parity_bit_cases [of proto f par]) (auto simp: apply_parity_def flag_word_bits)

lemma apply_parity_low: "n = 0 \<or> n = 1 \<or> n = 4 \<Longrightarrow> bit (apply_parity proto f par) n = bit f n"
  by (cases rule: parity_bit_cases [of proto f par]) (auto simp: apply_parity_bits flag_const_bits)

lemma parity_bit_apply: "parity_bit proto (apply_parity proto f par) par = parity_bit proto f par"
  by (rule parity_bit_cong) (simp add: apply_parity_low)

lemma apply_parity_idem: "apply_parity proto (apply_parity proto f par) par = apply_parity proto f par"
  by (rule bit_word_eqI, cases rule: parity_bit_cases [of proto f par])
    (auto simp: apply_parity_bits parity_bit_apply flag_const_bits)

lemma apply_parity_not_swept: "\<not> parity_sweep_deletes (apply_parity proto f par) proto par"
  by (cases rule: parity_bit_cases [of proto f par])
    (auto simp: parity_sweep_deletes_def parity_bit_apply flag_zero apply_parity_bits flag_const_bits)

text \<open>The flags a packet leaves in its row, whether it wrote them or found them already there.\<close>

definition step_result :: "flow_step_t \<Rightarrow> u16 \<Rightarrow> u16 option" where
  "step_result st old = (case st of StepKeep \<Rightarrow> Some old | StepWrite f \<Rightarrow> Some f | StepSkip \<Rightarrow> None)"

definition step_target :: "bool \<Rightarrow> u16 \<Rightarrow> u8 \<Rightarrow> u8 \<Rightarrow> flow_side \<Rightarrow> gc_parity \<Rightarrow> u16 option" where
  "step_target ex f proto tf side par =
     map_option (\<lambda>g. apply_parity proto g par)
       (if proto = IPPROTO_TCP then tcp_step_flags ex f tf side else Some f)"

lemma flow_step_flags_eq:
  "flow_step_flags ex f proto tf side par =
    (case step_target ex f proto tf side par of
       None \<Rightarrow> StepSkip
     | Some g \<Rightarrow> if ex \<and> f = g then StepKeep else StepWrite g)"
  unfolding flow_step_flags_def step_target_def Let_def
  by (cases "if proto = IPPROTO_TCP then tcp_step_flags ex f tf side else Some f") (simp_all only: option.case option.map)

lemma flow_step_flags_result:
  "step_result (flow_step_flags ex f proto tf side par) f = step_target ex f proto tf side par"
  unfolding flow_step_flags_eq step_result_def
  by (cases "step_target ex f proto tf side par") simp_all

lemma flow_step_Skip_iff:
  "flow_step_flags ex f proto tf side par = StepSkip \<longleftrightarrow> proto = IPPROTO_TCP \<and> has_rst tf \<and> \<not> ex"
proof -
  have "flow_step_flags ex f proto tf side par = StepSkip \<longleftrightarrow> step_target ex f proto tf side par = None"
    unfolding flow_step_flags_eq by (cases "step_target ex f proto tf side par") simp_all
  then show ?thesis by (simp add: step_target_def tcp_step_None_iff)
qed

lemma step_target_not_swept:
  "step_target ex f proto tf side par = Some g \<Longrightarrow> \<not> parity_sweep_deletes g proto par"
  unfolding step_target_def map_option_eq_Some using apply_parity_not_swept by blast

lemma tcp_step_parity_idem:
  assumes g: "tcp_step_flags ex f tf side = Some g"
  shows "tcp_step_flags True (apply_parity proto g par) tf side = Some (apply_parity proto g par)"
proof -
  let ?p = "apply_parity proto g par"
  obtain h where h: "tcp_step_flags True ?p tf side = Some h"
    by (cases "tcp_step_flags True ?p tf side") (auto simp: tcp_step_None_iff)
  have low: "bit ?p 0 = bit g 0" "bit ?p 1 = bit g 1" "bit ?p 4 = bit g 4"
    by (simp_all only: apply_parity_low simp_thms)
  note bits = tcp_step_bits [OF h] tcp_step_bits [OF g, of 0] tcp_step_bits [OF g, of 1]
    tcp_step_bits [OF g, of 4]
  have "bit h n = bit ?p n" for n
  proof -
    consider "n = 0" | "n = 1" | "n = 4" | "n \<noteq> 0" "n \<noteq> 1" "n \<noteq> 4" by blast
    then show ?thesis
    proof cases
      case 1 then show ?thesis using bits(1) [of 0] bits(2) low by simp blast
    next
      case 2 then show ?thesis using bits(1) [of 1] bits(3) low by simp blast
    next
      case 3 then show ?thesis using bits(1) [of 4] bits(2-4) low by simp blast
    next
      case 4 then show ?thesis using bits(1) [of n] by simp
    qed
  qed
  then have "h = ?p" by (rule bit_word_eqI)
  with h show ?thesis by simp
qed

lemma step_target_idem:
  assumes "step_target ex f proto tf side par = Some g"
  shows "step_target True g proto tf side par = Some g"
  using assms tcp_step_parity_idem
  by (auto simp: step_target_def apply_parity_idem split: if_splits)

section \<open>Properties\<close>

text \<open>A row is never swept in the sweep that follows a packet of its flow: whatever flags a packet
  leaves in its row (written or found), the current parity sweep keeps it.\<close>

lemma touched_row_survives_sweep:
  assumes "step_result (flow_step_flags ex f proto tf side par) f = Some g"
  shows "\<not> parity_sweep_deletes g proto par"
  using assms step_target_not_swept unfolding flow_step_flags_result by blast

text \<open>A repeated packet writes nothing: once a packet has left its flags in the row, the same packet
  under the same parity is a \<open>Keep\<close>.\<close>

lemma repeated_packet_keeps_row:
  assumes "step_result (flow_step_flags ex f proto tf side par) f = Some g"
  shows "flow_step_flags True g proto tf side par = StepKeep"
proof -
  have "step_target True g proto tf side par = Some g"
    using assms step_target_idem unfolding flow_step_flags_result by blast
  then show ?thesis by (simp add: flow_step_flags_eq)
qed

text \<open>What closes a TCP row: a reset, or a FIN from each side with no SYN in between; a SYN reopens
  it. A reset that finds no row writes none.\<close>

lemma tcp_close_rule:
  "case step_result (flow_step_flags ex f IPPROTO_TCP tf side par) f of
     None \<Rightarrow> has_rst tf \<and> \<not> ex
   | Some g \<Rightarrow>
       (has_rst tf \<longrightarrow> ex)
       \<and> (g AND FLOW_FLAG_CLOSED \<noteq> 0 \<longleftrightarrow>
           (\<not> has_syn tf \<and> f AND FLOW_FLAG_CLOSED \<noteq> 0) \<or> has_rst tf
           \<or> (((\<not> has_syn tf \<and> f AND FLOW_FLAG_FIN_CLIENT \<noteq> 0) \<or> has_fin tf \<and> side = Client)
              \<and> ((\<not> has_syn tf \<and> f AND FLOW_FLAG_FIN_POD \<noteq> 0) \<or> has_fin tf \<and> side = Pod)))"
proof (cases "tcp_step_flags ex f tf side")
  case None
  then have "has_rst tf \<and> \<not> ex" unfolding tcp_step_None_iff .
  with None show ?thesis by (simp add: flow_step_flags_result step_target_def)
next
  case (Some h)
  have "bit (apply_parity IPPROTO_TCP h par) 4 = bit h 4" by (rule apply_parity_low) simp
  moreover have "has_rst tf \<longrightarrow> ex" using Some tcp_step_None_iff [of ex f tf side] by auto
  ultimately show ?thesis
    unfolding flow_step_flags_result step_target_def Some flag_zero not_not
    using tcp_step_bits [OF Some, of 4] by simp
qed

end
