(* ===== verification/Ebpf_Base.thy ===== *)
theory Ebpf_Base
  imports Flow_State
begin

text \<open>
  The setting of the classifier programs of \<open>ebpf/src/main.rs\<close>: the socket buffer, the BPF maps of
  one node, the map accessors, packet loads, the tunnel-key helpers, checksum-preserving rewrites
  and the redirect into \<open>geneve0\<close>.

  The kernel's helper functions and the eviction policy of its LRU maps are not part of the
  program. They are the fields of a record \<open>kern\<close>, an argument of every definition that reaches
  them; \<open>kern_ok\<close> collects what the kernel documents about them, and \<open>std_kern\<close> is a concrete
  kernel that satisfies it.
\<close>

section \<open>Constants\<close>

definition VNI_FWD :: u32 where "VNI_FWD = 100"
definition VNI_RET :: u32 where "VNI_RET = 200"
definition GENEVE_OPT_TYPE_FRONT_ECHO :: u8 where "GENEVE_OPT_TYPE_FRONT_ECHO = 0x02"
definition ETH_HLEN :: nat where "ETH_HLEN = 14"
definition NO_L3_ETHERTYPE :: u16 where "NO_L3_ETHERTYPE = 0"
definition ETH_P_IPV4 :: u16 where "ETH_P_IPV4 = u16_swap 0x0800"
definition ETH_P_IPV6 :: u16 where "ETH_P_IPV6 = u16_swap 0x86dd"
definition PACKET_HOST :: u32 where "PACKET_HOST = 0"

definition IP_VER_IHL :: nat where "IP_VER_IHL = ETH_HLEN"
definition IP_PROTO :: nat where "IP_PROTO = ETH_HLEN + 9"
definition IP_CSUM :: nat where "IP_CSUM = ETH_HLEN + 10"
definition IP_SRC :: nat where "IP_SRC = ETH_HLEN + 12"
definition IP_DST :: nat where "IP_DST = ETH_HLEN + 16"
definition IP_HLEN :: nat where "IP_HLEN = 20"
definition L4_OFF :: nat where "L4_OFF = ETH_HLEN + IP_HLEN"
definition L4_SPORT :: nat where "L4_SPORT = L4_OFF"
definition L4_DPORT :: nat where "L4_DPORT = L4_OFF + 2"
definition TCP_CSUM :: nat where "TCP_CSUM = L4_OFF + 16"
definition UDP_CSUM :: nat where "UDP_CSUM = L4_OFF + 6"

definition IP6_HLEN :: nat where "IP6_HLEN = 40"
definition IP6_NEXT_HDR :: nat where "IP6_NEXT_HDR = ETH_HLEN + 6"
definition IP6_SRC :: nat where "IP6_SRC = ETH_HLEN + 8"
definition IP6_DST :: nat where "IP6_DST = ETH_HLEN + 24"
definition L4_OFF_V6 :: nat where "L4_OFF_V6 = ETH_HLEN + IP6_HLEN"
definition L4_SPORT_V6 :: nat where "L4_SPORT_V6 = L4_OFF_V6"
definition L4_DPORT_V6 :: nat where "L4_DPORT_V6 = L4_OFF_V6 + 2"
definition TCP_CSUM_V6 :: nat where "TCP_CSUM_V6 = L4_OFF_V6 + 16"
definition UDP_CSUM_V6 :: nat where "UDP_CSUM_V6 = L4_OFF_V6 + 6"

lemmas offset_defs = ETH_HLEN_def IP_VER_IHL_def IP_PROTO_def IP_CSUM_def IP_SRC_def IP_DST_def
  IP_HLEN_def L4_OFF_def L4_SPORT_def L4_DPORT_def TCP_CSUM_def UDP_CSUM_def
  IP6_HLEN_def IP6_NEXT_HDR_def IP6_SRC_def IP6_DST_def L4_OFF_V6_def L4_SPORT_V6_def
  L4_DPORT_V6_def TCP_CSUM_V6_def UDP_CSUM_V6_def

text \<open>Kernel uAPI constants the code takes from \<open>aya_ebpf::bindings\<close>.\<close>

definition BPF_F_TUNINFO_IPV6 :: u64 where "BPF_F_TUNINFO_IPV6 = 1"
definition BPF_F_PSEUDO_HDR :: u64 where "BPF_F_PSEUDO_HDR = 16"

datatype verdict = TC_ACT_OK | TC_ACT_SHOT | TC_ACT_REDIRECT

section \<open>Packets, tables and the kernel\<close>

text \<open>\<open>bpf_tunnel_key\<close>. The address union is its four words; \<open>remote_ipv4\<close> is word 0.\<close>

record tunnel_key =
  tunnel_id :: u32
  tk_remote :: "u32 list"
  tunnel_tos :: u8
  tunnel_ttl :: u8
  tunnel_ext :: u16
  tunnel_label :: u32
  tk_local :: "u32 list"

datatype redirect_target = ToDevice u32 | ToNeighbour u32

text \<open>\<open>linear\<close> is \<open>data_end - data\<close>, the head that direct packet access can see.\<close>

record sk_buff =
  pkt :: bytes
  linear :: nat
  ingress_ifindex :: u32
  ifindex :: u32
  mark :: u32
  pkt_type :: u32
  tun_key :: "(tunnel_key \<times> u64) option"
  tun_opt :: bytes
  redirect_to :: "redirect_target option"

type_synonym flow_map = "flow_key \<rightharpoonup> flow_value"
type_synonym pending_map = "tcp_flow_key \<rightharpoonup> forward_flow_value"

text \<open>The BPF maps of one node and the packet its program is running on.\<close>

record node =
  FRONT_META :: "lb_front_key \<rightharpoonup> front_meta"
  FRONT_ENDPOINTS :: "front_endpoint_key_rec \<rightharpoonup> front_endpoint"
  FRONT_MISSES :: "u64 option"
  POD_TARGETS :: "ip16 \<rightharpoonup> u8"
  NODE_ALLOW :: "ip16 \<rightharpoonup> u8"
  FWD_PENDING :: pending_map
  FLOW_TABLE :: flow_map
  CONFIG :: "config option"
  UPLINK_CONFIG :: "u32 \<rightharpoonup> uplink_config"
  skb :: sk_buff

text \<open>Helper calls: \<open>None\<close> is a non-zero return (for the redirects, a return other than
  \<open>TC_ACT_REDIRECT\<close>; for map inserts, an error that leaves the map as it was).
  \<open>bpf_skb_get_tunnel_opt\<close> returns its signed result and the filled buffer.\<close>

record kern =
  skb_load_bytes :: "nat \<Rightarrow> nat \<Rightarrow> sk_buff \<Rightarrow> bytes option"
  skb_store_bytes :: "nat \<Rightarrow> bytes \<Rightarrow> sk_buff \<Rightarrow> sk_buff option"
  l3_csum_replace :: "nat \<Rightarrow> u64 \<Rightarrow> u64 \<Rightarrow> u64 \<Rightarrow> sk_buff \<Rightarrow> sk_buff option"
  l4_csum_replace :: "nat \<Rightarrow> u64 \<Rightarrow> u64 \<Rightarrow> u64 \<Rightarrow> sk_buff \<Rightarrow> sk_buff option"
  skb_get_tunnel_key :: "u64 \<Rightarrow> sk_buff \<Rightarrow> tunnel_key option"
  skb_get_tunnel_opt :: "nat \<Rightarrow> sk_buff \<Rightarrow> int \<times> bytes"
  skb_set_tunnel_key :: "tunnel_key \<Rightarrow> u64 \<Rightarrow> sk_buff \<Rightarrow> sk_buff option"
  skb_set_tunnel_opt :: "bytes \<Rightarrow> sk_buff \<Rightarrow> sk_buff option"
  skb_change_head :: "nat \<Rightarrow> sk_buff \<Rightarrow> sk_buff option"
  skb_change_type :: "u32 \<Rightarrow> sk_buff \<Rightarrow> sk_buff option"
  bpf_redirect :: "u32 \<Rightarrow> sk_buff \<Rightarrow> sk_buff option"
  bpf_redirect_neigh :: "u32 \<Rightarrow> sk_buff \<Rightarrow> sk_buff option"
  pending_insert :: "tcp_flow_key \<Rightarrow> forward_flow_value \<Rightarrow> pending_map \<Rightarrow> pending_map option"
  flow_insert :: "flow_key \<Rightarrow> flow_value \<Rightarrow> flow_map \<Rightarrow> flow_map option"

definition on_skb :: "(sk_buff \<Rightarrow> sk_buff option) \<Rightarrow> node \<Rightarrow> node option" where
  "on_skb f s = map_option (\<lambda>p. s\<lparr>skb := p\<rparr>) (f (skb s))"

section \<open>Map accessors\<close>

definition flow_table_get_forward :: "node \<Rightarrow> flow_key \<Rightarrow> forward_flow_value option" where
  "flow_table_get_forward s key = map_option as_forward (FLOW_TABLE s key)"

definition flow_table_get_reverse :: "node \<Rightarrow> flow_key \<Rightarrow> rev_flow_value option" where
  "flow_table_get_reverse s key = map_option as_reverse (FLOW_TABLE s key)"

definition flow_table_get_port_memo :: "node \<Rightarrow> flow_key \<Rightarrow> port_memo_value option" where
  "flow_table_get_port_memo s key = map_option as_port_memo (FLOW_TABLE s key)"

definition front_meta_get :: "node \<Rightarrow> lb_front_key \<Rightarrow> front_meta option" where
  "front_meta_get s front = FRONT_META s front"

definition front_endpoints_get :: "node \<Rightarrow> front_endpoint_key_rec \<Rightarrow> front_endpoint option" where
  "front_endpoints_get s key = FRONT_ENDPOINTS s key"

definition fwd_pending_get :: "node \<Rightarrow> tcp_flow_key \<Rightarrow> forward_flow_value option" where
  "fwd_pending_get s key = FWD_PENDING s key"

definition is_node_allowed :: "node \<Rightarrow> ip16 \<Rightarrow> bool" where
  "is_node_allowed s addr \<longleftrightarrow> NODE_ALLOW s addr \<noteq> None"

definition is_pod_target :: "node \<Rightarrow> ip16 \<Rightarrow> bool" where
  "is_pod_target s addr \<longleftrightarrow> POD_TARGETS s addr \<noteq> None"

definition flow_table_insert :: "kern \<Rightarrow> flow_key \<Rightarrow> flow_value \<Rightarrow> node \<Rightarrow> node option" where
  "flow_table_insert K key value s =
     map_option (\<lambda>m. s\<lparr>FLOW_TABLE := m\<rparr>) (flow_insert K key value (FLOW_TABLE s))"

definition gc_parity_get :: "node \<Rightarrow> gc_parity" where
  "gc_parity_get s =
     (case CONFIG s of
        Some c \<Rightarrow> \<lparr>gp_udp = cfg_udp_parity c \<noteq> 0, gp_tcp = cfg_tcp_parity c \<noteq> 0\<rparr>
      | None \<Rightarrow> \<lparr>gp_udp = False, gp_tcp = False\<rparr>)"

text \<open>\<open>let _ = insert(..)\<close>: a failed insert is ignored.\<close>

definition ignoring :: "node option \<Rightarrow> node \<Rightarrow> node" where
  "ignoring r s = (case r of Some s' \<Rightarrow> s' | None \<Rightarrow> s)"

definition touch_forward_row ::
  "kern \<Rightarrow> flow_key \<Rightarrow> forward_flow_value \<Rightarrow> u8 \<Rightarrow> u8 \<Rightarrow> flow_side \<Rightarrow> node \<Rightarrow> node" where
  "touch_forward_row K key value proto tcp_flags side s =
     (case flow_step (Some (fwd_flags value)) proto tcp_flags side (gc_parity_get s) of
        StepWrite flags \<Rightarrow>
          ignoring (flow_table_insert K key (from_forward (value\<lparr>fwd_flags := flags\<rparr>)) s) s
      | _ \<Rightarrow> s)"

definition touch_return_row ::
  "kern \<Rightarrow> flow_key \<Rightarrow> rev_flow_value \<Rightarrow> u8 \<Rightarrow> u8 \<Rightarrow> node \<Rightarrow> node" where
  "touch_return_row K key rv proto tcp_flags s =
     (case flow_step (Some (rev_flags rv)) proto tcp_flags Pod (gc_parity_get s) of
        StepWrite flags \<Rightarrow>
          ignoring (flow_table_insert K key (from_reverse (rv\<lparr>rev_flags := flags\<rparr>)) s) s
      | _ \<Rightarrow> s)"

definition uplink_config_get :: "node \<Rightarrow> u32 \<Rightarrow> uplink_config option" where
  "uplink_config_get s i = UPLINK_CONFIG s i"

definition count_front_miss :: "node \<Rightarrow> node" where
  "count_front_miss s =
     (case FRONT_MISSES s of Some misses \<Rightarrow> s\<lparr>FRONT_MISSES := Some (misses + 1)\<rparr> | None \<Rightarrow> s)"

section \<open>Packet loads\<close>

text \<open>\<open>TcContext::load\<close> at the four types the code uses, and \<open>load_direct\<close>, which sees only the
  linear head.\<close>

definition load_u8 :: "kern \<Rightarrow> nat \<Rightarrow> sk_buff \<Rightarrow> u8 option" where
  "load_u8 K off p = map_option (\<lambda>b. b ! 0) (skb_load_bytes K off 1 p)"

definition load_u16 :: "kern \<Rightarrow> nat \<Rightarrow> sk_buff \<Rightarrow> u16 option" where
  "load_u16 K off p = map_option u16_of_ne (skb_load_bytes K off 2 p)"

definition load_u32 :: "kern \<Rightarrow> nat \<Rightarrow> sk_buff \<Rightarrow> u32 option" where
  "load_u32 K off p = map_option u32_of_ne (skb_load_bytes K off 4 p)"

definition load_ip16 :: "kern \<Rightarrow> nat \<Rightarrow> sk_buff \<Rightarrow> ip16 option" where
  "load_ip16 K off p = skb_load_bytes K off 16 p"

definition load_direct :: "nat \<Rightarrow> nat \<Rightarrow> sk_buff \<Rightarrow> bytes option" where
  "load_direct sz off p =
     (if off + sz > linear p then None else Some (span (pkt p) off (off + sz)))"

definition direct_u8 :: "nat \<Rightarrow> sk_buff \<Rightarrow> u8 option" where
  "direct_u8 off p = map_option (\<lambda>b. b ! 0) (load_direct 1 off p)"

definition direct_u16 :: "nat \<Rightarrow> sk_buff \<Rightarrow> u16 option" where
  "direct_u16 off p = map_option u16_of_ne (load_direct 2 off p)"

definition direct_u32 :: "nat \<Rightarrow> sk_buff \<Rightarrow> u32 option" where
  "direct_u32 off p = map_option u32_of_ne (load_direct 4 off p)"

definition direct_ip16 :: "nat \<Rightarrow> sk_buff \<Rightarrow> ip16 option" where
  "direct_ip16 off p = load_direct 16 off p"

definition tcp_flags_direct :: "kern \<Rightarrow> u8 \<Rightarrow> nat \<Rightarrow> sk_buff \<Rightarrow> u8 option" where
  "tcp_flags_direct K proto l4_off p =
     (if proto = IPPROTO_TCP then load_u8 K (l4_off + 13) p else Some 0)"

section \<open>Tunnel keys\<close>

definition zeroed_tunnel_key :: tunnel_key where
  "zeroed_tunnel_key =
     \<lparr>tunnel_id = 0, tk_remote = [0, 0, 0, 0], tunnel_tos = 0, tunnel_ttl = 0, tunnel_ext = 0,
      tunnel_label = 0, tk_local = [0, 0, 0, 0]\<rparr>"

definition set_tunnel_remote :: "tunnel_key \<Rightarrow> ip16 \<Rightarrow> tunnel_key \<times> u64" where
  "set_tunnel_remote tkey node_ip =
     (case unmap_ipv4 node_ip of
        Some v4 \<Rightarrow> (tkey\<lparr>tk_remote := (tk_remote tkey)[0 := v4]\<rparr>, 0)
      | None \<Rightarrow>
          let words = map (\<lambda>i. u32_of_ne (span node_ip (i * 4) (i * 4 + 4))) [0..<4]
          in (tkey\<lparr>tk_remote := words\<rparr>, BPF_F_TUNINFO_IPV6))"

definition get_tunnel_key :: "kern \<Rightarrow> sk_buff \<Rightarrow> (tunnel_key \<times> bool) option" where
  "get_tunnel_key K p =
     (case skb_get_tunnel_key K 0 p of
        Some tkey \<Rightarrow> Some (tkey, False)
      | None \<Rightarrow>
          (case skb_get_tunnel_key K BPF_F_TUNINFO_IPV6 p of
             Some tkey \<Rightarrow> Some (tkey, True)
           | None \<Rightarrow> None))"

definition tunnel_remote :: "tunnel_key \<Rightarrow> bool \<Rightarrow> ip16" where
  "tunnel_remote tkey used_ipv6 = tunnel_remote_addr used_ipv6 (tk_remote tkey ! 0) (tk_remote tkey)"

definition redirect_to_geneve ::
  "kern \<Rightarrow> u32 \<Rightarrow> ip16 \<Rightarrow> u32 \<Rightarrow> bytes \<Rightarrow> u16 \<Rightarrow> node \<Rightarrow> verdict option \<times> node" where
  "redirect_to_geneve K geneve_ifindex remote vni opt l3_ethertype s =
     (let (tkey, tkey_flags) = set_tunnel_remote zeroed_tunnel_key remote;
          tkey = tkey\<lparr>tunnel_id := vni, tunnel_ttl := 64\<rparr>
      in case on_skb (skb_set_tunnel_key K tkey tkey_flags) s of
           None \<Rightarrow> (Some TC_ACT_SHOT, s)
         | Some s \<Rightarrow>
      (case on_skb (skb_set_tunnel_opt K opt) s of
           None \<Rightarrow> (Some TC_ACT_SHOT, s)
         | Some s \<Rightarrow>
      (let transmit = (\<lambda>s. case on_skb (bpf_redirect K geneve_ifindex) s of
                             None \<Rightarrow> (Some TC_ACT_SHOT, s)
                           | Some s \<Rightarrow> (Some TC_ACT_REDIRECT, s))
       in if l3_ethertype \<noteq> NO_L3_ETHERTYPE then
            (case on_skb (skb_change_head K ETH_HLEN) s of
               None \<Rightarrow> (Some TC_ACT_SHOT, s)
             | Some s \<Rightarrow>
                 (case on_skb (skb_store_bytes K 12 (u16_to_ne l3_ethertype)) s of
                    None \<Rightarrow> (Some TC_ACT_SHOT, s)
                  | Some s \<Rightarrow> transmit s))
          else transmit s)))"

definition redirect_client_bound :: "kern \<Rightarrow> u32 \<Rightarrow> node \<Rightarrow> verdict option \<times> node" where
  "redirect_client_bound K i s =
     need (uplink_config_get s i) s (\<lambda>uc.
       case on_skb (if unat (l2_hlen uc) = ETH_HLEN then bpf_redirect_neigh K i else bpf_redirect K i) s of
         None \<Rightarrow> (Some TC_ACT_SHOT, s)
       | Some s \<Rightarrow> (Some TC_ACT_REDIRECT, s))"

definition set_mark :: "u32 \<Rightarrow> node \<Rightarrow> node" where
  "set_mark m s = s\<lparr>skb := (skb s)\<lparr>mark := m\<rparr>\<rparr>"

section \<open>Rewrites\<close>

text \<open>The pseudo-header fixups of an address, one 32-bit word at a time.\<close>

fun csum_words :: "kern \<Rightarrow> nat \<Rightarrow> (u32 \<times> u32) list \<Rightarrow> node \<Rightarrow> unit option \<times> node" where
  "csum_words K l4_csum_off [] s = (Some (), s)"
| "csum_words K l4_csum_off ((old, new) # words) s =
     need (on_skb (l4_csum_replace K l4_csum_off (ucast old) (ucast new) (BPF_F_PSEUDO_HDR OR 4)) s) s
       (\<lambda>s. csum_words K l4_csum_off words s)"

definition rewrite_ip_port ::
  "kern \<Rightarrow> nat \<Rightarrow> u32 \<Rightarrow> u32 \<Rightarrow> nat \<Rightarrow> u16 \<Rightarrow> u16 \<Rightarrow> u8 \<Rightarrow> node \<Rightarrow> unit option \<times> node" where
  "rewrite_ip_port K ip_off old_ip new_ip port_off old_port new_port proto s =
     (let l4_csum_off = (if proto = IPPROTO_TCP then TCP_CSUM else UDP_CSUM);
          is_udp = (proto = IPPROTO_UDP)
      in need (if is_udp then map_option (\<lambda>c. c = 0) (load_u16 K UDP_CSUM (skb s)) else Some False) s
        (\<lambda>udp_csum_disabled.
         and_then
           (case address_rewrite_checksums False of
              Ipv4HeaderAndL4Pseudo \<Rightarrow>
                need (on_skb (l3_csum_replace K IP_CSUM (ucast old_ip) (ucast new_ip) 4) s) s (\<lambda>s. (Some (), s))
            | L4PseudoOnly \<Rightarrow> (Some (), s)) (\<lambda>_ s.
         and_then
           (if \<not> udp_csum_disabled
            then and_then (csum_words K l4_csum_off [(old_ip, new_ip)] s) (\<lambda>_ s.
                   need (on_skb (l4_csum_replace K l4_csum_off (ucast old_port) (ucast new_port) 2) s) s
                     (\<lambda>s. (Some (), s)))
            else (Some (), s)) (\<lambda>_ s.
         need (on_skb (skb_store_bytes K ip_off (u32_to_ne new_ip)) s) s (\<lambda>s.
         need (on_skb (skb_store_bytes K port_off (u16_to_ne new_port)) s) s (\<lambda>s.
         (Some (), s)))))))"

definition ip16_words :: "ip16 \<Rightarrow> u32 list" where
  "ip16_words ip = map (\<lambda>i. u32_of_ne (span ip (i * 4) (i * 4 + 4))) [0..<4]"

definition rewrite_ipv6_port ::
  "kern \<Rightarrow> nat \<Rightarrow> ip16 \<Rightarrow> ip16 \<Rightarrow> nat \<Rightarrow> u16 \<Rightarrow> u16 \<Rightarrow> u8 \<Rightarrow> nat \<Rightarrow> nat \<Rightarrow> node \<Rightarrow> unit option \<times> node" where
  "rewrite_ipv6_port K ip_off old_ip new_ip port_off old_port new_port proto l4_csum_off udp_csum_off s =
     (let is_udp = (proto = IPPROTO_UDP)
      in need (if is_udp then map_option (\<lambda>c. c = 0) (load_u16 K udp_csum_off (skb s)) else Some False) s
        (\<lambda>udp_csum_disabled.
         and_then
           (if \<not> udp_csum_disabled
            then and_then (csum_words K l4_csum_off (zip (ip16_words old_ip) (ip16_words new_ip)) s) (\<lambda>_ s.
                   need (on_skb (l4_csum_replace K l4_csum_off (ucast old_port) (ucast new_port) 2) s) s
                     (\<lambda>s. (Some (), s)))
            else (Some (), s)) (\<lambda>_ s.
         need (on_skb (skb_store_bytes K ip_off new_ip) s) s (\<lambda>s.
         need (on_skb (skb_store_bytes K port_off (u16_to_ne new_port)) s) s (\<lambda>s.
         (Some (), s))))))"

definition rewrite_l4_port ::
  "kern \<Rightarrow> nat \<Rightarrow> nat \<Rightarrow> u16 \<Rightarrow> u16 \<Rightarrow> u8 \<Rightarrow> node \<Rightarrow> unit option \<times> node" where
  "rewrite_l4_port K l4_off port_off old_port new_port proto s =
     (if old_port = new_port then (Some (), s)
      else let udp_csum_off = l4_off + 6;
               l4_csum_off = (if proto = IPPROTO_TCP then l4_off + 16 else udp_csum_off)
           in need (if proto = IPPROTO_UDP then map_option (\<lambda>c. c = 0) (load_u16 K udp_csum_off (skb s))
                    else Some False) s (\<lambda>disabled.
              if disabled
              then need (on_skb (skb_store_bytes K port_off (u16_to_ne new_port)) s) s (\<lambda>s. (Some (), s))
              else need (on_skb (l4_csum_replace K l4_csum_off (ucast old_port) (ucast new_port) 2) s) s (\<lambda>s.
                   need (on_skb (skb_store_bytes K port_off (u16_to_ne new_port)) s) s (\<lambda>s. (Some (), s)))))"

end
