(* ===== verification/Ebpf_Kernel.thy ===== *)
theory Ebpf_Kernel
  imports Ebpf_Base
begin

text \<open>
  What the kernel documents about the helpers of \<open>Ebpf_Base\<close> (the predicate \<open>kern_ok\<close>), a concrete
  kernel that satisfies it, and the frame and effect lemmas of the shared program pieces: which
  tables a step can touch, which packet bytes a rewrite can touch and what they hold afterwards.
\<close>

section \<open>The documented behaviour of the helpers\<close>

text \<open>Same buffer metadata: only the bytes and the length of the linear head may differ.\<close>

definition same_frame :: "sk_buff \<Rightarrow> sk_buff \<Rightarrow> bool" where
  "same_frame p p' \<longleftrightarrow> p' = p\<lparr>pkt := pkt p', linear := linear p'\<rparr>"

definition load_contract :: "kern \<Rightarrow> bool" where
  "load_contract K \<longleftrightarrow> (\<forall>off n p. skb_load_bytes K off n p =
     (if off + n \<le> length (pkt p) then Some (span (pkt p) off (off + n)) else None))"

definition store_contract :: "kern \<Rightarrow> bool" where
  "store_contract K \<longleftrightarrow> (\<forall>off b p p'. skb_store_bytes K off b p = Some p' \<longrightarrow>
     off + length b \<le> length (pkt p) \<and> pkt p' = patch (pkt p) off b \<and> same_frame p p')"

definition csum_contract ::
  "(nat \<Rightarrow> u64 \<Rightarrow> u64 \<Rightarrow> u64 \<Rightarrow> sk_buff \<Rightarrow> sk_buff option) \<Rightarrow> bool" where
  "csum_contract f \<longleftrightarrow> (\<forall>off old new flags p p'. f off old new flags p = Some p' \<longrightarrow>
     off + 2 \<le> length (pkt p) \<and> (\<exists>c. length c = 2 \<and> pkt p' = patch (pkt p) off c) \<and> same_frame p p')"

definition tunnel_contract :: "kern \<Rightarrow> bool" where
  "tunnel_contract K \<longleftrightarrow>
     (\<forall>k fl p p'. skb_set_tunnel_key K k fl p = Some p' \<longrightarrow> p' = p\<lparr>tun_key := Some (k, fl)\<rparr>) \<and>
     (\<forall>b p p'. skb_set_tunnel_opt K b p = Some p' \<longrightarrow> p' = p\<lparr>tun_opt := b\<rparr>) \<and>
     (\<forall>n p p'. skb_change_head K n p = Some p' \<longrightarrow> pkt p' = zeroes n @ pkt p \<and> same_frame p p') \<and>
     (\<forall>fl p k. skb_get_tunnel_key K fl p = Some k \<longrightarrow> length (tk_remote k) = 4) \<and>
     (\<forall>n p. length (snd (skb_get_tunnel_opt K n p)) = n)"

definition transmit_contract :: "kern \<Rightarrow> bool" where
  "transmit_contract K \<longleftrightarrow>
     (\<forall>t p p'. skb_change_type K t p = Some p' \<longrightarrow> p' = p\<lparr>pkt_type := t\<rparr>) \<and>
     (\<forall>i p p'. bpf_redirect K i p = Some p' \<longrightarrow> p' = p\<lparr>redirect_to := Some (ToDevice i)\<rparr>) \<and>
     (\<forall>i p p'. bpf_redirect_neigh K i p = Some p' \<longrightarrow> p' = p\<lparr>redirect_to := Some (ToNeighbour i)\<rparr>)"

text \<open>An LRU insert stores the pair; any other entry is kept or evicted.\<close>

definition lru_contract :: "('k \<Rightarrow> 'v \<Rightarrow> ('k \<rightharpoonup> 'v) \<Rightarrow> ('k \<rightharpoonup> 'v) option) \<Rightarrow> bool" where
  "lru_contract ins \<longleftrightarrow> (\<forall>k v m m'. ins k v m = Some m' \<longrightarrow>
     m' k = Some v \<and> (\<forall>k'. k' \<noteq> k \<longrightarrow> m' k' = m k' \<or> m' k' = None))"

definition kern_ok :: "kern \<Rightarrow> bool" where
  "kern_ok K \<longleftrightarrow> load_contract K \<and> store_contract K \<and> csum_contract (l3_csum_replace K)
     \<and> csum_contract (l4_csum_replace K) \<and> tunnel_contract K \<and> transmit_contract K
     \<and> lru_contract (pending_insert K) \<and> lru_contract (flow_insert K)"

section \<open>A concrete kernel\<close>

text \<open>One's-complement checksum update over 16-bit words (\<open>RFC 1624\<close>), so that the instance updates
  checksums the way the kernel does; its maps never evict.\<close>

definition csum_fold :: "int \<Rightarrow> int" where
  "csum_fold x = (let y = x mod 65536 + x div 65536 in y mod 65536 + y div 65536)"

definition csum_sum :: "u64 \<Rightarrow> int" where
  "csum_sum w = uint w mod 65536 + uint w div 65536"

definition csum_update :: "nat \<Rightarrow> u64 \<Rightarrow> u64 \<Rightarrow> u64 \<Rightarrow> sk_buff \<Rightarrow> sk_buff option" where
  "csum_update off old new flags p =
     (if off + 2 \<le> length (pkt p) then
        let c = uint (u16_of_ne (span (pkt p) off (off + 2)));
            x = csum_fold ((65535 - c) + 2 * 65535 - csum_fold (csum_sum old) + csum_sum new)
        in Some (p\<lparr>pkt := patch (pkt p) off (u16_to_ne (word_of_int (65535 - x)))\<rparr>)
      else None)"

definition std_kern :: kern where
  "std_kern =
     \<lparr>skb_load_bytes = (\<lambda>off n p.
        if off + n \<le> length (pkt p) then Some (span (pkt p) off (off + n)) else None),
      skb_store_bytes = (\<lambda>off b p.
        if off + length b \<le> length (pkt p) then Some (p\<lparr>pkt := patch (pkt p) off b\<rparr>) else None),
      l3_csum_replace = csum_update,
      l4_csum_replace = csum_update,
      skb_get_tunnel_key = (\<lambda>fl p. case tun_key p of
        Some (k, f) \<Rightarrow> if f = fl \<and> length (tk_remote k) = 4 then Some k else None | None \<Rightarrow> None),
      skb_get_tunnel_opt = (\<lambda>n p.
        if length (tun_opt p) \<le> n then (int (length (tun_opt p)), tun_opt p @ zeroes (n - length (tun_opt p)))
        else (-12, zeroes n)),
      skb_set_tunnel_key = (\<lambda>k fl p. Some (p\<lparr>tun_key := Some (k, fl)\<rparr>)),
      skb_set_tunnel_opt = (\<lambda>b p. Some (p\<lparr>tun_opt := b\<rparr>)),
      skb_change_head = (\<lambda>n p. Some (p\<lparr>pkt := zeroes n @ pkt p, linear := linear p + n\<rparr>)),
      skb_change_type = (\<lambda>t p. Some (p\<lparr>pkt_type := t\<rparr>)),
      bpf_redirect = (\<lambda>i p. Some (p\<lparr>redirect_to := Some (ToDevice i)\<rparr>)),
      bpf_redirect_neigh = (\<lambda>i p. Some (p\<lparr>redirect_to := Some (ToNeighbour i)\<rparr>)),
      pending_insert = (\<lambda>k v m. Some (m(k \<mapsto> v))),
      flow_insert = (\<lambda>k v m. Some (m(k \<mapsto> v)))\<rparr>"

lemma std_kern_ok: "kern_ok std_kern"
proof -
  have c: "csum_contract csum_update"
    by (auto simp: csum_contract_def csum_update_def same_frame_def Let_def split: if_splits)
      (metis length_u16_to_ne)
  show ?thesis
    by (simp add: kern_ok_def load_contract_def store_contract_def tunnel_contract_def
        transmit_contract_def lru_contract_def std_kern_def c same_frame_def
        split: if_splits option.splits prod.splits)
qed

section \<open>Frames: what a step leaves alone\<close>

definition only_skb :: "node \<Rightarrow> node \<Rightarrow> bool" where
  "only_skb s s' \<longleftrightarrow> s' = s\<lparr>skb := skb s'\<rparr>"

lemma only_skb_refl [simp, intro]: "only_skb s s"
  by (simp add: only_skb_def)

lemma only_skb_upd: "only_skb s (s\<lparr>skb := p\<rparr>)"
  by (simp add: only_skb_def)

lemma only_skb_trans: "only_skb s t \<Longrightarrow> only_skb t u \<Longrightarrow> only_skb s u"
  unfolding only_skb_def by (cases s; cases t; cases u) simp

lemma only_skbD:
  assumes "only_skb s s'"
  shows "FRONT_META s' = FRONT_META s" "FRONT_ENDPOINTS s' = FRONT_ENDPOINTS s"
    "FRONT_MISSES s' = FRONT_MISSES s" "POD_TARGETS s' = POD_TARGETS s" "NODE_ALLOW s' = NODE_ALLOW s"
    "FWD_PENDING s' = FWD_PENDING s" "FLOW_TABLE s' = FLOW_TABLE s" "CONFIG s' = CONFIG s"
    "UPLINK_CONFIG s' = UPLINK_CONFIG s"
  using assms unfolding only_skb_def by (cases s; cases s'; simp)+

lemma on_skb_only: "on_skb f s = Some s' \<Longrightarrow> only_skb s s'"
  by (auto simp: on_skb_def only_skb_def)

lemma on_skb_Some_iff: "on_skb f s = Some s' \<longleftrightarrow> (\<exists>p. f (skb s) = Some p \<and> s' = s\<lparr>skb := p\<rparr>)"
  by (auto simp: on_skb_def)

text \<open>The control-plane maps: written by userspace only.\<close>

definition control ::
  "node \<Rightarrow> (lb_front_key \<rightharpoonup> front_meta) \<times> (front_endpoint_key_rec \<rightharpoonup> front_endpoint) \<times> (ip16 \<rightharpoonup> u8)
     \<times> (ip16 \<rightharpoonup> u8) \<times> config option \<times> (u32 \<rightharpoonup> uplink_config)" where
  "control s = (FRONT_META s, FRONT_ENDPOINTS s, POD_TARGETS s, NODE_ALLOW s, CONFIG s, UPLINK_CONFIG s)"

lemma control_only_skb: "only_skb s s' \<Longrightarrow> control s' = control s"
  by (simp add: control_def only_skbD)

lemma control_simps [simp]:
  "control (s\<lparr>skb := p\<rparr>) = control s" "control (s\<lparr>FLOW_TABLE := m\<rparr>) = control s"
  "control (s\<lparr>FWD_PENDING := q\<rparr>) = control s" "control (s\<lparr>FRONT_MISSES := c\<rparr>) = control s"
  by (simp_all add: control_def)

text \<open>How a stateful piece with \<open>?\<close> relates its states: a transitive relation is kept by
  \<open>need\<close> and \<open>and_then\<close>.\<close>

lemma need_rel:
  "(\<And>v. x = Some v \<Longrightarrow> R s (snd (k v))) \<Longrightarrow> R s s \<Longrightarrow> R s (snd (need x s k))"
  by (cases x) auto

lemma and_then_rel:
  assumes "R s (snd r)" "\<And>v t. r = (Some v, t) \<Longrightarrow> R s t \<Longrightarrow> R s (snd (k v t))"
  shows "R s (snd (and_then r k))"
  using assms by (cases r; cases "fst r") auto

lemma only_skb_step:
  "only_skb s t \<Longrightarrow> (\<And>u. on_skb f t = Some u \<Longrightarrow> only_skb s u \<Longrightarrow> only_skb s (snd (k u))) \<Longrightarrow>
   only_skb s (snd (need (on_skb f t) t k))"
  by (cases "on_skb f t") (auto dest: on_skb_only intro: only_skb_trans)

lemma csum_words_only: "only_skb s t \<Longrightarrow> only_skb s (snd (csum_words K off words t))"
  by (induction K off words t rule: csum_words.induct) (auto intro!: only_skb_step)

lemmas only_skb_rules = need_rel [where R = only_skb] and_then_rel [where R = only_skb]
  only_skb_step csum_words_only only_skb_refl

lemma rewrite_ip_port_only: "only_skb s (snd (rewrite_ip_port K io oi ni po op np pr s))"
  unfolding rewrite_ip_port_def Let_def address_rewrite_checksums_def
  by (intro only_skb_rules | simp split: if_splits | rule conjI impI)+

lemma rewrite_ipv6_port_only: "only_skb s (snd (rewrite_ipv6_port K io oi ni po op np pr lc uc s))"
  unfolding rewrite_ipv6_port_def Let_def
  by (intro only_skb_rules | simp split: if_splits | rule conjI impI)+

lemma rewrite_l4_port_only: "only_skb s (snd (rewrite_l4_port K lo po op np pr s))"
  unfolding rewrite_l4_port_def Let_def
  by (intro only_skb_rules | simp split: if_splits | rule conjI impI)+

lemma redirect_to_geneve_only: "only_skb s (snd (redirect_to_geneve K gi rem vni opt et s))"
  unfolding redirect_to_geneve_def
  by (auto simp: Let_def case_prod_unfold split: option.splits if_splits dest!: on_skb_only)
    (meson only_skb_trans)+

lemma redirect_client_bound_only: "only_skb s (snd (redirect_client_bound K i s))"
  unfolding redirect_client_bound_def
  by (auto split: need_split option.splits dest!: on_skb_only)

lemma set_mark_only: "only_skb s (set_mark m s)"
  by (simp add: set_mark_def only_skb_def)

lemmas only_skb_pieces = rewrite_ip_port_only rewrite_ipv6_port_only rewrite_l4_port_only
  redirect_to_geneve_only redirect_client_bound_only set_mark_only

section \<open>Packet bytes: what a rewrite touches\<close>

definition changed_only :: "nat set \<Rightarrow> sk_buff \<Rightarrow> sk_buff \<Rightarrow> bool" where
  "changed_only S p p' \<longleftrightarrow> same_frame p p' \<and> length (pkt p') = length (pkt p)
     \<and> (\<forall>i < length (pkt p). i \<notin> S \<longrightarrow> pkt p' ! i = pkt p ! i)"

lemma same_frame_refl [simp]: "same_frame p p"
  by (simp add: same_frame_def)

lemma same_frame_trans: "same_frame p q \<Longrightarrow> same_frame q r \<Longrightarrow> same_frame p r"
  unfolding same_frame_def by (cases p; cases q; cases r) simp

lemma changed_only_refl [simp]: "changed_only S p p"
  by (simp add: changed_only_def)

lemma changed_only_trans: "changed_only S p q \<Longrightarrow> changed_only T q r \<Longrightarrow> changed_only (S \<union> T) p r"
  unfolding changed_only_def by (auto intro: same_frame_trans)

lemma changed_only_mono: "changed_only S p q \<Longrightarrow> S \<subseteq> T \<Longrightarrow> changed_only T p q"
  unfolding changed_only_def by blast

lemma changed_only_span:
  assumes "changed_only S p p'" "{a..<b} \<inter> S = {}"
  shows "span (pkt p') a b = span (pkt p) a b"
proof (rule nth_equalityI)
  have l: "length (pkt p') = length (pkt p)" using assms(1) by (simp add: changed_only_def)
  then show "length (span (pkt p') a b) = length (span (pkt p) a b)" by simp
  fix i assume "i < length (span (pkt p') a b)"
  then have i: "i < b - a" "a + i < length (pkt p)" using l by auto
  then have "a + i \<in> {a..<b}" by simp
  then have "a + i \<notin> S" using assms(2) by blast
  then show "span (pkt p') a b ! i = span (pkt p) a b ! i"
    using assms(1) i l by (simp add: nth_span changed_only_def)
qed

lemma changed_only_patch:
  assumes "off + length b \<le> length (pkt p)" "pkt p' = patch (pkt p) off b" "same_frame p p'"
  shows "changed_only {off..<off + length b} p p'"
  using assms by (auto simp: changed_only_def nth_patch)

lemma load_ok: "kern_ok K \<Longrightarrow> skb_load_bytes K off n p =
    (if off + n \<le> length (pkt p) then Some (span (pkt p) off (off + n)) else None)"
  by (simp add: kern_ok_def load_contract_def)

lemma store_ok:
  assumes "kern_ok K" "skb_store_bytes K off b p = Some p'"
  shows "changed_only {off..<off + length b} p p'" "span (pkt p') off (off + length b) = b"
  using assms by (auto simp: kern_ok_def store_contract_def intro: changed_only_patch span_patch_same)

lemma csum_ok:
  assumes "csum_contract f" "f off old new fl p = Some p'"
  shows "changed_only {off..<off + 2} p p'"
  using assms unfolding csum_contract_def by (metis changed_only_patch)

lemma l4_csum_ok: "kern_ok K \<Longrightarrow> l4_csum_replace K off old new fl p = Some p' \<Longrightarrow>
    changed_only {off..<off + 2} p p'"
  by (erule csum_ok [rotated]) (simp add: kern_ok_def)

lemma l3_csum_ok: "kern_ok K \<Longrightarrow> l3_csum_replace K off old new fl p = Some p' \<Longrightarrow>
    changed_only {off..<off + 2} p p'"
  by (erule csum_ok [rotated]) (simp add: kern_ok_def)

lemma need_eq_Some: "need x s k = (Some v, s') \<longleftrightarrow> (\<exists>u. x = Some u \<and> k u = (Some v, s'))"
  by (cases x) auto

lemma and_then_eq_Some: "and_then r k = (Some v, s') \<longleftrightarrow> (\<exists>u t. r = (Some u, t) \<and> k u t = (Some v, s'))"
  by (cases r; cases "fst r") auto

lemmas done_simps = need_eq_Some and_then_eq_Some on_skb_Some_iff

lemma csum_words_effect:
  assumes "kern_ok K" "csum_words K off words s = (Some (), s')"
  shows "changed_only {off..<off + 2} (skb s) (skb s')"
  using assms
proof (induction K off words s rule: csum_words.induct)
  case (2 K off old new words s)
  then obtain p where p: "l4_csum_replace K off (ucast old) (ucast new) (BPF_F_PSEUDO_HDR OR 4) (skb s) = Some p"
    and r: "csum_words K off words (s\<lparr>skb := p\<rparr>) = (Some (), s')"
    by (auto simp: done_simps)
  have "changed_only {off..<off + 2} (skb (s\<lparr>skb := p\<rparr>)) (skb s')"
    using 2 p r by (intro "2.IH") (auto simp: on_skb_def)
  from changed_only_trans [OF l4_csum_ok [OF \<open>kern_ok K\<close> p] ] this show ?case by fastforce
qed auto

text \<open>The bytes a rewrite may touch besides the fields it sets.\<close>

definition csum_bytes :: "nat set" where
  "csum_bytes = {IP_CSUM..<IP_CSUM + 2} \<union> {UDP_CSUM..<UDP_CSUM + 2} \<union> {TCP_CSUM..<TCP_CSUM + 2}"

lemma store2_effect:
  assumes K: "kern_ok K"
    and p: "skb_store_bytes K io b q = Some p" and p': "skb_store_bytes K po c p = Some p'"
    and disj: "{io..<io + length b} \<inter> {po..<po + length c} = {}"
  shows "changed_only ({io..<io + length b} \<union> {po..<po + length c}) q p'"
    "span (pkt p') io (io + length b) = b" "span (pkt p') po (po + length c) = c"
  using changed_only_trans [OF store_ok(1) [OF K p] store_ok(1) [OF K p'] ]
    changed_only_span [OF store_ok(1) [OF K p'] disj] store_ok(2) [OF K p] store_ok(2) [OF K p']
  by simp_all

lemma rewrite_ip_port_effect:
  assumes K: "kern_ok K" and r: "rewrite_ip_port K io oi ni po op np pr s = (Some (), s')"
    and disj: "{io..<io + 4} \<inter> {po..<po + 2} = {}"
  shows "changed_only (csum_bytes \<union> ({io..<io + 4} \<union> {po..<po + 2})) (skb s) (skb s')
    \<and> span (pkt (skb s')) io (io + 4) = u32_to_ne ni
    \<and> span (pkt (skb s')) po (po + 2) = u16_to_ne np"
proof -
  let ?c = "if pr = IPPROTO_TCP then TCP_CSUM else UDP_CSUM"
  from r obtain b p1 t p2 p3 where p1: "l3_csum_replace K IP_CSUM (ucast oi) (ucast ni) 4 (skb s) = Some p1"
    and t: "(if \<not> b then and_then (csum_words K ?c [(oi, ni)] (s\<lparr>skb := p1\<rparr>)) (\<lambda>_ s.
         need (on_skb (l4_csum_replace K ?c (ucast op) (ucast np) 2) s) s (\<lambda>s. (Some (), s)))
       else (Some (), s\<lparr>skb := p1\<rparr>)) = (Some (), t)"
    and p2: "skb_store_bytes K io (u32_to_ne ni) (skb t) = Some p2"
    and p3: "skb_store_bytes K po (u16_to_ne np) p2 = Some p3" and s': "s' = t\<lparr>skb := p3\<rparr>"
    unfolding rewrite_ip_port_def Let_def address_rewrite_checksums_def
    by (auto simp: done_simps simp del: csum_words.simps)
  have "changed_only {?c..<?c + 2} p1 (skb t)"
  proof (cases b)
    case True then show ?thesis using t by auto
  next
    case False
    then obtain u where u: "csum_words K ?c [(oi, ni)] (s\<lparr>skb := p1\<rparr>) = (Some (), u)"
      and v: "l4_csum_replace K ?c (ucast op) (ucast np) 2 (skb u) = Some (skb t)"
      using t by (auto simp: done_simps simp del: csum_words.simps)
    show ?thesis using changed_only_trans [OF csum_words_effect [OF K u] l4_csum_ok [OF K v] ] by simp
  qed
  from changed_only_trans [OF l3_csum_ok [OF K p1] this]
  have "changed_only csum_bytes (skb s) (skb t)"
    by (rule changed_only_mono) (auto simp: csum_bytes_def split: if_splits)
  from changed_only_trans [OF this store2_effect(1) [OF K p2 p3] ]
    store2_effect(2,3) [OF K p2 p3] s' disj
  show ?thesis by simp
qed

lemma rewrite_ipv6_port_effect:
  assumes K: "kern_ok K" and r: "rewrite_ipv6_port K io oi ni po op np pr lc uc s = (Some (), s')"
    and disj: "{io..<io + length ni} \<inter> {po..<po + 2} = {}"
  shows "changed_only ({lc..<lc + 2} \<union> ({io..<io + length ni} \<union> {po..<po + 2})) (skb s) (skb s')
    \<and> span (pkt (skb s')) io (io + length ni) = ni
    \<and> span (pkt (skb s')) po (po + 2) = u16_to_ne np"
proof -
  let ?w = "zip (ip16_words oi) (ip16_words ni)"
  from r obtain b t p2 p3 where
    t: "(if \<not> b then and_then (csum_words K lc ?w s) (\<lambda>_ s.
         need (on_skb (l4_csum_replace K lc (ucast op) (ucast np) 2) s) s (\<lambda>s. (Some (), s)))
       else (Some (), s)) = (Some (), t)"
    and p2: "skb_store_bytes K io ni (skb t) = Some p2"
    and p3: "skb_store_bytes K po (u16_to_ne np) p2 = Some p3" and s': "s' = t\<lparr>skb := p3\<rparr>"
    unfolding rewrite_ipv6_port_def Let_def by (auto simp: done_simps)
  have "changed_only {lc..<lc + 2} (skb s) (skb t)"
  proof (cases b)
    case True then show ?thesis using t by auto
  next
    case False
    then obtain u where u: "csum_words K lc ?w s = (Some (), u)"
      and v: "l4_csum_replace K lc (ucast op) (ucast np) 2 (skb u) = Some (skb t)"
      using t by (auto simp: done_simps)
    show ?thesis using changed_only_trans [OF csum_words_effect [OF K u] l4_csum_ok [OF K v] ] by simp
  qed
  from changed_only_trans [OF this store2_effect(1) [OF K p2 p3] ]
    store2_effect(2,3) [OF K p2 p3] s' disj
  show ?thesis by simp
qed

lemma rewrite_l4_port_done:
  assumes "rewrite_l4_port K lo po op np pr s = (Some (), s')" "op \<noteq> np"
  obtains (disabled) p where "skb_store_bytes K po (u16_to_ne np) (skb s) = Some p" "s' = s\<lparr>skb := p\<rparr>"
  | (summed) q p where
      "l4_csum_replace K (if pr = IPPROTO_TCP then lo + 16 else lo + 6) (ucast op) (ucast np) 2 (skb s) = Some q"
      "skb_store_bytes K po (u16_to_ne np) q = Some p" "s' = s\<lparr>skb := p\<rparr>"
proof -
  let ?csum = "on_skb (l4_csum_replace K (if pr = IPPROTO_TCP then lo + 16 else lo + 6) (ucast op) (ucast np) 2)"
  let ?store = "on_skb (skb_store_bytes K po (u16_to_ne np))"
  define D where "D = (if pr = IPPROTO_UDP then map_option (\<lambda>c. c = 0) (load_u16 K (lo + 6) (skb s)) else Some False)"
  have "need D s (\<lambda>d. if d then need (?store s) s (\<lambda>s. (Some (), s))
      else need (?csum s) s (\<lambda>s. need (?store s) s (\<lambda>s. (Some (), s)))) = (Some (), s')"
    using assms unfolding rewrite_l4_port_def Let_def D_def by (simp only: if_False)
  then obtain d where d: "(if d then need (?store s) s (\<lambda>s. (Some (), s))
      else need (?csum s) s (\<lambda>s. need (?store s) s (\<lambda>s. (Some (), s)))) = (Some (), s')"
    unfolding need_eq_Some by blast
  show ?thesis
  proof (cases d)
    case True
    with d have "?store s = Some s'" by (simp add: need_eq_Some)
    then show ?thesis using disabled by (auto simp: on_skb_Some_iff)
  next
    case False
    with d obtain u where "?csum s = Some u" "?store u = Some s'" by (auto simp: need_eq_Some)
    then show ?thesis using summed by (auto simp: on_skb_Some_iff)
  qed
qed

lemma rewrite_l4_port_effect:
  assumes K: "kern_ok K" and r: "rewrite_l4_port K lo po op np pr s = (Some (), s')"
    and old: "span (pkt (skb s)) po (po + 2) = u16_to_ne op"
  shows "changed_only ({lo + 6..<lo + 8} \<union> {lo + 16..<lo + 18} \<union> {po..<po + 2}) (skb s) (skb s')
    \<and> span (pkt (skb s')) po (po + 2) = u16_to_ne np"
proof (cases "op = np")
  case True then show ?thesis using r old by (simp add: rewrite_l4_port_def)
next
  case False
  let ?S = "{lo + 6..<lo + 8} \<union> {lo + 16..<lo + 18}"
  from r False show ?thesis
  proof (cases rule: rewrite_l4_port_done)
    case (disabled p)
    from changed_only_mono [OF store_ok(1) [OF K disabled(1)], of "?S \<union> {po..<po + 2}"]
      store_ok(2) [OF K disabled(1)] disabled(2) show ?thesis by simp
  next
    case (summed q p)
    have "changed_only ?S (skb s) q"
      by (rule changed_only_mono [OF l4_csum_ok [OF K summed(1)] ]) auto
    from changed_only_trans [OF this store_ok(1) [OF K summed(2)] ] store_ok(2) [OF K summed(2)] summed(3)
    show ?thesis by simp
  qed
qed

text \<open>A load succeeds with a value exactly when the bytes are in range and are its encoding.\<close>

lemma load_u16_iff:
  assumes "kern_ok K"
  shows "load_u16 K off p = Some x \<longleftrightarrow> off + 2 \<le> length (pkt p) \<and> span (pkt p) off (off + 2) = u16_to_ne x"
  using u16_to_of_ne [of "span (pkt p) off (off + 2)"] by (auto simp: load_u16_def load_ok [OF assms])

lemma load_u32_iff:
  assumes "kern_ok K"
  shows "load_u32 K off p = Some x \<longleftrightarrow> off + 4 \<le> length (pkt p) \<and> span (pkt p) off (off + 4) = u32_to_ne x"
  using u32_to_of_ne [of "span (pkt p) off (off + 4)"] by (auto simp: load_u32_def load_ok [OF assms])

lemma load_ip16_iff:
  assumes "kern_ok K"
  shows "load_ip16 K off p = Some x \<longleftrightarrow> off + 16 \<le> length (pkt p) \<and> span (pkt p) off (off + 16) = x"
  by (auto simp: load_ip16_def load_ok [OF assms])

lemma changed_only_load:
  assumes "kern_ok K" "changed_only S p p'" "{off..<off + n} \<inter> S = {}"
  shows "skb_load_bytes K off n p' = skb_load_bytes K off n p"
  using changed_only_span [OF assms(2,3)] assms(2) by (simp add: load_ok [OF assms(1)] changed_only_def)

lemma same_frameD:
  assumes "same_frame p p'"
  shows "mark p' = mark p" "pkt_type p' = pkt_type p" "tun_key p' = tun_key p" "tun_opt p' = tun_opt p"
    "redirect_to p' = redirect_to p" "ifindex p' = ifindex p" "ingress_ifindex p' = ingress_ifindex p"
  using assms unfolding same_frame_def by (cases p; cases p'; simp)+

section \<open>Tables: what an insert leaves\<close>

lemma lruD:
  assumes "lru_contract ins" "ins k v m = Some m'"
  shows "m' k = Some v" "k' \<noteq> k \<Longrightarrow> m' k' = m k' \<or> m' k' = None"
  using assms unfolding lru_contract_def by metis+

lemma flow_insert_ok:
  assumes "kern_ok K" "flow_table_insert K k v s = Some s'"
  shows "FLOW_TABLE s' k = Some v"
    and "k' \<noteq> k \<Longrightarrow> FLOW_TABLE s' k' = FLOW_TABLE s k' \<or> FLOW_TABLE s' k' = None"
    and "s' = s\<lparr>FLOW_TABLE := FLOW_TABLE s'\<rparr>"
proof -
  obtain m where m: "flow_insert K k v (FLOW_TABLE s) = Some m" and s': "s' = s\<lparr>FLOW_TABLE := m\<rparr>"
    using assms(2) by (auto simp: flow_table_insert_def)
  have "lru_contract (flow_insert K)" using assms(1) by (simp add: kern_ok_def)
  note lruD [OF this m]
  with s' show "FLOW_TABLE s' k = Some v" "s' = s\<lparr>FLOW_TABLE := FLOW_TABLE s'\<rparr>"
    "k' \<noteq> k \<Longrightarrow> FLOW_TABLE s' k' = FLOW_TABLE s k' \<or> FLOW_TABLE s' k' = None"
    by simp_all
qed

lemma pending_insert_ok:
  assumes "kern_ok K" "pending_insert K k v m = Some m'"
  shows "m' k = Some v" "k' \<noteq> k \<Longrightarrow> m' k' = m k' \<or> m' k' = None"
  using assms lruD [of "pending_insert K"] by (simp_all add: kern_ok_def)

lemma flow_table_insert_control: "flow_table_insert K k v s = Some s' \<Longrightarrow> control s' = control s"
  by (auto simp: flow_table_insert_def)

lemma touch_forward_row_control [simp]: "control (touch_forward_row K key v pr tf side s) = control s"
  by (auto simp: touch_forward_row_def ignoring_def flow_table_insert_def split: flow_step_t.split option.split)

lemma touch_return_row_control [simp]: "control (touch_return_row K key v pr tf s) = control s"
  by (auto simp: touch_return_row_def ignoring_def flow_table_insert_def split: flow_step_t.split option.split)

lemma count_front_miss_control [simp]: "control (count_front_miss s) = control s"
  by (auto simp: count_front_miss_def split: option.split)

lemma touch_frames [simp]:
  "FWD_PENDING (touch_forward_row K key v pr tf side s) = FWD_PENDING s"
  "skb (touch_forward_row K key v pr tf side s) = skb s"
  "FRONT_MISSES (touch_forward_row K key v pr tf side s) = FRONT_MISSES s"
  "FWD_PENDING (touch_return_row K key r pr tf s) = FWD_PENDING s"
  "skb (touch_return_row K key r pr tf s) = skb s"
  "FRONT_MISSES (touch_return_row K key r pr tf s) = FRONT_MISSES s"
  by (auto simp: touch_forward_row_def touch_return_row_def ignoring_def flow_table_insert_def
      split: flow_step_t.split option.split)

lemma control_eqD:
  assumes "control s = control t"
  shows "FRONT_META s = FRONT_META t" "FRONT_ENDPOINTS s = FRONT_ENDPOINTS t" "POD_TARGETS s = POD_TARGETS t"
    "NODE_ALLOW s = NODE_ALLOW t" "CONFIG s = CONFIG t" "UPLINK_CONFIG s = UPLINK_CONFIG t"
  using assms by (simp_all add: control_def)

text \<open>\<open>flow_writes W s s'\<close>: every row of \<open>s'\<close> was already in \<open>s\<close> or satisfies \<open>W\<close>.\<close>

definition flow_writes :: "(flow_key \<Rightarrow> flow_value \<Rightarrow> bool) \<Rightarrow> node \<Rightarrow> node \<Rightarrow> bool" where
  "flow_writes W s s' \<longleftrightarrow> (\<forall>k v. FLOW_TABLE s' k = Some v \<longrightarrow> FLOW_TABLE s k = Some v \<or> W k v)"

lemma flow_writes_eq: "FLOW_TABLE s' = FLOW_TABLE s \<Longrightarrow> flow_writes W s s'"
  by (simp add: flow_writes_def)

lemma flow_writes_refl [simp]: "flow_writes W s s"
  by (simp add: flow_writes_eq)

lemma flow_writes_trans: "flow_writes W s t \<Longrightarrow> flow_writes W t u \<Longrightarrow> flow_writes W s u"
  unfolding flow_writes_def by blast

lemma flow_writes_mono:
  "flow_writes W s t \<Longrightarrow> (\<And>k v. W k v \<Longrightarrow> V k v) \<Longrightarrow> flow_writes V s t"
  unfolding flow_writes_def by blast

lemma flow_writes_only_skb: "only_skb t u \<Longrightarrow> flow_writes W s t \<Longrightarrow> flow_writes W s u"
  by (simp add: flow_writes_def only_skbD)

lemma flow_writes_insert:
  assumes "kern_ok K" "flow_table_insert K k v s = Some s'" "W k v"
  shows "flow_writes W s s'"
  unfolding flow_writes_def
  using flow_insert_ok(1,2) [OF assms(1,2)] assms(3) by (metis option.distinct(1) option.inject)

lemma touch_forward_row_writes:
  assumes "kern_ok K" "\<And>f. W key (from_forward (v\<lparr>fwd_flags := f\<rparr>))"
  shows "flow_writes W s (touch_forward_row K key v pr tf side s)"
  using assms by (auto simp: touch_forward_row_def ignoring_def intro: flow_writes_insert
      split: flow_step_t.split option.split)

lemma touch_return_row_writes:
  assumes "kern_ok K" "\<And>f. W key (from_reverse (v\<lparr>rev_flags := f\<rparr>))"
  shows "flow_writes W s (touch_return_row K key v pr tf s)"
  using assms by (auto simp: touch_return_row_def ignoring_def intro: flow_writes_insert
      split: flow_step_t.split option.split)

text \<open>A step that touches \<open>FLOW_TABLE\<close> (within \<open>W\<close>) and the packet, and at most removes pending
  entries. The rules below push it through the combinators of the program text.\<close>

definition flow_step_rel :: "(flow_key \<Rightarrow> flow_value \<Rightarrow> bool) \<Rightarrow> node \<Rightarrow> node \<Rightarrow> bool" where
  "flow_step_rel W s s' \<longleftrightarrow> flow_writes W s s' \<and> control s' = control s
     \<and> FWD_PENDING s' \<subseteq>\<^sub>m FWD_PENDING s \<and> FRONT_MISSES s' = FRONT_MISSES s"

lemma flow_step_rel_refl [simp, intro]: "flow_step_rel W s s"
  by (simp add: flow_step_rel_def)

lemma flow_step_rel_trans: "flow_step_rel W s t \<Longrightarrow> flow_step_rel W t u \<Longrightarrow> flow_step_rel W s u"
  unfolding flow_step_rel_def using flow_writes_trans map_le_trans by metis

lemma flow_step_rel_only: "only_skb t u \<Longrightarrow> flow_step_rel W s t \<Longrightarrow> flow_step_rel W s u"
  by (simp add: flow_step_rel_def flow_writes_only_skb control_only_skb only_skbD)

lemma flow_step_rel_on_skb: "on_skb f t = Some u \<Longrightarrow> flow_step_rel W s t \<Longrightarrow> flow_step_rel W s u"
  by (rule flow_step_rel_only [OF on_skb_only])

lemma flow_step_rel_insert:
  assumes "kern_ok K" "flow_table_insert K k v t = Some u" "W k v" "flow_step_rel W s t"
  shows "flow_step_rel W s u"
proof -
  have "FWD_PENDING u = FWD_PENDING t" "FRONT_MISSES u = FRONT_MISSES t"
    using assms(2) by (auto simp: flow_table_insert_def)
  then have "flow_step_rel W t u"
    using assms flow_writes_insert [of K k v t u W] flow_table_insert_control [OF assms(2)]
    by (simp add: flow_step_rel_def)
  with assms(4) show ?thesis by (rule flow_step_rel_trans)
qed

lemma flow_step_rel_remove:
  "flow_step_rel W s t \<Longrightarrow> m \<subseteq>\<^sub>m FWD_PENDING s \<Longrightarrow> flow_step_rel W s (t\<lparr>FWD_PENDING := m\<rparr>)"
  by (simp add: flow_step_rel_def flow_writes_def)

lemma flow_step_rel_need:
  "flow_step_rel W s t \<Longrightarrow> (\<And>v. x = Some v \<Longrightarrow> flow_step_rel W s (snd (k v))) \<Longrightarrow>
   flow_step_rel W s (snd (need x t k))"
  by (cases x) auto

lemma flow_step_rel_then:
  "flow_step_rel W s (snd r) \<Longrightarrow> (\<And>v u. r = (Some v, u) \<Longrightarrow> flow_step_rel W s u \<Longrightarrow> flow_step_rel W s (snd (k v u))) \<Longrightarrow>
   flow_step_rel W s (snd (and_then r k))"
  by (cases r; cases "fst r") auto

lemma flow_step_rel_if:
  "(b \<Longrightarrow> flow_step_rel W s (snd x)) \<Longrightarrow> (\<not> b \<Longrightarrow> flow_step_rel W s (snd y)) \<Longrightarrow>
   flow_step_rel W s (snd (if b then x else y))"
  by simp

lemma flow_step_rel_end: "flow_step_rel W s t \<Longrightarrow> flow_step_rel W s (snd (v, t))"
  by simp

lemma flow_step_rel_skb_case:
  "flow_step_rel W s t \<Longrightarrow> (\<And>u. flow_step_rel W s u \<Longrightarrow> flow_step_rel W s (snd (k u))) \<Longrightarrow>
   flow_step_rel W s (snd (case on_skb f t of None \<Rightarrow> (v, t) | Some u \<Rightarrow> k u))"
  by (auto split: option.split intro: flow_step_rel_on_skb)

lemmas flow_step_rel_pieces = only_skb_pieces [THEN flow_step_rel_only]

lemmas flow_step_rel_rules = flow_step_rel_need flow_step_rel_then flow_step_rel_if flow_step_rel_end
  flow_step_rel_skb_case flow_step_rel_pieces

section \<open>Tunnel addresses\<close>

text \<open>The remote written for a node address reads back as that address on the other side.\<close>

lemma set_get_tunnel_remote:
  assumes "length ip = 16" "set_tunnel_remote zeroed_tunnel_key ip = (tkey, flags)"
  shows "tunnel_remote tkey (flags = BPF_F_TUNINFO_IPV6) = ip"
    and "flags = (if unmap_ipv4 ip = None then BPF_F_TUNINFO_IPV6 else 0)"
proof -
  show f: "flags = (if unmap_ipv4 ip = None then BPF_F_TUNINFO_IPV6 else 0)"
    using assms(2) by (auto simp: set_tunnel_remote_def Let_def split: option.splits)
  have join: "span ip 0 4 @ span ip 4 8 @ span ip 8 12 @ span ip 12 16 = ip"
    using assms(1) by (simp add: span_join)
  show "tunnel_remote tkey (flags = BPF_F_TUNINFO_IPV6) = ip"
  proof (cases "unmap_ipv4 ip")
    case (Some v4)
    then have "tkey = zeroed_tunnel_key\<lparr>tk_remote := [v4, 0, 0, 0]\<rparr>" "flags = 0"
      using assms(2) by (auto simp: set_tunnel_remote_def zeroed_tunnel_key_def)
    then show ?thesis using mapped_unmap [OF assms(1) Some]
      by (simp add: tunnel_remote_def tunnel_remote_addr_def BPF_F_TUNINFO_IPV6_def)
  next
    case None
    then have "tk_remote tkey = [u32_of_ne (span ip 0 4), u32_of_ne (span ip 4 8),
        u32_of_ne (span ip 8 12), u32_of_ne (span ip 12 16)]"
      using assms(2) by (auto simp: set_tunnel_remote_def upt_rec)
    then show ?thesis using None f assms(1) join
      by (simp add: tunnel_remote_def tunnel_remote_addr_v6 del: append_assoc)
  qed
qed

text \<open>What a packet redirected into the tunnel carries.\<close>

definition tunnelled :: "ip16 \<Rightarrow> u32 \<Rightarrow> bytes \<Rightarrow> u32 \<Rightarrow> sk_buff \<Rightarrow> bool" where
  "tunnelled remote vni opt gi p \<longleftrightarrow>
     (\<exists>k fl. tun_key p = Some (k, fl) \<and> tunnel_id k = vni \<and> tunnel_ttl k = 64
        \<and> fl = (if unmap_ipv4 remote = None then BPF_F_TUNINFO_IPV6 else 0)
        \<and> length (tk_remote k) = 4
        \<and> tunnel_remote k (fl = BPF_F_TUNINFO_IPV6) = remote)
     \<and> tun_opt p = opt \<and> redirect_to p = Some (ToDevice gi)"

lemma redirect_to_geneve_tunnelled:
  assumes K: "kern_ok K" and len: "length remote = 16"
    and r: "redirect_to_geneve K gi remote vni opt et s = (Some TC_ACT_REDIRECT, s')"
  shows "tunnelled remote vni opt gi (skb s')
    \<and> pkt (skb s') = (if et = NO_L3_ETHERTYPE then pkt (skb s)
                      else patch (zeroes ETH_HLEN @ pkt (skb s)) 12 (u16_to_ne et))"
proof -
  obtain k fl where st: "set_tunnel_remote zeroed_tunnel_key remote = (k, fl)" by fastforce
  let ?k = "k\<lparr>tunnel_id := vni, tunnel_ttl := 64\<rparr>"
  have four: "length (tk_remote k) = 4"
    using st by (auto simp: set_tunnel_remote_def zeroed_tunnel_key_def Let_def split: option.splits)
  have rem: "tunnel_remote ?k (fl = BPF_F_TUNINFO_IPV6) = remote"
    using set_get_tunnel_remote(1) [OF len st] by (simp add: tunnel_remote_def)
  have c: "skb_set_tunnel_key K a b p = Some p' \<Longrightarrow> p' = p\<lparr>tun_key := Some (a, b)\<rparr>"
    "skb_set_tunnel_opt K o' p = Some p' \<Longrightarrow> p' = p\<lparr>tun_opt := o'\<rparr>"
    "skb_change_head K n p = Some p' \<Longrightarrow> pkt p' = zeroes n @ pkt p \<and> same_frame p p'"
    "bpf_redirect K i p = Some p' \<Longrightarrow> p' = p\<lparr>redirect_to := Some (ToDevice i)\<rparr>"
    "skb_store_bytes K off bs p = Some p' \<Longrightarrow> pkt p' = patch (pkt p) off bs \<and> same_frame p p'" for a b p p' o' n i off bs
    using K unfolding kern_ok_def tunnel_contract_def transmit_contract_def store_contract_def by metis+
  from r obtain p1 p2 where p1: "skb_set_tunnel_key K ?k fl (skb s) = Some p1"
    and p2: "skb_set_tunnel_opt K opt p1 = Some p2"
    unfolding redirect_to_geneve_def st Let_def prod.case on_skb_def by (auto split: option.splits)
  have p2': "p2 = (skb s)\<lparr>tun_key := Some (?k, fl), tun_opt := opt\<rparr>"
    using c(1) [OF p1] c(2) [OF p2] by simp
  have fin: "tunnelled remote vni opt gi (p\<lparr>redirect_to := Some (ToDevice gi)\<rparr>)"
    if "tun_key p = Some (?k, fl)" "tun_opt p = opt" for p
    using that rem set_get_tunnel_remote(2) [OF len st] four by (simp add: tunnelled_def)
  show ?thesis
  proof (cases "et = NO_L3_ETHERTYPE")
    case True
    with r p1 p2 have "bpf_redirect K gi p2 = Some (skb s')"
      unfolding redirect_to_geneve_def st Let_def prod.case on_skb_def by (auto split: option.splits)
    from c(4) [OF this] fin [of p2] p2' True show ?thesis by simp
  next
    case False
    with r p1 p2 obtain p3 p4 where p3: "skb_change_head K ETH_HLEN p2 = Some p3"
      and p4: "skb_store_bytes K 12 (u16_to_ne et) p3 = Some p4" and p5: "bpf_redirect K gi p4 = Some (skb s')"
      unfolding redirect_to_geneve_def st Let_def prod.case on_skb_def by (auto split: option.splits)
    have f: "same_frame p2 p4"
      using c(3) [OF p3] c(5) [OF p4] same_frame_trans by blast
    have "tun_key p4 = Some (?k, fl)" "tun_opt p4 = opt"
      unfolding same_frameD [OF f] p2' by simp_all
    from fin [OF this] c(3) [OF p3] c(5) [OF p4] c(4) [OF p5] p2' False show ?thesis by simp
  qed
qed

section \<open>Properties\<close>

text \<open>The tunnel remote survives the trip through \<open>bpf_tunnel_key\<close>: what \<open>set_tunnel_remote\<close> writes
  for a node address, with the flags it returns, \<open>tunnel_remote\<close> reads back as that address, for
  both underlay families.\<close>

lemma tunnel_remote_round_trip:
  assumes "length ip = 16"
  shows "case set_tunnel_remote zeroed_tunnel_key ip of (tkey, flags) \<Rightarrow>
      tunnel_remote tkey (flags = BPF_F_TUNINFO_IPV6) = ip
      \<and> (flags = BPF_F_TUNINFO_IPV6 \<longleftrightarrow> (\<forall>w. ip \<noteq> ipv4_mapped_v6 w))"
proof -
  obtain k fl where st: "set_tunnel_remote zeroed_tunnel_key ip = (k, fl)" by fastforce
  have "unmap_ipv4 ip = None \<longleftrightarrow> (\<forall>w. ip \<noteq> ipv4_mapped_v6 w)"
    using mapped_unmap [OF assms] by (cases "unmap_ipv4 ip") auto
  then show ?thesis using set_get_tunnel_remote [OF assms st] st by (auto simp: BPF_F_TUNINFO_IPV6_def)
qed

end
