(* ===== verification/Ebpf_Ingress.thy ===== *)
theory Ebpf_Ingress
  imports Ebpf_Kernel
begin

text \<open>
  Hook 1 of \<open>ebpf/src/main.rs\<close>: \<open>uplink_ingress\<close>, the classifier on every uplink's ingress. It
  parses the client's packet, picks or reuses a backend (\<open>ingress_backend\<close>) and sends the packet
  into the Geneve tunnel. The lemmas fix what it may do to the tables: a new flow reaches
  \<open>FWD_PENDING\<close> only.
\<close>

record ingress_flow =
  if_front :: lb_front_key
  if_client_ip :: ip16
  if_client_port :: u16
  if_ethertype :: u16
  if_tcp_flags :: u8

definition ingress_backend ::
  "kern \<Rightarrow> lb_front_key \<Rightarrow> ip16 \<Rightarrow> u16 \<Rightarrow> tcp_flow_key \<Rightarrow> flow_key \<Rightarrow> u32 \<Rightarrow> u8 \<Rightarrow> node \<Rightarrow>
   (verdict + lb_front_backend \<times> u16) \<times> node" where
  "ingress_backend K front client_ip client_port flow_key fwd_key ingress_if tcp_flags s =
     (case front_meta_get s front of
        None \<Rightarrow> (Inl TC_ACT_OK, s)
      | Some meta \<Rightarrow>
     (case map_option cfg_flow_hash_seed (CONFIG s) of
        None \<Rightarrow> (Inl TC_ACT_OK, s)
      | Some seed \<Rightarrow>
          let established = flow_table_get_forward s fwd_key;
              s = (case established of
                     Some v \<Rightarrow> touch_forward_row K fwd_key v (lfk_proto front) tcp_flags Client s
                   | None \<Rightarrow> s);
              pending = (if established \<noteq> None then None else fwd_pending_get s flow_key)
          in case ingress_steer meta established pending
                    (front_flow_hash seed client_ip client_port front meta) front (front_endpoints_get s) of
               SteerForward backend target_port \<Rightarrow>
                 (case forward_admission (established \<noteq> None) of
                    MintPending \<Rightarrow>
                      (let admitted = \<lparr>fwd_backend = backend, fwd_ingress_ifindex = ingress_if,
                                       fwd_target_port = target_port, fwd_flags = 0\<rparr>
                       in case fwd_pending_affinity_pin pending admitted of
                            PinInsert candidate \<Rightarrow>
                              (case pending_insert K flow_key candidate (FWD_PENDING s) of
                                 None \<Rightarrow> (Inl TC_ACT_OK, s)
                               | Some m \<Rightarrow> (Inr (backend, target_port), s\<lparr>FWD_PENDING := m\<rparr>))
                          | PinKeep \<Rightarrow> (Inr (backend, target_port), s))
                  | FwdEstablished \<Rightarrow> (Inr (backend, target_port), s))
             | SteerDrop \<Rightarrow> (Inl TC_ACT_SHOT, count_front_miss s)))"

definition uplink_ingress_encap ::
  "kern \<Rightarrow> u32 \<Rightarrow> ingress_flow \<Rightarrow> bool \<Rightarrow> node \<Rightarrow> verdict option \<times> node" where
  "uplink_ingress_encap K ingress_if flow l3_only s =
     (let key = if_front flow;
          flow_key = encode_tcp_flow_key (if_client_ip flow) (if_client_port flow)
                       (lfk_front_ip key) (lfk_front_port key) (lfk_proto key);
          fwd_key = encode_flow_key (if_client_ip flow) (if_client_port flow)
                      (lfk_front_ip key) (lfk_front_port key) (lfk_proto key) Forward
      in case ingress_backend K key (if_client_ip flow) (if_client_port flow) flow_key fwd_key
                ingress_if (if_tcp_flags flow) s of
           (Inl verdict, s) \<Rightarrow> (Some verdict, s)
         | (Inr (backend, target_port), s) \<Rightarrow>
             need (map_option cfg_geneve_ifindex (CONFIG s)) s (\<lambda>geneve_ifindex.
               redirect_to_geneve K geneve_ifindex (backend_node_ip backend) VNI_FWD
                 (encode_pod_id_option (pod_ip backend) target_port)
                 (if l3_only then if_ethertype flow else NO_L3_ETHERTYPE) s))"

definition try_uplink_ingress_headers_v4 :: "kern \<Rightarrow> nat \<Rightarrow> sk_buff \<Rightarrow> ingress_flow option" where
  "try_uplink_ingress_headers_v4 K l2_hlen_c p =
     Option.bind (if l2_hlen_c = 0 then load_u8 K 0 p else direct_u8 l2_hlen_c p) (\<lambda>ver_ihl.
     if drop_bit 4 ver_ihl \<noteq> 4 \<or> ver_ihl AND 0x0f \<noteq> 5 then None
     else
       let ip_proto = l2_hlen_c + 9; ip_src = l2_hlen_c + 12; ip_dst = l2_hlen_c + 16;
           l4_off = l2_hlen_c + IP_HLEN; l4_sport = l4_off; l4_dport = l4_off + 2
       in Option.bind (direct_u8 ip_proto p) (\<lambda>proto.
          if proto \<noteq> IPPROTO_TCP \<and> proto \<noteq> IPPROTO_UDP then None
          else
            Option.bind (direct_u32 ip_dst p) (\<lambda>dst_ip.
            Option.bind (direct_u16 l4_dport p) (\<lambda>dst_port.
            Option.bind (direct_u32 ip_src p) (\<lambda>src_ip.
            Option.bind (direct_u16 l4_sport p) (\<lambda>src_port.
            Option.bind (if proto = IPPROTO_TCP then direct_u8 (l4_off + 13) p else Some 0) (\<lambda>tcp_flags.
            Some \<lparr>if_front = \<lparr>lfk_front_ip = ipv4_mapped_v6 dst_ip, lfk_front_port = dst_port,
                               lfk_proto = proto, lfk_pad = 0\<rparr>,
                  if_client_ip = ipv4_mapped_v6 src_ip, if_client_port = src_port,
                  if_ethertype = ETH_P_IPV4, if_tcp_flags = tcp_flags\<rparr>)))))))"

definition try_uplink_ingress_headers_v6 :: "kern \<Rightarrow> nat \<Rightarrow> sk_buff \<Rightarrow> ingress_flow option" where
  "try_uplink_ingress_headers_v6 K l2_hlen_c p =
     Option.bind (if l2_hlen_c = 0 then load_u8 K 0 p else direct_u8 l2_hlen_c p) (\<lambda>ver.
     if drop_bit 4 ver \<noteq> 6 then None
     else
       let ip6_next_hdr = l2_hlen_c + 6; ip6_src = l2_hlen_c + 8; ip6_dst = l2_hlen_c + 24;
           l4_off = l2_hlen_c + IP6_HLEN; l4_sport = l4_off; l4_dport = l4_off + 2
       in Option.bind (direct_u8 ip6_next_hdr p) (\<lambda>proto.
          if proto \<noteq> IPPROTO_TCP \<and> proto \<noteq> IPPROTO_UDP then None
          else
            Option.bind (direct_ip16 ip6_dst p) (\<lambda>front_ip_v6.
            Option.bind (direct_u16 l4_dport p) (\<lambda>dst_port.
            Option.bind (direct_ip16 ip6_src p) (\<lambda>client_ip_v6.
            Option.bind (direct_u16 l4_sport p) (\<lambda>src_port.
            Option.bind (if proto = IPPROTO_TCP then direct_u8 (l4_off + 13) p else Some 0) (\<lambda>tcp_flags.
            Some \<lparr>if_front = \<lparr>lfk_front_ip = front_ip_v6, lfk_front_port = dst_port,
                               lfk_proto = proto, lfk_pad = 0\<rparr>,
                  if_client_ip = client_ip_v6, if_client_port = src_port,
                  if_ethertype = ETH_P_IPV6, if_tcp_flags = tcp_flags\<rparr>)))))))"

definition try_uplink_ingress_headers :: "kern \<Rightarrow> nat \<Rightarrow> sk_buff \<Rightarrow> ingress_flow option" where
  "try_uplink_ingress_headers K l2_hlen_c p =
     (if l2_hlen_c = ETH_HLEN then
        Option.bind (direct_u16 12 p) (\<lambda>et.
          if et = ETH_P_IPV4 then try_uplink_ingress_headers_v4 K l2_hlen_c p
          else if et = ETH_P_IPV6 then try_uplink_ingress_headers_v6 K l2_hlen_c p
          else None)
      else
        Option.bind (load_u8 K 0 p) (\<lambda>ver.
          if drop_bit 4 ver = 4 then try_uplink_ingress_headers_v4 K l2_hlen_c p
          else if drop_bit 4 ver = 6 then try_uplink_ingress_headers_v6 K l2_hlen_c p
          else None))"

definition try_uplink_ingress :: "kern \<Rightarrow> node \<Rightarrow> verdict option \<times> node" where
  "try_uplink_ingress K s =
     (let ingress_if = ingress_ifindex (skb s)
      in need (uplink_config_get s ingress_if) s (\<lambda>uc.
         let hlen = unat (l2_hlen uc);
             flow = (if hlen = 0 then try_uplink_ingress_headers K 0 (skb s)
                     else if hlen = ETH_HLEN then try_uplink_ingress_headers K ETH_HLEN (skb s)
                     else None)
         in case flow of
              Some flow \<Rightarrow> uplink_ingress_encap K ingress_if flow (hlen = 0) s
            | None \<Rightarrow> (Some TC_ACT_OK, s)))"

definition unwrap_or :: "verdict \<Rightarrow> verdict option \<times> node \<Rightarrow> verdict \<times> node" where
  "unwrap_or d r = (case fst r of Some v \<Rightarrow> v | None \<Rightarrow> d, snd r)"

definition uplink_ingress :: "kern \<Rightarrow> node \<Rightarrow> verdict \<times> node" where
  "uplink_ingress K s = unwrap_or TC_ACT_OK (try_uplink_ingress K s)"

section \<open>Lemmas: steering and admission\<close>

lemma snd_unwrap_or [simp]: "snd (unwrap_or d r) = snd r"
  by (simp add: unwrap_or_def)

lemma fst_unwrap_or: "fst (unwrap_or d r) = (case fst r of Some v \<Rightarrow> v | None \<Rightarrow> d)"
  by (simp add: unwrap_or_def)

text \<open>The pin of a flow: its established row, else its pending entry.\<close>

definition pinned :: "node \<Rightarrow> tcp_flow_key \<Rightarrow> flow_key \<Rightarrow> forward_flow_value option" where
  "pinned s key fwd_key =
     (case flow_table_get_forward s fwd_key of Some v \<Rightarrow> Some v | None \<Rightarrow> fwd_pending_get s key)"

lemma ingress_backend_no_front:
  "FRONT_META s front = None \<Longrightarrow> ingress_backend K front cip cp key fkey i tf s = (Inl TC_ACT_OK, s)"
  by (simp add: ingress_backend_def front_meta_get_def)

lemma ingress_backend_pinned:
  assumes "FRONT_META s front = Some meta" "CONFIG s = Some cfg" "pinned s key fkey = Some pin"
  shows "fst (ingress_backend K front cip cp key fkey i tf s) = Inr (fwd_backend pin, fwd_target_port pin)
    \<and> FWD_PENDING (snd (ingress_backend K front cip cp key fkey i tf s)) = FWD_PENDING s"
  using assms
  by (cases "flow_table_get_forward s fkey")
    (auto simp: ingress_backend_def front_meta_get_def pinned_def Let_def ingress_steer_pinned
      decision_defs)

lemma ingress_backend_unpinned:
  assumes "FRONT_META s front = Some meta" "CONFIG s = Some cfg" "pinned s key fkey = None"
  shows "ingress_backend K front cip cp key fkey i tf s =
    (case ingress_steer meta None None (front_flow_hash (cfg_flow_hash_seed cfg) cip cp front meta)
            front (FRONT_ENDPOINTS s) of
       SteerDrop \<Rightarrow> (Inl TC_ACT_SHOT, count_front_miss s)
     | SteerForward b t \<Rightarrow>
         (case pending_insert K key \<lparr>fwd_backend = b, fwd_ingress_ifindex = i, fwd_target_port = t, fwd_flags = 0\<rparr>
                 (FWD_PENDING s) of
            None \<Rightarrow> (Inl TC_ACT_OK, s)
          | Some m \<Rightarrow> (Inr (b, t), s\<lparr>FWD_PENDING := m\<rparr>)))"
proof -
  have n: "flow_table_get_forward s fkey = None" "fwd_pending_get s key = None"
    using assms(3) by (auto simp: pinned_def split: option.splits)
  have e: "front_endpoints_get s = FRONT_ENDPOINTS s" by (simp add: front_endpoints_get_def fun_eq_iff)
  show ?thesis
    using assms(1,2) n
    by (auto simp: ingress_backend_def front_meta_get_def Let_def decision_defs e
        split: ingress_steer_t.split option.split)
qed

lemma ingress_backend_cases:
  obtains (pass) "ingress_backend K front cip cp key fkey i tf s = (Inl TC_ACT_OK, s)"
  | (pinned) meta cfg pin where "FRONT_META s front = Some meta" "CONFIG s = Some cfg"
      "pinned s key fkey = Some pin"
  | (new) meta cfg where "FRONT_META s front = Some meta" "CONFIG s = Some cfg"
      "pinned s key fkey = None"
  by (cases "FRONT_META s front"; cases "CONFIG s"; cases "pinned s key fkey")
    (auto simp: ingress_backend_def front_meta_get_def)

lemma ingress_backend_control: "control (snd (ingress_backend K front cip cp key fkey i tf s)) = control s"
proof (cases rule: ingress_backend_cases [of K front cip cp key fkey i tf s])
  case pass then show ?thesis by simp
next
  case (pinned meta cfg pin)
  then show ?thesis
    by (cases "flow_table_get_forward s fkey")
      (auto simp: ingress_backend_def front_meta_get_def pinned_def Let_def ingress_steer_pinned decision_defs)
next
  case (new meta cfg)
  then show ?thesis
    by (auto simp: ingress_backend_unpinned split: ingress_steer_t.split option.split)
qed

text \<open>Writes of a client packet: a flag refresh of its own existing row, nothing else.\<close>

definition refresh_of :: "node \<Rightarrow> flow_key \<Rightarrow> flow_value \<Rightarrow> bool" where
  "refresh_of s k v \<longleftrightarrow> (\<exists>old f. FLOW_TABLE s k = Some old \<and> v = from_forward ((as_forward old)\<lparr>fwd_flags := f\<rparr>))"

lemma ingress_backend_writes:
  assumes K: "kern_ok K"
  shows "flow_writes (\<lambda>k v. k = fkey \<and> refresh_of s k v) s (snd (ingress_backend K front cip cp key fkey i tf s))"
proof (cases rule: ingress_backend_cases [of K front cip cp key fkey i tf s])
  case pass then show ?thesis by simp
next
  case (pinned meta cfg pin)
  show ?thesis
  proof (cases "flow_table_get_forward s fkey")
    case None
    then show ?thesis using pinned
      by (auto simp: ingress_backend_def front_meta_get_def pinned_def Let_def ingress_steer_pinned decision_defs)
  next
    case (Some v)
    then have "flow_writes (\<lambda>k v. k = fkey \<and> refresh_of s k v) s (touch_forward_row K fkey v (lfk_proto front) tf Client s)"
      by (intro touch_forward_row_writes K) (auto simp: flow_table_get_forward_def refresh_of_def)
    then show ?thesis using pinned Some
      by (auto simp: ingress_backend_def front_meta_get_def pinned_def Let_def ingress_steer_pinned decision_defs)
  qed
next
  case (new meta cfg)
  then have "FLOW_TABLE (snd (ingress_backend K front cip cp key fkey i tf s)) = FLOW_TABLE s"
    by (auto simp: ingress_backend_unpinned count_front_miss_def split: ingress_steer_t.split option.split)
  then show ?thesis by (rule flow_writes_eq)
qed

text \<open>A pending entry appears only for a flow with no pin, with the backend chosen for it and the
  uplink the packet came in on.\<close>

lemma ingress_backend_pending:
  assumes K: "kern_ok K"
    and new: "FWD_PENDING (snd (ingress_backend K front cip cp key fkey i tf s)) k = Some v"
      "FWD_PENDING s k \<noteq> Some v"
  shows "k = key \<and> pinned s key fkey = None \<and> fwd_ingress_ifindex v = i \<and> fwd_flags v = 0
    \<and> fst (ingress_backend K front cip cp key fkey i tf s) = Inr (fwd_backend v, fwd_target_port v)"
proof (cases rule: ingress_backend_cases [of K front cip cp key fkey i tf s])
  case pass then show ?thesis using new by simp
next
  case (pinned meta cfg pin)
  then show ?thesis using new ingress_backend_pinned by metis
next
  case (new meta cfg)
  note eq = ingress_backend_unpinned [OF new, of K cip cp i tf]
  let ?steer = "ingress_steer meta None None (front_flow_hash (cfg_flow_hash_seed cfg) cip cp front meta)
    front (FRONT_ENDPOINTS s)"
  show ?thesis
  proof (cases ?steer)
    case SteerDrop
    then show ?thesis using assms(2,3) eq by (auto simp: count_front_miss_def split: option.splits)
  next
    case (SteerForward b t)
    let ?v = "\<lparr>fwd_backend = b, fwd_ingress_ifindex = i, fwd_target_port = t, fwd_flags = 0\<rparr>"
    obtain m where m: "pending_insert K key ?v (FWD_PENDING s) = Some m" and mk: "m k = Some v"
      using assms(2,3) eq SteerForward by (cases "pending_insert K key ?v (FWD_PENDING s)") auto
    have key: "k = key" using pending_insert_ok(2) [OF K m, of k] mk assms(3) by auto
    then have "v = ?v" using pending_insert_ok(1) [OF K m] mk by simp
    then show ?thesis using new(3) eq SteerForward m key by simp
  qed
qed

section \<open>Lemmas: the whole hook\<close>

definition pending_key :: "ingress_flow \<Rightarrow> tcp_flow_key" where
  "pending_key flow = encode_tcp_flow_key (if_client_ip flow) (if_client_port flow)
     (lfk_front_ip (if_front flow)) (lfk_front_port (if_front flow)) (lfk_proto (if_front flow))"

definition forward_key :: "ingress_flow \<Rightarrow> flow_key" where
  "forward_key flow = encode_flow_key (if_client_ip flow) (if_client_port flow)
     (lfk_front_ip (if_front flow)) (lfk_front_port (if_front flow)) (lfk_proto (if_front flow)) Forward"

definition steer_flow :: "kern \<Rightarrow> u32 \<Rightarrow> ingress_flow \<Rightarrow> node \<Rightarrow> (verdict + lb_front_backend \<times> u16) \<times> node" where
  "steer_flow K i flow s = ingress_backend K (if_front flow) (if_client_ip flow) (if_client_port flow)
     (pending_key flow) (forward_key flow) i (if_tcp_flags flow) s"

text \<open>The flow an uplink packet belongs to, if the hook classifies it at all.\<close>

definition classify :: "kern \<Rightarrow> node \<Rightarrow> (ingress_flow \<times> bool) option" where
  "classify K s =
     (case UPLINK_CONFIG s (ingress_ifindex (skb s)) of
        None \<Rightarrow> None
      | Some uc \<Rightarrow>
          if unat (l2_hlen uc) = 0 then map_option (\<lambda>f. (f, True)) (try_uplink_ingress_headers K 0 (skb s))
          else if unat (l2_hlen uc) = ETH_HLEN
          then map_option (\<lambda>f. (f, False)) (try_uplink_ingress_headers K ETH_HLEN (skb s))
          else None)"

lemma uplink_ingress_pass: "classify K s = None \<Longrightarrow> uplink_ingress K s = (TC_ACT_OK, s)"
  by (auto simp: classify_def uplink_ingress_def try_uplink_ingress_def uplink_config_get_def unwrap_or_def
      Let_def need_def split: option.splits if_splits)

lemma uplink_ingress_classified:
  assumes "classify K s = Some (flow, l3)"
  shows "uplink_ingress K s =
    (case steer_flow K (ingress_ifindex (skb s)) flow s of
       (Inl v, t) \<Rightarrow> (v, t)
     | (Inr (b, port), t) \<Rightarrow>
         unwrap_or TC_ACT_OK (need (map_option cfg_geneve_ifindex (CONFIG t)) t (\<lambda>g.
           redirect_to_geneve K g (backend_node_ip b) VNI_FWD (encode_pod_id_option (pod_ip b) port)
             (if l3 then if_ethertype flow else NO_L3_ETHERTYPE) t)))"
proof -
  have "uplink_ingress K s =
      unwrap_or TC_ACT_OK (uplink_ingress_encap K (ingress_ifindex (skb s)) flow l3 s)"
    using assms by (auto simp: classify_def uplink_ingress_def try_uplink_ingress_def
        uplink_config_get_def Let_def ETH_HLEN_def split: option.splits if_splits)
  also have "\<dots> = (case steer_flow K (ingress_ifindex (skb s)) flow s of
       (Inl v, t) \<Rightarrow> (v, t)
     | (Inr (b, port), t) \<Rightarrow>
         unwrap_or TC_ACT_OK (need (map_option cfg_geneve_ifindex (CONFIG t)) t (\<lambda>g.
           redirect_to_geneve K g (backend_node_ip b) VNI_FWD (encode_pod_id_option (pod_ip b) port)
             (if l3 then if_ethertype flow else NO_L3_ETHERTYPE) t)))"
    by (auto simp: uplink_ingress_encap_def steer_flow_def pending_key_def forward_key_def Let_def
        unwrap_or_def split: sum.split prod.split)
  finally show ?thesis .
qed

lemma uplink_ingress_state:
  assumes "classify K s = Some (flow, l3)"
  shows "only_skb (snd (steer_flow K (ingress_ifindex (skb s)) flow s)) (snd (uplink_ingress K s))"
  unfolding uplink_ingress_classified [OF assms]
  by (auto split: prod.split sum.split intro!: need_rel [where R = only_skb] redirect_to_geneve_only)

lemma uplink_ingress_control: "control (snd (uplink_ingress K s)) = control s"
proof (cases "classify K s")
  case None then show ?thesis by (simp add: uplink_ingress_pass)
next
  case (Some fl)
  then obtain flow l3 where "classify K s = Some (flow, l3)" by (cases fl) auto
  from control_only_skb [OF uplink_ingress_state [OF this] ] show ?thesis
    by (simp add: steer_flow_def ingress_backend_control)
qed

definition skb_wf :: "sk_buff \<Rightarrow> bool" where
  "skb_wf p \<longleftrightarrow> linear p \<le> length (pkt p)"

lemma direct_ip16_length: "skb_wf p \<Longrightarrow> direct_ip16 off p = Some ip \<Longrightarrow> length ip = 16"
  by (auto simp: direct_ip16_def load_direct_def skb_wf_def split: if_splits)

lemma headers_lengths:
  assumes "skb_wf p" "try_uplink_ingress_headers K h p = Some flow"
  shows "length (if_client_ip flow) = 16 \<and> length (lfk_front_ip (if_front flow)) = 16"
proof -
  have v4: "length (if_client_ip flow) = 16 \<and> length (lfk_front_ip (if_front flow)) = 16"
    if "try_uplink_ingress_headers_v4 K h p = Some flow"
    using that by (auto simp: try_uplink_ingress_headers_v4_def Let_def bind_eq_Some_conv split: if_splits)
  have v6: "length (if_client_ip flow) = 16 \<and> length (lfk_front_ip (if_front flow)) = 16"
    if "try_uplink_ingress_headers_v6 K h p = Some flow"
    using that direct_ip16_length [OF assms(1)]
    by (auto simp: try_uplink_ingress_headers_v6_def Let_def bind_eq_Some_conv split: if_splits)
  show ?thesis using assms(2) v4 v6
    by (auto simp: try_uplink_ingress_headers_def bind_eq_Some_conv split: if_splits)
qed

lemma classify_lengths:
  assumes "skb_wf (skb s)" "classify K s = Some (flow, l3)"
  shows "length (if_client_ip flow) = 16" "length (lfk_front_ip (if_front flow)) = 16"
proof -
  obtain h where "try_uplink_ingress_headers K h (skb s) = Some flow"
    using assms(2) by (auto simp: classify_def split: option.splits if_splits)
  from headers_lengths [OF assms(1) this]
  show "length (if_client_ip flow) = 16" "length (lfk_front_ip (if_front flow)) = 16" by simp_all
qed

lemma uplink_ingress_writes:
  assumes K: "kern_ok K" and wf: "skb_wf (skb s)"
  shows "flow_writes (\<lambda>k v. flow_key_direction k = Some Forward \<and> refresh_of s k v) s (snd (uplink_ingress K s))"
proof (cases "classify K s")
  case None then show ?thesis by (simp add: uplink_ingress_pass)
next
  case (Some fl)
  then obtain flow l3 where c: "classify K s = Some (flow, l3)" by (cases fl) auto
  have "flow_writes (\<lambda>k v. k = forward_key flow \<and> refresh_of s k v) s
      (snd (steer_flow K (ingress_ifindex (skb s)) flow s))"
    unfolding steer_flow_def by (rule ingress_backend_writes [OF K])
  then have "flow_writes (\<lambda>k v. flow_key_direction k = Some Forward \<and> refresh_of s k v) s
      (snd (steer_flow K (ingress_ifindex (skb s)) flow s))"
    by (rule flow_writes_mono)
      (auto simp: forward_key_def flow_key_direction_encode classify_lengths [OF wf c])
  then show ?thesis by (rule flow_writes_only_skb [OF uplink_ingress_state [OF c] ])
qed

lemma uplink_ingress_pending:
  assumes K: "kern_ok K" and new: "FWD_PENDING (snd (uplink_ingress K s)) k = Some v" "FWD_PENDING s k \<noteq> Some v"
  obtains flow l3 where "classify K s = Some (flow, l3)" "k = pending_key flow"
    "pinned s k (forward_key flow) = None" "fwd_ingress_ifindex v = ingress_ifindex (skb s)" "fwd_flags v = 0"
    "fst (steer_flow K (ingress_ifindex (skb s)) flow s) = Inr (fwd_backend v, fwd_target_port v)"
proof (cases "classify K s")
  case None then show ?thesis using new by (simp add: uplink_ingress_pass)
next
  case (Some fl)
  then obtain flow l3 where c: "classify K s = Some (flow, l3)" by (cases fl) auto
  have "FWD_PENDING (snd (steer_flow K (ingress_ifindex (skb s)) flow s)) k = Some v"
    using new(1) only_skbD(6) [OF uplink_ingress_state [OF c] ] by simp
  from ingress_backend_pending [OF K this [unfolded steer_flow_def] new(2)] that [OF c] show ?thesis
    by (simp add: steer_flow_def)
qed

end
