(* ===== verification/Ebpf_Decap.thy ===== *)
theory Ebpf_Decap
  imports Ebpf_Ingress
begin

text \<open>
  Hooks 2 and 4 of \<open>ebpf/src/main.rs\<close>: \<open>geneve_ingress\<close> on \<open>geneve0\<close>, which dispatches on the VNI
  into the backend's forward decapsulation (admit, record the reverse row, DNAT to the pod) and
  the ingress node's return decapsulation (authorise or promote the flow, un-DNAT, redirect to
  the client's uplink).
\<close>

section \<open>Forward decapsulation\<close>

definition commit_reverse_row ::
  "kern \<Rightarrow> flow_key \<Rightarrow> rev_flow_value \<Rightarrow> u8 \<Rightarrow> u8 \<Rightarrow> node \<Rightarrow> unit option \<times> node" where
  "commit_reverse_row K rev_key rev_value proto tcp_flags s =
     (let stored = flow_table_get_reverse s rev_key;
          mine = (case stored of
                    Some v \<Rightarrow>
                      if \<not> occupant_conflicts
                             (Some ((rev_front_ip v, rev_front_port v), rev_original_client_port v))
                             (rev_front_ip rev_value, rev_front_port rev_value)
                             (rev_original_client_port rev_value)
                      then Some v else None
                  | None \<Rightarrow> None);
          mine_flags = (case mine of Some v \<Rightarrow> rev_flags v | None \<Rightarrow> 0);
          step = flow_step_flags (mine \<noteq> None) mine_flags proto tcp_flags Client (gc_parity_get s)
      in case step of
           StepSkip \<Rightarrow> (Some (), s)
         | _ \<Rightarrow>
             let flags = (case step of StepWrite flags \<Rightarrow> flags | _ \<Rightarrow> mine_flags);
                 rev_value = rev_value\<lparr>rev_flags := flags\<rparr>
             in if stored \<noteq> Some rev_value
                then need (flow_table_insert K rev_key (from_reverse rev_value) s) s (\<lambda>s. (Some (), s))
                else (Some (), s))"

text \<open>The block the v4 and v6 siblings share word for word: which reverse key and backend source
  port this flow uses. \<open>candidate_key\<close> is one buffer whose port bytes every probe overwrites, so
  after a \<open>Remap\<close> it holds the winning port. The first result is \<open>None\<close> when the window is exhausted
  (the caller returns \<open>TC_ACT_SHOT\<close>).\<close>

definition reverse_key_for ::
  "kern \<Rightarrow> ip16 \<Rightarrow> u16 \<Rightarrow> ip16 \<Rightarrow> u16 \<Rightarrow> ip16 \<Rightarrow> u16 \<Rightarrow> u8 \<Rightarrow> node \<Rightarrow>
   (flow_key \<times> u16) option option \<times> node" where
  "reverse_key_for K client_ip client_port pod target_port front_ip front_port proto s =
     (let natural_rev_key = encode_flow_key client_ip client_port pod target_port proto Reverse;
          port_memo_key = encode_flow_key client_ip client_port pod target_port proto PortMemo;
          memoized_port = map_option memo_backend_src_port (flow_table_get_port_memo s port_memo_key)
      in case backend_port_resolution memoized_port of
           Memoized port \<Rightarrow>
             (Some (Some (encode_flow_key client_ip port pod target_port proto Reverse, port)), s)
         | Probe \<Rightarrow>
             let existing_occupant = Option.bind (flow_table_get_reverse s natural_rev_key) reverse_occupant;
                 new_front = (front_ip, front_port);
                 candidate_key = encode_flow_key client_ip 0 pod target_port proto Reverse;
                 is_reverse_key_taken = (\<lambda>candidate_port.
                   let key = patch candidate_key 32 (u16_to_ne candidate_port);
                       occupant = Option.bind (flow_table_get_reverse s key) reverse_occupant
                   in occupant_conflicts occupant new_front client_port)
             in case resolve_backend_src_port existing_occupant new_front client_port is_reverse_key_taken of
                  NoRemap \<Rightarrow> (Some (Some (natural_rev_key, client_port)), s)
                | Remap synthetic_port \<Rightarrow>
                    need (flow_table_insert K port_memo_key
                            (from_port_memo \<lparr>memo_backend_src_port = synthetic_port\<rparr>) s) s
                      (\<lambda>s. (Some (Some (patch candidate_key 32 (u16_to_ne synthetic_port), synthetic_port)), s))
                | Exhausted \<Rightarrow> (Some None, s))"

definition try_geneve_decap_forward_v4 ::
  "kern \<Rightarrow> tunnel_key \<Rightarrow> bool \<Rightarrow> ip16 \<Rightarrow> u16 \<Rightarrow> node \<Rightarrow> verdict option \<times> node" where
  "try_geneve_decap_forward_v4 K tkey used_ipv6 pod_ip_v6 target_port s =
     need (load_u8 K IP_VER_IHL (skb s)) s (\<lambda>ver_ihl.
     if ver_ihl AND 0x0f \<noteq> 5 then (Some TC_ACT_OK, s) else
     need (load_u8 K IP_PROTO (skb s)) s (\<lambda>proto.
     if proto \<noteq> IPPROTO_TCP \<and> proto \<noteq> IPPROTO_UDP then (Some TC_ACT_OK, s) else
     need (load_u32 K IP_SRC (skb s)) s (\<lambda>client_ip.
     need (load_u16 K L4_SPORT (skb s)) s (\<lambda>client_port.
     need (load_u32 K IP_DST (skb s)) s (\<lambda>front_ip.
     need (load_u16 K L4_DPORT (skb s)) s (\<lambda>front_port.
     let client_ip_v6 = ipv4_mapped_v6 client_ip; front_ip_v6 = ipv4_mapped_v6 front_ip
     in and_then (reverse_key_for K client_ip_v6 client_port pod_ip_v6 target_port front_ip_v6 front_port proto s)
       (\<lambda>choice s. case choice of
          None \<Rightarrow> (Some TC_ACT_SHOT, s)
        | Some (rev_key, backend_src_port) \<Rightarrow>
            let rev_value = \<lparr>rev_ingress_node_ip = tunnel_remote tkey used_ipv6, rev_front_ip = front_ip_v6,
                             rev_front_port = front_port, rev_original_client_port = client_port,
                             rev_pad = 0, rev_flags = 0\<rparr>
            in need (tcp_flags_direct K proto L4_OFF (skb s)) s (\<lambda>tcp_flags.
               and_then (commit_reverse_row K rev_key rev_value proto tcp_flags s) (\<lambda>_ s.
               and_then (rewrite_l4_port K L4_OFF L4_SPORT client_port backend_src_port proto s) (\<lambda>_ s.
               need (unmap_ipv4 pod_ip_v6) s (\<lambda>new_ip.
               and_then (rewrite_ip_port K IP_DST front_ip new_ip L4_DPORT front_port target_port proto s) (\<lambda>_ s.
               case on_skb (skb_change_type K PACKET_HOST) s of
                 None \<Rightarrow> (Some TC_ACT_SHOT, s)
               | Some s \<Rightarrow> (Some TC_ACT_OK, s)))))))))))))"

definition try_geneve_decap_forward_v6 ::
  "kern \<Rightarrow> tunnel_key \<Rightarrow> bool \<Rightarrow> ip16 \<Rightarrow> u16 \<Rightarrow> node \<Rightarrow> verdict option \<times> node" where
  "try_geneve_decap_forward_v6 K tkey used_ipv6 pod_ip_v6 target_port s =
     need (load_u8 K IP6_NEXT_HDR (skb s)) s (\<lambda>proto.
     if proto \<noteq> IPPROTO_TCP \<and> proto \<noteq> IPPROTO_UDP then (Some TC_ACT_OK, s) else
     need (load_ip16 K IP6_SRC (skb s)) s (\<lambda>client_ip_v6.
     need (load_u16 K L4_SPORT_V6 (skb s)) s (\<lambda>client_port.
     need (load_ip16 K IP6_DST (skb s)) s (\<lambda>front_ip_v6.
     need (load_u16 K L4_DPORT_V6 (skb s)) s (\<lambda>front_port.
     and_then (reverse_key_for K client_ip_v6 client_port pod_ip_v6 target_port front_ip_v6 front_port proto s)
       (\<lambda>choice s. case choice of
          None \<Rightarrow> (Some TC_ACT_SHOT, s)
        | Some (rev_key, backend_src_port) \<Rightarrow>
            let rev_value = \<lparr>rev_ingress_node_ip = tunnel_remote tkey used_ipv6, rev_front_ip = front_ip_v6,
                             rev_front_port = front_port, rev_original_client_port = client_port,
                             rev_pad = 0, rev_flags = 0\<rparr>
            in need (tcp_flags_direct K proto L4_OFF_V6 (skb s)) s (\<lambda>tcp_flags.
               and_then (commit_reverse_row K rev_key rev_value proto tcp_flags s) (\<lambda>_ s.
               and_then (rewrite_l4_port K L4_OFF_V6 L4_SPORT_V6 client_port backend_src_port proto s) (\<lambda>_ s.
               and_then (rewrite_ipv6_port K IP6_DST front_ip_v6 pod_ip_v6 L4_DPORT_V6 front_port target_port proto
                           (if proto = IPPROTO_TCP then TCP_CSUM_V6 else UDP_CSUM_V6) UDP_CSUM_V6 s) (\<lambda>_ s.
               case on_skb (skb_change_type K PACKET_HOST) s of
                 None \<Rightarrow> (Some TC_ACT_SHOT, s)
               | Some s \<Rightarrow> (Some TC_ACT_OK, s)))))))))))"

definition try_geneve_decap_forward ::
  "kern \<Rightarrow> tunnel_key \<Rightarrow> bool \<Rightarrow> node \<Rightarrow> verdict option \<times> node" where
  "try_geneve_decap_forward K tkey used_ipv6 s =
     (let is_known_peer = is_node_allowed s (tunnel_remote tkey used_ipv6)
      in case peer_node_admission is_known_peer of
           PeerDrop \<Rightarrow> (Some TC_ACT_SHOT, s)
         | PeerContinue \<Rightarrow>
      (let (opt_len, opt) = skb_get_tunnel_opt K POD_ID_OPT_LEN (skb s)
       in if opt_len \<noteq> int POD_ID_OPT_LEN then (Some TC_ACT_SHOT, s)
          else case decode_pod_id_option opt of
            None \<Rightarrow> (Some TC_ACT_SHOT, s)
          | Some (pod_ip_v6, target_port) \<Rightarrow>
              (case decap_forward_pod_admission (is_pod_target s pod_ip_v6) of
                 DecapDrop \<Rightarrow> (Some TC_ACT_SHOT, s)
               | Deliver \<Rightarrow>
                   need (load_u16 K 12 (skb s)) s (\<lambda>et.
                     if et = ETH_P_IPV4 then try_geneve_decap_forward_v4 K tkey used_ipv6 pod_ip_v6 target_port s
                     else if et = ETH_P_IPV6 then try_geneve_decap_forward_v6 K tkey used_ipv6 pod_ip_v6 target_port s
                     else (Some TC_ACT_OK, s)))))"

section \<open>Return decapsulation\<close>

text \<open>The lookup-or-promote block of \<open>try_geneve_decap_return_v4\<close>/\<open>_v6\<close>: the forward value that
  authorises this return packet, with the promotion of a pending flow as its effect. \<open>None\<close> is
  the \<open>return None\<close> (or \<open>?\<close>) of the source.\<close>

definition authorize_return ::
  "kern \<Rightarrow> tcp_flow_key \<Rightarrow> flow_key \<Rightarrow> u8 \<Rightarrow> u8 \<Rightarrow> node \<Rightarrow> forward_flow_value option \<times> node" where
  "authorize_return K key fwd_key proto tcp_flags s =
     (case flow_table_get_forward s fwd_key of
        Some value \<Rightarrow> (Some value, touch_forward_row K fwd_key value proto tcp_flags Pod s)
      | None \<Rightarrow>
          let pending_value = fwd_pending_get s key
          in case return_authorization False (pending_value \<noteq> None) of
               RetPromote \<Rightarrow>
                 need pending_value s (\<lambda>value.
                   case flow_step None proto tcp_flags Pod (gc_parity_get s) of
                     StepSkip \<Rightarrow> (Some value, s\<lparr>FWD_PENDING := (FWD_PENDING s)(key := None)\<rparr>)
                   | step \<Rightarrow>
                       let value = (case step of StepWrite flags \<Rightarrow> value\<lparr>fwd_flags := flags\<rparr> | _ \<Rightarrow> value)
                       in need (flow_table_insert K fwd_key (from_forward value) s) s (\<lambda>s.
                            (Some value, s\<lparr>FWD_PENDING := (FWD_PENDING s)(key := None)\<rparr>)))
             | RetDrop \<Rightarrow> (None, s)
             | RetEstablished \<Rightarrow> (None, s))"

definition try_geneve_decap_return_v4 :: "kern \<Rightarrow> ip16 \<Rightarrow> u16 \<Rightarrow> node \<Rightarrow> verdict option \<times> node" where
  "try_geneve_decap_return_v4 K front_ip_v6 front_port s =
     need (load_u8 K IP_VER_IHL (skb s)) s (\<lambda>ver_ihl.
     if ver_ihl AND 0x0f \<noteq> 5 then (Some TC_ACT_OK, s) else
     need (load_u8 K IP_PROTO (skb s)) s (\<lambda>proto.
     if proto \<noteq> IPPROTO_TCP \<and> proto \<noteq> IPPROTO_UDP then (Some TC_ACT_OK, s) else
     need (load_u32 K IP_SRC (skb s)) s (\<lambda>pod.
     need (load_u16 K L4_SPORT (skb s)) s (\<lambda>target_port.
     need (load_u32 K IP_DST (skb s)) s (\<lambda>client_ip.
     need (load_u16 K L4_DPORT (skb s)) s (\<lambda>client_port.
     let client_ip_v6 = ipv4_mapped_v6 client_ip;
         key = encode_tcp_flow_key client_ip_v6 client_port front_ip_v6 front_port proto;
         fwd_key = encode_flow_key client_ip_v6 client_port front_ip_v6 front_port proto Forward
     in need (tcp_flags_direct K proto L4_OFF (skb s)) s (\<lambda>tcp_flags.
        and_then (authorize_return K key fwd_key proto tcp_flags s) (\<lambda>forward_value s.
        need (unmap_ipv4 front_ip_v6) s (\<lambda>new_ip.
        and_then (rewrite_ip_port K IP_SRC pod new_ip L4_SPORT target_port front_port proto s) (\<lambda>_ s.
        redirect_client_bound K (fwd_ingress_ifindex forward_value) (set_mark REDIRECTED_RETURN_MARK s)))))))))))"

definition try_geneve_decap_return_v6 :: "kern \<Rightarrow> ip16 \<Rightarrow> u16 \<Rightarrow> node \<Rightarrow> verdict option \<times> node" where
  "try_geneve_decap_return_v6 K front_ip_v6 front_port s =
     need (load_u8 K IP6_NEXT_HDR (skb s)) s (\<lambda>proto.
     if proto \<noteq> IPPROTO_TCP \<and> proto \<noteq> IPPROTO_UDP then (Some TC_ACT_OK, s) else
     need (load_ip16 K IP6_SRC (skb s)) s (\<lambda>pod.
     need (load_u16 K L4_SPORT_V6 (skb s)) s (\<lambda>target_port.
     need (load_ip16 K IP6_DST (skb s)) s (\<lambda>client_ip_v6.
     need (load_u16 K L4_DPORT_V6 (skb s)) s (\<lambda>client_port.
     let key = encode_tcp_flow_key client_ip_v6 client_port front_ip_v6 front_port proto;
         fwd_key = encode_flow_key client_ip_v6 client_port front_ip_v6 front_port proto Forward
     in need (tcp_flags_direct K proto L4_OFF_V6 (skb s)) s (\<lambda>tcp_flags.
        and_then (authorize_return K key fwd_key proto tcp_flags s) (\<lambda>forward_value s.
        and_then (rewrite_ipv6_port K IP6_SRC pod front_ip_v6 L4_SPORT_V6 target_port front_port proto
                    (if proto = IPPROTO_TCP then TCP_CSUM_V6 else UDP_CSUM_V6) UDP_CSUM_V6 s) (\<lambda>_ s.
        redirect_client_bound K (fwd_ingress_ifindex forward_value) (set_mark REDIRECTED_RETURN_MARK s)))))))))"

definition try_geneve_decap_return ::
  "kern \<Rightarrow> tunnel_key \<Rightarrow> bool \<Rightarrow> node \<Rightarrow> verdict option \<times> node" where
  "try_geneve_decap_return K tkey used_ipv6 s =
     (let is_known_peer = is_node_allowed s (tunnel_remote tkey used_ipv6)
      in case peer_node_admission is_known_peer of
           PeerDrop \<Rightarrow> (Some TC_ACT_SHOT, s)
         | PeerContinue \<Rightarrow>
      (let (opt_len, opt) = skb_get_tunnel_opt K 24 (skb s)
       in if opt_len < 0 then (Some TC_ACT_SHOT, s)
          else if span opt 0 2 \<noteq> u16_to_ne GENEVE_OPT_CLASS \<or> opt ! 2 \<noteq> GENEVE_OPT_TYPE_FRONT_ECHO
          then (Some TC_ACT_SHOT, s)
          else
            let front_ip_v6 = span opt 4 20; front_port = u16_of_ne (span opt 20 22)
            in need (load_u16 K 12 (skb s)) s (\<lambda>et.
                 if et = ETH_P_IPV4 then try_geneve_decap_return_v4 K front_ip_v6 front_port s
                 else if et = ETH_P_IPV6 then try_geneve_decap_return_v6 K front_ip_v6 front_port s
                 else (Some TC_ACT_OK, s))))"

definition geneve_ingress :: "kern \<Rightarrow> node \<Rightarrow> verdict \<times> node" where
  "geneve_ingress K s =
     (case get_tunnel_key K (skb s) of
        None \<Rightarrow> (TC_ACT_OK, s)
      | Some (tkey, used_ipv6) \<Rightarrow>
          if tunnel_id tkey = VNI_FWD
          then unwrap_or TC_ACT_SHOT (try_geneve_decap_forward K tkey used_ipv6 s)
          else if tunnel_id tkey = VNI_RET
          then unwrap_or TC_ACT_SHOT (try_geneve_decap_return K tkey used_ipv6 s)
          else (TC_ACT_OK, s))"

section \<open>Lemmas: the reverse key\<close>

lemma patch_candidate_key:
  assumes "length c = 16" "length q = 16"
  shows "patch (encode_flow_key c 0 q tp pr d) 32 (u16_to_ne p) = encode_flow_key c p q tp pr d"
proof -
  have z: "length (u16_to_ne (0 :: u16)) = 2" by simp
  show ?thesis using assms
    by (simp add: encode_flow_key_eq encode_tcp_flow_key_eq patch_def)
qed

text \<open>A reverse key is free for an identity when no live row under it belongs to another one.\<close>

definition rev_free :: "node \<Rightarrow> flow_key \<Rightarrow> front_addr \<Rightarrow> u16 \<Rightarrow> bool" where
  "rev_free s k front port \<longleftrightarrow>
     \<not> occupant_conflicts (Option.bind (flow_table_get_reverse s k) reverse_occupant) front port"

lemma resolve_free:
  assumes "resolve_backend_src_port occ front op taken = Remap p"
  shows "p \<noteq> op \<and> \<not> taken p \<and> REMAP_PORT_BASE \<le> p"
proof -
  from assms have "first_free (probe_window (synthetic_port_seed (fst front) (snd front))) op taken = Remap p"
    by (simp add: resolve_backend_src_port_eq split: if_splits)
  from first_free_Remap [OF this] show ?thesis
    by (auto simp: probe_window_def probe_candidate_range)
qed

lemma reverse_key_for_cases:
  fixes K s cip cp pod tp fip fp pr
  defines "mk \<equiv> encode_flow_key cip cp pod tp pr PortMemo"
    and "rk \<equiv> \<lambda>p. encode_flow_key cip p pod tp pr Reverse"
  assumes len: "length cip = 16" "length pod = 16"
  obtains (memo) m where "flow_table_get_port_memo s mk = Some m"
      "reverse_key_for K cip cp pod tp fip fp pr s =
         (Some (Some (rk (memo_backend_src_port m), memo_backend_src_port m)), s)"
  | (natural) "flow_table_get_port_memo s mk = None" "rev_free s (rk cp) (fip, fp) cp"
      "reverse_key_for K cip cp pod tp fip fp pr s = (Some (Some (rk cp, cp)), s)"
  | (remap) p t where "flow_table_get_port_memo s mk = None" "\<not> rev_free s (rk cp) (fip, fp) cp"
      "rev_free s (rk p) (fip, fp) cp" "p \<noteq> cp" "REMAP_PORT_BASE \<le> p"
      "flow_table_insert K mk (from_port_memo \<lparr>memo_backend_src_port = p\<rparr>) s = Some t"
      "reverse_key_for K cip cp pod tp fip fp pr s = (Some (Some (rk p, p)), t)"
  | (failed) "flow_table_get_port_memo s mk = None"
      "reverse_key_for K cip cp pod tp fip fp pr s = (None, s)"
  | (exhausted) "flow_table_get_port_memo s mk = None"
      "\<And>p. p \<in> set (probe_window (synthetic_port_seed fip fp)) \<Longrightarrow> p = cp \<or> \<not> rev_free s (rk p) (fip, fp) cp"
      "reverse_key_for K cip cp pod tp fip fp pr s = (Some None, s)"
proof (cases "flow_table_get_port_memo s mk")
  case (Some m)
  then show ?thesis using memo by (simp add: reverse_key_for_def mk_def rk_def decision_defs)
next
  case None
  let ?taken = "\<lambda>p. \<not> rev_free s (rk p) (fip, fp) cp"
  let ?d = "resolve_backend_src_port (Option.bind (flow_table_get_reverse s (rk cp)) reverse_occupant) (fip, fp) cp ?taken"
  have e: "reverse_key_for K cip cp pod tp fip fp pr s =
      (case ?d of
         NoRemap \<Rightarrow> (Some (Some (rk cp, cp)), s)
       | Remap p \<Rightarrow> need (flow_table_insert K mk (from_port_memo \<lparr>memo_backend_src_port = p\<rparr>) s) s
           (\<lambda>s. (Some (Some (rk p, p)), s))
       | Exhausted \<Rightarrow> (Some None, s))"
    using None
    by (auto simp: reverse_key_for_def mk_def rk_def Let_def decision_defs patch_candidate_key [OF len]
        rev_free_def split: backend_port_decision.split)
  show ?thesis
  proof (cases ?d)
    case NoRemap
    then have "rev_free s (rk cp) (fip, fp) cp"
      by (auto simp: resolve_backend_src_port_eq rev_free_def split: if_splits)
    then show ?thesis using natural None e NoRemap by simp
  next
    case (Remap p)
    then have "\<not> rev_free s (rk cp) (fip, fp) cp"
      by (auto simp: resolve_backend_src_port_eq rev_free_def split: if_splits)
    then show ?thesis using remap failed None e Remap resolve_free [OF Remap]
      by (cases "flow_table_insert K mk (from_port_memo \<lparr>memo_backend_src_port = p\<rparr>) s") auto
  next
    case Exhausted
    then have "first_free (probe_window (synthetic_port_seed fip fp)) cp ?taken = Exhausted"
      by (auto simp: resolve_backend_src_port_eq split: if_splits)
    then show ?thesis using exhausted None e Exhausted by (simp add: first_free_Exhausted_iff)
  qed
qed

section \<open>Lemmas: the reverse row\<close>

definition identity :: "rev_flow_value \<Rightarrow> occupant" where
  "identity v = ((rev_front_ip v, rev_front_port v), rev_original_client_port v)"

definition own_row :: "node \<Rightarrow> flow_key \<Rightarrow> rev_flow_value \<Rightarrow> rev_flow_value option" where
  "own_row s k rv = (case flow_table_get_reverse s k of
     Some v \<Rightarrow> if identity v = identity rv then Some v else None | None \<Rightarrow> None)"

definition commit_target :: "node \<Rightarrow> flow_key \<Rightarrow> rev_flow_value \<Rightarrow> u8 \<Rightarrow> u8 \<Rightarrow> u16 option" where
  "commit_target s k rv pr tf =
     step_target (own_row s k rv \<noteq> None) (case own_row s k rv of Some v \<Rightarrow> rev_flags v | None \<Rightarrow> 0)
       pr tf Client (gc_parity_get s)"

lemma commit_reverse_row_eq:
  "commit_reverse_row K k rv pr tf s =
    (case commit_target s k rv pr tf of
       None \<Rightarrow> (Some (), s)
     | Some f \<Rightarrow>
         if flow_table_get_reverse s k \<noteq> Some (rv\<lparr>rev_flags := f\<rparr>)
         then need (flow_table_insert K k (from_reverse (rv\<lparr>rev_flags := f\<rparr>)) s) s (\<lambda>s. (Some (), s))
         else (Some (), s))"
proof -
  let ?mine = "case flow_table_get_reverse s k of
      Some v \<Rightarrow> if \<not> occupant_conflicts (Some ((rev_front_ip v, rev_front_port v), rev_original_client_port v))
        (rev_front_ip rv, rev_front_port rv) (rev_original_client_port rv) then Some v else None | None \<Rightarrow> None"
  have own: "?mine = own_row s k rv"
    by (auto simp: own_row_def occupant_conflicts_def identity_def split: option.split)
  show ?thesis
    unfolding commit_reverse_row_def Let_def own flow_step_flags_eq commit_target_def
    by (auto split: option.split flow_step_t.split)
qed

lemma commit_reverse_row_rel:
  assumes "kern_ok K" "\<And>f. W k (from_reverse (rv\<lparr>rev_flags := f\<rparr>))" "flow_step_rel W s t"
  shows "flow_step_rel W s (snd (commit_reverse_row K k rv pr tf t))"
  unfolding commit_reverse_row_eq using assms
  by (auto split: option.split intro!: flow_step_rel_need intro: flow_step_rel_insert)

text \<open>After a committed packet the row holds this flow's identity with refreshed flags.\<close>

lemma commit_reverse_row_stored:
  assumes K: "kern_ok K" and v: "valid_reverse rv"
    and c: "commit_reverse_row K k rv pr tf s = (Some (), s')" "commit_target s k rv pr tf = Some f"
  shows "flow_table_get_reverse s' k = Some (rv\<lparr>rev_flags := f\<rparr>)"
proof -
  have "as_reverse (from_reverse (rv\<lparr>rev_flags := f\<rparr>)) = rv\<lparr>rev_flags := f\<rparr>"
    using v by (intro as_from_reverse) (simp_all add: valid_defs)
  then show ?thesis using c flow_insert_ok(1) [OF K]
    by (auto simp: commit_reverse_row_eq need_eq_Some flow_table_get_reverse_def split: if_splits)
qed

section \<open>Lemmas: forward decapsulation\<close>

definition reverse_role :: "flow_key \<Rightarrow> flow_value \<Rightarrow> bool" where
  "reverse_role k v \<longleftrightarrow> flow_key_direction k = Some Reverse \<or> flow_key_direction k = Some PortMemo"

lemma reverse_key_for_rel:
  assumes "kern_ok K" "length cip = 16" "length pod = 16"
  shows "flow_step_rel reverse_role s (snd (reverse_key_for K cip cp pod tp fip fp pr s))"
proof (cases rule: reverse_key_for_cases [OF assms(2,3), of s cp tp pr K fip fp])
  case (3 p t)
  then show ?thesis using assms
    by (auto simp: reverse_role_def flow_key_direction_encode intro: flow_step_rel_insert)
qed simp_all

lemma reverse_key_for_key:
  assumes "length cip = 16" "length pod = 16"
    "reverse_key_for K cip cp pod tp fip fp pr s = (Some (Some (rk, p)), t)"
  shows "rk = encode_flow_key cip p pod tp pr Reverse"
  by (cases rule: reverse_key_for_cases [OF assms(1,2), of s cp tp pr K fip fp]) (use assms(3) in auto)

lemma decap_tail_rel:
  assumes K: "kern_ok K" and len: "length cip = 16" "length pod = 16"
    and tail: "\<And>rk p u. flow_step_rel reverse_role s u \<Longrightarrow> flow_key_direction rk = Some Reverse \<Longrightarrow>
      flow_step_rel reverse_role s (snd (k rk p u))"
  shows "flow_step_rel reverse_role s (snd (and_then (reverse_key_for K cip cp pod tp fip fp pr s)
    (\<lambda>choice s. case choice of None \<Rightarrow> (Some TC_ACT_SHOT, s) | Some (rk, p) \<Rightarrow> k rk p s)))"
proof (rule flow_step_rel_then)
  show "flow_step_rel reverse_role s (snd (reverse_key_for K cip cp pod tp fip fp pr s))"
    by (rule reverse_key_for_rel [OF K len])
next
  fix choice u
  assume r: "reverse_key_for K cip cp pod tp fip fp pr s = (Some choice, u)" and u: "flow_step_rel reverse_role s u"
  show "flow_step_rel reverse_role s
      (snd (case choice of None \<Rightarrow> (Some TC_ACT_SHOT, u) | Some (rk, p) \<Rightarrow> k rk p u))"
  proof (cases choice)
    case (Some rp)
    then obtain rk p where rp: "choice = Some (rk, p)" by (cases rp) auto
    with r have "rk = encode_flow_key cip p pod tp pr Reverse"
      using reverse_key_for_key [OF len] by metis
    then show ?thesis using tail [OF u] rp by (simp add: flow_key_direction_encode len)
  qed (use u in simp)
qed

lemma decap_forward_v4_rel:
  assumes K: "kern_ok K" and pod: "length pod = 16"
  shows "flow_step_rel reverse_role s (snd (try_geneve_decap_forward_v4 K tkey v6 pod tp s))"
  unfolding try_geneve_decap_forward_v4_def Let_def
  by (intro flow_step_rel_rules decap_tail_rel [OF K] commit_reverse_row_rel [OF K] flow_step_rel_refl pod
      length_ipv4_mapped_v6 | assumption | simp add: reverse_role_def)+

lemma load_ip16_length: "kern_ok K \<Longrightarrow> load_ip16 K off p = Some ip \<Longrightarrow> length ip = 16"
  by (auto simp: load_ip16_def load_ok split: if_splits)

lemma decap_forward_v6_rel:
  assumes K: "kern_ok K" and pod: "length pod = 16"
  shows "flow_step_rel reverse_role s (snd (try_geneve_decap_forward_v6 K tkey v6 pod tp s))"
  unfolding try_geneve_decap_forward_v6_def Let_def
  by (intro flow_step_rel_rules decap_tail_rel [OF K] commit_reverse_row_rel [OF K] flow_step_rel_refl pod
    | assumption | erule load_ip16_length [OF K] | simp add: reverse_role_def)+

text \<open>The admission gates of the forward decapsulation.\<close>

definition decap_admits :: "kern \<Rightarrow> tunnel_key \<Rightarrow> bool \<Rightarrow> node \<Rightarrow> (ip16 \<times> u16) option" where
  "decap_admits K tkey v6 s =
     (if NODE_ALLOW s (tunnel_remote tkey v6) \<noteq> None
         \<and> fst (skb_get_tunnel_opt K POD_ID_OPT_LEN (skb s)) = int POD_ID_OPT_LEN
      then (case decode_pod_id_option (snd (skb_get_tunnel_opt K POD_ID_OPT_LEN (skb s))) of
              Some (pod, tp) \<Rightarrow> if POD_TARGETS s pod \<noteq> None then Some (pod, tp) else None
            | None \<Rightarrow> None)
      else None)"

lemma try_geneve_decap_forward_eq:
  "try_geneve_decap_forward K tkey v6 s =
    (case decap_admits K tkey v6 s of
       None \<Rightarrow> (Some TC_ACT_SHOT, s)
     | Some (pod, tp) \<Rightarrow>
         need (load_u16 K 12 (skb s)) s (\<lambda>et.
           if et = ETH_P_IPV4 then try_geneve_decap_forward_v4 K tkey v6 pod tp s
           else if et = ETH_P_IPV6 then try_geneve_decap_forward_v6 K tkey v6 pod tp s
           else (Some TC_ACT_OK, s)))"
  by (auto simp: try_geneve_decap_forward_def decap_admits_def Let_def decision_defs is_node_allowed_def
      is_pod_target_def case_prod_unfold split: option.split)

lemma decap_admits_length:
  assumes "kern_ok K" "decap_admits K tkey v6 s = Some (pod, tp)" shows "length pod = 16"
proof -
  have "length (snd (skb_get_tunnel_opt K POD_ID_OPT_LEN (skb s))) = POD_ID_OPT_LEN"
    using assms(1) by (simp add: kern_ok_def tunnel_contract_def)
  then show ?thesis using assms(2)
    by (auto simp: decap_admits_def decode_pod_id_option_def POD_ID_OPT_LEN_def split: option.splits if_splits)
qed

lemma decap_forward_rel:
  assumes K: "kern_ok K"
  shows "flow_step_rel reverse_role s (snd (try_geneve_decap_forward K tkey v6 s))"
proof (cases "decap_admits K tkey v6 s")
  case None then show ?thesis by (simp add: try_geneve_decap_forward_eq)
next
  case (Some a)
  then obtain pod tp where a: "decap_admits K tkey v6 s = Some (pod, tp)" by (cases a) auto
  note pod = decap_admits_length [OF K a]
  show ?thesis unfolding try_geneve_decap_forward_eq a option.case prod.case
    by (intro flow_step_rel_rules flow_step_rel_refl decap_forward_v4_rel [OF K pod] decap_forward_v6_rel [OF K pod])
qed

section \<open>Lemmas: return decapsulation\<close>

lemma authorize_return_cases:
  obtains (established) v where "flow_table_get_forward s fk = Some v"
      "authorize_return K key fk pr tf s = (Some v, touch_forward_row K fk v pr tf Pod s)"
  | (promoted) v f t where "flow_table_get_forward s fk = None" "FWD_PENDING s key = Some v"
      "step_target False 0 pr tf Pod (gc_parity_get s) = Some f"
      "flow_table_insert K fk (from_forward (v\<lparr>fwd_flags := f\<rparr>)) s = Some t"
      "authorize_return K key fk pr tf s =
         (Some (v\<lparr>fwd_flags := f\<rparr>), t\<lparr>FWD_PENDING := (FWD_PENDING s)(key := None)\<rparr>)"
  | (reset) v where "flow_table_get_forward s fk = None" "FWD_PENDING s key = Some v" "pr = IPPROTO_TCP" "has_rst tf"
      "authorize_return K key fk pr tf s = (Some v, s\<lparr>FWD_PENDING := (FWD_PENDING s)(key := None)\<rparr>)"
  | (full) v where "flow_table_get_forward s fk = None" "FWD_PENDING s key = Some v"
      "authorize_return K key fk pr tf s = (None, s)"
  | (unknown) "flow_table_get_forward s fk = None" "FWD_PENDING s key = None"
      "authorize_return K key fk pr tf s = (None, s)"
proof (cases "flow_table_get_forward s fk")
  case (Some v) then show ?thesis using established by (simp add: authorize_return_def)
next
  case n: None
  show ?thesis
  proof (cases "FWD_PENDING s key")
    case None then show ?thesis using n unknown by (simp add: authorize_return_def fwd_pending_get_def decision_defs)
  next
    case (Some v)
    note e = n Some authorize_return_def [of K key fk pr tf s] fwd_pending_get_def decision_defs
    let ?st = "step_target False 0 pr tf Pod (gc_parity_get s)"
    show ?thesis
    proof (cases ?st)
      case None
      then have "flow_step None pr tf Pod (gc_parity_get s) = StepSkip"
        by (simp add: flow_step_def flow_step_flags_eq)
      moreover have "pr = IPPROTO_TCP \<and> has_rst tf"
        using calculation by (simp add: flow_step_def flow_step_Skip_iff)
      ultimately show ?thesis using reset [OF n Some] e by simp
    next
      case (Some f)
      then have st: "flow_step None pr tf Pod (gc_parity_get s) = StepWrite f"
        by (simp add: flow_step_def flow_step_flags_eq)
      show ?thesis
      proof (cases "flow_table_insert K fk (from_forward (v\<lparr>fwd_flags := f\<rparr>)) s")
        case None
        then show ?thesis using full [OF n \<open>FWD_PENDING s key = Some v\<close>] e st by simp
      next
        case t: (Some t)
        then have "FWD_PENDING t = FWD_PENDING s" by (auto simp: flow_table_insert_def)
        then show ?thesis using promoted [OF n \<open>FWD_PENDING s key = Some v\<close> Some t] e st t by simp
      qed
    qed
  qed
qed

definition promoted_of :: "node \<Rightarrow> flow_key \<Rightarrow> flow_value \<Rightarrow> bool" where
  "promoted_of s k v \<longleftrightarrow>
     (\<exists>p f. FWD_PENDING s (span k 0 TCP_FLOW_KEY_LEN) = Some p \<and> v = from_forward (p\<lparr>fwd_flags := f\<rparr>))"

definition forward_role :: "node \<Rightarrow> flow_key \<Rightarrow> flow_value \<Rightarrow> bool" where
  "forward_role s k v \<longleftrightarrow> flow_key_direction k = Some Forward \<and> (refresh_of s k v \<or> promoted_of s k v)"

lemma span_flow_key:
  "length c = 16 \<Longrightarrow> length q = 16 \<Longrightarrow>
   span (encode_flow_key c cp q op pr d) 0 TCP_FLOW_KEY_LEN = encode_tcp_flow_key c cp q op pr"
  by (simp add: encode_flow_key_eq length_encode_tcp_flow_key wire_simps)

lemma authorize_return_rel:
  fixes cp op :: u16 and pr :: u8
  assumes K: "kern_ok K" and len: "length c = 16" "length q = 16"
  defines "key \<equiv> encode_tcp_flow_key c cp q op pr" and "fk \<equiv> encode_flow_key c cp q op pr Forward"
  shows "flow_step_rel (forward_role s) s (snd (authorize_return K key fk pr tf s))"
proof -
  have dir: "flow_key_direction fk = Some Forward" and key: "span fk 0 TCP_FLOW_KEY_LEN = key"
    using len by (simp_all add: fk_def key_def flow_key_direction_encode span_flow_key)
  show ?thesis
  proof (cases rule: authorize_return_cases [of s fk K key pr tf])
    case (established v)
    have "flow_writes (forward_role s) s (touch_forward_row K fk v pr tf Pod s)"
      using established(1) dir by (intro touch_forward_row_writes K)
        (auto simp: forward_role_def refresh_of_def flow_table_get_forward_def map_option_eq_Some)
    then show ?thesis using established by (simp add: flow_step_rel_def)
  next
    case (promoted v f t)
    have "promoted_of s fk (from_forward (v\<lparr>fwd_flags := f\<rparr>))"
      unfolding promoted_of_def key using promoted(2) by blast
    then have r: "flow_step_rel (forward_role s) s t"
      using dir by (intro flow_step_rel_insert [OF K promoted(4)]) (simp_all add: forward_role_def)
    show ?thesis unfolding promoted(5) snd_conv by (rule flow_step_rel_remove [OF r upd_None_map_le])
  next
    case (reset v)
    show ?thesis unfolding reset(5) snd_conv
      by (rule flow_step_rel_remove [OF flow_step_rel_refl upd_None_map_le])
  qed simp_all
qed

lemma decap_return_v4_rel:
  assumes K: "kern_ok K" and front: "length front = 16"
  shows "flow_step_rel (forward_role s) s (snd (try_geneve_decap_return_v4 K front fp s))"
  unfolding try_geneve_decap_return_v4_def Let_def
  by (intro flow_step_rel_rules authorize_return_rel [OF K] flow_step_rel_refl front
      length_ipv4_mapped_v6 | assumption)+

lemma decap_return_v6_rel:
  assumes K: "kern_ok K" and front: "length front = 16"
  shows "flow_step_rel (forward_role s) s (snd (try_geneve_decap_return_v6 K front fp s))"
  unfolding try_geneve_decap_return_v6_def Let_def
  by (intro flow_step_rel_rules authorize_return_rel [OF K] flow_step_rel_refl front
      | assumption | erule load_ip16_length [OF K])+

lemma decap_return_rel:
  assumes K: "kern_ok K"
  shows "flow_step_rel (forward_role s) s (snd (try_geneve_decap_return K tkey v6 s))"
proof -
  obtain n opt where o: "skb_get_tunnel_opt K 24 (skb s) = (n, opt)" by fastforce
  moreover have "length (snd (skb_get_tunnel_opt K 24 (skb s))) = 24"
    using K by (simp add: kern_ok_def tunnel_contract_def)
  ultimately have front: "length (span opt 4 20) = 16" by simp
  show ?thesis
    unfolding try_geneve_decap_return_def Let_def o prod.case
    by (cases "peer_node_admission (is_node_allowed s (tunnel_remote tkey v6))")
      (auto intro!: flow_step_rel_rules decap_return_v4_rel [OF K front] decap_return_v6_rel [OF K front])
qed

section \<open>Lemmas: the merged hook\<close>

lemma geneve_ingress_rel:
  assumes K: "kern_ok K"
  shows "flow_step_rel (\<lambda>k v. reverse_role k v \<or> forward_role s k v) s (snd (geneve_ingress K s))"
proof -
  have mono: "flow_step_rel V s t \<Longrightarrow> (\<And>k v. V k v \<Longrightarrow> W k v) \<Longrightarrow> flow_step_rel W s t" for V W t
    unfolding flow_step_rel_def using flow_writes_mono by blast
  show ?thesis
    unfolding geneve_ingress_def
    by (auto split: option.split intro!: mono [OF decap_forward_rel [OF K] ] mono [OF decap_return_rel [OF K] ])
qed

lemma geneve_ingress_control: "kern_ok K \<Longrightarrow> control (snd (geneve_ingress K s)) = control s"
  using geneve_ingress_rel [of K s] by (simp add: flow_step_rel_def)

section \<open>Lemmas: what reaches the pod\<close>

lemma reverse_key_for_skb:
  assumes "reverse_key_for K cip cp pod tp fip fp pr s = (r, t)" shows "skb t = skb s"
  using assms
  by (auto simp: reverse_key_for_def Let_def flow_table_insert_def
      split: backend_port_resolution_t.splits backend_port_decision.splits option.splits need_splits)

lemma commit_reverse_row_skb:
  assumes "commit_reverse_row K k rv pr tf s = (r, t)" shows "skb t = skb s"
  using assms
  by (auto simp: commit_reverse_row_eq flow_table_insert_def split: option.splits if_splits need_splits)

text \<open>The steps of a delivered IPv4 packet.\<close>

definition rev_value_for :: "tunnel_key \<Rightarrow> bool \<Rightarrow> ip16 \<Rightarrow> u16 \<Rightarrow> u16 \<Rightarrow> rev_flow_value" where
  "rev_value_for tkey v6 fip fp cp =
     \<lparr>rev_ingress_node_ip = tunnel_remote tkey v6, rev_front_ip = fip, rev_front_port = fp,
      rev_original_client_port = cp, rev_pad = 0, rev_flags = 0\<rparr>"

text \<open>The common tail of the siblings, from the chosen reverse key on.\<close>

lemma decap_tail_steps:
  assumes "and_then X (\<lambda>choice s. case choice of
      None \<Rightarrow> (Some TC_ACT_SHOT, s)
    | Some (rk, p) \<Rightarrow> need (T s) s (\<lambda>tf. and_then (C rk tf s) (\<lambda>_ s. and_then (L p s) (\<lambda>_ s. D s)))) = (Some TC_ACT_OK, s')"
  obtains rk p tf s1 s2 s3 where "X = (Some (Some (rk, p)), s1)" "T s1 = Some tf" "C rk tf s1 = (Some (), s2)"
    "L p s2 = (Some (), s3)" "D s3 = (Some TC_ACT_OK, s')"
proof -
  from assms obtain choice s1 where X: "X = (Some choice, s1)" and c: "(case choice of
      None \<Rightarrow> (Some TC_ACT_SHOT, s1)
    | Some (rk, p) \<Rightarrow> need (T s1) s1 (\<lambda>tf. and_then (C rk tf s1) (\<lambda>_ s. and_then (L p s) (\<lambda>_ s. D s)))) = (Some TC_ACT_OK, s')"
    unfolding and_then_eq_Some by blast
  from c obtain rk p where rp: "choice = Some (rk, p)" by (cases choice) auto
  from c obtain tf s2 s3 where "T s1 = Some tf" "C rk tf s1 = (Some (), s2)"
    "L p s2 = (Some (), s3)" "D s3 = (Some TC_ACT_OK, s')"
    unfolding rp option.case prod.case need_eq_Some and_then_eq_Some by auto
  with X rp that show ?thesis by blast
qed

lemma change_type_steps:
  assumes "(case on_skb (skb_change_type K PACKET_HOST) s of
      None \<Rightarrow> (Some TC_ACT_SHOT, s) | Some s \<Rightarrow> (Some TC_ACT_OK, s)) = (Some TC_ACT_OK, s')"
  obtains q where "skb_change_type K PACKET_HOST (skb s) = Some q" "s' = s\<lparr>skb := q\<rparr>"
  using assms by (auto simp: on_skb_def split: option.splits)

lemma decap_forward_v4_steps:
  assumes K: "kern_ok K"
    and ok: "try_geneve_decap_forward_v4 K tkey v6 pod tp s = (Some TC_ACT_OK, s')"
    and ihl: "load_u8 K IP_VER_IHL (skb s) = Some vi" "vi AND 0x0f = 5"
    and pr: "load_u8 K IP_PROTO (skb s) = Some pr" "pr = IPPROTO_TCP \<or> pr = IPPROTO_UDP"
    and ips: "load_u32 K IP_SRC (skb s) = Some cip" "load_u32 K IP_DST (skb s) = Some fip"
    and ports: "load_u16 K L4_SPORT (skb s) = Some cp" "load_u16 K L4_DPORT (skb s) = Some fp"
  obtains rk p tf s1 s2 s3 nip s4 q where
    "reverse_key_for K (ipv4_mapped_v6 cip) cp pod tp (ipv4_mapped_v6 fip) fp pr s = (Some (Some (rk, p)), s1)"
    "tcp_flags_direct K pr L4_OFF (skb s) = Some tf"
    "commit_reverse_row K rk (rev_value_for tkey v6 (ipv4_mapped_v6 fip) fp cp) pr tf s1 = (Some (), s2)"
    "rewrite_l4_port K L4_OFF L4_SPORT cp p pr s2 = (Some (), s3)"
    "unmap_ipv4 pod = Some nip"
    "rewrite_ip_port K IP_DST fip nip L4_DPORT fp tp pr s3 = (Some (), s4)"
    "skb_change_type K PACKET_HOST (skb s4) = Some q" "s' = s4\<lparr>skb := q\<rparr>"
proof -
  let ?D = "\<lambda>s. need (unmap_ipv4 pod) s (\<lambda>nip.
      and_then (rewrite_ip_port K IP_DST fip nip L4_DPORT fp tp pr s) (\<lambda>_ s.
      case on_skb (skb_change_type K PACKET_HOST) s of
        None \<Rightarrow> (Some TC_ACT_SHOT, s) | Some s \<Rightarrow> (Some TC_ACT_OK, s)))"
  have nb: "(pr \<noteq> IPPROTO_TCP \<and> pr \<noteq> IPPROTO_UDP) = False" using pr(2) by auto
  from ok ihl(2) have "and_then (reverse_key_for K (ipv4_mapped_v6 cip) cp pod tp (ipv4_mapped_v6 fip) fp pr s)
     (\<lambda>choice s. case choice of
        None \<Rightarrow> (Some TC_ACT_SHOT, s)
      | Some (rk, p) \<Rightarrow> need (tcp_flags_direct K pr L4_OFF (skb s)) s (\<lambda>tf.
          and_then (commit_reverse_row K rk (rev_value_for tkey v6 (ipv4_mapped_v6 fip) fp cp) pr tf s) (\<lambda>_ s.
          and_then (rewrite_l4_port K L4_OFF L4_SPORT cp p pr s) (\<lambda>_ s. ?D s)))) = (Some TC_ACT_OK, s')"
    unfolding try_geneve_decap_forward_v4_def ihl(1) pr(1) ips ports need_Some Let_def rev_value_for_def
    by (simp only: if_False simp_thms nb)
  then obtain rk p tf s1 s2 s3 where
    1: "reverse_key_for K (ipv4_mapped_v6 cip) cp pod tp (ipv4_mapped_v6 fip) fp pr s = (Some (Some (rk, p)), s1)"
    and 2: "tcp_flags_direct K pr L4_OFF (skb s1) = Some tf"
    and 3: "commit_reverse_row K rk (rev_value_for tkey v6 (ipv4_mapped_v6 fip) fp cp) pr tf s1 = (Some (), s2)"
    and 4: "rewrite_l4_port K L4_OFF L4_SPORT cp p pr s2 = (Some (), s3)" and D: "?D s3 = (Some TC_ACT_OK, s')"
    by (rule decap_tail_steps)
  from D obtain nip s4 where 5: "unmap_ipv4 pod = Some nip"
    and 6: "rewrite_ip_port K IP_DST fip nip L4_DPORT fp tp pr s3 = (Some (), s4)"
    and ct: "(case on_skb (skb_change_type K PACKET_HOST) s4 of
        None \<Rightarrow> (Some TC_ACT_SHOT, s4) | Some s \<Rightarrow> (Some TC_ACT_OK, s)) = (Some TC_ACT_OK, s')"
    unfolding need_eq_Some and_then_eq_Some by auto
  from ct obtain q where "skb_change_type K PACKET_HOST (skb s4) = Some q" "s' = s4\<lparr>skb := q\<rparr>"
    by (rule change_type_steps)
  with that 1 2 3 4 5 6 reverse_key_for_skb [OF 1] show ?thesis by simp
qed

text \<open>What the pod's side receives: the destination rewritten to the pod, the client's address kept,
  the source port the one chosen for this flow, and the packet marked for local delivery.\<close>

lemma decap_forward_v4_packet:
  assumes K: "kern_ok K" and sp: "load_u16 K L4_SPORT (skb s) = Some cp"
    and ips: "load_u32 K IP_SRC (skb s) = Some cip"
    and sk: "skb s2 = skb s"
    and l4: "rewrite_l4_port K L4_OFF L4_SPORT cp p pr s2 = (Some (), s3)"
    and ip: "rewrite_ip_port K IP_DST fip nip L4_DPORT fp tp pr s3 = (Some (), s4)"
    and ct: "skb_change_type K PACKET_HOST (skb s4) = Some q"
  shows "load_u32 K IP_DST q = Some nip \<and> load_u16 K L4_DPORT q = Some tp \<and> load_u32 K IP_SRC q = Some cip
    \<and> load_u16 K L4_SPORT q = Some p \<and> pkt_type q = PACKET_HOST"
proof -
  have q: "q = (skb s4)\<lparr>pkt_type := PACKET_HOST\<rparr>"
    using ct K by (simp add: kern_ok_def transmit_contract_def)
  have "span (pkt (skb s2)) L4_SPORT (L4_SPORT + 2) = u16_to_ne cp"
    using sp sk by (simp add: load_u16_iff [OF K])
  note e3 = rewrite_l4_port_effect [OF K l4 this]
  have "{IP_DST..<IP_DST + 4} \<inter> {L4_DPORT..<L4_DPORT + 2} = {}" by (simp add: offset_defs)
  note e4 = rewrite_ip_port_effect [OF K ip this]
  have len: "length (pkt q) = length (pkt (skb s))"
    using e3 e4 q sk by (simp add: changed_only_def)
  have "span (pkt (skb s4)) L4_SPORT (L4_SPORT + 2) = span (pkt (skb s3)) L4_SPORT (L4_SPORT + 2)"
    using e4 by (intro changed_only_span [of _ "skb s3" "skb s4"]) (auto simp: offset_defs csum_bytes_def)
  moreover have "span (pkt (skb s4)) IP_SRC (IP_SRC + 4) = span (pkt (skb s)) IP_SRC (IP_SRC + 4)"
  proof -
    have "span (pkt (skb s4)) IP_SRC (IP_SRC + 4) = span (pkt (skb s3)) IP_SRC (IP_SRC + 4)"
      using e4 by (intro changed_only_span [of _ "skb s3" "skb s4"]) (auto simp: offset_defs csum_bytes_def)
    also have "\<dots> = span (pkt (skb s2)) IP_SRC (IP_SRC + 4)"
      using e3 by (intro changed_only_span [of _ "skb s2" "skb s3"]) (auto simp: offset_defs)
    finally show ?thesis using sk by simp
  qed
  moreover have bound: "L4_DPORT + 2 \<le> length (pkt (skb s4))"
    using e4 length_span [of "pkt (skb s4)" L4_DPORT "L4_DPORT + 2"] by (auto simp: min_def split: if_splits)
  ultimately show ?thesis using e3 e4 q len sp ips bound
    by (auto simp: load_u16_iff [OF K] load_u32_iff [OF K] offset_defs)
qed

section \<open>Lemmas: what reaches the client's uplink\<close>

lemma redirect_client_bound_steps:
  assumes K: "kern_ok K" and r: "redirect_client_bound K i s = (Some TC_ACT_REDIRECT, s')"
  obtains uc where "UPLINK_CONFIG s i = Some uc"
    "s' = s\<lparr>skb := (skb s)\<lparr>redirect_to := Some (if unat (l2_hlen uc) = ETH_HLEN then ToNeighbour i else ToDevice i)\<rparr>\<rparr>"
proof -
  from r obtain uc where uc: "UPLINK_CONFIG s i = Some uc"
    and c: "on_skb (if unat (l2_hlen uc) = ETH_HLEN then bpf_redirect_neigh K i else bpf_redirect K i) s = Some s'"
    by (auto simp: redirect_client_bound_def need_eq_Some uplink_config_get_def split: option.splits)
  have "bpf_redirect K i p = Some p' \<Longrightarrow> p' = p\<lparr>redirect_to := Some (ToDevice i)\<rparr>"
    "bpf_redirect_neigh K i p = Some p' \<Longrightarrow> p' = p\<lparr>redirect_to := Some (ToNeighbour i)\<rparr>" for p p'
    using K unfolding kern_ok_def transmit_contract_def by blast+
  with c uc that show ?thesis by (cases "unat (l2_hlen uc) = ETH_HLEN") (auto simp: on_skb_def)
qed

lemma authorize_return_skb:
  "skb (snd (authorize_return K key fk pr tf s)) = skb s"
  "control (snd (authorize_return K key fk pr tf s)) = control s"
  by (cases rule: authorize_return_cases [of s fk K key pr tf]; auto simp: flow_table_insert_def)+

lemma decap_return_v4_steps:
  assumes red: "try_geneve_decap_return_v4 K front fp s = (Some TC_ACT_REDIRECT, s')"
    and pr: "load_u8 K IP_PROTO (skb s) = Some pr"
    and ips: "load_u32 K IP_SRC (skb s) = Some pod" "load_u32 K IP_DST (skb s) = Some cip"
    and ports: "load_u16 K L4_SPORT (skb s) = Some tp" "load_u16 K L4_DPORT (skb s) = Some cp"
  obtains tf fv s1 nip s2 where
    "authorize_return K (encode_tcp_flow_key (ipv4_mapped_v6 cip) cp front fp pr)
       (encode_flow_key (ipv4_mapped_v6 cip) cp front fp pr Forward) pr tf s = (Some fv, s1)"
    "unmap_ipv4 front = Some nip"
    "rewrite_ip_port K IP_SRC pod nip L4_SPORT tp fp pr s1 = (Some (), s2)"
    "redirect_client_bound K (fwd_ingress_ifindex fv) (set_mark REDIRECTED_RETURN_MARK s2) = (Some TC_ACT_REDIRECT, s')"
proof -
  from red obtain tf where "and_then (authorize_return K (encode_tcp_flow_key (ipv4_mapped_v6 cip) cp front fp pr)
       (encode_flow_key (ipv4_mapped_v6 cip) cp front fp pr Forward) pr tf s) (\<lambda>fv s.
      need (unmap_ipv4 front) s (\<lambda>nip.
      and_then (rewrite_ip_port K IP_SRC pod nip L4_SPORT tp fp pr s) (\<lambda>_ s.
      redirect_client_bound K (fwd_ingress_ifindex fv) (set_mark REDIRECTED_RETURN_MARK s)))) = (Some TC_ACT_REDIRECT, s')"
    unfolding try_geneve_decap_return_v4_def pr ips ports need_Some Let_def
    by (auto simp: need_eq_Some split: if_splits)
  with that show ?thesis unfolding and_then_eq_Some need_eq_Some by auto
qed

lemma decap_return_v4_packet:
  assumes K: "kern_ok K"
    and ips: "load_u32 K IP_DST (skb s) = Some cip" and ports: "load_u16 K L4_DPORT (skb s) = Some cp"
    and sk: "skb s1 = skb s" and ctl: "control s1 = control s"
    and rw: "rewrite_ip_port K IP_SRC pod nip L4_SPORT tp fp pr s1 = (Some (), s2)"
    and rd: "redirect_client_bound K i (set_mark REDIRECTED_RETURN_MARK s2) = (Some TC_ACT_REDIRECT, s')"
  shows "load_u32 K IP_SRC (skb s') = Some nip \<and> load_u16 K L4_SPORT (skb s') = Some fp
    \<and> load_u32 K IP_DST (skb s') = Some cip \<and> load_u16 K L4_DPORT (skb s') = Some cp
    \<and> mark (skb s') = REDIRECTED_RETURN_MARK
    \<and> (\<exists>uc. UPLINK_CONFIG s i = Some uc
        \<and> redirect_to (skb s') = Some (if unat (l2_hlen uc) = ETH_HLEN then ToNeighbour i else ToDevice i))"
proof -
  have "{IP_SRC..<IP_SRC + 4} \<inter> {L4_SPORT..<L4_SPORT + 2} = {}" by (simp add: offset_defs)
  note e = rewrite_ip_port_effect [OF K rw this]
  obtain uc where uc: "UPLINK_CONFIG (set_mark REDIRECTED_RETURN_MARK s2) i = Some uc"
    and s': "s' = (set_mark REDIRECTED_RETURN_MARK s2)\<lparr>skb := (skb (set_mark REDIRECTED_RETURN_MARK s2))
      \<lparr>redirect_to := Some (if unat (l2_hlen uc) = ETH_HLEN then ToNeighbour i else ToDevice i)\<rparr>\<rparr>"
    by (rule redirect_client_bound_steps [OF K rd])
  have "UPLINK_CONFIG s2 = UPLINK_CONFIG s"
    using only_skbD(9) [OF rewrite_ip_port_only [of s1 K IP_SRC pod nip L4_SPORT tp fp pr] ] rw
      control_eqD(6) [OF ctl] by simp
  then have u: "UPLINK_CONFIG s i = Some uc" using uc by (simp add: set_mark_def)
  have b: "pkt (skb s') = pkt (skb s2)" using s' by (simp add: set_mark_def)
  have keep: "span (pkt (skb s2)) a c = span (pkt (skb s)) a c"
    if "{a..<c} \<inter> (csum_bytes \<union> ({IP_SRC..<IP_SRC + 4} \<union> {L4_SPORT..<L4_SPORT + 2})) = {}" for a c
    using e changed_only_span [OF _ that, of "skb s1" "skb s2"] sk by simp
  have "span (pkt (skb s2)) IP_DST (IP_DST + 4) = span (pkt (skb s)) IP_DST (IP_DST + 4)"
    "span (pkt (skb s2)) L4_DPORT (L4_DPORT + 2) = span (pkt (skb s)) L4_DPORT (L4_DPORT + 2)"
    by (rule keep; auto simp: offset_defs csum_bytes_def)+
  moreover have "length (pkt (skb s2)) = length (pkt (skb s))" using e sk by (simp add: changed_only_def)
  ultimately show ?thesis using e ips ports b u s'
    by (auto simp: load_u16_iff [OF K] load_u32_iff [OF K] offset_defs set_mark_def)
qed

end
