(* ===== verification/Ebpf_Egress.thy ===== *)
theory Ebpf_Egress
  imports Ebpf_Decap
begin

text \<open>
  Hook 3 of \<open>ebpf/src/main.rs\<close>: \<open>uplink_egress_return\<close> on every uplink's egress. It recognises a
  backend pod's reply, restores the client's real port and sends the packet back through the
  tunnel to the ingress node with the front address echoed in a Geneve option.
\<close>

definition front_echo_option :: "rev_flow_value \<Rightarrow> bytes" where
  "front_echo_option rv =
     (let opt = zeroes 24;
          opt = patch opt 0 (u16_to_ne GENEVE_OPT_CLASS);
          opt = opt[2 := GENEVE_OPT_TYPE_FRONT_ECHO];
          opt = opt[3 := 5];
          opt = patch opt 4 (rev_front_ip rv)
      in patch opt 20 (u16_to_ne (rev_front_port rv)))"

definition try_uplink_egress_return_headers_v4 :: "kern \<Rightarrow> nat \<Rightarrow> node \<Rightarrow> verdict option \<times> node" where
  "try_uplink_egress_return_headers_v4 K l2_hlen_c s =
     need (if l2_hlen_c = 0 then load_u8 K 0 (skb s) else direct_u8 l2_hlen_c (skb s)) s (\<lambda>ver_ihl.
     if drop_bit 4 ver_ihl \<noteq> 4 \<or> ver_ihl AND 0x0f \<noteq> 5 then (Some TC_ACT_OK, s) else
     let ip_proto = l2_hlen_c + 9; ip_src = l2_hlen_c + 12; ip_dst = l2_hlen_c + 16;
         l4_off = l2_hlen_c + IP_HLEN; l4_sport = l4_off; l4_dport = l4_off + 2
     in need (direct_u8 ip_proto (skb s)) s (\<lambda>proto.
        if proto \<noteq> IPPROTO_TCP \<and> proto \<noteq> IPPROTO_UDP then (Some TC_ACT_OK, s) else
        need (direct_u32 ip_src (skb s)) s (\<lambda>pod.
        case egress_return_admission (is_pod_target s (ipv4_mapped_v6 pod)) of
          NotBackendTraffic \<Rightarrow> (Some TC_ACT_OK, s)
        | BackendTraffic \<Rightarrow>
        need (direct_u16 l4_sport (skb s)) s (\<lambda>target_port.
        need (direct_u32 ip_dst (skb s)) s (\<lambda>client_ip.
        need (direct_u16 l4_dport (skb s)) s (\<lambda>backend_dst_port.
        let key = encode_flow_key (ipv4_mapped_v6 client_ip) backend_dst_port (ipv4_mapped_v6 pod)
                    target_port proto Reverse;
            rev_lookup = flow_table_get_reverse s key
        in case egress_return_outcome (rev_lookup \<noteq> None) of
             EgPassThrough \<Rightarrow> (Some TC_ACT_OK, s)
           | EgForward \<Rightarrow>
        need rev_lookup s (\<lambda>rv.
        need (tcp_flags_direct K proto l4_off (skb s)) s (\<lambda>tcp_flags.
        and_then (rewrite_l4_port K l4_off l4_dport backend_dst_port (rev_original_client_port rv) proto
                    (touch_return_row K key rv proto tcp_flags s)) (\<lambda>_ s.
        need (map_option cfg_geneve_ifindex (CONFIG s)) s (\<lambda>geneve_ifindex.
        redirect_to_geneve K geneve_ifindex (rev_ingress_node_ip rv) VNI_RET (front_echo_option rv)
          (if l2_hlen_c = 0 then ETH_P_IPV4 else NO_L3_ETHERTYPE) s))))))))))"

definition try_uplink_egress_return_headers_v6 :: "kern \<Rightarrow> nat \<Rightarrow> node \<Rightarrow> verdict option \<times> node" where
  "try_uplink_egress_return_headers_v6 K l2_hlen_c s =
     need (if l2_hlen_c = 0 then load_u8 K 0 (skb s) else direct_u8 l2_hlen_c (skb s)) s (\<lambda>ver.
     if drop_bit 4 ver \<noteq> 6 then (Some TC_ACT_OK, s) else
     let ip6_next_hdr = l2_hlen_c + 6; ip6_src = l2_hlen_c + 8; ip6_dst = l2_hlen_c + 24;
         l4_off = l2_hlen_c + IP6_HLEN; l4_sport = l4_off; l4_dport = l4_off + 2
     in need (direct_u8 ip6_next_hdr (skb s)) s (\<lambda>proto.
        if proto \<noteq> IPPROTO_TCP \<and> proto \<noteq> IPPROTO_UDP then (Some TC_ACT_OK, s) else
        need (direct_ip16 ip6_src (skb s)) s (\<lambda>pod_ip_v6.
        case egress_return_admission (is_pod_target s pod_ip_v6) of
          NotBackendTraffic \<Rightarrow> (Some TC_ACT_OK, s)
        | BackendTraffic \<Rightarrow>
        need (direct_u16 l4_sport (skb s)) s (\<lambda>target_port.
        need (direct_ip16 ip6_dst (skb s)) s (\<lambda>client_ip_v6.
        need (direct_u16 l4_dport (skb s)) s (\<lambda>backend_dst_port.
        let key = encode_flow_key client_ip_v6 backend_dst_port pod_ip_v6 target_port proto Reverse;
            rev_lookup = flow_table_get_reverse s key
        in case egress_return_outcome (rev_lookup \<noteq> None) of
             EgPassThrough \<Rightarrow> (Some TC_ACT_OK, s)
           | EgForward \<Rightarrow>
        need rev_lookup s (\<lambda>rv.
        need (tcp_flags_direct K proto l4_off (skb s)) s (\<lambda>tcp_flags.
        and_then (rewrite_l4_port K l4_off l4_dport backend_dst_port (rev_original_client_port rv) proto
                    (touch_return_row K key rv proto tcp_flags s)) (\<lambda>_ s.
        need (map_option cfg_geneve_ifindex (CONFIG s)) s (\<lambda>geneve_ifindex.
        redirect_to_geneve K geneve_ifindex (rev_ingress_node_ip rv) VNI_RET (front_echo_option rv)
          (if l2_hlen_c = 0 then ETH_P_IPV6 else NO_L3_ETHERTYPE) s))))))))))"

definition try_uplink_egress_return_headers :: "kern \<Rightarrow> nat \<Rightarrow> node \<Rightarrow> verdict option \<times> node" where
  "try_uplink_egress_return_headers K l2_hlen_c s =
     (if l2_hlen_c = ETH_HLEN then
        need (direct_u16 12 (skb s)) s (\<lambda>et.
          if et = ETH_P_IPV4 then try_uplink_egress_return_headers_v4 K l2_hlen_c s
          else if et = ETH_P_IPV6 then try_uplink_egress_return_headers_v6 K l2_hlen_c s
          else (Some TC_ACT_OK, s))
      else
        need (load_u8 K 0 (skb s)) s (\<lambda>ver.
          if drop_bit 4 ver = 4 then try_uplink_egress_return_headers_v4 K l2_hlen_c s
          else if drop_bit 4 ver = 6 then try_uplink_egress_return_headers_v6 K l2_hlen_c s
          else (Some TC_ACT_OK, s)))"

definition try_uplink_egress_return :: "kern \<Rightarrow> node \<Rightarrow> verdict option \<times> node" where
  "try_uplink_egress_return K s =
     (if is_redirected_return_mark (mark (skb s)) then (Some TC_ACT_OK, set_mark 0 s)
      else
        need (uplink_config_get s (ifindex (skb s))) s (\<lambda>uc.
          let hlen = unat (l2_hlen uc)
          in if hlen = 0 then try_uplink_egress_return_headers K 0 s
             else if hlen = ETH_HLEN then try_uplink_egress_return_headers K ETH_HLEN s
             else (Some TC_ACT_OK, s)))"

definition uplink_egress_return :: "kern \<Rightarrow> node \<Rightarrow> verdict \<times> node" where
  "uplink_egress_return K s = unwrap_or TC_ACT_OK (try_uplink_egress_return K s)"

section \<open>Lemmas: tables\<close>

definition refresh_rev :: "node \<Rightarrow> flow_key \<Rightarrow> flow_value \<Rightarrow> bool" where
  "refresh_rev s k v \<longleftrightarrow> flow_key_direction k = Some Reverse \<and>
     (\<exists>old f. FLOW_TABLE s k = Some old \<and> v = from_reverse ((as_reverse old)\<lparr>rev_flags := f\<rparr>))"

lemma touch_return_row_rel:
  assumes "kern_ok K" "flow_table_get_reverse s k = Some rv" "flow_key_direction k = Some Reverse"
  shows "flow_step_rel (refresh_rev s) s (touch_return_row K k rv pr tf s)"
  using assms by (auto simp: flow_step_rel_def refresh_rev_def flow_table_get_reverse_def intro!: touch_return_row_writes)

lemma flow_step_rel_eg_adm:
  "(a = BackendTraffic \<Longrightarrow> flow_step_rel W s (snd y)) \<Longrightarrow>
   flow_step_rel W s (snd (case a of NotBackendTraffic \<Rightarrow> (v, s) | BackendTraffic \<Rightarrow> y))"
  by (cases a) auto

lemma flow_step_rel_eg_out:
  "(a = EgForward \<Longrightarrow> flow_step_rel W s (snd y)) \<Longrightarrow>
   flow_step_rel W s (snd (case a of EgPassThrough \<Rightarrow> (v, s) | EgForward \<Rightarrow> y))"
  by (cases a) auto

lemmas egress_rules = flow_step_rel_rules flow_step_rel_eg_adm flow_step_rel_eg_out touch_return_row_rel
  flow_step_rel_refl

lemma egress_headers_v4_rel:
  assumes K: "kern_ok K"
  shows "flow_step_rel (refresh_rev s) s (snd (try_uplink_egress_return_headers_v4 K h s))"
  unfolding try_uplink_egress_return_headers_v4_def Let_def
  by (intro egress_rules K | assumption | simp add: flow_key_direction_encode)+

lemma egress_headers_v6_rel:
  assumes K: "kern_ok K" and wf: "skb_wf (skb s)"
  shows "flow_step_rel (refresh_rev s) s (snd (try_uplink_egress_return_headers_v6 K h s))"
  unfolding try_uplink_egress_return_headers_v6_def Let_def
  by (intro egress_rules K | assumption | simp add: flow_key_direction_encode direct_ip16_length [OF wf])+

lemma uplink_egress_return_rel:
  assumes K: "kern_ok K" and wf: "skb_wf (skb s)"
  shows "flow_step_rel (refresh_rev s) s (snd (uplink_egress_return K s))"
proof -
  have h: "flow_step_rel (refresh_rev s) s (snd (try_uplink_egress_return_headers K h s))" for h
    unfolding try_uplink_egress_return_headers_def
    by (intro egress_rules egress_headers_v4_rel [OF K] egress_headers_v6_rel [OF K wf])
  show ?thesis
    unfolding uplink_egress_return_def snd_unwrap_or try_uplink_egress_return_def Let_def
    by (intro flow_step_rel_if flow_step_rel_need flow_step_rel_end flow_step_rel_refl h
        flow_step_rel_only [OF set_mark_only])
qed

lemma uplink_egress_return_control:
  assumes "kern_ok K" "skb_wf (skb s)" shows "control (snd (uplink_egress_return K s)) = control s"
  using uplink_egress_return_rel [OF assms] by (simp add: flow_step_rel_def)

section \<open>Lemmas: the echo and the reply\<close>

lemma front_echo_option_eq:
  assumes "length (rev_front_ip rv) = 16"
  shows "front_echo_option rv = u16_to_ne GENEVE_OPT_CLASS @ [GENEVE_OPT_TYPE_FRONT_ECHO, 5]
    @ rev_front_ip rv @ u16_to_ne (rev_front_port rv) @ [0, 0]"
proof -
  have hdr: "(patch (zeroes 24) 0 (u16_to_ne GENEVE_OPT_CLASS))[2 := GENEVE_OPT_TYPE_FRONT_ECHO, 3 := 5] =
    u16_to_ne GENEVE_OPT_CLASS @ [GENEVE_OPT_TYPE_FRONT_ECHO, 5] @ zeroes 20"
    by code_simp
  have z: "zeroes 20 = zeroes 16 @ zeroes 2 @ [0, 0]" by code_simp
  show ?thesis using assms unfolding front_echo_option_def Let_def hdr z by (simp add: patch_def)
qed

lemma front_echo_option_fields:
  assumes "length (rev_front_ip rv) = 16"
  shows "span (front_echo_option rv) 0 2 = u16_to_ne GENEVE_OPT_CLASS"
    "front_echo_option rv ! 2 = GENEVE_OPT_TYPE_FRONT_ECHO"
    "span (front_echo_option rv) 4 20 = rev_front_ip rv"
    "u16_of_ne (span (front_echo_option rv) 20 22) = rev_front_port rv"
    "length (front_echo_option rv) = 24"
  using assms by (simp_all add: front_echo_option_eq wire_simps nth_append)

text \<open>The two options share a class and are told apart by their type byte.\<close>

lemma echo_is_not_pod_id:
  assumes "length (rev_front_ip rv) = 16"
  shows "decode_pod_id_option (front_echo_option rv) = None"
  using front_echo_option_fields [OF assms]
  by (simp add: decode_pod_id_option_def GENEVE_OPT_TYPE_POD_ID_def GENEVE_OPT_TYPE_FRONT_ECHO_def)

text \<open>The fields hook 3 reads from a pod's IPv4 reply on an uplink with \<open>h\<close> bytes of L2 header.\<close>

definition reply_v4 :: "kern \<Rightarrow> nat \<Rightarrow> sk_buff \<Rightarrow> u8 \<Rightarrow> u32 \<Rightarrow> u16 \<Rightarrow> u32 \<Rightarrow> u16 \<Rightarrow> bool" where
  "reply_v4 K h p pr pod tp cip bp \<longleftrightarrow>
     direct_u8 (h + 9) p = Some pr \<and> (pr = IPPROTO_TCP \<or> pr = IPPROTO_UDP)
     \<and> direct_u32 (h + 12) p = Some pod \<and> direct_u16 (h + IP_HLEN) p = Some tp
     \<and> direct_u32 (h + 16) p = Some cip \<and> direct_u16 (h + IP_HLEN + 2) p = Some bp"

lemma egress_headers_v4_steps:
  assumes "try_uplink_egress_return_headers_v4 K h s = (Some TC_ACT_REDIRECT, s')"
  obtains pr pod tp cip bp rv tf s1 g where
    "reply_v4 K h (skb s) pr pod tp cip bp" "POD_TARGETS s (ipv4_mapped_v6 pod) \<noteq> None"
    "flow_table_get_reverse s (encode_flow_key (ipv4_mapped_v6 cip) bp (ipv4_mapped_v6 pod) tp pr Reverse) = Some rv"
    "rewrite_l4_port K (h + IP_HLEN) (h + IP_HLEN + 2) bp (rev_original_client_port rv) pr
       (touch_return_row K (encode_flow_key (ipv4_mapped_v6 cip) bp (ipv4_mapped_v6 pod) tp pr Reverse) rv pr tf s)
       = (Some (), s1)"
    "map_option cfg_geneve_ifindex (CONFIG s1) = Some g"
    "redirect_to_geneve K g (rev_ingress_node_ip rv) VNI_RET (front_echo_option rv)
       (if h = 0 then ETH_P_IPV4 else NO_L3_ETHERTYPE) s1 = (Some TC_ACT_REDIRECT, s')"
proof -
  from assms obtain pr pod where 1: "direct_u8 (h + 9) (skb s) = Some pr" "pr = IPPROTO_TCP \<or> pr = IPPROTO_UDP"
    "direct_u32 (h + 12) (skb s) = Some pod"
    and 2: "(case egress_return_admission (is_pod_target s (ipv4_mapped_v6 pod)) of
          NotBackendTraffic \<Rightarrow> (Some TC_ACT_OK, s)
        | BackendTraffic \<Rightarrow>
        need (direct_u16 (h + IP_HLEN) (skb s)) s (\<lambda>target_port.
        need (direct_u32 (h + 16) (skb s)) s (\<lambda>client_ip.
        need (direct_u16 (h + IP_HLEN + 2) (skb s)) s (\<lambda>backend_dst_port.
        let key = encode_flow_key (ipv4_mapped_v6 client_ip) backend_dst_port (ipv4_mapped_v6 pod)
                    target_port pr Reverse;
            rev_lookup = flow_table_get_reverse s key
        in case egress_return_outcome (rev_lookup \<noteq> None) of
             EgPassThrough \<Rightarrow> (Some TC_ACT_OK, s)
           | EgForward \<Rightarrow>
        need rev_lookup s (\<lambda>rv.
        need (tcp_flags_direct K pr (h + IP_HLEN) (skb s)) s (\<lambda>tcp_flags.
        and_then (rewrite_l4_port K (h + IP_HLEN) (h + IP_HLEN + 2) backend_dst_port (rev_original_client_port rv) pr
                    (touch_return_row K key rv pr tcp_flags s)) (\<lambda>_ s.
        need (map_option cfg_geneve_ifindex (CONFIG s)) s (\<lambda>geneve_ifindex.
        redirect_to_geneve K geneve_ifindex (rev_ingress_node_ip rv) VNI_RET (front_echo_option rv)
          (if h = 0 then ETH_P_IPV4 else NO_L3_ETHERTYPE) s)))))))) = (Some TC_ACT_REDIRECT, s')"
    unfolding try_uplink_egress_return_headers_v4_def Let_def need_eq_Some
    by (auto simp: need_eq_Some split: if_splits)
  from 2 have pod: "POD_TARGETS s (ipv4_mapped_v6 pod) \<noteq> None"
    by (auto simp: egress_return_admission_def is_pod_target_def split: if_splits)
  with 2 obtain tp cip bp where 3: "direct_u16 (h + IP_HLEN) (skb s) = Some tp"
    "direct_u32 (h + 16) (skb s) = Some cip" "direct_u16 (h + IP_HLEN + 2) (skb s) = Some bp"
    and 4: "(case egress_return_outcome (flow_table_get_reverse s (encode_flow_key (ipv4_mapped_v6 cip) bp (ipv4_mapped_v6 pod) tp pr Reverse) \<noteq> None) of
             EgPassThrough \<Rightarrow> (Some TC_ACT_OK, s)
           | EgForward \<Rightarrow>
        need (flow_table_get_reverse s (encode_flow_key (ipv4_mapped_v6 cip) bp (ipv4_mapped_v6 pod) tp pr Reverse)) s (\<lambda>rv.
        need (tcp_flags_direct K pr (h + IP_HLEN) (skb s)) s (\<lambda>tcp_flags.
        and_then (rewrite_l4_port K (h + IP_HLEN) (h + IP_HLEN + 2) bp (rev_original_client_port rv) pr
                    (touch_return_row K (encode_flow_key (ipv4_mapped_v6 cip) bp (ipv4_mapped_v6 pod) tp pr Reverse) rv pr tcp_flags s)) (\<lambda>_ s.
        need (map_option cfg_geneve_ifindex (CONFIG s)) s (\<lambda>geneve_ifindex.
        redirect_to_geneve K geneve_ifindex (rev_ingress_node_ip rv) VNI_RET (front_echo_option rv)
          (if h = 0 then ETH_P_IPV4 else NO_L3_ETHERTYPE) s))))) = (Some TC_ACT_REDIRECT, s')"
    by (auto simp: egress_return_admission_def is_pod_target_def need_eq_Some Let_def split: if_splits)
  from 4 obtain rv where 5: "flow_table_get_reverse s (encode_flow_key (ipv4_mapped_v6 cip) bp (ipv4_mapped_v6 pod) tp pr Reverse) = Some rv"
    by (auto simp: egress_return_outcome_def split: if_splits)
  from 4 [unfolded 5] that [OF _ pod 5] 1 3 show ?thesis
    unfolding need_eq_Some and_then_eq_Some reply_v4_def
    by (auto simp: egress_return_outcome_def need_eq_Some and_then_eq_Some)
qed

text \<open>The reply that leaves for the ingress node: the client's own port restored, the front echoed.\<close>

lemma egress_headers_v4_packet:
  assumes K: "kern_ok K" and wf: "skb_wf (skb s)" and rp: "reply_v4 K h (skb s) pr pod tp cip bp"
    and rv: "valid_reverse rv"
    and rw: "rewrite_l4_port K (h + IP_HLEN) (h + IP_HLEN + 2) bp (rev_original_client_port rv) pr t = (Some (), s1)"
    and sk: "skb t = skb s"
    and rd: "redirect_to_geneve K g (rev_ingress_node_ip rv) VNI_RET (front_echo_option rv)
       (if h = 0 then ETH_P_IPV4 else NO_L3_ETHERTYPE) s1 = (Some TC_ACT_REDIRECT, s')"
    and h: "h = ETH_HLEN"
  shows "tunnelled (rev_ingress_node_ip rv) VNI_RET (front_echo_option rv) g (skb s')
    \<and> load_u32 K IP_SRC (skb s') = Some pod \<and> load_u16 K L4_SPORT (skb s') = Some tp
    \<and> load_u32 K IP_DST (skb s') = Some cip \<and> load_u16 K L4_DPORT (skb s') = Some (rev_original_client_port rv)"
proof -
  have direct: "direct_u16 off (skb s) = Some x \<Longrightarrow> load_u16 K off (skb s) = Some x"
    "direct_u32 off (skb s) = Some y \<Longrightarrow> load_u32 K off (skb s) = Some y" for off x y
    using wf by (auto simp: direct_u16_def direct_u32_def load_direct_def load_u16_def load_u32_def load_ok [OF K]
        skb_wf_def split: if_splits)
  have ld: "load_u32 K (h + 12) (skb s) = Some pod" "load_u16 K (h + IP_HLEN) (skb s) = Some tp"
    "load_u32 K (h + 16) (skb s) = Some cip" "load_u16 K (h + IP_HLEN + 2) (skb s) = Some bp"
    using rp by (auto simp: reply_v4_def direct)
  have "span (pkt (skb t)) (h + IP_HLEN + 2) (h + IP_HLEN + 2 + 2) = u16_to_ne bp"
    using ld(4) sk by (simp add: load_u16_iff [OF K])
  note e = rewrite_l4_port_effect [OF K rw this]
  have keep: "span (pkt (skb s1)) a c = span (pkt (skb s)) a c"
    if "{a..<c} \<inter> ({h + IP_HLEN + 6..<h + IP_HLEN + 8} \<union> {h + IP_HLEN + 16..<h + IP_HLEN + 18}
      \<union> {h + IP_HLEN + 2..<h + IP_HLEN + 2 + 2}) = {}" for a c
    using e changed_only_span [OF _ that, of "skb t" "skb s1"] sk by simp
  have keeps: "span (pkt (skb s1)) (h + 12) (h + 12 + 4) = span (pkt (skb s)) (h + 12) (h + 12 + 4)"
    "span (pkt (skb s1)) (h + 16) (h + 16 + 4) = span (pkt (skb s)) (h + 16) (h + 16 + 4)"
    "span (pkt (skb s1)) (h + IP_HLEN) (h + IP_HLEN + 2) = span (pkt (skb s)) (h + IP_HLEN) (h + IP_HLEN + 2)"
    by (rule keep; auto simp: IP_HLEN_def)+
  have len: "length (pkt (skb s1)) = length (pkt (skb s))" using e sk by (simp add: changed_only_def)
  have remote: "length (rev_ingress_node_ip rv) = 16" using rv by (simp add: valid_defs)
  note tun = redirect_to_geneve_tunnelled [OF K remote rd]
  have b: "pkt (skb s') = pkt (skb s1)" using tun h by (simp add: ETH_HLEN_def)
  show ?thesis using tun e b len ld keeps h
    by (auto simp: load_u16_iff [OF K] load_u32_iff [OF K] offset_defs)
qed

end
