(* ===== verification/Dataplane.thy ===== *)
theory Dataplane
  imports Ebpf_Egress
begin

text \<open>
  The three classifiers together. The locales \<open>classifier\<close>, \<open>confined\<close> and \<open>refreshing\<close> state what the
  rest of the system relies on (the control-plane maps are read-only to the programs; which rows
  of \<open>FLOW_TABLE\<close> a program may write; a program that only refreshes existing rows), and are
  interpreted on the three hooks. The step relation \<open>dp_step\<close> interleaves packets on any hook with
  userspace writes.
\<close>

section \<open>Runs of one hook\<close>

definition run_hook :: "(node \<Rightarrow> verdict \<times> node) \<Rightarrow> sk_buff list \<Rightarrow> node \<Rightarrow> node" where
  "run_hook hook ps s = fold (\<lambda>p s. snd (hook (s\<lparr>skb := p\<rparr>))) ps s"

locale classifier =
  fixes hook :: "node \<Rightarrow> verdict \<times> node" and admits :: "sk_buff \<Rightarrow> bool"
  assumes keeps_control: "admits (skb s) \<Longrightarrow> control (snd (hook s)) = control s"
begin

lemma run_control: "list_all admits ps \<Longrightarrow> control (run_hook hook ps s) = control s"
  by (induction ps arbitrary: s) (simp_all add: run_hook_def keeps_control)

end

locale confined = classifier +
  fixes may :: "node \<Rightarrow> flow_key \<Rightarrow> flow_value \<Rightarrow> bool"
  assumes confines: "admits (skb s) \<Longrightarrow> flow_writes (may s) s (snd (hook s))"
begin

lemma untouched_or_evicted:
  assumes "admits (skb s)" "\<And>v. \<not> may s k v"
  shows "FLOW_TABLE (snd (hook s)) k = FLOW_TABLE s k \<or> FLOW_TABLE (snd (hook s)) k = None"
  using confines [OF assms(1)] assms(2) unfolding flow_writes_def by (metis not_None_eq)

end

locale refreshing = confined +
  assumes only_old: "may s k v \<Longrightarrow> FLOW_TABLE s k \<noteq> None"
begin

lemma step_dom: "admits (skb s) \<Longrightarrow> dom (FLOW_TABLE (snd (hook s))) \<subseteq> dom (FLOW_TABLE s)"
  using confines only_old unfolding flow_writes_def by fastforce

lemma run_dom: "list_all admits ps \<Longrightarrow> dom (FLOW_TABLE (run_hook hook ps s)) \<subseteq> dom (FLOW_TABLE s)"
proof (induction ps arbitrary: s)
  case (Cons p ps)
  have "dom (FLOW_TABLE (snd (hook (s\<lparr>skb := p\<rparr>)))) \<subseteq> dom (FLOW_TABLE s)"
    using step_dom [of "s\<lparr>skb := p\<rparr>"] Cons.prems by simp
  with Cons.IH [of "snd (hook (s\<lparr>skb := p\<rparr>))"] Cons.prems show ?case
    unfolding run_hook_def by (simp add: subset_trans)
qed (simp add: run_hook_def)

end

lemma refresh_of_old: "refresh_of s k v \<Longrightarrow> FLOW_TABLE s k \<noteq> None"
  by (auto simp: refresh_of_def)

interpretation ingress: refreshing "uplink_ingress K" "\<lambda>p. kern_ok K \<and> skb_wf p"
  "\<lambda>s k v. flow_key_direction k = Some Forward \<and> refresh_of s k v" for K
  using refresh_of_old by unfold_locales (auto simp: uplink_ingress_control uplink_ingress_writes)

interpretation tunnel: confined "geneve_ingress K" "\<lambda>p. kern_ok K"
  "\<lambda>s k v. reverse_role k v \<or> forward_role s k v" for K
  using geneve_ingress_rel by unfold_locales (auto simp: flow_step_rel_def)

interpretation egress: refreshing "uplink_egress_return K" "\<lambda>p. kern_ok K \<and> skb_wf p" refresh_rev for K
  using uplink_egress_return_rel by unfold_locales (auto simp: flow_step_rel_def refresh_rev_def)

section \<open>Interleavings\<close>

text \<open>The pins \<open>uplink_ingress\<close> mints for the packet it is given: chosen by steering, for a flow that
  had neither an established nor a pending entry.\<close>

definition minted :: "kern \<Rightarrow> node \<Rightarrow> tcp_flow_key \<Rightarrow> forward_flow_value \<Rightarrow> bool" where
  "minted K s k v \<longleftrightarrow> (\<exists>flow l3. classify K s = Some (flow, l3) \<and> k = pending_key flow
     \<and> pinned s k (forward_key flow) = None \<and> fwd_ingress_ifindex v = ingress_ifindex (skb s) \<and> fwd_flags v = 0
     \<and> fst (steer_flow K (ingress_ifindex (skb s)) flow s) = Inr (fwd_backend v, fwd_target_port v))"

definition typed_control :: "node \<Rightarrow> bool" where
  "typed_control s \<longleftrightarrow> (\<forall>k e. FRONT_ENDPOINTS s k = Some e \<longrightarrow> valid_backend (fe_backend e))"

type_synonym history = "(tcp_flow_key \<times> forward_flow_value) set"

inductive dp_step :: "kern \<Rightarrow> node \<times> history \<Rightarrow> node \<times> history \<Rightarrow> bool" for K where
  client: "skb_wf p \<Longrightarrow> s1 = s\<lparr>skb := p\<rparr> \<Longrightarrow>
    dp_step K (s, H) (snd (uplink_ingress K s1), H \<union> {(k, v). minted K s1 k v})"
| tunnel_in: "dp_step K (s, H) (snd (geneve_ingress K (s\<lparr>skb := p\<rparr>)), H)"
| reply: "skb_wf p \<Longrightarrow> dp_step K (s, H) (snd (uplink_egress_return K (s\<lparr>skb := p\<rparr>)), H)"
| userspace: "FLOW_TABLE s' \<subseteq>\<^sub>m FLOW_TABLE s \<Longrightarrow> FWD_PENDING s' \<subseteq>\<^sub>m FWD_PENDING s \<Longrightarrow> typed_control s' \<Longrightarrow>
    dp_step K (s, H) (s', H)"

inductive dp_reach :: "kern \<Rightarrow> node \<times> history \<Rightarrow> bool" for K where
  boot: "FLOW_TABLE s = Map.empty \<Longrightarrow> FWD_PENDING s = Map.empty \<Longrightarrow> typed_control s \<Longrightarrow> dp_reach K (s, {})"
| step: "dp_reach K c \<Longrightarrow> dp_step K c c' \<Longrightarrow> dp_reach K c'"

definition descends :: "history \<Rightarrow> flow_key \<Rightarrow> flow_value \<Rightarrow> bool" where
  "descends H k v \<longleftrightarrow> (\<exists>p f. (span k 0 TCP_FLOW_KEY_LEN, p) \<in> H \<and> v = from_forward (p\<lparr>fwd_flags := f\<rparr>))"

definition provenance :: "node \<times> history \<Rightarrow> bool" where
  "provenance = (\<lambda>(s, H). typed_control s \<and> (\<forall>(k, v) \<in> H. valid_forward v)
     \<and> (\<forall>k v. FWD_PENDING s k = Some v \<longrightarrow> (k, v) \<in> H)
     \<and> (\<forall>k v. FLOW_TABLE s k = Some v \<longrightarrow> flow_key_direction k = Some Forward \<longrightarrow> descends H k v))"

lemma descends_mono: "descends H k v \<Longrightarrow> H \<subseteq> H' \<Longrightarrow> descends H' k v"
  unfolding descends_def by blast

lemma typed_control_cong: "control s = control t \<Longrightarrow> typed_control s = typed_control t"
  by (simp add: typed_control_def control_def)

lemma minted_valid:
  assumes "typed_control s" "minted K s k v" shows "valid_forward v"
proof -
  from assms(2) obtain flow where pin: "pinned s (pending_key flow) (forward_key flow) = None"
    and st: "fst (steer_flow K (ingress_ifindex (skb s)) flow s) = Inr (fwd_backend v, fwd_target_port v)"
    unfolding minted_def by blast
  obtain meta cfg where m: "FRONT_META s (if_front flow) = Some meta" "CONFIG s = Some cfg"
    using st by (cases "FRONT_META s (if_front flow)"; cases "CONFIG s")
      (auto simp: steer_flow_def ingress_backend_def front_meta_get_def)
  let ?h = "front_flow_hash (cfg_flow_hash_seed cfg) (if_client_ip flow) (if_client_port flow) (if_front flow) meta"
  have "ingress_steer meta None None ?h (if_front flow) (FRONT_ENDPOINTS s) = SteerForward (fwd_backend v) (fwd_target_port v)"
    using st unfolding steer_flow_def ingress_backend_unpinned [OF m pin]
    by (auto split: ingress_steer_t.splits option.splits)
  then show ?thesis
    by (rule ingress_steer_unpinned) (use assms(1) in \<open>auto simp: typed_control_def valid_forward_def\<close>)
qed

lemma refresh_descends:
  assumes old: "refresh_of s k v" "\<And>v. FLOW_TABLE s k = Some v \<Longrightarrow> descends H k v"
    and H: "\<forall>(k, v) \<in> H. valid_forward v"
  shows "descends H k v"
proof -
  from old obtain w f where w: "FLOW_TABLE s k = Some w" "v = from_forward ((as_forward w)\<lparr>fwd_flags := f\<rparr>)"
    unfolding refresh_of_def by blast
  from old(2) [OF w(1)] obtain p g where p: "(span k 0 TCP_FLOW_KEY_LEN, p) \<in> H" "w = from_forward (p\<lparr>fwd_flags := g\<rparr>)"
    unfolding descends_def by blast
  have "valid_forward (p\<lparr>fwd_flags := g\<rparr>)" using H p(1) by (auto simp: valid_forward_def)
  then have "as_forward w = p\<lparr>fwd_flags := g\<rparr>"
    unfolding p(2) by (intro as_from_forward) (simp_all add: valid_defs)
  then have "v = from_forward (p\<lparr>fwd_flags := f\<rparr>)" using w(2) by simp
  with p(1) show ?thesis unfolding descends_def by blast
qed

lemma provenance_client:
  assumes K: "kern_ok K" and inv: "provenance (s, H)" and wf: "skb_wf p" and s1: "s1 = s\<lparr>skb := p\<rparr>"
  shows "provenance (snd (uplink_ingress K s1), H \<union> {(k, v). minted K s1 k v})"
proof -
  let ?s' = "snd (uplink_ingress K s1)" and ?H' = "H \<union> {(k, v). minted K s1 k v}"
  have t1: "typed_control s1" using inv s1 by (simp add: provenance_def typed_control_def)
  have wf1: "skb_wf (skb s1)" using wf s1 by simp
  have c: "typed_control ?s'" using t1 typed_control_cong [OF uplink_ingress_control] by blast
  have H: "\<forall>(k, v) \<in> ?H'. valid_forward v" using inv minted_valid [OF t1] by (auto simp: provenance_def)
  have old: "FLOW_TABLE s1 k = Some v \<Longrightarrow> flow_key_direction k = Some Forward \<Longrightarrow> descends ?H' k v" for k v
    using inv s1 descends_mono [of H k v ?H'] by (auto simp: provenance_def)
  have "(k, v) \<in> ?H'" if "FWD_PENDING ?s' k = Some v" for k v
  proof (cases "FWD_PENDING s1 k = Some v")
    case True then show ?thesis using inv s1 by (auto simp: provenance_def)
  next
    case False
    from uplink_ingress_pending [OF K that this] show ?thesis by (auto simp: minted_def)
  qed
  moreover have "descends ?H' k v" if "FLOW_TABLE ?s' k = Some v" "flow_key_direction k = Some Forward" for k v
    using uplink_ingress_writes [OF K wf1] that old refresh_descends [of s1 k v ?H'] H
    unfolding flow_writes_def by blast
  ultimately show ?thesis using c H by (simp add: provenance_def)
qed

lemma provenance_confined:
  assumes inv: "provenance (s, H)" and s1: "s1 = s\<lparr>skb := p\<rparr>"
    and rel: "flow_step_rel W s1 s'" and W: "\<And>k v. W k v \<Longrightarrow> flow_key_direction k = Some Forward \<Longrightarrow> forward_role s1 k v"
  shows "provenance (s', H)"
proof -
  have c: "typed_control s'"
    using inv rel typed_control_cong [of s' s1] s1 by (simp add: provenance_def flow_step_rel_def typed_control_def)
  have "FWD_PENDING s' \<subseteq>\<^sub>m FWD_PENDING s" using rel s1 by (simp add: flow_step_rel_def)
  then have "FWD_PENDING s k = Some v" if "FWD_PENDING s' k = Some v" for k v
    using that by (metis domI map_le_def)
  then have pend: "(k, v) \<in> H" if "FWD_PENDING s' k = Some v" for k v
    using inv that by (simp add: provenance_def)
  have H: "\<forall>(k, v) \<in> H. valid_forward v" using inv by (simp add: provenance_def)
  have rows: "descends H k v" if r: "FLOW_TABLE s' k = Some v" "flow_key_direction k = Some Forward" for k v
  proof -
    have old: "descends H k v" if "FLOW_TABLE s1 k = Some v" for v
      using inv s1 r(2) that by (simp add: provenance_def)
    from rel r consider "FLOW_TABLE s1 k = Some v" | "refresh_of s1 k v" | "promoted_of s1 k v"
      unfolding flow_step_rel_def flow_writes_def using W forward_role_def by blast
    then show ?thesis
    proof cases
      case 1 then show ?thesis by (rule old)
    next
      case 2 then show ?thesis by (rule refresh_descends [OF _ old H])
    next
      case 3
      then obtain q f where "FWD_PENDING s (span k 0 TCP_FLOW_KEY_LEN) = Some q" "v = from_forward (q\<lparr>fwd_flags := f\<rparr>)"
        unfolding promoted_of_def s1 by auto
      then show ?thesis using inv unfolding descends_def provenance_def by blast
    qed
  qed
  show ?thesis unfolding provenance_def prod.case using c H pend rows by blast
qed

lemma reverse_not_forward:
  "reverse_role k v \<Longrightarrow> flow_key_direction k \<noteq> Some Forward" "refresh_rev s k v \<Longrightarrow> flow_key_direction k \<noteq> Some Forward"
  by (auto simp: reverse_role_def refresh_rev_def)

lemma provenance_step:
  assumes K: "kern_ok K" and inv: "provenance c" and st: "dp_step K c c'"
  shows "provenance c'"
  using st inv
proof cases
  case (client p s1 s H)
  then show ?thesis using provenance_client [OF K _ client(3) client(4)] inv by simp
next
  case (tunnel_in s H p)
  then show ?thesis
    using provenance_confined [OF _ refl geneve_ingress_rel [OF K] ] inv reverse_not_forward(1) by blast
next
  case (reply p s H)
  have "flow_step_rel (refresh_rev (s\<lparr>skb := p\<rparr>)) (s\<lparr>skb := p\<rparr>) (snd (uplink_egress_return K (s\<lparr>skb := p\<rparr>)))"
    by (rule uplink_egress_return_rel [OF K]) (simp add: reply)
  then show ?thesis
    using provenance_confined [of s H "s\<lparr>skb := p\<rparr>" p] inv reply reverse_not_forward(2) by blast
next
  case (userspace s' s H)
  then show ?thesis using inv unfolding provenance_def
    by (auto simp: map_le_def dom_def)
qed

lemma provenance_reach:
  assumes K: "kern_ok K" and r: "dp_reach K c" shows "provenance c"
  using r
proof induction
  case (boot s) then show ?case by (simp add: provenance_def)
next
  case (step c c') then show ?case using provenance_step [OF K] by blast
qed

end
