(* ===== verification/Dataplane_Props.thy ===== *)
theory Dataplane_Props
  imports Dataplane
begin

text \<open>
  The properties of the packet programs, stated on the three hooks, and the concrete node and
  packets on which each of them is exercised.
\<close>

section \<open>Packet views\<close>

text \<open>An Ethernet-framed IPv4 packet without options carrying TCP or UDP.\<close>

definition inner_v4 :: "kern \<Rightarrow> sk_buff \<Rightarrow> u8 \<Rightarrow> u32 \<Rightarrow> u16 \<Rightarrow> u32 \<Rightarrow> u16 \<Rightarrow> bool" where
  "inner_v4 K p pr src sport dst dport \<longleftrightarrow>
     load_u16 K 12 p = Some ETH_P_IPV4
     \<and> (case load_u8 K IP_VER_IHL p of Some vi \<Rightarrow> vi AND 0x0f = 5 | None \<Rightarrow> False)
     \<and> load_u8 K IP_PROTO p = Some pr \<and> (pr = IPPROTO_TCP \<or> pr = IPPROTO_UDP)
     \<and> load_u32 K IP_SRC p = Some src \<and> load_u16 K L4_SPORT p = Some sport
     \<and> load_u32 K IP_DST p = Some dst \<and> load_u16 K L4_DPORT p = Some dport"

lemma unwrap_SHOT:
  "unwrap_or TC_ACT_SHOT r = (v, t) \<Longrightarrow> v \<noteq> TC_ACT_SHOT \<Longrightarrow> r = (Some v, t)"
  by (cases r; cases "fst r") (auto simp: unwrap_or_def)

lemma unwrap_OK:
  "unwrap_or TC_ACT_OK r = (v, t) \<Longrightarrow> v \<noteq> TC_ACT_OK \<Longrightarrow> r = (Some v, t)"
  by (cases r; cases "fst r") (auto simp: unwrap_or_def)

lemma VNI_distinct [simp]: "VNI_FWD \<noteq> VNI_RET" "VNI_RET \<noteq> VNI_FWD"
  by (simp_all add: VNI_FWD_def VNI_RET_def)

lemma ETH_P_distinct [simp]: "ETH_P_IPV4 \<noteq> ETH_P_IPV6" "ETH_P_IPV6 \<noteq> ETH_P_IPV4"
  by code_simp+

section \<open>A concrete node\<close>

definition tcp4 :: "u32 \<Rightarrow> u16 \<Rightarrow> u32 \<Rightarrow> u16 \<Rightarrow> u8 \<Rightarrow> bytes" where
  "tcp4 src sport dst dport flags =
     zeroes 12 @ u16_to_ne ETH_P_IPV4 @ [0x45, 0] @ zeroes 7 @ [6] @ zeroes 2 @ u32_to_ne src @ u32_to_ne dst
     @ u16_to_ne sport @ u16_to_ne dport @ zeroes 8 @ [0x50, flags] @ zeroes 6"

definition ex_skb :: "bytes \<Rightarrow> sk_buff" where
  "ex_skb b = \<lparr>pkt = b, linear = length b, ingress_ifindex = 2, ifindex = 2, mark = 0, pkt_type = 3,
     tun_key = None, tun_opt = [], redirect_to = None\<rparr>"

definition ex_client :: u32 where "ex_client = wire_ip 0x0A000009"
definition ex_front_ip :: u32 where "ex_front_ip = wire_ip 0xCB007105"
definition ex_front2_ip :: u32 where "ex_front2_ip = wire_ip 0xCB007106"
definition ex_pod :: u32 where "ex_pod = wire_ip 0x0A2A0007"
definition ex_node :: ip16 where "ex_node = ipv4_mapped_v6 0xC0A86D03"

definition ex_front :: lb_front_key where
  "ex_front = \<lparr>lfk_front_ip = ipv4_mapped_v6 ex_front_ip, lfk_front_port = wire_port 443, lfk_proto = 6, lfk_pad = 0\<rparr>"

definition ex_backend :: lb_front_backend where
  "ex_backend = \<lparr>backend_node_ip = ex_node, pod_ip = ipv4_mapped_v6 ex_pod\<rparr>"

definition ex_state :: node where
  "ex_state =
     \<lparr>FRONT_META = [ex_front \<mapsto> \<lparr>fm_generation = 7, fm_count = 1, fm_flags = 0, fm_local_count = 0, fm_pad = 0\<rparr>],
      FRONT_ENDPOINTS = [\<lparr>fek_front = ex_front, fek_generation = 7, fek_slot = 0, fek_pad = 0\<rparr> \<mapsto>
         \<lparr>fe_backend = ex_backend, fe_target_port = wire_port 8443, fe_flags = 0, fe_pad = [0, 0]\<rparr>],
      FRONT_MISSES = Some 0,
      POD_TARGETS = [ipv4_mapped_v6 ex_pod \<mapsto> 1],
      NODE_ALLOW = [ex_node \<mapsto> 1],
      FWD_PENDING = Map.empty, FLOW_TABLE = Map.empty,
      CONFIG = Some \<lparr>cfg_geneve_ifindex = 9, cfg_udp_parity = 0, cfg_tcp_parity = 1, cfg_pad = [0, 0], cfg_flow_hash_seed = 42\<rparr>,
      UPLINK_CONFIG = [2 \<mapsto> \<lparr>l2_hlen = 14\<rparr>],
      skb = ex_skb (tcp4 ex_client (wire_port 40000) ex_front_ip (wire_port 443) 2)\<rparr>"

section \<open>Admission\<close>

text \<open>C1. A flood on an uplink, however long and whatever its packets, adds no row to \<open>FLOW_TABLE\<close>: new
  flows are admitted to \<open>FWD_PENDING\<close> only.\<close>

theorem flood_adds_no_flow_row:
  assumes "kern_ok K" "list_all skb_wf flood"
  shows "dom (FLOW_TABLE (run_hook (uplink_ingress K) flood s)) \<subseteq> dom (FLOW_TABLE s)"
  using ingress.run_dom [of K flood s] assms by (auto simp: list_all_iff)

definition ex_flood :: "sk_buff list" where
  "ex_flood = map (\<lambda>i. ex_skb (tcp4 ex_client (of_nat i) ex_front_ip (wire_port 443) 2)) [1..<4]"

theorem flood_adds_no_flow_row_witness:
  "kern_ok std_kern \<and> list_all skb_wf ex_flood
   \<and> dom (FLOW_TABLE (run_hook (uplink_ingress std_kern) ex_flood ex_state)) \<subseteq> dom (FLOW_TABLE ex_state)"
proof -
  have "list_all skb_wf ex_flood" by code_simp
  with flood_adds_no_flow_row [OF std_kern_ok this, of ex_state] std_kern_ok show ?thesis by simp
qed

text \<open>C2. In every state reachable by any interleaving of packets on the three hooks, LRU evictions and
  userspace deletions, each forward row of \<open>FLOW_TABLE\<close> carries exactly the backend, target port
  and uplink that \<open>uplink_ingress\<close> minted for that same 5-tuple.\<close>

theorem forward_rows_were_minted:
  assumes "kern_ok K" "dp_reach K (s, H)" "FLOW_TABLE s k = Some v" "flow_key_direction k = Some Forward"
  shows "\<exists>pin. (span k 0 TCP_FLOW_KEY_LEN, pin) \<in> H \<and> as_forward v = pin\<lparr>fwd_flags := flow_value_flags v\<rparr>"
proof -
  have inv: "provenance (s, H)" by (rule provenance_reach [OF assms(1,2)])
  then obtain p f where p: "(span k 0 TCP_FLOW_KEY_LEN, p) \<in> H" "v = from_forward (p\<lparr>fwd_flags := f\<rparr>)"
    using assms(3,4) unfolding provenance_def descends_def by blast
  then have "valid_forward p" using inv by (auto simp: provenance_def)
  then have l: "length (backend_node_ip (fwd_backend (p\<lparr>fwd_flags := f\<rparr>))) = 16"
    "length (pod_ip (fwd_backend (p\<lparr>fwd_flags := f\<rparr>))) = 16" by (simp_all add: valid_defs)
  show ?thesis using p as_from_forward [OF l] flags_from_forward [OF l] by auto
qed

definition ex_reply :: sk_buff where
  "ex_reply = (ex_skb (tcp4 ex_pod (wire_port 8443) ex_client (wire_port 40000) 0x12))
     \<lparr>tun_key := Some (\<lparr>tunnel_id = VNI_RET, tk_remote = [0xC0A86D03, 0, 0, 0], tunnel_tos = 0, tunnel_ttl = 64,
        tunnel_ext = 0, tunnel_label = 0, tk_local = [0, 0, 0, 0]\<rparr>, 0),
      tun_opt := [0xff, 0xff, 2, 5] @ ipv4_mapped_v6 ex_front_ip @ u16_to_ne (wire_port 443) @ [0, 0]\<rparr>"

definition ex_fwd_key :: flow_key where
  "ex_fwd_key = encode_flow_key (ipv4_mapped_v6 ex_client) (wire_port 40000) (ipv4_mapped_v6 ex_front_ip) (wire_port 443) 6 Forward"

definition ex_pin :: forward_flow_value where
  "ex_pin = \<lparr>fwd_backend = ex_backend, fwd_ingress_ifindex = 2, fwd_target_port = wire_port 8443, fwd_flags = 0\<rparr>"

definition ex_pending :: node where
  "ex_pending = ex_state\<lparr>FWD_PENDING := [span ex_fwd_key 0 TCP_FLOW_KEY_LEN \<mapsto> ex_pin], skb := ex_reply\<rparr>"

lemma ex_state_typed: "typed_control ex_state"
  by (auto simp: typed_control_def ex_state_def ex_backend_def valid_backend_def ex_node_def split: if_splits)

lemma ex_state_wf: "skb_wf (skb ex_state)"
  by code_simp

lemma ex_mints: "FWD_PENDING (snd (uplink_ingress std_kern ex_state)) (span ex_fwd_key 0 TCP_FLOW_KEY_LEN) = Some ex_pin"
  by code_simp

lemma ex_pending_le:
  "FWD_PENDING t (span ex_fwd_key 0 TCP_FLOW_KEY_LEN) = Some ex_pin \<Longrightarrow> FWD_PENDING ex_pending \<subseteq>\<^sub>m FWD_PENDING t"
  by (simp add: ex_pending_def map_le_def)

definition ex_history :: history where
  "ex_history = {} \<union> {(k, v). minted std_kern ex_state k v}"

lemma ex_pending_reach: "dp_reach std_kern (ex_pending, ex_history)"
proof (rule dp_reach.step [OF dp_reach.step [OF dp_reach.boot] ])
  show "FLOW_TABLE ex_state = Map.empty" "FWD_PENDING ex_state = Map.empty" by (simp_all add: ex_state_def)
  show "typed_control ex_state" by (rule ex_state_typed)
  have "ex_state = ex_state\<lparr>skb := skb ex_state\<rparr>" by simp
  from dp_step.client [OF ex_state_wf this, of std_kern "{}"]
  show "dp_step std_kern (ex_state, {}) (snd (uplink_ingress std_kern ex_state), ex_history)"
    unfolding ex_history_def .
  show "dp_step std_kern (snd (uplink_ingress std_kern ex_state), ex_history) (ex_pending, ex_history)"
  proof (rule dp_step.userspace)
    have "FLOW_TABLE ex_pending = Map.empty" by (simp add: ex_pending_def ex_state_def)
    then show "FLOW_TABLE ex_pending \<subseteq>\<^sub>m FLOW_TABLE (snd (uplink_ingress std_kern ex_state))"
      by (simp only: map_le_empty)
    show "FWD_PENDING ex_pending \<subseteq>\<^sub>m FWD_PENDING (snd (uplink_ingress std_kern ex_state))"
      by (rule ex_pending_le [OF ex_mints])
    have "FRONT_ENDPOINTS ex_pending = FRONT_ENDPOINTS ex_state" by (simp add: ex_pending_def)
    with ex_state_typed show "typed_control ex_pending" by (simp only: typed_control_def)
  qed
qed

lemma ex_promotes:
  "(case FLOW_TABLE (snd (geneve_ingress std_kern ex_pending)) ex_fwd_key of
      Some v \<Rightarrow> flow_value_flags v = 8 | None \<Rightarrow> False)"
  by code_simp

theorem forward_rows_were_minted_witness:
  "\<exists>H pin. dp_reach std_kern (snd (geneve_ingress std_kern ex_pending), H) \<and> (span ex_fwd_key 0 TCP_FLOW_KEY_LEN, pin) \<in> H
     \<and> as_forward (the (FLOW_TABLE (snd (geneve_ingress std_kern ex_pending)) ex_fwd_key)) = pin\<lparr>fwd_flags := 8\<rparr>"
proof -
  define u where "u = snd (geneve_ingress std_kern ex_pending)"
  have e: "ex_pending\<lparr>skb := ex_reply\<rparr> = ex_pending" by (simp add: ex_pending_def)
  have r: "dp_reach std_kern (u, ex_history)"
    using dp_reach.step [OF ex_pending_reach dp_step.tunnel_in [of std_kern ex_pending ex_history ex_reply] ]
    unfolding e u_def .
  obtain v where v: "FLOW_TABLE u ex_fwd_key = Some v" "flow_value_flags v = 8"
    using ex_promotes unfolding u_def [symmetric] by (auto split: option.splits)
  have d: "flow_key_direction ex_fwd_key = Some Forward" by code_simp
  from forward_rows_were_minted [OF std_kern_ok r v(1) d] v r show ?thesis
    unfolding u_def [symmetric] by auto
qed

definition not_redirect :: "verdict option \<times> node \<Rightarrow> bool" where
  "not_redirect r \<longleftrightarrow> fst r \<noteq> Some TC_ACT_REDIRECT"

lemma not_redirect_rules:
  "(\<And>v. x = Some v \<Longrightarrow> not_redirect (k v)) \<Longrightarrow> not_redirect (need x s k)"
  "(\<And>v t. not_redirect (k' v t)) \<Longrightarrow> not_redirect (and_then r k')"
  "(b \<Longrightarrow> not_redirect y) \<Longrightarrow> (\<not> b \<Longrightarrow> not_redirect z) \<Longrightarrow> not_redirect (if b then y else z)"
  "not_redirect (Some TC_ACT_OK, s)" "not_redirect (Some TC_ACT_SHOT, s)"
  "not_redirect n \<Longrightarrow> (\<And>a. not_redirect (c a)) \<Longrightarrow> not_redirect (case o' of None \<Rightarrow> n | Some a \<Rightarrow> c a)"
  "(\<And>a d. not_redirect (e a d)) \<Longrightarrow> not_redirect (case p of (a, d) \<Rightarrow> e a d)"
  unfolding not_redirect_def
  by (cases x; auto; fail | (cases r; cases "fst r"; auto; fail) | (simp split: option.split prod.split; fail))+

lemma decap_forward_not_redirect: "not_redirect (try_geneve_decap_forward K tkey v6 s)"
proof -
  have v4: "not_redirect (try_geneve_decap_forward_v4 K tkey v6 pod tp s)" for pod tp
    unfolding try_geneve_decap_forward_v4_def Let_def by (intro not_redirect_rules)
  have v6: "not_redirect (try_geneve_decap_forward_v6 K tkey v6 pod tp s)" for pod tp
    unfolding try_geneve_decap_forward_v6_def Let_def by (intro not_redirect_rules)
  show ?thesis unfolding try_geneve_decap_forward_eq by (intro not_redirect_rules v4 v6)
qed

lemma redirect_is_return:
  assumes "geneve_ingress K s = (TC_ACT_REDIRECT, s')"
  obtains tkey v6 where "get_tunnel_key K (skb s) = Some (tkey, v6)" "tunnel_id tkey = VNI_RET"
    "try_geneve_decap_return K tkey v6 s = (Some TC_ACT_REDIRECT, s')"
proof -
  obtain tkey v6 where g: "get_tunnel_key K (skb s) = Some (tkey, v6)"
    using assms by (cases "get_tunnel_key K (skb s)") (auto simp: geneve_ingress_def)
  have nf: "tunnel_id tkey \<noteq> VNI_FWD"
  proof
    assume "tunnel_id tkey = VNI_FWD"
    with assms g have "unwrap_or TC_ACT_SHOT (try_geneve_decap_forward K tkey v6 s) = (TC_ACT_REDIRECT, s')"
      by (simp add: geneve_ingress_def)
    from unwrap_SHOT [OF this] decap_forward_not_redirect [of K tkey v6 s] show False by (simp add: not_redirect_def)
  qed
  with assms g have ret: "tunnel_id tkey = VNI_RET"
    "unwrap_or TC_ACT_SHOT (try_geneve_decap_return K tkey v6 s) = (TC_ACT_REDIRECT, s')"
    by (auto simp: geneve_ingress_def split: if_splits)
  from that [OF g ret(1)] unwrap_SHOT [OF ret(2)] show ?thesis by simp
qed

definition authorised :: "node \<Rightarrow> flow_key \<Rightarrow> bool" where
  "authorised s k \<longleftrightarrow> flow_key_direction k = Some Forward
     \<and> (FLOW_TABLE s k \<noteq> None \<or> FWD_PENDING s (span k 0 TCP_FLOW_KEY_LEN) \<noteq> None)"

lemma authorize_return_authorised:
  assumes "length c = 16" "length q = 16"
    "authorize_return K (encode_tcp_flow_key c cp q op pr) (encode_flow_key c cp q op pr Forward) pr tf s = (Some fv, t)"
  shows "authorised s (encode_flow_key c cp q op pr Forward)"
  using assms(1,2)
  by (cases rule: authorize_return_cases [of s "encode_flow_key c cp q op pr Forward" K "encode_tcp_flow_key c cp q op pr" pr tf])
    (use assms(3) in \<open>auto simp: authorised_def flow_key_direction_encode span_flow_key flow_table_get_forward_def\<close>)

lemma decap_return_authorised:
  assumes K: "kern_ok K" and r: "try_geneve_decap_return K tkey v6 s = (Some TC_ACT_REDIRECT, s')"
  shows "NODE_ALLOW s (tunnel_remote tkey v6) \<noteq> None \<and> (\<exists>k. authorised s k)"
proof -
  obtain n opt where o: "skb_get_tunnel_opt K 24 (skb s) = (n, opt)" by fastforce
  moreover have "length (snd (skb_get_tunnel_opt K 24 (skb s))) = 24"
    using K by (simp add: kern_ok_def tunnel_contract_def)
  ultimately have front: "length (span opt 4 20) = 16" by simp
  have v4: "\<exists>k. authorised s k" if "try_geneve_decap_return_v4 K (span opt 4 20) fp s = (Some TC_ACT_REDIRECT, s')" for fp
    using that unfolding try_geneve_decap_return_v4_def Let_def need_eq_Some and_then_eq_Some
    by (auto simp: need_eq_Some and_then_eq_Some split: if_splits
        dest: authorize_return_authorised [OF length_ipv4_mapped_v6 front])
  have v6: "\<exists>k. authorised s k" if "try_geneve_decap_return_v6 K (span opt 4 20) fp s = (Some TC_ACT_REDIRECT, s')" for fp
    using that load_ip16_length [OF K] unfolding try_geneve_decap_return_v6_def Let_def need_eq_Some and_then_eq_Some
    by (auto simp: need_eq_Some and_then_eq_Some split: if_splits)
      (blast intro: authorize_return_authorised [OF load_ip16_length [OF K] front])+
  show ?thesis using r v4 v6
    by (auto simp: try_geneve_decap_return_def o Let_def decision_defs is_node_allowed_def need_eq_Some split: if_splits)
qed


lemma ex_return_redirects: "fst (geneve_ingress std_kern ex_pending) = TC_ACT_REDIRECT"
  by code_simp


text \<open>C4. On the forward VNI nothing passes and no table changes unless the tunnel source is an allowed
  node, the packet carries a complete pod option, and the pod it names is one of this node's
  own.\<close>

theorem decap_forward_gate:
  assumes "get_tunnel_key K (skb s) = Some (tkey, v6)" "tunnel_id tkey = VNI_FWD"
    and "NODE_ALLOW s (tunnel_remote tkey v6) = None
      \<or> fst (skb_get_tunnel_opt K POD_ID_OPT_LEN (skb s)) \<noteq> int POD_ID_OPT_LEN
      \<or> decode_pod_id_option (snd (skb_get_tunnel_opt K POD_ID_OPT_LEN (skb s))) = None
      \<or> (\<exists>pod tp. decode_pod_id_option (snd (skb_get_tunnel_opt K POD_ID_OPT_LEN (skb s))) = Some (pod, tp)
          \<and> POD_TARGETS s pod = None)"
  shows "geneve_ingress K s = (TC_ACT_SHOT, s)"
proof -
  have "decap_admits K tkey v6 s = None"
    using assms(3) by (auto simp: decap_admits_def split: option.splits)
  then show ?thesis using assms(1,2)
    by (simp add: geneve_ingress_def try_geneve_decap_forward_eq unwrap_or_def)
qed

definition ex_tunnel_key :: tunnel_key where
  "ex_tunnel_key = \<lparr>tunnel_id = VNI_FWD, tk_remote = [0xC0A86D03, 0, 0, 0], tunnel_tos = 0, tunnel_ttl = 64,
     tunnel_ext = 0, tunnel_label = 0, tk_local = [0, 0, 0, 0]\<rparr>"

definition ex_forward :: "u32 \<Rightarrow> u16 \<Rightarrow> sk_buff" where
  "ex_forward front flags_port = (ex_skb (tcp4 ex_client (wire_port 40000) front (wire_port 443) 2))
     \<lparr>tun_key := Some (ex_tunnel_key, 0),
      tun_opt := encode_pod_id_option (ipv4_mapped_v6 ex_pod) flags_port\<rparr>"

definition ex_backend_state :: node where
  "ex_backend_state = ex_state\<lparr>skb := ex_forward ex_front_ip (wire_port 8443)\<rparr>"

theorem decap_forward_gate_witness:
  "geneve_ingress std_kern (ex_backend_state\<lparr>POD_TARGETS := Map.empty\<rparr>) = (TC_ACT_SHOT, ex_backend_state\<lparr>POD_TARGETS := Map.empty\<rparr>)
   \<and> geneve_ingress std_kern (ex_backend_state\<lparr>NODE_ALLOW := Map.empty\<rparr>) = (TC_ACT_SHOT, ex_backend_state\<lparr>NODE_ALLOW := Map.empty\<rparr>)"
proof -
  have k: "get_tunnel_key std_kern (skb ex_backend_state) = Some (ex_tunnel_key, False)" "tunnel_id ex_tunnel_key = VNI_FWD"
    by code_simp+
  have d: "decode_pod_id_option (snd (skb_get_tunnel_opt std_kern POD_ID_OPT_LEN (skb ex_backend_state)))
      = Some (ipv4_mapped_v6 ex_pod, wire_port 8443)" by code_simp
  show ?thesis
    using decap_forward_gate [of std_kern "ex_backend_state\<lparr>POD_TARGETS := Map.empty\<rparr>" ex_tunnel_key False]
      decap_forward_gate [of std_kern "ex_backend_state\<lparr>NODE_ALLOW := Map.empty\<rparr>" ex_tunnel_key False] k d
    by simp
qed

section \<open>Delivery and the way back\<close>

lemma tunnel_remote_length:
  assumes "kern_ok K" "get_tunnel_key K p = Some (tkey, v6)" shows "length (tunnel_remote tkey v6) = 16"
proof -
  have "length (tk_remote tkey) = 4"
    using assms by (auto simp: get_tunnel_key_def kern_ok_def tunnel_contract_def split: option.splits)
  then obtain a b c d where "tk_remote tkey = [a, b, c, d]"
    by (auto simp: length_Suc_conv eval_nat_numeral)
  then show ?thesis
    by (cases v6) (simp_all add: tunnel_remote_def tunnel_remote_addr_v6, simp add: tunnel_remote_addr_def)
qed

text \<open>A packet the forward decapsulation hands to the pod, seen through its steps.\<close>

lemma forward_delivery:
  assumes K: "kern_ok K" and g: "get_tunnel_key K (skb s) = Some (tkey, v6)" "tunnel_id tkey = VNI_FWD"
    and i: "inner_v4 K (skb s) pr cip cp fip fp" and ok: "geneve_ingress K s = (TC_ACT_OK, s')"
  obtains pod tp nip rk p tf s1 s2 where "decap_admits K tkey v6 s = Some (pod, tp)" "pod = ipv4_mapped_v6 nip"
    "reverse_key_for K (ipv4_mapped_v6 cip) cp pod tp (ipv4_mapped_v6 fip) fp pr s = (Some (Some (rk, p)), s1)"
    "tcp_flags_direct K pr L4_OFF (skb s) = Some tf"
    "commit_reverse_row K rk (rev_value_for tkey v6 (ipv4_mapped_v6 fip) fp cp) pr tf s1 = (Some (), s2)"
    "only_skb s2 s'"
    "load_u32 K IP_DST (skb s') = Some nip" "load_u16 K L4_DPORT (skb s') = Some tp"
    "load_u32 K IP_SRC (skb s') = Some cip" "load_u16 K L4_SPORT (skb s') = Some p" "pkt_type (skb s') = PACKET_HOST"
proof -
  from ok g have "unwrap_or TC_ACT_SHOT (try_geneve_decap_forward K tkey v6 s) = (TC_ACT_OK, s')"
    by (simp add: geneve_ingress_def)
  from unwrap_SHOT [OF this] have f: "try_geneve_decap_forward K tkey v6 s = (Some TC_ACT_OK, s')" by simp
  then obtain pod tp where a: "decap_admits K tkey v6 s = Some (pod, tp)"
    by (cases "decap_admits K tkey v6 s") (auto simp: try_geneve_decap_forward_eq)
  have v4: "try_geneve_decap_forward_v4 K tkey v6 pod tp s = (Some TC_ACT_OK, s')"
    using f i by (simp add: try_geneve_decap_forward_eq a inner_v4_def)
  obtain vi where vi: "load_u8 K IP_VER_IHL (skb s) = Some vi" "vi AND 0x0f = 5"
    using i by (auto simp: inner_v4_def split: option.splits)
  have il: "load_u8 K IP_PROTO (skb s) = Some pr" "pr = IPPROTO_TCP \<or> pr = IPPROTO_UDP"
    "load_u32 K IP_SRC (skb s) = Some cip" "load_u32 K IP_DST (skb s) = Some fip"
    "load_u16 K L4_SPORT (skb s) = Some cp" "load_u16 K L4_DPORT (skb s) = Some fp"
    using i by (simp_all add: inner_v4_def)
  obtain rk p tf s1 s2 s3 nip s4 q where st:
    "reverse_key_for K (ipv4_mapped_v6 cip) cp pod tp (ipv4_mapped_v6 fip) fp pr s = (Some (Some (rk, p)), s1)"
    "tcp_flags_direct K pr L4_OFF (skb s) = Some tf"
    "commit_reverse_row K rk (rev_value_for tkey v6 (ipv4_mapped_v6 fip) fp cp) pr tf s1 = (Some (), s2)"
    "rewrite_l4_port K L4_OFF L4_SPORT cp p pr s2 = (Some (), s3)" "unmap_ipv4 pod = Some nip"
    "rewrite_ip_port K IP_DST fip nip L4_DPORT fp tp pr s3 = (Some (), s4)"
    "skb_change_type K PACKET_HOST (skb s4) = Some q" "s' = s4\<lparr>skb := q\<rparr>"
    by (rule decap_forward_v4_steps [OF K v4 vi il])
  have sk: "skb s2 = skb s" using reverse_key_for_skb [OF st(1)] commit_reverse_row_skb [OF st(3)] by simp
  have "only_skb s2 s3" "only_skb s3 s4"
    using rewrite_l4_port_only [of s2 K L4_OFF L4_SPORT cp p pr] st(4)
      rewrite_ip_port_only [of s3 K IP_DST fip nip L4_DPORT fp tp pr] st(6) by simp_all
  then have o: "only_skb s2 s'"
    using only_skb_upd [of s4 q] only_skb_trans unfolding st(8) by blast
  have pod: "pod = ipv4_mapped_v6 nip"
    using mapped_unmap [OF decap_admits_length [OF K a] st(5)] by simp
  have "skb s' = q" using st(8) by simp
  with decap_forward_v4_packet [OF K il(5) il(3) sk st(4) st(6) st(7)] that [OF a pod st(1-3) o]
  show ?thesis by simp
qed


lemma ex_inner: "inner_v4 std_kern (skb ex_backend_state) 6 ex_client (wire_port 40000) ex_front_ip (wire_port 443)"
  by code_simp

lemma ex_tkey: "get_tunnel_key std_kern (skb ex_backend_state) = Some (ex_tunnel_key, False)" "tunnel_id ex_tunnel_key = VNI_FWD"
  by code_simp+

lemma ex_delivers: "geneve_ingress std_kern ex_backend_state = (TC_ACT_OK, snd (geneve_ingress std_kern ex_backend_state))"
proof -
  have "fst (geneve_ingress std_kern ex_backend_state) = TC_ACT_OK" by code_simp
  then show ?thesis by (metis prod.collapse)
qed


lemma reply_v4_unique:
  "reply_v4 K h p pr pod tp cip bp \<Longrightarrow> reply_v4 K h p pr' pod' tp' cip' bp' \<Longrightarrow>
   pr' = pr \<and> pod' = pod \<and> tp' = tp \<and> cip' = cip \<and> bp' = bp"
  by (auto simp: reply_v4_def)


definition ex_delivered :: node where "ex_delivered = snd (geneve_ingress std_kern ex_backend_state)"

definition ex_pod_reply :: sk_buff where
  "ex_pod_reply = ex_skb (tcp4 ex_pod (wire_port 8443) ex_client (wire_port 40000) 0x12)"

lemma ex_egress_out:
  "fst (try_uplink_egress_return_headers_v4 std_kern ETH_HLEN (ex_delivered\<lparr>skb := ex_pod_reply\<rparr>)) = Some TC_ACT_REDIRECT"
  by code_simp



definition ex_rev :: rev_flow_value where
  "ex_rev = \<lparr>rev_ingress_node_ip = ex_node, rev_front_ip = ipv4_mapped_v6 ex_front_ip, rev_front_port = wire_port 443,
     rev_original_client_port = wire_port 40000, rev_pad = 0, rev_flags = 0\<rparr>"


lemma redirect_client_bound_mark:
  assumes "kern_ok K" "redirect_client_bound K i (set_mark m t) = (Some TC_ACT_REDIRECT, s')"
  shows "mark (skb s') = m"
  by (rule redirect_client_bound_steps [OF assms]) (simp add: set_mark_def)

text \<open>C8. The redirected return packet crosses the uplink's egress hook once more on the same node; that
  second pass lets it through with its bytes unchanged and only clears the mark, also when the
  front address is itself a pod address.\<close>

theorem redirected_return_passes_egress:
  assumes K: "kern_ok K" and red: "geneve_ingress K s = (TC_ACT_REDIRECT, s')"
  shows "uplink_egress_return K s' = (TC_ACT_OK, set_mark 0 s')"
proof -
  obtain tkey v6 where ret: "try_geneve_decap_return K tkey v6 s = (Some TC_ACT_REDIRECT, s')"
    by (rule redirect_is_return [OF red])
  have v4: "mark (skb s') = REDIRECTED_RETURN_MARK"
    if "try_geneve_decap_return_v4 K f fp s = (Some TC_ACT_REDIRECT, s')" for f fp
    using that unfolding try_geneve_decap_return_v4_def Let_def need_eq_Some and_then_eq_Some
    by (auto simp: need_eq_Some and_then_eq_Some split: if_splits dest: redirect_client_bound_mark [OF K])
  have v6: "mark (skb s') = REDIRECTED_RETURN_MARK"
    if "try_geneve_decap_return_v6 K f fp s = (Some TC_ACT_REDIRECT, s')" for f fp
    using that unfolding try_geneve_decap_return_v6_def Let_def need_eq_Some and_then_eq_Some
    by (auto simp: need_eq_Some and_then_eq_Some split: if_splits dest: redirect_client_bound_mark [OF K])
  have "mark (skb s') = REDIRECTED_RETURN_MARK" using ret v4 v6
    by (auto simp: try_geneve_decap_return_def Let_def case_prod_unfold need_eq_Some
        split: if_splits peer_node_admission_t.splits)
  then show ?thesis
    by (simp add: uplink_egress_return_def try_uplink_egress_return_def is_redirected_return_mark_def unwrap_or_def)
qed

theorem redirected_return_passes_egress_witness:
  "uplink_egress_return std_kern (snd (geneve_ingress std_kern ex_pending))
     = (TC_ACT_OK, set_mark 0 (snd (geneve_ingress std_kern ex_pending)))"
  by (rule redirected_return_passes_egress [OF std_kern_ok, of ex_pending]) (rule prod_eqI, simp_all add: ex_return_redirects)

section \<open>Steering at the ingress\<close>

lemma redirect_classified:
  assumes "uplink_ingress K s = (TC_ACT_REDIRECT, s')"
  obtains flow l3 where "classify K s = Some (flow, l3)"
  using assms by (cases "classify K s") (auto simp: uplink_ingress_pass)

lemma steered_out:
  assumes c: "classify K s = Some (flow, l3)" and r: "uplink_ingress K s = (TC_ACT_REDIRECT, s')"
    and st: "steer_flow K (ingress_ifindex (skb s)) flow s = (Inr (b, port), t)"
  obtains g where "redirect_to_geneve K g (backend_node_ip b) VNI_FWD (encode_pod_id_option (pod_ip b) port)
      (if l3 then if_ethertype flow else NO_L3_ETHERTYPE) t = (Some TC_ACT_REDIRECT, s')"
proof -
  have "unwrap_or TC_ACT_OK (need (map_option cfg_geneve_ifindex (CONFIG t)) t (\<lambda>g.
      redirect_to_geneve K g (backend_node_ip b) VNI_FWD (encode_pod_id_option (pod_ip b) port)
        (if l3 then if_ethertype flow else NO_L3_ETHERTYPE) t)) = (TC_ACT_REDIRECT, s')"
    using uplink_ingress_classified [OF c] r st by simp
  from unwrap_OK [OF this] that show ?thesis unfolding need_eq_Some by auto
qed

text \<open>C9. Affinity: while a flow is pinned (by its established row, or before that by its pending entry)
  every packet of it that is tunnelled goes to the pinned node, pod and port, whatever the
  endpoint table says by now, and no new pin is made.\<close>

theorem pinned_flow_keeps_backend:
  assumes K: "kern_ok K" and c: "classify K s = Some (flow, l3)"
    and pin: "pinned s (pending_key flow) (forward_key flow) = Some pin" "valid_forward pin"
    and front: "FRONT_META s (if_front flow) = Some meta"
    and r: "uplink_ingress K s = (TC_ACT_REDIRECT, s')"
  shows "(\<exists>g. tunnelled (backend_node_ip (fwd_backend pin)) VNI_FWD
      (encode_pod_id_option (pod_ip (fwd_backend pin)) (fwd_target_port pin)) g (skb s'))
    \<and> FWD_PENDING s' = FWD_PENDING s"
proof -
  obtain cfg where cfg: "CONFIG s = Some cfg"
    using uplink_ingress_classified [OF c] r front
    by (cases "CONFIG s") (auto simp: steer_flow_def ingress_backend_def front_meta_get_def)
  note p = ingress_backend_pinned [OF front cfg pin(1), of K "if_client_ip flow" "if_client_port flow"
      "ingress_ifindex (skb s)" "if_tcp_flags flow"]
  obtain t where st: "steer_flow K (ingress_ifindex (skb s)) flow s = (Inr (fwd_backend pin, fwd_target_port pin), t)"
    using p unfolding steer_flow_def by (metis prod.collapse)
  obtain g where rd: "redirect_to_geneve K g (backend_node_ip (fwd_backend pin)) VNI_FWD
      (encode_pod_id_option (pod_ip (fwd_backend pin)) (fwd_target_port pin))
      (if l3 then if_ethertype flow else NO_L3_ETHERTYPE) t = (Some TC_ACT_REDIRECT, s')"
    by (rule steered_out [OF c r st])
  have len: "length (backend_node_ip (fwd_backend pin)) = 16" using pin(2) by (simp add: valid_defs)
  have "FWD_PENDING t = FWD_PENDING s" using p st by (simp add: steer_flow_def)
  moreover have "FWD_PENDING s' = FWD_PENDING t"
    using only_skbD(6) [OF uplink_ingress_state [OF c] ] r st by simp
  ultimately show ?thesis using redirect_to_geneve_tunnelled [OF K len rd] by auto
qed

definition ex_flow :: ingress_flow where
  "ex_flow = \<lparr>if_front = ex_front, if_client_ip = ipv4_mapped_v6 ex_client, if_client_port = wire_port 40000,
     if_ethertype = ETH_P_IPV4, if_tcp_flags = 2\<rparr>"

definition ex_other_pin :: forward_flow_value where
  "ex_other_pin = \<lparr>fwd_backend = \<lparr>backend_node_ip = ipv4_mapped_v6 0xC0A86D44, pod_ip = ipv4_mapped_v6 77\<rparr>,
     fwd_ingress_ifindex = 2, fwd_target_port = 5, fwd_flags = 0\<rparr>"

definition ex_pinned :: node where
  "ex_pinned = ex_state\<lparr>FWD_PENDING := [span ex_fwd_key 0 TCP_FLOW_KEY_LEN \<mapsto> ex_other_pin]\<rparr>"

theorem pinned_flow_keeps_backend_witness:
  "\<exists>g. tunnelled (ipv4_mapped_v6 0xC0A86D44) VNI_FWD (encode_pod_id_option (ipv4_mapped_v6 77) 5) g
     (skb (snd (uplink_ingress std_kern ex_pinned)))"
proof -
  have c: "classify std_kern ex_pinned = Some (ex_flow, False)" by code_simp
  have p: "pinned ex_pinned (pending_key ex_flow) (forward_key ex_flow) = Some ex_other_pin" by code_simp
  have v: "valid_forward ex_other_pin" by code_simp
  have f: "FRONT_META ex_pinned (if_front ex_flow) =
      Some \<lparr>fm_generation = 7, fm_count = 1, fm_flags = 0, fm_local_count = 0, fm_pad = 0\<rparr>" by code_simp
  have "fst (uplink_ingress std_kern ex_pinned) = TC_ACT_REDIRECT" by code_simp
  then have r: "uplink_ingress std_kern ex_pinned = (TC_ACT_REDIRECT, snd (uplink_ingress std_kern ex_pinned))"
    by (metis prod.collapse)
  have e: "backend_node_ip (fwd_backend ex_other_pin) = ipv4_mapped_v6 0xC0A86D44" "pod_ip (fwd_backend ex_other_pin) = ipv4_mapped_v6 77"
    "fwd_target_port ex_other_pin = 5" by (simp_all add: ex_other_pin_def)
  from pinned_flow_keeps_backend [OF std_kern_ok c p v f r] show ?thesis unfolding e by blast
qed

text \<open>C10. A new flow that is tunnelled goes to an endpoint of the front's live generation, in a slot below
  the ready count (below the local count when the node has local endpoints, and then only to an
  endpoint flagged local), and is pinned to it together with the uplink it arrived on.\<close>

theorem new_flow_is_steered_and_pinned:
  assumes K: "kern_ok K" and c: "classify K s = Some (flow, l3)"
    and pin: "pinned s (pending_key flow) (forward_key flow) = None"
    and front: "FRONT_META s (if_front flow) = Some meta" and ty: "typed_control s"
    and r: "uplink_ingress K s = (TC_ACT_REDIRECT, s')"
  shows "\<exists>slot ep g. slot < (if fm_local_count meta > 0 then fm_local_count meta else fm_count meta)
    \<and> FRONT_ENDPOINTS s \<lparr>fek_front = if_front flow, fek_generation = fm_generation meta, fek_slot = slot, fek_pad = 0\<rparr> = Some ep
    \<and> (fm_local_count meta > 0 \<longrightarrow> fe_flags ep AND ENDPOINT_FLAG_IS_LOCAL \<noteq> 0)
    \<and> tunnelled (backend_node_ip (fe_backend ep)) VNI_FWD
        (encode_pod_id_option (pod_ip (fe_backend ep)) (fe_target_port ep)) g (skb s')
    \<and> FWD_PENDING s' (pending_key flow) = Some \<lparr>fwd_backend = fe_backend ep,
        fwd_ingress_ifindex = ingress_ifindex (skb s), fwd_target_port = fe_target_port ep, fwd_flags = 0\<rparr>"
proof -
  obtain cfg where cfg: "CONFIG s = Some cfg"
    using uplink_ingress_classified [OF c] r front
    by (cases "CONFIG s") (auto simp: steer_flow_def ingress_backend_def front_meta_get_def)
  let ?h = "front_flow_hash (cfg_flow_hash_seed cfg) (if_client_ip flow) (if_client_port flow) (if_front flow) meta"
  let ?i = "ingress_ifindex (skb s)"
  note eq = ingress_backend_unpinned [OF front cfg pin, of K "if_client_ip flow" "if_client_port flow" ?i "if_tcp_flags flow"]
  obtain b t where st: "ingress_steer meta None None ?h (if_front flow) (FRONT_ENDPOINTS s) = SteerForward b t"
    using uplink_ingress_classified [OF c] r unfolding steer_flow_def eq
    by (cases "ingress_steer meta None None ?h (if_front flow) (FRONT_ENDPOINTS s)") auto
  let ?v = "\<lparr>fwd_backend = b, fwd_ingress_ifindex = ?i, fwd_target_port = t, fwd_flags = 0\<rparr>"
  obtain m where m: "pending_insert K (pending_key flow) ?v (FWD_PENDING s) = Some m"
    using uplink_ingress_classified [OF c] r unfolding steer_flow_def eq
    by (cases "pending_insert K (pending_key flow) ?v (FWD_PENDING s)") (auto simp: st)
  have sf: "steer_flow K ?i flow s = (Inr (b, t), s\<lparr>FWD_PENDING := m\<rparr>)"
    unfolding steer_flow_def eq using st m by simp
  obtain g where rd: "redirect_to_geneve K g (backend_node_ip b) VNI_FWD (encode_pod_id_option (pod_ip b) t)
      (if l3 then if_ethertype flow else NO_L3_ETHERTYPE) (s\<lparr>FWD_PENDING := m\<rparr>) = (Some TC_ACT_REDIRECT, s')"
    by (rule steered_out [OF c r sf])
  obtain slot ep where sl: "select_endpoint_slot ?h (fm_count meta) (fm_local_count meta) = Some slot"
    and ep: "FRONT_ENDPOINTS s \<lparr>fek_front = if_front flow, fek_generation = fm_generation meta, fek_slot = slot, fek_pad = 0\<rparr> = Some ep"
    and loc: "fm_local_count meta = 0 \<or> fe_flags ep AND ENDPOINT_FLAG_IS_LOCAL \<noteq> 0"
    and bt: "b = fe_backend ep" "t = fe_target_port ep"
    by (rule ingress_steer_unpinned [OF st])
  have len: "length (backend_node_ip b) = 16" using ty ep bt by (auto simp: typed_control_def valid_defs)
  have "FWD_PENDING s' = m"
    using only_skbD(6) [OF uplink_ingress_state [OF c] ] r sf by simp
  then have pend: "FWD_PENDING s' (pending_key flow) = Some ?v" using pending_insert_ok(1) [OF K m] by simp
  have "fm_local_count meta > 0 \<longrightarrow> fe_flags ep AND ENDPOINT_FLAG_IS_LOCAL \<noteq> 0" using loc by auto
  then show ?thesis
    using select_endpoint_slot_less [OF sl] ep pend redirect_to_geneve_tunnelled [OF K len rd] unfolding bt by blast
qed

theorem new_flow_is_steered_and_pinned_witness:
  "\<exists>ep. FRONT_ENDPOINTS ex_state \<lparr>fek_front = ex_front, fek_generation = 7, fek_slot = 0, fek_pad = 0\<rparr> = Some ep
    \<and> FWD_PENDING (snd (uplink_ingress std_kern ex_state)) (pending_key ex_flow) = Some \<lparr>fwd_backend = fe_backend ep,
        fwd_ingress_ifindex = 2, fwd_target_port = fe_target_port ep, fwd_flags = 0\<rparr>"
proof -
  let ?m = "\<lparr>fm_generation = 7, fm_count = 1, fm_flags = 0, fm_local_count = 0, fm_pad = 0\<rparr> :: front_meta"
  have c: "classify std_kern ex_state = Some (ex_flow, False)" by code_simp
  have p: "pinned ex_state (pending_key ex_flow) (forward_key ex_flow) = None" by code_simp
  have f: "FRONT_META ex_state (if_front ex_flow) = Some ?m" by code_simp
  have "fst (uplink_ingress std_kern ex_state) = TC_ACT_REDIRECT" by code_simp
  then have r: "uplink_ingress std_kern ex_state = (TC_ACT_REDIRECT, snd (uplink_ingress std_kern ex_state))"
    by (metis prod.collapse)
  have i: "ingress_ifindex (skb ex_state) = 2" "if_front ex_flow = ex_front" by (simp_all add: ex_state_def ex_skb_def ex_flow_def)
  have z: "slot < (1 :: u16) \<longleftrightarrow> slot = 0" for slot by (simp add: word_less_1)
  from new_flow_is_steered_and_pinned [OF std_kern_ok c p f ex_state_typed r]
  show ?thesis unfolding i by (auto simp: z)
qed

end
