(* ===== verification/Remap_Props.thy ===== *)
theory Remap_Props
  imports Dataplane_Props
begin

text \<open>
  The backend source-port remap: what the probe guarantees, and two situations in which the code
  departs from what its comments promise. Then the frame properties of the three hooks.
\<close>

section \<open>The remap\<close>



text \<open>The reverse row under a port, as its (front, original client port) identity.\<close>

definition row_identity :: "node \<Rightarrow> u16 \<Rightarrow> occupant option" where
  "row_identity s port = map_option identity (flow_table_get_reverse s
     (encode_flow_key (ipv4_mapped_v6 ex_client) port (ipv4_mapped_v6 ex_pod) (wire_port 8443) 6 Reverse))"

text \<open>Two fronts on one pod and port, one client port used for both (the case the remap exists for).
  Flow A is delivered with the client's own port; flow B is remapped to a synthetic port, as
  intended. But the memo is keyed without the front, so A's next packet finds B's memo: the pod
  is shown A's packets from B's port, and B's reverse row is replaced by A's.\<close>

definition ex_synthetic :: u16 where
  "ex_synthetic = probe_candidate (synthetic_port_seed (ipv4_mapped_v6 ex_front2_ip) (wire_port 443)) 0"

lemma memo_is_shared_across_fronts:
  "case geneve_ingress std_kern ex_backend_state of (_, a1) \<Rightarrow>
   (case geneve_ingress std_kern (a1\<lparr>skb := ex_forward ex_front2_ip (wire_port 8443)\<rparr>) of (_, b1) \<Rightarrow>
   (case geneve_ingress std_kern (b1\<lparr>skb := ex_forward ex_front_ip (wire_port 8443)\<rparr>) of (_, a2) \<Rightarrow>
      ex_synthetic \<noteq> wire_port 40000
      \<and> load_u16 std_kern L4_SPORT (skb a1) = Some (wire_port 40000)
      \<and> load_u16 std_kern L4_SPORT (skb b1) = Some ex_synthetic
      \<and> row_identity b1 (wire_port 40000) = Some ((ipv4_mapped_v6 ex_front_ip, wire_port 443), wire_port 40000)
      \<and> row_identity b1 ex_synthetic = Some ((ipv4_mapped_v6 ex_front2_ip, wire_port 443), wire_port 40000)
      \<and> load_u16 std_kern L4_SPORT (skb a2) = Some ex_synthetic
      \<and> row_identity a2 ex_synthetic = Some ((ipv4_mapped_v6 ex_front_ip, wire_port 443), wire_port 40000)))"
  by code_simp

text \<open>A live reverse row that belongs to another (front, original port) identity is overwritten by a
  committing packet; the comment of \<open>commit_reverse_row\<close> says it is never taken.\<close>

lemma commit_replaces_foreign_live_row:
  assumes K: "kern_ok K" and v: "valid_reverse rv"
    and row: "flow_table_get_reverse s k = Some other" "reverse_occupant other \<noteq> None" "identity other \<noteq> identity rv"
    and keep: "\<not> (pr = IPPROTO_TCP \<and> has_rst tf)"
    and c: "commit_reverse_row K k rv pr tf s = (Some (), s')"
  shows "map_option identity (flow_table_get_reverse s' k) = Some (identity rv)"
proof -
  obtain f where "commit_target s k rv pr tf = Some f"
    using keep by (cases "commit_target s k rv pr tf")
      (auto simp: commit_target_def step_target_def tcp_step_None_iff split: if_splits)
  from commit_reverse_row_stored [OF K v c this] show ?thesis by (simp add: identity_def)
qed

section \<open>Frames\<close>

text \<open>No packet on any hook changes a control-plane map (fronts, endpoints, local pods, allowed
  nodes, configuration, uplinks), over any run of packets.\<close>

lemma hooks_keep_control_maps:
  assumes "kern_ok K" "list_all skb_wf ps"
  shows "control (run_hook (uplink_ingress K) ps s) = control s
    \<and> control (run_hook (geneve_ingress K) ps s) = control s
    \<and> control (run_hook (uplink_egress_return K) ps s) = control s"
  using assms ingress.run_control [of K ps s] tunnel.run_control [of K ps s] egress.run_control [of K ps s]
  by (auto simp: list_all_iff)

text \<open>Traffic that is not for a front passes through: an uplink packet that does not parse as TCP or
  UDP on a configured uplink, or whose destination is no front, is accepted with every table
  and every byte as it was.\<close>

lemma foreign_traffic_untouched:
  assumes "case classify K s of None \<Rightarrow> True | Some (flow, l3) \<Rightarrow> FRONT_META s (if_front flow) = None"
  shows "uplink_ingress K s = (TC_ACT_OK, s)"
proof (cases "classify K s")
  case None then show ?thesis by (rule uplink_ingress_pass)
next
  case (Some fl)
  then obtain flow l3 where c: "classify K s = Some (flow, l3)" by (cases fl) auto
  with assms have "FRONT_META s (if_front flow) = None" by simp
  then show ?thesis using uplink_ingress_classified [OF c] by (simp add: steer_flow_def ingress_backend_no_front)
qed

end
