(* ===== verification/Bpf_Map.thy ===== *)
theory Bpf_Map
  imports Flow_State
begin

text \<open>
  The maps as userspace sees them. \<open>aya::maps::HashMap\<close> and the kernel behind it are not part of the
  program: they are the fields of a record \<open>hash_map\<close>, an argument of every definition that writes a
  pinned map. \<open>hash_map_ok\<close> collects what is documented about them (an element write is atomic, a
  failed call changes nothing, a completed walk lists the contents), and \<open>std_hash_map\<close> is a bounded map
  with injected faults that satisfies it.
\<close>

section \<open>Errors\<close>

text \<open>\<open>MapError\<close>: a failed syscall with its errno (\<open>raw_os_error\<close>), or any other error.\<close>

datatype map_error = SyscallError "int option" | OtherMapError

definition EPERM :: int where "EPERM = 1"
definition ENOENT :: int where "ENOENT = 2"
definition E2BIG :: int where "E2BIG = 7"
definition ENOMEM :: int where "ENOMEM = 12"
definition EACCES :: int where "EACCES = 13"
definition EFAULT :: int where "EFAULT = 14"
definition EEXIST :: int where "EEXIST = 17"
definition EINVAL :: int where "EINVAL = 22"

lemmas errno_defs = EPERM_def ENOENT_def E2BIG_def ENOMEM_def EACCES_def EFAULT_def EEXIST_def EINVAL_def

section \<open>The map handle\<close>

text \<open>\<open>hm_rows\<close> is the contents; the program reaches them only through the four calls. \<open>hm_iter\<close> is
  \<open>iter().collect::<Result<_, _>>()\<close>.\<close>

record ('m, 'k, 'v) hash_map =
  hm_rows :: "'m \<Rightarrow> 'k \<rightharpoonup> 'v"
  hm_iter :: "'m \<Rightarrow> map_error + ('k \<times> 'v) list"
  hm_get :: "'k \<Rightarrow> 'm \<Rightarrow> map_error + 'v"
  hm_insert :: "'k \<Rightarrow> 'v \<Rightarrow> 'm \<Rightarrow> map_error option \<times> 'm"
  hm_remove :: "'k \<Rightarrow> 'm \<Rightarrow> map_error option \<times> 'm"

definition insert_contract :: "('m, 'k, 'v) hash_map \<Rightarrow> bool" where
  "insert_contract H \<longleftrightarrow> (\<forall>k v m. hm_rows H (snd (hm_insert H k v m)) =
     (if fst (hm_insert H k v m) = None then (hm_rows H m)(k \<mapsto> v) else hm_rows H m))"

definition remove_contract :: "('m, 'k, 'v) hash_map \<Rightarrow> bool" where
  "remove_contract H \<longleftrightarrow> (\<forall>k m. hm_rows H (snd (hm_remove H k m)) =
     (if fst (hm_remove H k m) = None then (hm_rows H m)(k := None) else hm_rows H m))"

text \<open>A walk may list an element twice (the kernel restarts it when its current key is deleted).\<close>

definition iter_contract :: "('m, 'k, 'v) hash_map \<Rightarrow> bool" where
  "iter_contract H \<longleftrightarrow> (\<forall>m rows. hm_iter H m = Inr rows \<longrightarrow>
     (\<forall>k v. (k, v) \<in> set rows \<longleftrightarrow> hm_rows H m k = Some v))"

definition get_contract :: "('m, 'k, 'v) hash_map \<Rightarrow> bool" where
  "get_contract H \<longleftrightarrow> (\<forall>k m v. hm_get H k m = Inr v \<longleftrightarrow> hm_rows H m k = Some v)"

definition hash_map_ok :: "('m, 'k, 'v) hash_map \<Rightarrow> bool" where
  "hash_map_ok H \<longleftrightarrow> insert_contract H \<and> remove_contract H \<and> iter_contract H \<and> get_contract H"

text \<open>\<open>result.ok()\<close>.\<close>

definition ok :: "'e + 'a \<Rightarrow> 'a option" where
  "ok r = (case r of Inl _ \<Rightarrow> None | Inr v \<Rightarrow> Some v)"

lemma ok_simps [simp]: "ok (Inl e) = None" "ok (Inr v) = Some v"
  by (simp_all add: ok_def)

lemma ok_eq_Some_iff: "ok r = Some v \<longleftrightarrow> r = Inr v"
  by (cases r) auto

text \<open>The loop \<open>for x in xs { if let Err(e) = call(x) { failed += 1; .. } }\<close>: every call is made, the
  failures are counted.\<close>

primrec count_failures :: "('a \<Rightarrow> 'm \<Rightarrow> map_error option \<times> 'm) \<Rightarrow> 'a list \<Rightarrow> 'm \<Rightarrow> nat \<times> 'm" where
  "count_failures call [] m = (0, m)"
| "count_failures call (x # xs) m =
     (case call x m of (r, m) \<Rightarrow>
      case count_failures call xs m of (failed, m) \<Rightarrow>
      ((if r = None then failed else failed + 1), m))"

lemma snd_count_failures:
  "snd (count_failures call (x # xs) m) = snd (count_failures call xs (snd (call x m)))"
  by (simp split: prod.split)

lemma fst_count_failures:
  "fst (count_failures call (x # xs) m) =
   (if fst (call x m) = None then 0 else 1) + fst (count_failures call xs (snd (call x m)))"
  by (simp split: prod.split)

lemmas count_failures_Cons = snd_count_failures fst_count_failures

declare count_failures.simps(2) [simp del]

text \<open>Collecting pairs into a \<open>HashMap\<close>: of two entries with one key the later one stays. A \<open>HashMap\<close>
  is modelled as the association list of its entries in iteration order.\<close>

definition collect_map :: "('k \<times> 'v) list \<Rightarrow> ('k \<times> 'v) list" where
  "collect_map kvs = foldr (\<lambda>(k, v) acc. (k, v) # filter (\<lambda>p. fst p \<noteq> k) acc) (rev kvs) []"

lemma in_set_map_filter: "y \<in> set (List.map_filter f xs) \<longleftrightarrow> (\<exists>x \<in> set xs. f x = Some y)"
  by (induction xs) (auto simp: List.map_filter_simps split: option.split)

lemma unat_of_nat_u16: "n < 2 ^ 16 \<Longrightarrow> unat (of_nat n :: u16) = n"
  by (simp add: unat_of_nat)

section \<open>The laws a client may use\<close>

locale bpf_map =
  fixes H :: "('m, 'k, 'v) hash_map"
  assumes handle_ok: "hash_map_ok H"
begin

lemma insert_rows:
  "hm_rows H (snd (hm_insert H k v m)) =
   (if fst (hm_insert H k v m) = None then (hm_rows H m)(k \<mapsto> v) else hm_rows H m)"
  using handle_ok unfolding hash_map_ok_def insert_contract_def by blast

lemma remove_rows:
  "hm_rows H (snd (hm_remove H k m)) =
   (if fst (hm_remove H k m) = None then (hm_rows H m)(k := None) else hm_rows H m)"
  using handle_ok unfolding hash_map_ok_def remove_contract_def by blast

lemma iter_rows: "hm_iter H m = Inr rows \<Longrightarrow> (k, v) \<in> set rows \<longleftrightarrow> hm_rows H m k = Some v"
  using handle_ok unfolding hash_map_ok_def iter_contract_def by blast

lemma get_rows: "hm_get H k m = Inr v \<longleftrightarrow> hm_rows H m k = Some v"
  using handle_ok unfolding hash_map_ok_def get_contract_def by blast

lemma ok_get: "ok (hm_get H k m) = hm_rows H m k"
proof (cases "hm_rows H m k")
  case None
  then show ?thesis using get_rows [of k m] by (cases "hm_get H k m") auto
next
  case (Some v)
  then have "hm_get H k m = Inr v" by (simp add: get_rows)
  with Some show ?thesis by simp
qed

lemma remove_cases:
  obtains (removed) "fst (hm_remove H k m) = None" "hm_rows H (snd (hm_remove H k m)) = (hm_rows H m)(k := None)"
  | (failed) e where "fst (hm_remove H k m) = Some e" "hm_rows H (snd (hm_remove H k m)) = hm_rows H m"
  by (cases "fst (hm_remove H k m)") (use remove_rows [of k m] in auto)

lemma iter_keys: "hm_iter H m = Inr rows \<Longrightarrow> fst ` set rows = dom (hm_rows H m)"
  by (force simp: dom_def iter_rows [symmetric])

text \<open>Bulk deletes remove rows of the given keys only, and all of them when none failed.\<close>

lemma remove_all_frame:
  "k \<notin> set ks \<Longrightarrow> hm_rows H (snd (count_failures (hm_remove H) ks m)) k = hm_rows H m k"
  by (induction ks arbitrary: m) (simp_all add: count_failures_Cons remove_rows)

lemma remove_all_shrinks:
  "hm_rows H (snd (count_failures (hm_remove H) ks m)) \<subseteq>\<^sub>m hm_rows H m"
proof (induction ks arbitrary: m)
  case (Cons x xs)
  have "hm_rows H (snd (hm_remove H x m)) \<subseteq>\<^sub>m hm_rows H m"
    by (simp add: remove_rows map_le_def)
  with Cons show ?case by (auto simp: count_failures_Cons intro: map_le_trans)
qed simp

lemma remove_all_ok:
  assumes "fst (count_failures (hm_remove H) ks m) = 0"
  shows "hm_rows H (snd (count_failures (hm_remove H) ks m)) = hm_rows H m |` (- set ks)"
  using assms
proof (induction ks arbitrary: m)
  case Nil then show ?case by (simp add: restrict_map_def)
next
  case (Cons x xs)
  then have z: "fst (hm_remove H x m) = None" "fst (count_failures (hm_remove H) xs (snd (hm_remove H x m))) = 0"
    by (auto simp: count_failures_Cons split: if_splits)
  show ?case
    using Cons.IH [OF z(2)] z(1)
    by (auto simp: count_failures_Cons remove_rows restrict_map_def fun_eq_iff)
qed

text \<open>Bulk inserts of one value add keys of the list only, and all of them when none failed.\<close>

lemma insert_all_frame:
  "k \<notin> set ks \<Longrightarrow> hm_rows H (snd (count_failures (\<lambda>k. hm_insert H k v) ks m)) k = hm_rows H m k"
  by (induction ks arbitrary: m) (simp_all add: count_failures_Cons insert_rows)

lemma insert_all_keeps:
  "hm_rows H m k = Some v \<Longrightarrow> hm_rows H (snd (count_failures (\<lambda>k. hm_insert H k v) ks m)) k = Some v"
  by (induction ks arbitrary: m) (simp_all add: count_failures_Cons insert_rows)

lemma insert_all_ok:
  assumes "fst (count_failures (\<lambda>k. hm_insert H k v) ks m) = 0" "k \<in> set ks"
  shows "hm_rows H (snd (count_failures (\<lambda>k. hm_insert H k v) ks m)) k = Some v"
  using assms
proof (induction ks arbitrary: m)
  case (Cons x xs)
  then have z: "fst (hm_insert H x v m) = None"
      "fst (count_failures (\<lambda>k. hm_insert H k v) xs (snd (hm_insert H x v m))) = 0"
    by (auto simp: count_failures_Cons split: if_splits)
  then have "hm_rows H (snd (hm_insert H x v m)) x = Some v" by (simp add: insert_rows)
  with Cons.IH [OF z(2)] Cons.prems(2) insert_all_keeps show ?case
    by (auto simp: count_failures_Cons)
qed simp

end

lemma collect_map_keys: "fst ` set (collect_map kvs) = fst ` set kvs"
proof -
  have "fst ` set (foldr (\<lambda>(k, v) acc. (k, v) # filter (\<lambda>p. fst p \<noteq> k) acc) l []) = fst ` set l" for l :: "('a \<times> 'b) list"
    by (induction l) force+
  then show ?thesis by (simp add: collect_map_def)
qed

lemma collect_map_distinct: "distinct (map fst (collect_map kvs))"
proof -
  have d: "distinct (map fst l) \<Longrightarrow> distinct (map fst (filter P l))" for P and l :: "('a \<times> 'b) list"
    by (induction l) auto
  have "distinct (map fst (foldr (\<lambda>(k, v) acc. (k, v) # filter (\<lambda>p. fst p \<noteq> k) acc) l []))" for l :: "('a \<times> 'b) list"
    by (induction l) (auto intro: d)
  then show ?thesis by (simp add: collect_map_def)
qed

lemma collect_map_subset: "set (collect_map kvs) \<subseteq> set kvs"
proof -
  have "set (foldr (\<lambda>(k, v) acc. (k, v) # filter (\<lambda>p. fst p \<noteq> k) acc) l []) \<subseteq> set l" for l :: "('a \<times> 'b) list"
    by (induction l) auto
  from this [of "rev kvs"] show ?thesis by (simp add: collect_map_def)
qed

text \<open>Collecting a completed walk gives the contents.\<close>

lemma collect_walk:
  assumes "\<And>k v. (k, v) \<in> set kvs \<longleftrightarrow> m k = Some v"
  shows "map_of (collect_map kvs) = m"
proof
  fix k
  show "map_of (collect_map kvs) k = m k"
  proof (cases "k \<in> fst ` set kvs")
    case True
    then obtain v where "map_of (collect_map kvs) k = Some v"
      by (metis collect_map_keys map_of_eq_None_iff not_None_eq)
    moreover from this have "(k, v) \<in> set kvs" using collect_map_subset by (fastforce dest: map_of_SomeD)
    ultimately show ?thesis using assms by simp
  next
    case False
    then have "map_of (collect_map kvs) k = None" by (simp add: map_of_eq_None_iff collect_map_keys)
    moreover have "m k = None" using False assms by (cases "m k") force+
    ultimately show ?thesis by simp
  qed
qed

section \<open>A bounded map with injected faults\<close>

text \<open>\<open>sm_faults\<close> is consumed one entry per write call: \<open>Some e\<close> makes that call fail with \<open>e\<close>.\<close>

record ('k, 'v) std_map =
  sm_rows :: "('k \<times> 'v) list"
  sm_max :: nat
  sm_faults :: "map_error option list"

definition sm_tick :: "('k, 'v) std_map \<Rightarrow> map_error option \<times> ('k, 'v) std_map" where
  "sm_tick m = (case sm_faults m of [] \<Rightarrow> (None, m) | f # fs \<Rightarrow> (f, m\<lparr>sm_faults := fs\<rparr>))"

definition std_insert :: "'k \<Rightarrow> 'v \<Rightarrow> ('k, 'v) std_map \<Rightarrow> map_error option \<times> ('k, 'v) std_map" where
  "std_insert k v m =
     (case sm_tick m of
        (Some e, m) \<Rightarrow> (Some e, m)
      | (None, m) \<Rightarrow>
          if map_of (sm_rows m) k \<noteq> None \<or> length (sm_rows m) < sm_max m
          then (None, m\<lparr>sm_rows := (k, v) # filter (\<lambda>p. fst p \<noteq> k) (sm_rows m)\<rparr>)
          else (Some (SyscallError (Some E2BIG)), m))"

definition std_remove :: "'k \<Rightarrow> ('k, 'v) std_map \<Rightarrow> map_error option \<times> ('k, 'v) std_map" where
  "std_remove k m =
     (case sm_tick m of
        (Some e, m) \<Rightarrow> (Some e, m)
      | (None, m) \<Rightarrow>
          if map_of (sm_rows m) k \<noteq> None
          then (None, m\<lparr>sm_rows := filter (\<lambda>p. fst p \<noteq> k) (sm_rows m)\<rparr>)
          else (Some (SyscallError (Some ENOENT)), m))"

definition std_hash_map :: "(('k, 'v) std_map, 'k, 'v) hash_map" where
  "std_hash_map =
     \<lparr>hm_rows = \<lambda>m. map_of (sm_rows m),
      hm_iter = \<lambda>m. Inr (collect_map (rev (sm_rows m))),
      hm_get = \<lambda>k m. (case map_of (sm_rows m) k of Some v \<Rightarrow> Inr v | None \<Rightarrow> Inl OtherMapError),
      hm_insert = std_insert, hm_remove = std_remove\<rparr>"

lemma map_of_drop_key: "map_of (filter (\<lambda>p. fst p \<noteq> k) xs) = (map_of xs)(k := None)"
  by (induction xs) (auto simp: fun_eq_iff)

lemma sm_tick_rows: "sm_tick m = (r, m') \<Longrightarrow> sm_rows m' = sm_rows m"
  by (auto simp: sm_tick_def split: list.splits)

lemma std_insert_rows:
  "map_of (sm_rows (snd (std_insert k v m))) =
   (if fst (std_insert k v m) = None then (map_of (sm_rows m))(k \<mapsto> v) else map_of (sm_rows m))"
  by (auto simp: std_insert_def map_of_drop_key dest!: sm_tick_rows split: prod.splits option.splits)

lemma std_remove_rows:
  "map_of (sm_rows (snd (std_remove k m))) =
   (if fst (std_remove k m) = None then (map_of (sm_rows m))(k := None) else map_of (sm_rows m))"
  by (auto simp: std_remove_def map_of_drop_key dest!: sm_tick_rows split: prod.splits option.splits)

lemma map_of_collect_rev: "map_of (foldr (\<lambda>(k, v) acc. (k, v) # filter (\<lambda>p. fst p \<noteq> k) acc) xs []) = map_of xs"
  by (induction xs) (auto simp: map_of_drop_key fun_eq_iff)

lemma std_iter_rows:
  "(k, v) \<in> set (collect_map (rev xs)) \<longleftrightarrow> map_of xs k = Some v"
proof -
  have "(k, v) \<in> set (collect_map (rev xs)) \<longleftrightarrow> map_of (collect_map (rev xs)) k = Some v"
    using collect_map_distinct [of "rev xs"] by simp
  then show ?thesis by (simp add: collect_map_def map_of_collect_rev)
qed

lemma std_hash_map_ok: "hash_map_ok std_hash_map"
proof -
  have "insert_contract std_hash_map" "remove_contract std_hash_map"
    by (simp_all only: insert_contract_def remove_contract_def std_hash_map_def hash_map.simps
      std_insert_rows std_remove_rows) simp_all
  moreover have "iter_contract std_hash_map"
    by (auto simp: iter_contract_def std_hash_map_def std_iter_rows)
  moreover have "get_contract std_hash_map"
    by (auto simp: get_contract_def std_hash_map_def split: option.split)
  ultimately show ?thesis by (simp add: hash_map_ok_def)
qed

interpretation std_handle: bpf_map std_hash_map
  by unfold_locales (rule std_hash_map_ok)

end
