(* ===== verification/Front_Swap.thy ===== *)
theory Front_Swap
  imports Bpf_Map Steering "HOL-Library.Product_Lexorder" "HOL-Library.List_Lexorder"
begin

text \<open>
  The generation-swap writer of \<open>src/front_swap.rs\<close>: planning the writes that take the two front maps to
  the desired endpoint sets, running a plan with failing writes, the capacity check before a plan is
  started, and the grace during which a replaced generation is kept.

  The abstract contract is \<open>desired_steer\<close>: what a new flow of a front should meet, given only the
  desired endpoint set, with no generations and no slots.
\<close>

section \<open>Plans\<close>

record desired_front =
  df_flags :: u16
  df_prefer_local :: bool
  df_endpoints :: "front_endpoint list"

definition local_count :: "desired_front \<Rightarrow> u16" where
  "local_count d =
     (if \<not> df_prefer_local d then 0
      else of_nat (length (takeWhile (\<lambda>e. fe_flags e AND ENDPOINT_FLAG_IS_LOCAL \<noteq> 0) (df_endpoints d))))"

datatype front_write =
    DeleteEndpoint front_endpoint_key_rec
  | PutEndpoint front_endpoint_key_rec front_endpoint
  | PutMeta lb_front_key front_meta
  | DeleteMeta lb_front_key

record front_plan =
  fp_front :: lb_front_key
  fp_steps :: "front_write list"

definition endpoint_key :: "lb_front_key \<Rightarrow> u32 \<Rightarrow> nat \<Rightarrow> front_endpoint_key_rec" where
  "endpoint_key front generation slot =
     \<lparr>fek_front = front, fek_generation = generation, fek_slot = of_nat slot, fek_pad = 0\<rparr>"

type_synonym meta_entries = "(lb_front_key \<times> front_meta) list"
type_synonym endpoint_entries = "(front_endpoint_key_rec \<times> front_endpoint) list"

text \<open>The \<open>unchanged\<close> filter: the live row of a front whose endpoint set is the wanted one already.\<close>

definition unchanged_meta ::
  "endpoint_entries \<Rightarrow> lb_front_key \<Rightarrow> desired_front \<Rightarrow> front_meta option \<Rightarrow> front_meta option" where
  "unchanged_meta current_endpoints front want meta =
     (case meta of
        None \<Rightarrow> None
      | Some m \<Rightarrow>
          if fm_count m = of_nat (length (df_endpoints want)) \<and> fm_local_count m = local_count want
             \<and> list_all (\<lambda>(slot, ep). map_of current_endpoints (endpoint_key front (fm_generation m) slot) = Some ep)
                 (enumerate 0 (df_endpoints want))
          then Some m else None)"

text \<open>The steps for one front: the body of the loop over \<open>fronts\<close>. \<open>None\<close> is its \<open>continue\<close>.\<close>

definition front_steps ::
  "meta_entries \<Rightarrow> endpoint_entries \<Rightarrow> (lb_front_key \<times> desired_front) list \<Rightarrow> bool \<Rightarrow> lb_front_key list \<Rightarrow>
   lb_front_key \<Rightarrow> front_write list option" where
  "front_steps current_meta current_endpoints desired prune_absent keep_previous front =
     (let existing = filter (\<lambda>k. fek_front k = front) (map fst current_endpoints);
          meta = map_of current_meta front
      in case map_of desired front of
           None \<Rightarrow>
             if \<not> prune_absent then None
             else Some ((if meta \<noteq> None then [DeleteMeta front] else []) @ map DeleteEndpoint existing)
         | Some want \<Rightarrow>
             (case unchanged_meta current_endpoints front want meta of
                Some m \<Rightarrow>
                  Some (map DeleteEndpoint
                          (filter (\<lambda>k. fek_generation k \<noteq> fm_generation m
                                       \<and> \<not> (front \<in> set keep_previous \<and> fek_generation k = fm_generation m - 1))
                             existing)
                        @ (if fm_flags m \<noteq> df_flags want
                           then [PutMeta front (m\<lparr>fm_flags := df_flags want\<rparr>)] else []))
              | None \<Rightarrow>
                  let live = map_option fm_generation meta;
                      nxt = (case live of None \<Rightarrow> 1 | Some g \<Rightarrow> g + 1)
                  in Some (map DeleteEndpoint (filter (\<lambda>k. Some (fek_generation k) \<noteq> live) existing)
                           @ map (\<lambda>(slot, ep). PutEndpoint (endpoint_key front nxt slot) ep)
                               (enumerate 0 (df_endpoints want))
                           @ [PutMeta front
                                \<lparr>fm_generation = nxt, fm_count = of_nat (length (df_endpoints want)),
                                 fm_flags = df_flags want, fm_local_count = local_count want, fm_pad = 0\<rparr>])))"

text \<open>\<open>plan_effect\<close> loops over the steps with four running counters.\<close>

fun effect_loop :: "bool \<Rightarrow> front_write list \<Rightarrow> int \<times> int \<times> int \<times> int \<Rightarrow> int \<times> int \<times> int \<times> int" where
  "effect_loop had_meta [] acc = acc"
| "effect_loop had_meta (step # steps) (ep, ep_peak, meta, meta_peak) =
     (let ep = (case step of PutEndpoint _ _ \<Rightarrow> ep + 1 | DeleteEndpoint _ \<Rightarrow> ep - 1 | _ \<Rightarrow> ep);
          meta = (case step of PutMeta _ _ \<Rightarrow> if \<not> had_meta then meta + 1 else meta
                             | DeleteMeta _ \<Rightarrow> meta - 1 | _ \<Rightarrow> meta)
      in effect_loop had_meta steps (ep, max ep_peak ep, meta, max meta_peak meta))"

definition plan_effect :: "front_plan \<Rightarrow> bool \<Rightarrow> int \<times> nat \<times> nat" where
  "plan_effect plan front_had_meta =
     (case effect_loop front_had_meta (fp_steps plan) (0, 0, 0, 0) of
        (ep, ep_peak, meta, meta_peak) \<Rightarrow> (ep, nat ep_peak, nat meta_peak))"

definition plan_order :: "meta_entries \<Rightarrow> front_plan \<Rightarrow> int \<times> ip16 \<times> u16 \<times> u8" where
  "plan_order current_meta p =
     (fst (plan_effect p (map_of current_meta (fp_front p) \<noteq> None)),
      lfk_front_ip (fp_front p), lfk_front_port (fp_front p), lfk_proto (fp_front p))"

definition plan_front_writes ::
  "meta_entries \<Rightarrow> endpoint_entries \<Rightarrow> (lb_front_key \<times> desired_front) list \<Rightarrow> bool \<Rightarrow> lb_front_key list \<Rightarrow>
   front_plan list" where
  "plan_front_writes current_meta current_endpoints desired prune_absent keep_previous =
     (let fronts = remdups (map fst desired @
                     (if prune_absent then map fst current_meta @ map (fek_front \<circ> fst) current_endpoints else []));
          plans = List.map_filter (\<lambda>front.
                    case front_steps current_meta current_endpoints desired prune_absent keep_previous front of
                      None \<Rightarrow> None
                    | Some steps \<Rightarrow>
                        if steps \<noteq> [] then Some \<lparr>fp_front = front, fp_steps = steps\<rparr> else None) fronts
      in sort_key (plan_order current_meta) plans)"

section \<open>Running a plan\<close>

datatype failure_kind = Capacity | OutOfMemory | Other

definition from_errno :: "int option \<Rightarrow> failure_kind" where
  "from_errno errno =
     (if errno = Some E2BIG then Capacity else if errno = Some ENOMEM then OutOfMemory else Other)"

definition failure_kind_of :: "map_error \<Rightarrow> failure_kind" where
  "failure_kind_of e = (case e of SyscallError errno \<Rightarrow> from_errno errno | OtherMapError \<Rightarrow> Other)"

text \<open>The message of a failure keeps the parts of the formatted text.\<close>

datatype failure_message = StepFailed string map_error | NoRoom string nat u32 nat

record front_failure =
  ff_kind :: failure_kind
  ff_message :: failure_message

definition step_name :: "front_write \<Rightarrow> string" where
  "step_name step =
     (case step of
        DeleteEndpoint _ \<Rightarrow> ''FRONT_ENDPOINTS delete''
      | PutEndpoint _ _ \<Rightarrow> ''FRONT_ENDPOINTS write''
      | PutMeta _ _ \<Rightarrow> ''FRONT_META write''
      | DeleteMeta _ \<Rightarrow> ''FRONT_META delete'')"

definition is_put_meta :: "front_write \<Rightarrow> bool" where
  "is_put_meta step \<longleftrightarrow> (case step of PutMeta _ _ \<Rightarrow> True | _ \<Rightarrow> False)"

type_synonym 's writer = "front_write \<Rightarrow> 's \<Rightarrow> map_error option \<times> 's"

text \<open>The loop of \<open>run_front_plan\<close>; its state is the failures so far, \<open>commit_blocked\<close> and the state
  the closure \<open>write\<close> works on.\<close>

fun run_steps ::
  "'s writer \<Rightarrow> front_write list \<Rightarrow> front_failure list \<times> bool \<times> 's \<Rightarrow> front_failure list \<times> bool \<times> 's" where
  "run_steps write [] st = st"
| "run_steps write (step # steps) (failures, commit_blocked, s) =
     (if commit_blocked \<and> is_put_meta step then run_steps write steps (failures, commit_blocked, s)
      else case write step s of
        (None, s) \<Rightarrow> run_steps write steps (failures, commit_blocked, s)
      | (Some e, s) \<Rightarrow>
          let failures = failures @ [\<lparr>ff_kind = failure_kind_of e, ff_message = StepFailed (step_name step) e\<rparr>]
          in case step of
               PutEndpoint _ _ \<Rightarrow> run_steps write steps (failures, True, s)
             | DeleteMeta _ \<Rightarrow> (failures, commit_blocked, s)
             | _ \<Rightarrow> run_steps write steps (failures, commit_blocked, s))"

definition run_front_plan :: "'s writer \<Rightarrow> front_plan \<Rightarrow> 's \<Rightarrow> front_failure list \<times> 's" where
  "run_front_plan write plan s =
     (case run_steps write (fp_steps plan) ([], False, s) of (failures, _, s) \<Rightarrow> (failures, s))"

section \<open>Capacity and the whole pass\<close>

record front_capacity =
  fc_meta :: u32
  fc_endpoints :: u32

record front_usage =
  fu_meta :: nat
  fu_endpoints :: nat

definition usage_apply :: "front_usage \<Rightarrow> front_write \<Rightarrow> bool \<Rightarrow> front_usage" where
  "usage_apply used step front_had_meta =
     (case step of
        PutEndpoint _ _ \<Rightarrow> used\<lparr>fu_endpoints := fu_endpoints used + 1\<rparr>
      | DeleteEndpoint _ \<Rightarrow> used\<lparr>fu_endpoints := fu_endpoints used - 1\<rparr>
      | PutMeta _ _ \<Rightarrow> if \<not> front_had_meta then used\<lparr>fu_meta := fu_meta used + 1\<rparr> else used
      | DeleteMeta _ \<Rightarrow> used\<lparr>fu_meta := fu_meta used - 1\<rparr>)"

definition capacity_shortfall ::
  "front_plan \<Rightarrow> bool \<Rightarrow> front_usage \<Rightarrow> front_capacity \<Rightarrow> front_failure option" where
  "capacity_shortfall plan front_had_meta used cap =
     (case plan_effect plan front_had_meta of
        (_, ep_peak, meta_peak) \<Rightarrow>
          if fu_endpoints used + ep_peak > unat (fc_endpoints cap)
          then Some \<lparr>ff_kind = Capacity,
                     ff_message = NoRoom ''FRONT_ENDPOINTS'' (fu_endpoints used) (fc_endpoints cap) ep_peak\<rparr>
          else if fu_meta used + meta_peak > unat (fc_meta cap)
          then Some \<lparr>ff_kind = Capacity,
                     ff_message = NoRoom ''FRONT_META'' (fu_meta used) (fc_meta cap) meta_peak\<rparr>
          else None)"

record front_apply =
  fa_failures :: "(lb_front_key \<times> front_failure) list"
  fa_swapped :: "lb_front_key list"

text \<open>The closure \<open>run_front_plans\<close> passes down: a write that succeeds is counted in \<open>used\<close>, and a
  committed new generation is noticed.\<close>

definition tracked ::
  "'s writer \<Rightarrow> front_meta option \<Rightarrow> (front_usage \<times> bool \<times> 's) writer" where
  "tracked write live step st =
     (case st of (used, committed, s) \<Rightarrow>
      case write step s of
        (Some e, s) \<Rightarrow> (Some e, (used, committed, s))
      | (None, s) \<Rightarrow>
          (None, (usage_apply used step (live \<noteq> None),
                  (case step of
                     PutMeta _ m \<Rightarrow> committed \<or> map_option fm_generation live \<noteq> Some (fm_generation m)
                   | _ \<Rightarrow> committed), s)))"

fun run_front_plans ::
  "'s writer \<Rightarrow> meta_entries \<Rightarrow> front_capacity \<Rightarrow> front_plan list \<Rightarrow> front_apply \<times> front_usage \<times> 's \<Rightarrow>
   front_apply \<times> front_usage \<times> 's" where
  "run_front_plans write current_meta cap [] st = st"
| "run_front_plans write current_meta cap (plan # plans) (applied, used, s) =
     (let live = map_of current_meta (fp_front plan)
      in case capacity_shortfall plan (live \<noteq> None) used cap of
           Some shortfall \<Rightarrow>
             run_front_plans write current_meta cap plans
               (applied\<lparr>fa_failures := fa_failures applied @ [(fp_front plan, shortfall)]\<rparr>, used, s)
         | None \<Rightarrow>
             (case run_front_plan (tracked write live) plan (used, False, s) of
                (errors, (used, committed, s)) \<Rightarrow>
                  run_front_plans write current_meta cap plans
                    (applied\<lparr>fa_swapped := fa_swapped applied @ (if committed then [fp_front plan] else []),
                             fa_failures := fa_failures applied @ map (\<lambda>e. (fp_front plan, e)) errors\<rparr>,
                     used, s)))"

text \<open>The closure of \<open>apply_fronts\<close> over the two map handles.\<close>

definition write_step ::
  "('m, lb_front_key, front_meta) hash_map \<Rightarrow> ('e, front_endpoint_key_rec, front_endpoint) hash_map \<Rightarrow>
   ('m \<times> 'e) writer" where
  "write_step M E step st =
     (case st of (ms, es) \<Rightarrow>
      case step of
        DeleteEndpoint k \<Rightarrow> (case hm_remove E k es of (r, es) \<Rightarrow> (r, (ms, es)))
      | PutEndpoint k v \<Rightarrow> (case hm_insert E k v es of (r, es) \<Rightarrow> (r, (ms, es)))
      | PutMeta k v \<Rightarrow> (case hm_insert M k v ms of (r, ms) \<Rightarrow> (r, (ms, es)))
      | DeleteMeta k \<Rightarrow> (case hm_remove M k ms of (r, ms) \<Rightarrow> (r, (ms, es))))"

definition apply_fronts ::
  "('m, lb_front_key, front_meta) hash_map \<Rightarrow> ('e, front_endpoint_key_rec, front_endpoint) hash_map \<Rightarrow>
   front_capacity \<Rightarrow> (lb_front_key \<times> desired_front) list \<Rightarrow> bool \<Rightarrow> lb_front_key list \<Rightarrow> 'm \<times> 'e \<Rightarrow>
   (map_error + front_apply) \<times> 'm \<times> 'e" where
  "apply_fronts M E capacity desired prune_absent keep_previous st =
     (case hm_iter M (fst st) of
        Inl e \<Rightarrow> (Inl e, st)
      | Inr meta_rows \<Rightarrow>
     (case hm_iter E (snd st) of
        Inl e \<Rightarrow> (Inl e, st)
      | Inr endpoint_rows \<Rightarrow>
          let current_meta = collect_map meta_rows;
              current_endpoints = collect_map endpoint_rows;
              used = \<lparr>fu_meta = length current_meta, fu_endpoints = length current_endpoints\<rparr>;
              plans = plan_front_writes current_meta current_endpoints desired prune_absent keep_previous
          in case run_front_plans (write_step M E) current_meta capacity plans
                    (\<lparr>fa_failures = [], fa_swapped = []\<rparr>, used, st) of
               (applied, _, st) \<Rightarrow> (Inr applied, st)))"

section \<open>Recent swaps\<close>

text \<open>\<open>RecentSwaps\<close>. An \<open>Instant\<close> is a number of ticks; \<open>saturating_duration_since\<close> is subtraction on
  the naturals.\<close>

type_synonym recent_swaps = "(lb_front_key \<times> nat) list"

definition held :: "recent_swaps \<Rightarrow> nat \<Rightarrow> nat \<Rightarrow> lb_front_key list" where
  "held swaps now grace = map fst (filter (\<lambda>(_, since). now - since < grace) swaps)"

definition record_swaps :: "recent_swaps \<Rightarrow> lb_front_key list \<Rightarrow> nat \<Rightarrow> nat \<Rightarrow> recent_swaps" where
  "record_swaps swaps swapped now grace =
     collect_map (filter (\<lambda>(_, since). now - since < grace) swaps @ map (\<lambda>front. (front, now)) swapped)"

definition expired :: "recent_swaps \<Rightarrow> nat \<Rightarrow> nat \<Rightarrow> bool" where
  "expired swaps now grace \<longleftrightarrow> list_ex (\<lambda>(_, since). now - since \<ge> grace) swaps"

end
