(* ===== verification/Front_Swap_Props.thy ===== *)
theory Front_Swap_Props
  imports Front_Swap
begin

text \<open>
  Correctness of the generation swap. The effect of a write on the two tables is \<open>do_write\<close>; a writer is
  a closure whose successful calls have that effect and whose failed calls have none (locale
  \<open>map_writer\<close>, interpreted on the closures of \<open>apply_fronts\<close> and \<open>run_front_plans\<close>). Each plan touches
  the slice of one front only, so a pass is understood front by front.
\<close>

section \<open>Effect of the writes\<close>

type_synonym front_tables =
  "(lb_front_key \<rightharpoonup> front_meta) \<times> (front_endpoint_key_rec \<rightharpoonup> front_endpoint)"

definition do_write :: "front_write \<Rightarrow> front_tables \<Rightarrow> front_tables" where
  "do_write step T =
     (case step of
        DeleteEndpoint k \<Rightarrow> (fst T, (snd T)(k := None))
      | PutEndpoint k v \<Rightarrow> (fst T, (snd T)(k \<mapsto> v))
      | PutMeta f m \<Rightarrow> ((fst T)(f \<mapsto> m), snd T)
      | DeleteMeta f \<Rightarrow> ((fst T)(f := None), snd T))"

lemma do_write_simps [simp]:
  "do_write (DeleteEndpoint k) T = (fst T, (snd T)(k := None))"
  "do_write (PutEndpoint k v) T = (fst T, (snd T)(k \<mapsto> v))"
  "do_write (PutMeta f m) T = ((fst T)(f \<mapsto> m), snd T)"
  "do_write (DeleteMeta f) T = ((fst T)(f := None), snd T)"
  by (simp_all add: do_write_def)

definition write_front :: "front_write \<Rightarrow> lb_front_key" where
  "write_front step =
     (case step of DeleteEndpoint k \<Rightarrow> fek_front k | PutEndpoint k _ \<Rightarrow> fek_front k
                 | PutMeta f _ \<Rightarrow> f | DeleteMeta f \<Rightarrow> f)"

lemma write_front_simps [simp]:
  "write_front (DeleteEndpoint k) = fek_front k" "write_front (PutEndpoint k v) = fek_front k"
  "write_front (PutMeta f m) = f" "write_front (DeleteMeta f) = f"
  by (simp_all add: write_front_def)

lemma is_put_meta_simps [simp]:
  "is_put_meta (PutMeta f m)" "\<not> is_put_meta (PutEndpoint k v)"
  "\<not> is_put_meta (DeleteEndpoint k)" "\<not> is_put_meta (DeleteMeta f)"
  by (simp_all add: is_put_meta_def)

lemma endpoint_key_simps [simp]:
  "fek_front (endpoint_key f g n) = f" "fek_generation (endpoint_key f g n) = g"
  "fek_slot (endpoint_key f g n) = of_nat n" "fek_pad (endpoint_key f g n) = 0"
  by (simp_all add: endpoint_key_def)

definition writer_ok :: "'s writer \<Rightarrow> ('s \<Rightarrow> front_tables) \<Rightarrow> bool" where
  "writer_ok write view \<longleftrightarrow> (\<forall>step s. view (snd (write step s)) =
     (if fst (write step s) = None then do_write step (view s) else view s))"

locale map_writer =
  fixes wr :: "'s writer" and view :: "'s \<Rightarrow> front_tables"
  assumes write_ok: "writer_ok wr view"
begin

lemma write_cases:
  obtains (written) s' where "wr step s = (None, s')" "view s' = do_write step (view s)"
  | (failed) e s' where "wr step s = (Some e, s')" "view s' = view s"
proof (cases "wr step s")
  case (Pair r s')
  then show ?thesis
    using write_ok [unfolded writer_ok_def, rule_format, of step s] that by (cases r) auto
qed

text \<open>Whatever fails, a property of the tables that every step of the plan keeps holds at the end.\<close>

lemma run_inv:
  assumes "\<And>step T. step \<in> set steps \<Longrightarrow> I T \<Longrightarrow> I (do_write step T)" "I (view s)"
  shows "I (view (snd (snd (run_steps wr steps (fs, b, s)))))"
  using assms
proof (induction steps arbitrary: fs b s)
  case (Cons step steps)
  note IH = Cons.IH [OF Cons.prems(1)]
  have keep: "I T \<Longrightarrow> I (do_write step T)" for T using Cons.prems(1) by simp
  show ?case
  proof (cases rule: write_cases [of step s])
    case (written s')
    then show ?thesis using IH Cons.prems(2) keep by simp
  next
    case (failed e s')
    then show ?thesis using IH Cons.prems(2) by (cases step) simp_all
  qed
qed simp

lemma run_append:
  assumes "\<And>f. DeleteMeta f \<notin> set xs"
  shows "run_steps wr (xs @ ys) (fs, b, s) = run_steps wr ys (run_steps wr xs (fs, b, s))"
  using assms
proof (induction xs arbitrary: fs b s)
  case (Cons step xs)
  then show ?case
    by (cases step; cases "wr step s"; cases "fst (wr step s)") auto
qed simp

lemma run_failures: "\<exists>gs. fst (run_steps wr steps (fs, b, s)) = fs @ gs"
proof (induction steps arbitrary: fs b s)
  case (Cons step steps)
  show ?case
  proof (cases rule: write_cases [of step s])
    case (written s')
    then show ?thesis using Cons [of fs b s] Cons [of fs b s'] by (cases b) auto
  next
    case (failed e s')
    let ?fs = "fs @ [\<lparr>ff_kind = failure_kind_of e, ff_message = StepFailed (step_name step) e\<rparr>]"
    show ?thesis
      using failed Cons [of ?fs b s'] Cons [of ?fs True s'] Cons [of fs b s] by (cases step) auto
  qed
qed simp

lemma run_blocked: "fst (snd (run_steps wr steps (fs, True, s)))"
proof (induction steps arbitrary: fs s)
  case (Cons step steps)
  then show ?case
    by (cases rule: write_cases [of step s]; cases step) simp_all
qed simp

text \<open>Unless the commit is blocked afterwards, every endpoint row of a run of puts was written.\<close>

lemma run_puts:
  assumes "\<not> fst (snd (run_steps wr (map (\<lambda>(k, v). PutEndpoint k v) rows) (fs, False, s)))"
  shows "view (snd (snd (run_steps wr (map (\<lambda>(k, v). PutEndpoint k v) rows) (fs, False, s)))) =
    (fst (view s), snd (view s) ++ map_of (rev rows))"
  using assms
proof (induction rows arbitrary: fs s)
  case (Cons row rows)
  obtain k v where row: "row = (k, v)" by (cases row)
  show ?case
  proof (cases rule: write_cases [of "PutEndpoint k v" s])
    case (written s')
    have e: "(fst (view s'), snd (view s') ++ map_of (rev rows)) =
        (fst (view s), snd (view s) ++ map_of (rev (row # rows)))"
      by (auto simp: row written fun_eq_iff map_add_def split: option.split)
    have run: "run_steps wr (map (\<lambda>(k, v). PutEndpoint k v) (row # rows)) (fs, False, s) =
        run_steps wr (map (\<lambda>(k, v). PutEndpoint k v) rows) (fs, False, s')"
      by (simp add: row written(1))
    from Cons.IH [OF Cons.prems [unfolded run]] show ?thesis unfolding run e .
  next
    case (failed e s')
    then show ?thesis using Cons.prems row run_blocked by simp
  qed
qed simp

lemma run_clean:
  assumes "fst (run_steps wr steps (fs, False, s)) = fs"
  shows "view (snd (snd (run_steps wr steps (fs, False, s)))) = fold do_write steps (view s)"
  using assms
proof (induction steps arbitrary: s)
  case (Cons step steps)
  show ?case
  proof (cases rule: write_cases [of step s])
    case (written s')
    then show ?thesis using Cons by simp
  next
    case (failed e s')
    let ?fs = "fs @ [\<lparr>ff_kind = failure_kind_of e, ff_message = StepFailed (step_name step) e\<rparr>]"
    have no: "fst (run_steps wr steps (?fs, b, s')) \<noteq> fs" for b
      using run_failures [of steps ?fs b s'] by auto
    show ?thesis using failed Cons.prems no by (cases step) auto
  qed
qed simp

end

lemma write_step_ok:
  assumes "hash_map_ok M" "hash_map_ok E"
  shows "writer_ok (write_step M E) (\<lambda>(ms, es). (hm_rows M ms, hm_rows E es))"
proof -
  note m = bpf_map.intro [OF assms(1)] and e = bpf_map.intro [OF assms(2)]
  note rows = bpf_map.insert_rows [OF m] bpf_map.remove_rows [OF m]
    bpf_map.insert_rows [OF e] bpf_map.remove_rows [OF e]
  show ?thesis
    unfolding writer_ok_def
  proof (intro allI)
    fix step and s :: "'a \<times> 'b"
    obtain ms es where s: "s = (ms, es)" by (cases s)
    show "(\<lambda>(ms, es). (hm_rows M ms, hm_rows E es)) (snd (write_step M E step s)) =
      (if fst (write_step M E step s) = None
       then do_write step ((\<lambda>(ms, es). (hm_rows M ms, hm_rows E es)) s)
       else (\<lambda>(ms, es). (hm_rows M ms, hm_rows E es)) s)"
      unfolding s by (cases step) (simp_all add: write_step_def rows case_prod_unfold)
  qed
qed

lemma tracked_ok:
  assumes "writer_ok write view"
  shows "writer_ok (tracked write live) (\<lambda>(used, committed, s). view s)"
  unfolding writer_ok_def
proof (intro allI)
  fix step and st :: "front_usage \<times> bool \<times> 'a"
  obtain used committed s where st: "st = (used, committed, s)" by (cases st)
  show "(\<lambda>(used, committed, s). view s) (snd (tracked write live step st)) =
    (if fst (tracked write live step st) = None
     then do_write step ((\<lambda>(used, committed, s). view s) st)
     else (\<lambda>(used, committed, s). view s) st)"
    using assms [unfolded writer_ok_def, rule_format, of step s]
    by (cases "write step s"; cases "fst (write step s)") (simp_all add: st tracked_def)
qed

interpretation pinned_writer: map_writer "write_step std_hash_map std_hash_map"
    "\<lambda>(ms, es). (hm_rows std_hash_map ms, hm_rows std_hash_map es)"
  by unfold_locales (rule write_step_ok [OF std_hash_map_ok std_hash_map_ok])

section \<open>The abstract contract of a front\<close>

text \<open>What a new flow with hash \<open>h\<close> should meet at a front whose desired endpoints are \<open>d\<close>.\<close>

definition desired_steer :: "desired_front \<Rightarrow> u32 \<Rightarrow> ingress_steer_t" where
  "desired_steer d h =
     (case select_endpoint_slot h (of_nat (length (df_endpoints d))) (local_count d) of
        None \<Rightarrow> SteerDrop
      | Some slot \<Rightarrow>
          let e = df_endpoints d ! unat slot
          in if local_count d = 0 \<or> fe_flags e AND ENDPOINT_FLAG_IS_LOCAL \<noteq> 0
             then SteerForward (fe_backend e) (fe_target_port e) else SteerDrop)"

text \<open>The tables serve exactly \<open>d\<close> for the front, under the live row \<open>m\<close>.\<close>

definition serves :: "front_tables \<Rightarrow> lb_front_key \<Rightarrow> desired_front \<Rightarrow> front_meta \<Rightarrow> bool" where
  "serves T f d m \<longleftrightarrow>
     fst T f = Some m \<and> fm_count m = of_nat (length (df_endpoints d)) \<and> fm_local_count m = local_count d
     \<and> (\<forall>i < length (df_endpoints d). snd T (endpoint_key f (fm_generation m) i) = Some (df_endpoints d ! i))"

lemma ingress_steer_cong:
  assumes "fm_count m = fm_count m'" "fm_local_count m = fm_local_count m'"
    and "\<And>slot. et \<lparr>fek_front = f, fek_generation = fm_generation m, fek_slot = slot, fek_pad = 0\<rparr> =
      et' \<lparr>fek_front = f, fek_generation = fm_generation m', fek_slot = slot, fek_pad = 0\<rparr>"
  shows "ingress_steer m None None h f et = ingress_steer m' None None h f et'"
  using assms by (auto simp: ingress_steer_def Let_def split: option.split)

lemma serves_steer:
  assumes "serves T f d m" "length (df_endpoints d) < 2 ^ 16"
  shows "ingress_steer m None None h f (snd T) = desired_steer d h"
proof -
  let ?n = "of_nat (length (df_endpoints d)) :: u16"
  have n: "unat ?n = length (df_endpoints d)" using assms(2) by (rule unat_of_nat_u16)
  note s = assms(1) [unfolded serves_def]
  show ?thesis
  proof (cases "select_endpoint_slot h ?n (local_count d)")
    case None
    then show ?thesis using s by (simp add: ingress_steer_def desired_steer_def)
  next
    case (Some slot)
    from select_endpoint_slot_less [OF Some] have "slot < ?n" by (auto split: if_splits)
    then have lt: "unat slot < length (df_endpoints d)" and nz: "?n \<noteq> 0"
      using n by (auto simp: word_less_nat_alt)
    from s lt have "snd T (endpoint_key f (fm_generation m) (unat slot)) = Some (df_endpoints d ! unat slot)"
      by blast
    then have "snd T \<lparr>fek_front = f, fek_generation = fm_generation m, fek_slot = slot, fek_pad = 0\<rparr> =
        Some (df_endpoints d ! unat slot)"
      by (simp add: endpoint_key_def)
    then show ?thesis using s Some nz by (simp add: ingress_steer_def desired_steer_def Let_def)
  qed
qed

section \<open>The shape of a plan\<close>

lemma list_all_enumerate:
  "list_all (\<lambda>(i, x). P i x) (enumerate 0 xs) \<longleftrightarrow> (\<forall>i < length xs. P i (xs ! i))"
  by (auto simp: list_all_iff in_set_enumerate_eq)

lemma unchanged_meta_iff:
  "unchanged_meta ce f d (map_of cm f) = Some m \<longleftrightarrow> serves (map_of cm, map_of ce) f d m"
  by (cases "map_of cm f") (auto simp: unchanged_meta_def serves_def list_all_enumerate)

definition rows_of :: "endpoint_entries \<Rightarrow> lb_front_key \<Rightarrow> front_endpoint_key_rec list" where
  "rows_of ce f = filter (\<lambda>k. fek_front k = f) (map fst ce)"

definition new_rows :: "lb_front_key \<Rightarrow> u32 \<Rightarrow> desired_front \<Rightarrow> (front_endpoint_key_rec \<times> front_endpoint) list" where
  "new_rows f g d = map (\<lambda>(i, ep). (endpoint_key f g i, ep)) (enumerate 0 (df_endpoints d))"

definition new_meta :: "u32 \<Rightarrow> desired_front \<Rightarrow> front_meta" where
  "new_meta g d = \<lparr>fm_generation = g, fm_count = of_nat (length (df_endpoints d)), fm_flags = df_flags d,
                   fm_local_count = local_count d, fm_pad = 0\<rparr>"

definition next_generation :: "front_meta option \<Rightarrow> u32" where
  "next_generation meta = (case meta of None \<Rightarrow> 1 | Some m \<Rightarrow> fm_generation m + 1)"

lemma next_generation_fresh: "meta = Some m \<Longrightarrow> next_generation meta \<noteq> fm_generation m"
  by (simp add: next_generation_def)

lemma front_steps_cases:
  assumes "front_steps cm ce desired prune keep f = Some steps"
  obtains (removed) "map_of desired f = None" "prune"
      "steps = (if map_of cm f \<noteq> None then [DeleteMeta f] else []) @ map DeleteEndpoint (rows_of ce f)"
  | (settled) d m where "map_of desired f = Some d" "serves (map_of cm, map_of ce) f d m"
      "steps = map DeleteEndpoint
         (filter (\<lambda>k. fek_generation k \<noteq> fm_generation m
                      \<and> \<not> (f \<in> set keep \<and> fek_generation k = fm_generation m - 1)) (rows_of ce f))
         @ (if fm_flags m \<noteq> df_flags d then [PutMeta f (m\<lparr>fm_flags := df_flags d\<rparr>)] else [])"
  | (swap) d where "map_of desired f = Some d" "\<And>m. \<not> serves (map_of cm, map_of ce) f d m"
      "steps = map DeleteEndpoint
         (filter (\<lambda>k. Some (fek_generation k) \<noteq> map_option fm_generation (map_of cm f)) (rows_of ce f))
         @ map (\<lambda>(k, v). PutEndpoint k v) (new_rows f (next_generation (map_of cm f)) d)
         @ [PutMeta f (new_meta (next_generation (map_of cm f)) d)]"
proof (cases "map_of desired f")
  case None
  then show ?thesis using assms removed
    by (auto simp: front_steps_def Let_def rows_of_def split: if_splits)
next
  case (Some d)
  show ?thesis
  proof (cases "unchanged_meta ce f d (map_of cm f)")
    case None
    have puts: "map (\<lambda>(slot, ep). PutEndpoint (endpoint_key f g slot) ep) (enumerate 0 (df_endpoints d)) =
        map (\<lambda>(k, v). PutEndpoint k v) (new_rows f g d)" for g
      by (simp add: new_rows_def case_prod_unfold)
    have no: "\<not> serves (map_of cm, map_of ce) f d m" for m
      using None unchanged_meta_iff [of ce f d cm m] by simp
    show ?thesis using assms Some None
      by (intro swap [OF Some no])
        (auto simp: front_steps_def Let_def rows_of_def puts new_meta_def next_generation_def split: option.splits)
  next
    case (Some m)
    show ?thesis using assms \<open>map_of desired f = Some d\<close> Some unchanged_meta_iff [of ce f d cm m]
      by (intro settled [of d m]) (auto simp: front_steps_def Let_def rows_of_def)
  qed
qed

lemma rows_of_front: "k \<in> set (rows_of ce f) \<Longrightarrow> fek_front k = f"
  by (simp add: rows_of_def)

lemma new_rows_key: "(k, v) \<in> set (new_rows f g d) \<Longrightarrow> fek_front k = f \<and> fek_generation k = g"
  by (auto simp: new_rows_def)

lemma front_steps_front:
  assumes "front_steps cm ce desired prune keep f = Some steps" "step \<in> set steps"
  shows "write_front step = f"
  using assms(1)
proof (cases rule: front_steps_cases)
  case removed
  then show ?thesis using assms(2) by (auto dest: rows_of_front split: if_splits)
next
  case (settled d m)
  then show ?thesis using assms(2) by (auto dest: rows_of_front split: if_splits)
next
  case (swap d)
  then show ?thesis using assms(2) by (auto dest: rows_of_front new_rows_key)
qed

lemma planned:
  assumes "plan \<in> set (plan_front_writes cm ce desired prune keep)"
  shows "front_steps cm ce desired prune keep (fp_front plan) = Some (fp_steps plan)"
proof -
  from assms obtain front where
    "(case front_steps cm ce desired prune keep front of
        None \<Rightarrow> None
      | Some steps \<Rightarrow> if steps \<noteq> [] then Some \<lparr>fp_front = front, fp_steps = steps\<rparr> else None) = Some plan"
    by (auto simp: plan_front_writes_def Let_def in_set_map_filter)
  then show ?thesis by (auto split: option.splits if_splits)
qed

text \<open>The rows of the new generation, looked up by slot. The key keeps 16 bits of the slot.\<close>

lemma new_rows_keys: "map fst (new_rows f g d) = map (endpoint_key f g) [0..<length (df_endpoints d)]"
proof -
  have "map fst (new_rows f g d) = map (endpoint_key f g) (map fst (enumerate 0 (df_endpoints d)))"
    unfolding new_rows_def map_map by (rule map_cong) auto
  then show ?thesis by simp
qed

lemma new_rows_distinct:
  assumes "length (df_endpoints d) < 2 ^ 16"
  shows "distinct (map fst (new_rows f g d))"
proof -
  have "inj_on (endpoint_key f g) {0..<length (df_endpoints d)}"
  proof (rule inj_onI)
    fix a b assume *: "a \<in> {0..<length (df_endpoints d)}" "b \<in> {0..<length (df_endpoints d)}"
      and "endpoint_key f g a = endpoint_key f g b"
    then have "unat (of_nat a :: u16) = unat (of_nat b :: u16)" by (simp add: endpoint_key_def)
    moreover have "a < 2 ^ 16" "b < 2 ^ 16" using * assms by simp_all
    ultimately show "a = b" by (simp only: unat_of_nat_u16)
  qed
  then show ?thesis by (simp add: new_rows_keys distinct_map)
qed

lemma new_rows_lookup:
  assumes "length (df_endpoints d) < 2 ^ 16" "i < length (df_endpoints d)"
  shows "map_of (rev (new_rows f g d)) (endpoint_key f g i) = Some (df_endpoints d ! i)"
proof -
  have "distinct (map fst (rev (new_rows f g d)))"
    using new_rows_distinct [OF assms(1)] by (simp only: rev_map [symmetric] distinct_rev)
  moreover have "(i, df_endpoints d ! i) \<in> set (enumerate 0 (df_endpoints d))"
    using assms(2) by (simp add: in_set_enumerate_eq)
  then have "(endpoint_key f g i, df_endpoints d ! i) \<in> set (rev (new_rows f g d))"
    unfolding new_rows_def by force
  ultimately show ?thesis by (rule map_of_is_SomeI)
qed

section \<open>Reading during a swap\<close>

text \<open>The state after the first \<open>k\<close> steps of a plan.\<close>

definition swap_stage :: "'s writer \<Rightarrow> front_plan \<Rightarrow> 's \<Rightarrow> nat \<Rightarrow> 's" where
  "swap_stage write plan s k = snd (run_front_plan write (plan\<lparr>fp_steps := take k (fp_steps plan)\<rparr>) s)"

definition same_rows :: "lb_front_key \<Rightarrow> u32 \<Rightarrow> front_tables \<Rightarrow> front_tables \<Rightarrow> bool" where
  "same_rows f g T T' \<longleftrightarrow> (\<forall>k. fek_front k = f \<and> fek_generation k = g \<longrightarrow> snd T' k = snd T k)"

lemma same_rows_steer:
  assumes "same_rows f (fm_generation m0) T T'" "fm_generation m = fm_generation m0"
    "fm_count m = fm_count m0" "fm_local_count m = fm_local_count m0"
  shows "ingress_steer m None None h f (snd T') = ingress_steer m0 None None h f (snd T)"
  using assms by (intro ingress_steer_cong) (auto simp: same_rows_def)

lemma swap_stage_run:
  "swap_stage write plan s k = snd (snd (run_steps write (take k (fp_steps plan)) ([], False, s)))"
  by (simp add: swap_stage_def run_front_plan_def case_prod_unfold)

context map_writer
begin

text \<open>A settled front: at most its flags change, and its live rows stay.\<close>

lemma settled_stage:
  assumes "fst (view s) f = Some m" "\<And>k. k \<in> set D \<Longrightarrow> fek_generation k \<noteq> fm_generation m"
    and "fp_steps plan = map DeleteEndpoint D @ P" "set P \<subseteq> {PutMeta f m'}"
  shows "fst (view (swap_stage wr plan s k)) f \<in> {Some m, Some m'}
    \<and> same_rows f (fm_generation m) (view s) (view (swap_stage wr plan s k))"
proof -
  let ?I = "\<lambda>T. fst T f \<in> {Some m, Some m'} \<and> same_rows f (fm_generation m) (view s) T"
  have "?I (view (snd (snd (run_steps wr (take k (fp_steps plan)) ([], False, s)))))"
  proof (rule run_inv)
    fix step T assume "step \<in> set (take k (fp_steps plan))" and I: "?I T"
    then have "step \<in> DeleteEndpoint ` set D \<union> {PutMeta f m'}"
      using assms(3,4) by (auto dest!: in_set_takeD)
    then show "?I (do_write step T)" using I assms(2) by (auto simp: same_rows_def)
  qed (simp add: assms(1) same_rows_def)
  then show ?thesis by (simp add: swap_stage_run)
qed

text \<open>A swapped front: the live rows stay throughout, and the meta row changes in the last step only,
  once every row of the new generation is there.\<close>

lemma swap_stage_cases:
  assumes steps: "fp_steps plan = map DeleteEndpoint D @ map (\<lambda>(k, v). PutEndpoint k v) R @ [PutMeta f m1]"
    and D: "\<And>k. k \<in> set D \<Longrightarrow> Some (fek_generation k) \<noteq> map_option fm_generation (fst (view s) f)"
    and R: "\<And>k v. (k, v) \<in> set R \<Longrightarrow> Some (fek_generation k) \<noteq> map_option fm_generation (fst (view s) f)"
  obtains (before) "fst (view (swap_stage wr plan s k)) f = fst (view s) f"
      "\<And>m. fst (view s) f = Some m \<Longrightarrow> same_rows f (fm_generation m) (view s) (view (swap_stage wr plan s k))"
  | (committed) "length (fp_steps plan) \<le> k" "fst (view (swap_stage wr plan s k)) f = Some m1"
      "\<And>m. fst (view s) f = Some m \<Longrightarrow> same_rows f (fm_generation m) (view s) (view (swap_stage wr plan s k))"
      "\<And>r v. map_of (rev R) r = Some v \<Longrightarrow> snd (view (swap_stage wr plan s k)) r = Some v"
proof -
  let ?ys = "map DeleteEndpoint D @ map (\<lambda>(k, v). PutEndpoint k v) R"
  let ?I = "\<lambda>T. fst T f = fst (view s) f
    \<and> (\<forall>m. fst (view s) f = Some m \<longrightarrow> same_rows f (fm_generation m) (view s) T)"
  have inv: "?I (view (snd (snd (run_steps wr (take n ?ys) (fs, b, s)))))" for n fs b
  proof (rule run_inv)
    fix step T assume "step \<in> set (take n ?ys)" and I: "?I T"
    then have "step \<in> DeleteEndpoint ` set D \<union> (\<lambda>(k, v). PutEndpoint k v) ` set R"
      by (auto dest!: in_set_takeD)
    then show "?I (do_write step T)" using I D R by (fastforce simp: same_rows_def)
  qed (simp add: same_rows_def)
  show ?thesis
  proof (cases "k \<le> length ?ys")
    case True
    then have "take k (fp_steps plan) = take k ?ys" by (simp add: steps)
    then show ?thesis using inv [of k "[]" False] before by (auto simp: swap_stage_run)
  next
    case False
    then have len: "length (fp_steps plan) \<le> k" by (simp add: steps)
    have "take k (fp_steps plan) = ?ys @ [PutMeta f m1]" using False by (simp add: steps)
    moreover have "run_steps wr (?ys @ [PutMeta f m1]) ([], False, s) =
        run_steps wr [PutMeta f m1] (run_steps wr ?ys ([], False, s))"
      by (intro run_append) auto
    ultimately have run: "swap_stage wr plan s k =
        snd (snd (run_steps wr [PutMeta f m1] (run_steps wr ?ys ([], False, s))))"
      by (simp add: swap_stage_run)
    obtain fs b s1 where s1: "run_steps wr ?ys ([], False, s) = (fs, b, s1)" by (cases "run_steps wr ?ys ([], False, s)")
    have I1: "?I (view s1)" using inv [of "length ?ys" "[]" False] s1 by simp
    show ?thesis
    proof (cases b)
      case True
      then have "swap_stage wr plan s k = s1" by (simp add: run s1)
      then show ?thesis using I1 before by simp
    next
      case False
      show ?thesis
      proof (cases rule: write_cases [of "PutMeta f m1" s1])
        case (failed e s')
        then have "view (swap_stage wr plan s k) = view s1" by (simp add: run s1 False)
        then show ?thesis using I1 before by simp
      next
        case (written s')
        then have T: "view (swap_stage wr plan s k) = do_write (PutMeta f m1) (view s1)"
          by (simp add: run s1 False)
        obtain fs0 b0 s0 where s0: "run_steps wr (map DeleteEndpoint D) ([], False, s) = (fs0, b0, s0)"
          by (cases "run_steps wr (map DeleteEndpoint D) ([], False, s)")
        have "run_steps wr (map (\<lambda>(k, v). PutEndpoint k v) R) (fs0, b0, s0) = (fs, False, s1)"
          using run_append [of "map DeleteEndpoint D" "map (\<lambda>(k, v). PutEndpoint k v) R" "[]" False s]
          by (simp add: s0 s1 False image_iff)
        moreover from this have "\<not> b0" using run_blocked [of "map (\<lambda>(k, v). PutEndpoint k v) R" fs0 s0] by auto
        ultimately have "view s1 = (fst (view s0), snd (view s0) ++ map_of (rev R))"
          using run_puts [of R fs0 s0] by simp
        then have rows: "map_of (rev R) r = Some v \<Longrightarrow> snd (view s1) r = Some v" for r v
          by simp
        show ?thesis using I1 T rows by (intro committed [OF len]) (auto simp: same_rows_def)
      qed
    qed
  qed
qed

end

lemma removed_stage:
  assumes "writer_ok write view" "fp_steps plan = (if fst (view s) f \<noteq> None then [DeleteMeta f] else []) @ map DeleteEndpoint D"
    and "fst (view (swap_stage write plan s k)) f \<noteq> None"
  shows "view (swap_stage write plan s k) = view s"
proof -
  note w = map_writer.intro [OF assms(1)]
  have none: "fst (view (snd (snd (run_steps write (map DeleteEndpoint E) (fs, b, t))))) f = None"
    if "fst (view t) f = None" for E fs b t
    by (rule map_writer.run_inv [OF w, where I = "\<lambda>T. fst T f = None"]) (use that in \<open>auto simp: do_write_def\<close>)
  show ?thesis
  proof (cases "fst (view s) f = None \<or> k = 0")
    case True
    then show ?thesis
      using assms(2,3) none [of s "take k D" "[]" False] by (auto simp: swap_stage_run take_map)
  next
    case False
    then obtain n where steps: "take k (fp_steps plan) = DeleteMeta f # map DeleteEndpoint (take n D)"
      using assms(2) by (cases k) (auto simp: take_map)
    show ?thesis
    proof (cases rule: map_writer.write_cases [OF w, of "DeleteMeta f" s])
      case (1 s')
      then show ?thesis using assms(3) none [of s' "take n D" "[]" False] by (simp add: swap_stage_run steps)
    next
      case (2 e s')
      then show ?thesis by (simp add: swap_stage_run steps)
    qed
  qed
qed

section \<open>A whole pass\<close>

definition same_front :: "lb_front_key \<Rightarrow> front_tables \<Rightarrow> front_tables \<Rightarrow> bool" where
  "same_front f T T' \<longleftrightarrow> fst T' f = fst T f \<and> (\<forall>k. fek_front k = f \<longrightarrow> snd T' k = snd T k)"

lemma same_front_refl [simp]: "same_front f T T"
  by (simp add: same_front_def)

lemma same_front_trans: "same_front f T T' \<Longrightarrow> same_front f T' T'' \<Longrightarrow> same_front f T T''"
  by (simp add: same_front_def)

lemma same_front_other: "write_front step \<noteq> f \<Longrightarrow> same_front f T (do_write step T)"
  by (cases step) (auto simp: same_front_def)

lemma same_front_step: "same_front f T T' \<Longrightarrow> same_front f (do_write step T) (do_write step T')"
  by (cases step) (auto simp: same_front_def)

lemma same_front_others:
  "\<forall>step \<in> set steps. write_front step \<noteq> f \<Longrightarrow> same_front f T (fold do_write steps T)"
proof (induction steps arbitrary: T)
  case (Cons step steps)
  then have "same_front f T (do_write step T)" by (simp add: same_front_other)
  with Cons show ?case by (simp add: same_front_trans [of f T "do_write step T"])
qed simp

lemma same_front_steps: "same_front f T T' \<Longrightarrow> same_front f (fold do_write steps T) (fold do_write steps T')"
  by (induction steps arbitrary: T T') (simp_all add: same_front_step)

lemma run_front_plans_failures:
  "\<exists>gs. fa_failures (fst (run_front_plans write cm cap plans (applied, used, s))) = fa_failures applied @ gs"
proof (induction plans arbitrary: applied used s)
  case (Cons plan plans)
  obtain errors used' committed s' where
    r: "run_front_plan (tracked write (map_of cm (fp_front plan))) plan (used, False, s) = (errors, used', committed, s')"
    by (metis prod_cases4)
  show ?case
  proof (cases "capacity_shortfall plan (map_of cm (fp_front plan) \<noteq> None) used cap")
    case None
    show ?thesis
      using Cons [of "applied\<lparr>fa_swapped := fa_swapped applied @ (if committed then [fp_front plan] else []),
        fa_failures := fa_failures applied @ map (\<lambda>e. (fp_front plan, e)) errors\<rparr>" used' s']
      by (auto simp: Let_def None r simp del: not_None_eq)
  next
    case (Some shortfall)
    show ?thesis
      using Cons [of "applied\<lparr>fa_failures := fa_failures applied @ [(fp_front plan, shortfall)]\<rparr>" used s]
      by (auto simp: Let_def Some simp del: not_None_eq)
  qed
qed simp

lemma run_front_plans_clean:
  assumes "writer_ok write view" "fa_failures (fst (run_front_plans write cm cap plans (applied, used, s))) = fa_failures applied"
  shows "view (snd (snd (run_front_plans write cm cap plans (applied, used, s)))) =
    fold do_write (concat (map fp_steps plans)) (view s)"
  using assms(2)
proof (induction plans arbitrary: applied used s)
  case (Cons plan plans)
  let ?live = "map_of cm (fp_front plan)"
  obtain errors used' committed s' where
    r: "run_front_plan (tracked write ?live) plan (used, False, s) = (errors, used', committed, s')"
    by (metis prod_cases4)
  let ?a = "applied\<lparr>fa_swapped := fa_swapped applied @ (if committed then [fp_front plan] else []),
        fa_failures := fa_failures applied @ map (\<lambda>e. (fp_front plan, e)) errors\<rparr>"
  have fits: "capacity_shortfall plan (?live \<noteq> None) used cap = None"
  proof (rule ccontr)
    assume "capacity_shortfall plan (?live \<noteq> None) used cap \<noteq> None"
    then obtain sf where sf: "capacity_shortfall plan (?live \<noteq> None) used cap = Some sf" by blast
    show False
      using Cons.prems run_front_plans_failures [of "write" cm cap plans
        "applied\<lparr>fa_failures := fa_failures applied @ [(fp_front plan, sf)]\<rparr>" used s]
      by (auto simp: Let_def sf simp del: not_None_eq)
  qed
  have step: "run_front_plans write cm cap (plan # plans) (applied, used, s) =
      run_front_plans write cm cap plans (?a, used', s')"
    by (simp add: Let_def fits r del: not_None_eq)
  have errors: "errors = []"
    using Cons.prems run_front_plans_failures [of "write" cm cap plans ?a used' s'] unfolding step by auto
  note t = map_writer.intro [OF tracked_ok [OF assms(1)]]
  have "view s' = fold do_write (fp_steps plan) (view s)"
    using map_writer.run_clean [OF t, of ?live "fp_steps plan" "[]" "(used, False, s)"] r
    by (simp add: run_front_plan_def errors split: prod.splits)
  moreover have "fa_failures (fst (run_front_plans write cm cap plans (?a, used', s'))) = fa_failures ?a"
    using Cons.prems unfolding step by (simp add: errors)
  ultimately show ?case using Cons.IH [of ?a used' s'] unfolding step by simp
qed simp

lemma plans_distinct: "distinct (map fp_front (plan_front_writes cm ce desired prune keep))"
proof -
  define g where "g = (\<lambda>front. case front_steps cm ce desired prune keep front of
      None \<Rightarrow> None
    | Some steps \<Rightarrow> if steps \<noteq> [] then Some \<lparr>fp_front = front, fp_steps = steps\<rparr> else None)"
  have g: "g front = Some p \<Longrightarrow> fp_front p = front" for front p
    by (auto simp: g_def split: option.splits if_splits)
  have "map fp_front (List.map_filter g xs) = filter (\<lambda>x. g x \<noteq> None) xs" for xs
    by (induction xs) (auto simp: List.map_filter_simps g split: option.split)
  then have "distinct (map fp_front (List.map_filter g (remdups xs)))" for xs by simp
  then show ?thesis unfolding plan_front_writes_def Let_def g_def [symmetric]
    by (simp add: distinct_map)
qed

lemma plan_for_front:
  assumes "front_steps cm ce desired prune keep f = Some steps" "steps \<noteq> []"
    "f \<in> set (map fst desired) \<or> prune \<and> (f \<in> set (map fst cm) \<or> f \<in> fek_front ` set (map fst ce))"
  shows "\<lparr>fp_front = f, fp_steps = steps\<rparr> \<in> set (plan_front_writes cm ce desired prune keep)"
proof -
  have "f \<in> set (map fst desired @ (if prune then map fst cm @ map (fek_front \<circ> fst) ce else []))"
    using assms(3) by auto
  then show ?thesis
    using assms(1,2) unfolding plan_front_writes_def Let_def set_sort in_set_map_filter set_remdups
    by (intro bexI [of _ f]) simp_all
qed

lemma planned_front:
  assumes "plan \<in> set (plan_front_writes cm ce desired prune keep)"
  shows "fp_front plan \<in> set (map fst desired)
    \<or> prune \<and> (fp_front plan \<in> set (map fst cm) \<or> fp_front plan \<in> fek_front ` set (map fst ce))"
proof -
  from assms obtain front where
    "front \<in> set (map fst desired @ (if prune then map fst cm @ map (fek_front \<circ> fst) ce else []))"
    "(case front_steps cm ce desired prune keep front of
        None \<Rightarrow> None
      | Some steps \<Rightarrow> if steps \<noteq> [] then Some \<lparr>fp_front = front, fp_steps = steps\<rparr> else None) = Some plan"
    unfolding plan_front_writes_def Let_def set_sort in_set_map_filter set_remdups by blast
  then show ?thesis by (force split: option.splits if_splits)
qed

lemma front_steps_total:
  "map_of desired f = Some d \<or> prune \<Longrightarrow> \<exists>steps. front_steps cm ce desired prune keep f = Some steps"
  by (cases "map_of desired f"; cases "unchanged_meta ce f (the (map_of desired f)) (map_of cm f)")
    (auto simp: front_steps_def Let_def)

lemma plan_own_front:
  "p \<in> set (plan_front_writes cm ce desired prune keep) \<Longrightarrow> step \<in> set (fp_steps p) \<Longrightarrow>
   write_front step = fp_front p"
  using front_steps_front planned by blast

lemma pass_off_front:
  assumes "f \<notin> fp_front ` set (plan_front_writes cm ce desired prune keep)"
  shows "same_front f T (fold do_write (concat (map fp_steps (plan_front_writes cm ce desired prune keep))) T)"
  using assms by (intro same_front_others) (auto dest: plan_own_front)

lemma pass_on_front:
  assumes steps: "front_steps cm ce desired prune keep f = Some steps"
    and mem: "f \<in> set (map fst desired) \<or> prune \<and> (f \<in> set (map fst cm) \<or> f \<in> fek_front ` set (map fst ce))"
  shows "same_front f (fold do_write steps T)
    (fold do_write (concat (map fp_steps (plan_front_writes cm ce desired prune keep))) T)"
proof -
  let ?plans = "plan_front_writes cm ce desired prune keep"
  show ?thesis
  proof (cases "\<exists>p \<in> set ?plans. fp_front p = f")
    case True
    then obtain p ps qs where pl: "?plans = ps @ p # qs" and f: "fp_front p = f"
      by (meson split_list)
    have "f \<notin> fp_front ` set ps" "f \<notin> fp_front ` set qs"
      using plans_distinct [of cm ce desired prune keep] by (auto simp: pl f)
    then have o: "\<forall>st \<in> set (concat (map fp_steps ps)). write_front st \<noteq> f"
        "\<forall>st \<in> set (concat (map fp_steps qs)). write_front st \<noteq> f"
      using plan_own_front [of _ cm ce desired prune keep] by (fastforce simp: pl)+
    have p: "fp_steps p = steps" using planned [of p] steps f by (simp add: pl)
    show ?thesis
      unfolding pl using same_front_steps [OF same_front_others [OF o(1)], of steps]
      by (simp add: p same_front_trans [OF _ same_front_others [OF o(2)]])
  next
    case False
    then have "steps = []" using plan_for_front [OF steps _ mem] by force
    then show ?thesis using pass_off_front [of f cm ce desired prune keep T] False by (auto simp: image_iff)
  qed
qed

lemma fold_deletes:
  "fold do_write (map DeleteEndpoint D) T = (fst T, \<lambda>k. if k \<in> set D then None else snd T k)"
  by (induction D arbitrary: T) (auto simp: fun_eq_iff)

lemma fold_puts:
  "fold do_write (map (\<lambda>(k, v). PutEndpoint k v) R) T = (fst T, snd T ++ map_of (rev R))"
proof (induction R arbitrary: T)
  case (Cons r R)
  obtain k v where "r = (k, v)" by (cases r)
  then show ?case using Cons [of "do_write (PutEndpoint k v) T"]
    by (auto simp: fun_eq_iff map_add_def split: option.split)
qed simp

lemma serves_same_front: "serves T f d m \<Longrightarrow> same_front f T T' \<Longrightarrow> serves T' f d m"
  by (simp add: serves_def same_front_def)

lemma published:
  assumes "front_steps cm ce desired prune keep f = Some steps" "map_of desired f = Some d"
    "length (df_endpoints d) < 2 ^ 16"
  shows "\<exists>m. serves (fold do_write steps (map_of cm, map_of ce)) f d m \<and> fm_flags m = df_flags d"
  using assms(1)
proof (cases rule: front_steps_cases)
  case removed
  then show ?thesis using assms(2) by simp
next
  case (settled d' m)
  then have s: "serves (map_of cm, map_of ce) f d m" using assms(2) by simp
  show ?thesis
    using s settled(1,3) assms(2)
    by (intro exI [of _ "m\<lparr>fm_flags := df_flags d\<rparr>"]) (auto simp: serves_def fold_deletes rows_of_def)
next
  case (swap d')
  let ?g = "next_generation (map_of cm f)"
  have "snd (fold do_write steps (map_of cm, map_of ce)) (endpoint_key f ?g i) = Some (df_endpoints d ! i)"
    if "i < length (df_endpoints d)" for i
    using that new_rows_lookup [OF assms(3) that, of f ?g] swap(1,3) assms(2)
    by (simp add: fold_puts fold_deletes)
  then show ?thesis
    using swap(1,3) assms(2)
    by (intro exI [of _ "new_meta ?g d"]) (auto simp: serves_def fold_puts fold_deletes new_meta_def)
qed

lemma removed_gone:
  assumes "front_steps cm ce desired True keep f = Some steps" "map_of desired f = None"
  shows "fst (fold do_write steps (map_of cm, map_of ce)) f = None
    \<and> (\<forall>k. fek_front k = f \<longrightarrow> snd (fold do_write steps (map_of cm, map_of ce)) k = None)"
proof -
  have row: "map_of ce k = None \<or> k \<in> set (rows_of ce f)" if "fek_front k = f" for k
    using that by (cases "map_of ce k") (force simp: rows_of_def dest: map_of_SomeD)+
  from assms(1) show ?thesis
    by (cases rule: front_steps_cases) (use assms(2) row in \<open>auto simp: fold_deletes\<close>)
qed

section \<open>The outcome of a pass\<close>

text \<open>A pass that reports no failure made every planned write, on the contents it read.\<close>

lemma clean_pass:
  assumes "hash_map_ok M" "hash_map_ok E"
    and "apply_fronts M E cap desired prune keep st = (Inr applied, st')" "fa_failures applied = []"
  obtains cm ce where "map_of cm = hm_rows M (fst st)" "map_of ce = hm_rows E (snd st)"
    "(hm_rows M (fst st'), hm_rows E (snd st')) =
     fold do_write (concat (map fp_steps (plan_front_writes cm ce desired prune keep))) (map_of cm, map_of ce)"
proof -
  from assms(3) obtain mr er where it: "hm_iter M (fst st) = Inr mr" "hm_iter E (snd st) = Inr er"
    by (auto simp: apply_fronts_def split: sum.splits)
  let ?cm = "collect_map mr" and ?ce = "collect_map er"
  note m = bpf_map.intro [OF assms(1)] and e = bpf_map.intro [OF assms(2)]
  have cm: "map_of ?cm = hm_rows M (fst st)" and ce: "map_of ?ce = hm_rows E (snd st)"
    using bpf_map.iter_rows [OF m it(1)] bpf_map.iter_rows [OF e it(2)] by (simp_all add: collect_walk)
  let ?plans = "plan_front_writes ?cm ?ce desired prune keep"
  have "(hm_rows M (fst st'), hm_rows E (snd st')) =
      fold do_write (concat (map fp_steps ?plans)) (map_of ?cm, map_of ?ce)"
    using run_front_plans_clean [OF write_step_ok [OF assms(1,2)], of ?cm cap ?plans
        "\<lparr>fa_failures = [], fa_swapped = []\<rparr>" "\<lparr>fu_meta = length ?cm, fu_endpoints = length ?ce\<rparr>" st]
      assms(3,4) by (simp add: apply_fronts_def it cm ce case_prod_unfold Let_def split: prod.splits)
  with cm ce show ?thesis by (rule that)
qed

text \<open>What the tables hold once all the writes of a pass were made.\<close>

lemma written_serves:
  assumes T: "T = fold do_write (concat (map fp_steps (plan_front_writes cm ce desired prune keep))) (map_of cm, map_of ce)"
    and d: "map_of desired f = Some d"
  shows "length (df_endpoints d) < 2 ^ 16 \<longrightarrow>
    (\<exists>m. fst T f = Some m \<and> fm_flags m = df_flags d
       \<and> (\<forall>h. ingress_steer m None None h f (snd T) = desired_steer d h))"
proof -
  obtain steps where steps: "front_steps cm ce desired prune keep f = Some steps"
    using front_steps_total d by blast
  have "f \<in> set (map fst desired)" using d by (force dest: map_of_SomeD)
  then have sf: "same_front f (fold do_write steps (map_of cm, map_of ce)) T"
    unfolding T by (intro pass_on_front [OF steps]) simp
  show ?thesis
    using published [OF steps d] serves_same_front [OF _ sf] serves_steer [of T f d]
    by (fastforce simp: d serves_def)
qed

lemma written_removes:
  assumes T: "T = fold do_write (concat (map fp_steps (plan_front_writes cm ce desired True keep))) (map_of cm, map_of ce)"
    and d: "map_of desired f = None"
  shows "fst T f = None \<and> (\<forall>k. fek_front k = f \<longrightarrow> snd T k = None)"
proof (cases "f \<in> set (map fst cm) \<or> f \<in> fek_front ` set (map fst ce)")
  case True
  obtain steps where steps: "front_steps cm ce desired True keep f = Some steps"
    using front_steps_total [where prune = True] by blast
  have sf: "same_front f (fold do_write steps (map_of cm, map_of ce)) T"
    unfolding T by (intro pass_on_front [OF steps]) (use True in simp)
  show ?thesis using removed_gone [OF steps d] sf by (simp add: same_front_def)
next
  case False
  then have gone: "map_of cm f = None \<and> (\<forall>k. fek_front k = f \<longrightarrow> map_of ce k = None)"
    by (force simp: map_of_eq_None_iff)
  have "f \<notin> fp_front ` set (plan_front_writes cm ce desired True keep)"
    using False d planned_front [of _ cm ce desired True keep] by (auto simp: map_of_eq_None_iff)
  then have "same_front f (map_of cm, map_of ce) T" unfolding T by (rule pass_off_front)
  with gone show ?thesis by (simp add: same_front_def)
qed

lemma pass_serves:
  assumes "hash_map_ok M" "hash_map_ok E"
    and "apply_fronts M E cap desired prune keep st = (Inr applied, st')" "fa_failures applied = []"
    and "map_of desired f = Some d"
  shows "length (df_endpoints d) < 2 ^ 16 \<longrightarrow>
    (\<exists>m. hm_rows M (fst st') f = Some m \<and> fm_flags m = df_flags d
       \<and> (\<forall>h. ingress_steer m None None h f (hm_rows E (snd st')) = desired_steer d h))"
  using clean_pass [OF assms(1-4)] written_serves [OF _ assms(5)] by (metis fst_conv snd_conv)

lemma pass_removes:
  assumes "hash_map_ok M" "hash_map_ok E"
    and "apply_fronts M E cap desired True keep st = (Inr applied, st')" "fa_failures applied = []"
    and "map_of desired f = None"
  shows "hm_rows M (fst st') f = None \<and> (\<forall>k. fek_front k = f \<longrightarrow> hm_rows E (snd st') k = None)"
  using clean_pass [OF assms(1-4)] written_removes [OF _ assms(5)] by (metis fst_conv snd_conv)

text \<open>Whatever fails, a pass leaves alone every front it has no plan for.\<close>

lemma run_front_plans_frame:
  assumes "writer_ok write view" "f \<notin> fp_front ` set plans"
    and "\<And>p step. p \<in> set plans \<Longrightarrow> step \<in> set (fp_steps p) \<Longrightarrow> write_front step = fp_front p"
  shows "same_front f (view s) (view (snd (snd (run_front_plans write cm cap plans (applied, used, s)))))"
  using assms(2,3)
proof (induction plans arbitrary: applied used s)
  case (Cons plan plans)
  let ?live = "map_of cm (fp_front plan)"
  obtain errors used' committed s' where
    r: "run_front_plan (tracked write ?live) plan (used, False, s) = (errors, used', committed, s')"
    by (metis prod_cases4)
  have rest: "same_front f (view s0) (view (snd (snd (run_front_plans write cm cap plans (a, u, s0)))))" for a u s0
    using Cons.IH Cons.prems by simp
  note t = map_writer.intro [OF tracked_ok [OF assms(1)]]
  have "same_front f (view s) (do_write step T)" if "step \<in> set (fp_steps plan)" "same_front f (view s) T" for step T
    using that Cons.prems same_front_trans [OF that(2) same_front_other] by fastforce
  then have "same_front f (view s) (view s')"
    using map_writer.run_inv [OF t, of "fp_steps plan" "same_front f (view s)" "(used, False, s)" ?live "[]" False] r
    by (simp add: run_front_plan_def split: prod.splits)
  then show ?case
    using same_front_trans [OF _ rest] rest by (auto simp: Let_def r simp del: not_None_eq split: option.split)
qed simp

lemma pass_frame:
  assumes "hash_map_ok M" "hash_map_ok E" "apply_fronts M E cap desired False keep st = (r, st')"
    and "map_of desired f = None"
  shows "same_front f (hm_rows M (fst st), hm_rows E (snd st)) (hm_rows M (fst st'), hm_rows E (snd st'))"
proof (cases r)
  case (Inl e)
  then show ?thesis using assms(3) by (auto simp: apply_fronts_def Let_def split: sum.splits prod.splits)
next
  case (Inr applied)
  let ?view = "\<lambda>(ms, es). (hm_rows M ms, hm_rows E es)"
  obtain mr er where it: "hm_iter M (fst st) = Inr mr" "hm_iter E (snd st) = Inr er"
    using assms(3) by (auto simp: apply_fronts_def Inr split: sum.splits)
  let ?cm = "collect_map mr" and ?ce = "collect_map er"
  let ?plans = "plan_front_writes ?cm ?ce desired False keep"
  have "f \<notin> fp_front ` set ?plans"
    using assms(4) planned_front [of _ ?cm ?ce desired False keep] by (auto simp: map_of_eq_None_iff)
  from run_front_plans_frame [OF write_step_ok [OF assms(1,2)] this, of st ?cm cap
      "\<lparr>fa_failures = [], fa_swapped = []\<rparr>" "\<lparr>fu_meta = length ?cm, fu_endpoints = length ?ce\<rparr>"]
  show ?thesis
    using plan_own_front assms(3) by (simp add: apply_fronts_def it Let_def case_prod_unfold split: prod.splits)
qed

section \<open>Counting rows\<close>

definition step_rows :: "front_write \<Rightarrow> int" where
  "step_rows step = (case step of PutEndpoint _ _ \<Rightarrow> 1 | DeleteEndpoint _ \<Rightarrow> - 1 | _ \<Rightarrow> 0)"

definition step_metas :: "bool \<Rightarrow> front_write \<Rightarrow> int" where
  "step_metas had step = (case step of PutMeta _ _ \<Rightarrow> if had then 0 else 1 | DeleteMeta _ \<Rightarrow> - 1 | _ \<Rightarrow> 0)"

lemma effect_loop_mono:
  "effect_loop had steps (ep, pk, mt, mpk) = (ep', pk', mt', mpk') \<Longrightarrow> pk \<le> pk' \<and> mpk \<le> mpk'"
proof (induction steps arbitrary: ep pk mt mpk)
  case (Cons step steps)
  from Cons.IH [OF Cons.prems [simplified Let_def effect_loop.simps]] show ?case by simp
qed simp

lemma effect_loop_peaks:
  assumes "effect_loop had steps (ep, pk, mt, mpk) = (ep', pk', mt', mpk')" "ep \<le> pk" "mt \<le> mpk"
  shows "ep + sum_list (map step_rows (take k steps)) \<le> pk'
    \<and> mt + sum_list (map (step_metas had) (take k steps)) \<le> mpk'"
  using assms
proof (induction steps arbitrary: ep pk mt mpk k)
  case (Cons step steps)
  let ?ep = "ep + step_rows step" and ?mt = "mt + step_metas had step"
  have e: "effect_loop had steps (?ep, max pk ?ep, ?mt, max mpk ?mt) = (ep', pk', mt', mpk')"
    using Cons.prems(1) by (cases step; cases had) (simp_all add: step_rows_def step_metas_def Let_def)
  show ?case
  proof (cases k)
    case 0
    then show ?thesis using effect_loop_mono [OF e] Cons.prems(2,3) by simp
  next
    case (Suc n)
    then show ?thesis using Cons.IH [OF e, of n] by (simp add: add.assoc)
  qed
qed simp

definition sound_step :: "bool \<Rightarrow> front_write \<Rightarrow> front_tables \<Rightarrow> bool" where
  "sound_step had step T =
     (case step of DeleteEndpoint k \<Rightarrow> snd T k \<noteq> None | DeleteMeta f \<Rightarrow> fst T f \<noteq> None
                 | PutMeta f _ \<Rightarrow> had \<longrightarrow> fst T f \<noteq> None | PutEndpoint _ _ \<Rightarrow> True)"

primrec sound_steps :: "bool \<Rightarrow> front_write list \<Rightarrow> front_tables \<Rightarrow> bool" where
  "sound_steps had [] T = True"
| "sound_steps had (step # steps) T = (sound_step had step T \<and> sound_steps had steps (do_write step T))"

lemma sound_append:
  "sound_steps had (xs @ ys) T \<longleftrightarrow> sound_steps had xs T \<and> sound_steps had ys (fold do_write xs T)"
  by (induction xs arbitrary: T) auto

lemma sound_take: "sound_steps had xs T \<Longrightarrow> sound_steps had (take k xs) T"
  by (metis append_take_drop_id sound_append)

lemma sound_deletes:
  "distinct D \<Longrightarrow> set D \<subseteq> dom (snd T) \<Longrightarrow> sound_steps had (map DeleteEndpoint D) T"
proof (induction D arbitrary: T)
  case (Cons k D)
  then have "set D \<subseteq> dom (snd (do_write (DeleteEndpoint k) T))" by auto
  with Cons show ?case by (auto simp: sound_step_def)
qed simp

lemma sound_puts: "sound_steps had (map (\<lambda>(k, v). PutEndpoint k v) R) T"
  by (induction R arbitrary: T) (auto simp: sound_step_def)

lemma sound_step_count:
  assumes "sound_step had step T" "finite (dom (fst T))" "finite (dom (snd T))"
  shows "int (card (dom (snd (do_write step T)))) \<le> int (card (dom (snd T))) + step_rows step
    \<and> int (card (dom (fst (do_write step T)))) \<le> int (card (dom (fst T))) + step_metas had step
    \<and> finite (dom (fst (do_write step T))) \<and> finite (dom (snd (do_write step T)))"
proof (cases step)
  case (DeleteEndpoint k)
  then have "card (dom (snd T)) = Suc (card (dom (snd T) - {k}))"
    using assms by (intro card.remove) (auto simp: sound_step_def)
  then show ?thesis using assms by (simp add: DeleteEndpoint step_rows_def step_metas_def)
next
  case (PutEndpoint k v)
  then show ?thesis using assms by (simp add: step_rows_def step_metas_def card_insert_if)
next
  case (PutMeta f m)
  then show ?thesis using assms
    by (auto simp: step_rows_def step_metas_def sound_step_def card_insert_if insert_absorb)
next
  case (DeleteMeta f)
  then have "card (dom (fst T)) = Suc (card (dom (fst T) - {f}))"
    using assms by (intro card.remove) (auto simp: sound_step_def)
  then show ?thesis using assms by (simp add: DeleteMeta step_rows_def step_metas_def)
qed

lemma sound_steps_count:
  assumes "sound_steps had steps T" "finite (dom (fst T))" "finite (dom (snd T))"
  shows "int (card (dom (snd (fold do_write steps T)))) \<le> int (card (dom (snd T))) + sum_list (map step_rows steps)
    \<and> int (card (dom (fst (fold do_write steps T)))) \<le> int (card (dom (fst T))) + sum_list (map (step_metas had) steps)"
  using assms
proof (induction steps arbitrary: T)
  case (Cons step steps)
  then show ?case
    using sound_step_count [of had step T] Cons.IH [of "do_write step T"] by fastforce
qed simp

lemma plan_sound:
  assumes "front_steps cm ce desired prune keep f = Some steps" "distinct (map fst ce)"
    "same_front f (map_of cm, map_of ce) T"
  shows "sound_steps (map_of cm f \<noteq> None) steps T"
proof -
  have T: "fst T f = map_of cm f" and rows: "\<And>k. fek_front k = f \<Longrightarrow> snd T k = map_of ce k"
    using assms(3) by (simp_all add: same_front_def)
  have sub: "set (filter P (rows_of ce f)) \<subseteq> dom (snd T)" for P
    using rows by (auto simp: rows_of_def dom_def map_of_eq_None_iff [symmetric] image_iff)
      (metis fst_conv map_of_eq_None_iff image_eqI not_None_eq)+
  have dist: "distinct (filter P (rows_of ce f))" for P
    using assms(2) by (simp add: rows_of_def)
  note del = sound_deletes [OF dist sub]
  from assms(1) show ?thesis
  proof (cases rule: front_steps_cases)
    case removed
    have "set (rows_of ce f) \<subseteq> dom (snd T)" "distinct (rows_of ce f)"
      using sub [of "\<lambda>_. True"] dist [of "\<lambda>_. True"] by simp_all
    then show ?thesis unfolding removed by (simp add: sound_deletes sound_step_def T)
  next
    case (settled d m)
    then show ?thesis using del by (simp add: sound_append sound_step_def fold_deletes serves_def T)
  next
    case (swap d)
    then show ?thesis using del sound_puts by (simp add: sound_append sound_step_def fold_deletes fold_puts T)
  qed
qed

section \<open>An example\<close>

text \<open>A front with one endpoint under generation 4, to be replaced by two, and a leftover row of
  generation 2.\<close>

definition sw_front :: lb_front_key where
  "sw_front = \<lparr>lfk_front_ip = replicate 16 1, lfk_front_port = 80, lfk_proto = 6, lfk_pad = 0\<rparr>"

definition sw_ep :: "u8 \<Rightarrow> front_endpoint" where
  "sw_ep x = \<lparr>fe_backend = \<lparr>backend_node_ip = replicate 16 9, pod_ip = replicate 16 x\<rparr>, fe_target_port = 8080,
              fe_flags = 0, fe_pad = [0, 0, 0, 0]\<rparr>"

definition sw_meta :: front_meta where
  "sw_meta = \<lparr>fm_generation = 4, fm_count = 1, fm_flags = 0, fm_local_count = 0, fm_pad = 0\<rparr>"

definition sw_metas :: meta_entries where
  "sw_metas = [(sw_front, sw_meta)]"

definition sw_rows :: endpoint_entries where
  "sw_rows = [(endpoint_key sw_front 4 0, sw_ep 1), (endpoint_key sw_front 2 0, sw_ep 7)]"

definition sw_desired :: "(lb_front_key \<times> desired_front) list" where
  "sw_desired = [(sw_front, \<lparr>df_flags = 0, df_prefer_local = False, df_endpoints = [sw_ep 2, sw_ep 3]\<rparr>)]"

definition sw_state :: "map_error option list \<Rightarrow>
    (lb_front_key, front_meta) std_map \<times> (front_endpoint_key_rec, front_endpoint) std_map" where
  "sw_state faults = (\<lparr>sm_rows = sw_metas, sm_max = 4, sm_faults = []\<rparr>,
                      \<lparr>sm_rows = sw_rows, sm_max = 8, sm_faults = faults\<rparr>)"

definition sw_plan :: front_plan where
  "sw_plan = hd (plan_front_writes sw_metas sw_rows sw_desired True [])"

definition sw_pass where
  "sw_pass = apply_fronts std_hash_map std_hash_map \<lparr>fc_meta = 4, fc_endpoints = 8\<rparr> sw_desired True [] (sw_state [])"


lemma sw_planned: "sw_plan \<in> set (plan_front_writes sw_metas sw_rows sw_desired True [])"
  unfolding sw_plan_def by (rule hd_in_set) code_simp

lemma sw_plan_front: "fp_front sw_plan = sw_front"
  by code_simp

section \<open>Properties\<close>

text \<open>C28. The swap is atomic for the dataplane. A packet that reads \<open>FRONT_META\<close> after any number of
  steps of a plan, and \<open>FRONT_ENDPOINTS\<close> at that point or later in the plan, is steered as it was
  before the plan or as the desired endpoint set says, whichever writes fail on the way.\<close>

theorem swap_reads_old_or_new:
  assumes "writer_ok write view" "view s = (map_of cm, map_of ce)"
    and "plan \<in> set (plan_front_writes cm ce desired prune keep)" "map_of desired (fp_front plan) = Some d"
    and "length (df_endpoints d) < 2 ^ 16" "i \<le> j"
    and "fst (view (swap_stage write plan s i)) (fp_front plan) = Some m"
  shows "ingress_steer m None None h (fp_front plan) (snd (view (swap_stage write plan s j)))
    \<in> {desired_steer d h} \<union> {ingress_steer m0 None None h (fp_front plan) (snd (view s)) | m0.
         fst (view s) (fp_front plan) = Some m0}"
proof -
  let ?f = "fp_front plan"
  note w = map_writer.intro [OF assms(1)] and steps = planned [OF assms(3)]
  from steps show ?thesis
  proof (cases rule: front_steps_cases)
    case removed
    then show ?thesis using assms(4) by simp
  next
    case (settled d' m0)
    then have m0: "fst (view s) ?f = Some m0" by (simp add: serves_def assms(2))
    note st = map_writer.settled_stage [OF w m0 _ settled(3), of "m0\<lparr>fm_flags := df_flags d'\<rparr>"]
    have "m = m0 \<or> m = m0\<lparr>fm_flags := df_flags d'\<rparr>"
      "same_rows ?f (fm_generation m0) (view s) (view (swap_stage write plan s j))"
      using st [of i] st [of j] assms(7) by auto
    then have "ingress_steer m None None h ?f (snd (view (swap_stage write plan s j))) =
        ingress_steer m0 None None h ?f (snd (view s))"
      by (intro same_rows_steer) auto
    with m0 show ?thesis by blast
  next
    case (swap d')
    let ?m1 = "new_meta (next_generation (map_of cm ?f)) d'" and ?T = "\<lambda>k. view (swap_stage write plan s k)"
    have R: "Some (fek_generation k) \<noteq> map_option fm_generation (fst (view s) ?f)"
      if "(k, v) \<in> set (new_rows ?f (next_generation (map_of cm ?f)) d')" for k v
      using new_rows_key [OF that] next_generation_fresh [of "map_of cm ?f"]
      by (cases "map_of cm ?f") (auto simp: assms(2))
    note st = map_writer.swap_stage_cases [OF w swap(3) _ R]
    have D: "Some (fek_generation k) \<noteq> map_option fm_generation (fst (view s) ?f)"
      if "k \<in> set (filter (\<lambda>k. Some (fek_generation k) \<noteq> map_option fm_generation (map_of cm ?f)) (rows_of ce ?f))" for k
      using that by (simp add: assms(2))
    have old: "same_rows ?f (fm_generation m0) (view s) (?T j)" if "fst (view s) ?f = Some m0" for m0
      by (rule st [OF D, where k = j]) (use that in auto)
    show ?thesis
    proof (rule st [OF D, where k = i])
      assume "fst (?T i) ?f = fst (view s) ?f"
      then show ?thesis using assms(7) old [of m] same_rows_steer [of ?f m "view s" "?T j" m h] by auto
    next
      assume len: "length (fp_steps plan) \<le> i" and "fst (?T i) ?f = Some ?m1"
        and rows: "\<And>r v. map_of (rev (new_rows ?f (next_generation (map_of cm ?f)) d')) r = Some v \<Longrightarrow> snd (?T i) r = Some v"
      then have "serves (?T i) ?f d ?m1"
        using swap(1) assms(4,5) new_rows_lookup [of d ] by (simp add: serves_def new_meta_def)
      moreover have "?T j = ?T i" using len assms(6) by (simp add: swap_stage_def)
      ultimately show ?thesis using serves_steer [OF _ assms(5)] assms(7) \<open>fst (?T i) ?f = Some ?m1\<close> by auto
    qed auto
  qed
qed

theorem swap_reads_old_or_new_witness:
  "let view = \<lambda>(ms, es). (hm_rows std_hash_map ms, hm_rows std_hash_map es);
       stage = swap_stage (write_step std_hash_map std_hash_map) sw_plan (sw_state [None, None, None]);
       m = sw_meta\<lparr>fm_generation := 5, fm_count := 2\<rparr>
   in fst (view (stage 4)) sw_front = Some m
      \<and> ingress_steer m None None 0 sw_front (snd (view (stage 4)))
        \<in> {desired_steer \<lparr>df_flags = 0, df_prefer_local = False, df_endpoints = [sw_ep 2, sw_ep 3]\<rparr> 0}
          \<union> {ingress_steer m0 None None 0 sw_front (snd (view (sw_state [None, None, None]))) | m0.
              fst (view (sw_state [None, None, None])) sw_front = Some m0}"
proof -
  let ?view = "\<lambda>(ms, es). (hm_rows std_hash_map ms, hm_rows std_hash_map es)"
  let ?W = "write_step std_hash_map std_hash_map" and ?s = "sw_state [None, None, None]"
  have m: "fst (?view (swap_stage ?W sw_plan ?s 4)) sw_front = Some (sw_meta\<lparr>fm_generation := 5, fm_count := 2\<rparr>)"
    by code_simp
  have "?view ?s = (map_of sw_metas, map_of sw_rows)"
    by (simp add: sw_state_def std_hash_map_def)
  moreover have "map_of sw_desired sw_front =
      Some \<lparr>df_flags = 0, df_prefer_local = False, df_endpoints = [sw_ep 2, sw_ep 3]\<rparr>"
    by (simp add: sw_desired_def)
  ultimately show ?thesis
    using swap_reads_old_or_new [OF write_step_ok [OF std_hash_map_ok std_hash_map_ok] _ sw_planned,
        where s = ?s and i = 4 and j = 4 and h = 0] m
    by (simp add: sw_plan_front Let_def del: Un_insert_left)
qed

text \<open>C29. A pass that reports no failure publishes the desired state: each desired front carries its
  flags and steers every new flow as its endpoint set says, and with pruning an absent front leaves
  neither a meta row nor an endpoint row behind.\<close>

theorem pass_publishes_desired:
  assumes "hash_map_ok M" "hash_map_ok E"
    and "apply_fronts M E cap desired prune keep st = (Inr applied, st')" "fa_failures applied = []"
  shows "case map_of desired f of
      Some d \<Rightarrow> length (df_endpoints d) < 2 ^ 16 \<longrightarrow>
        (\<exists>m. hm_rows M (fst st') f = Some m \<and> fm_flags m = df_flags d
             \<and> (\<forall>h. ingress_steer m None None h f (hm_rows E (snd st')) = desired_steer d h))
    | None \<Rightarrow> prune \<longrightarrow>
        hm_rows M (fst st') f = None \<and> (\<forall>k. fek_front k = f \<longrightarrow> hm_rows E (snd st') k = None)"
proof (cases "map_of desired f")
  case None
  then show ?thesis using pass_removes [OF assms(1,2) _ assms(4), of cap desired keep st st' f] assms(3) by auto
next
  case (Some d)
  then show ?thesis using pass_serves [OF assms Some] by simp
qed

theorem pass_publishes_desired_witness:
  "\<exists>m. hm_rows std_hash_map (fst (snd sw_pass)) sw_front = Some m
     \<and> (\<forall>h. ingress_steer m None None h sw_front (hm_rows std_hash_map (snd (snd sw_pass))) =
          desired_steer \<lparr>df_flags = 0, df_prefer_local = False, df_endpoints = [sw_ep 2, sw_ep 3]\<rparr> h)"
proof -
  have "fst sw_pass = Inr \<lparr>fa_failures = [], fa_swapped = [sw_front]\<rparr>"
    by code_simp
  then have "sw_pass = (Inr \<lparr>fa_failures = [], fa_swapped = [sw_front]\<rparr>, snd sw_pass)"
    by (metis prod.collapse)
  from pass_publishes_desired [OF std_hash_map_ok std_hash_map_ok this [unfolded sw_pass_def], of sw_front]
  show ?thesis unfolding sw_pass_def [symmetric] by (auto simp: sw_desired_def)
qed

text \<open>C30. The capacity check is sound: when it lets a plan start, the maps never hold more rows than
  their capacity at any point of the plan, so no write of it can meet a full map. The plan may be one
  of a longer pass: only its own front need still be as it was when the pass was planned.\<close>

theorem admitted_plan_fits:
  assumes "plan \<in> set (plan_front_writes cm ce desired prune keep)" "distinct (map fst ce)"
    and "same_front (fp_front plan) (map_of cm, map_of ce) T" "finite (dom (fst T))" "finite (dom (snd T))"
    and "capacity_shortfall plan (map_of cm (fp_front plan) \<noteq> None)
           \<lparr>fu_meta = card (dom (fst T)), fu_endpoints = card (dom (snd T))\<rparr> cap = None"
  shows "card (dom (fst (fold do_write (take k (fp_steps plan)) T))) \<le> unat (fc_meta cap)
    \<and> card (dom (snd (fold do_write (take k (fp_steps plan)) T))) \<le> unat (fc_endpoints cap)"
proof -
  let ?had = "map_of cm (fp_front plan) \<noteq> None"
  obtain ep pk mt mpk where e: "effect_loop ?had (fp_steps plan) (0, 0, 0, 0) = (ep, pk, mt, mpk)"
    by (metis prod_cases4)
  have "card (dom (snd T)) + nat pk \<le> unat (fc_endpoints cap)" "card (dom (fst T)) + nat mpk \<le> unat (fc_meta cap)"
    using assms(6) by (simp_all add: capacity_shortfall_def plan_effect_def e del: not_None_eq split: if_splits)
  moreover have "sum_list (map step_rows (take k (fp_steps plan))) \<le> pk"
    "sum_list (map (step_metas ?had) (take k (fp_steps plan))) \<le> mpk"
    using effect_loop_peaks [OF e, of k] by simp_all
  moreover have "sound_steps ?had (take k (fp_steps plan)) T"
    by (rule sound_take [OF plan_sound [OF planned [OF assms(1)] assms(2,3)]])
  ultimately show ?thesis using sound_steps_count [OF _ assms(4,5)] by fastforce
qed

theorem admitted_plan_fits_witness:
  "card (dom (fst (fold do_write (take 3 (fp_steps sw_plan)) (map_of sw_metas, map_of sw_rows)))) \<le> 1
   \<and> card (dom (snd (fold do_write (take 3 (fp_steps sw_plan)) (map_of sw_metas, map_of sw_rows)))) \<le> 3"
proof -
  have "capacity_shortfall sw_plan True \<lparr>fu_meta = 1, fu_endpoints = 2\<rparr> \<lparr>fc_meta = 1, fc_endpoints = 3\<rparr> = None"
    by code_simp
  moreover have "dom (map_of sw_metas) = {sw_front}"
      "dom (map_of sw_rows) = {endpoint_key sw_front 4 0, endpoint_key sw_front 2 0}"
    by (auto simp: sw_metas_def sw_rows_def)
  moreover from this have "card (dom (map_of sw_metas)) = 1" "card (dom (map_of sw_rows)) = 2"
    by (simp_all add: endpoint_key_def)
  moreover have "distinct (map fst sw_rows)" "map_of sw_metas sw_front \<noteq> None"
    by (simp_all add: sw_rows_def sw_metas_def endpoint_key_def)
  ultimately show ?thesis
    using admitted_plan_fits [OF sw_planned, of "(map_of sw_metas, map_of sw_rows)" "\<lparr>fc_meta = 1, fc_endpoints = 3\<rparr>" 3]
    by (simp add: sw_plan_front)
qed

text \<open>A front is taken out meta row first: at every point of the removal, as long as \<open>FRONT_META\<close>
  still answers for it, nothing of it has been deleted. A failed meta delete leaves it whole.\<close>

lemma removal_takes_meta_first:
  assumes "writer_ok write view" "view s = (map_of cm, map_of ce)"
    and "plan \<in> set (plan_front_writes cm ce desired prune keep)" "map_of desired (fp_front plan) = None"
    and "fst (view (swap_stage write plan s k)) (fp_front plan) \<noteq> None"
  shows "view (swap_stage write plan s k) = view s"
  using planned [OF assms(3)]
proof (cases rule: front_steps_cases)
  case removed
  then show ?thesis using removed_stage [OF assms(1) _ assms(5)] assms(2) by simp
qed (use assms(4) in simp_all)

end
