(* ===== verification/Conntrack_Sweep.thy ===== *)
theory Conntrack_Sweep
  imports Bpf_Map
begin

text \<open>
  Userspace deletes from the conntrack maps (\<open>src/lib.rs\<close>): the eviction of every row that names a
  departed pod, the walk for pins that outlived their pod, and the idle sweep with its parity flip
  (\<open>controller/src/main.rs\<close>, \<open>controller/src/seed.rs\<close>). Each is compared with the set of rows that
  should survive it.
\<close>

section \<open>Set differences\<close>

definition stale_pod_targets :: "'t list \<Rightarrow> 't list \<Rightarrow> 't list" where
  "stale_pod_targets existing live = filter (\<lambda>ip. ip \<notin> set live) existing"

definition stale_forward_entries :: "('k \<times> forward_flow_value) list \<Rightarrow> ip16 set \<Rightarrow> 'k list" where
  "stale_forward_entries entries departed_pods =
     map fst (filter (\<lambda>(_, value). pod_ip (fwd_backend value) \<in> departed_pods) entries)"

definition stale_flow_table_keys :: "flow_key list \<Rightarrow> ip16 set \<Rightarrow> flow_key list" where
  "stale_flow_table_keys keys departed_pods =
     filter (\<lambda>key. case decode_tcp_flow_key (take TCP_FLOW_KEY_LEN key) of
                     (_, _, other_ip, _, _) \<Rightarrow> other_ip \<in> departed_pods) keys"

definition backends_absent_from :: "ip16 set \<Rightarrow> ip16 set \<Rightarrow> ip16 set" where
  "backends_absent_from pinned live = pinned - live"

section \<open>Eviction of departed pods\<close>

datatype sweep_error = WalkFailed map_error | DeletesFailed nat

type_synonym 'm pending_handle = "('m, tcp_flow_key, forward_flow_value) hash_map"
type_synonym 'm flow_handle = "('m, flow_key, flow_value) hash_map"

definition orphaned_pin_backends ::
  "'p pending_handle \<Rightarrow> 'f flow_handle \<Rightarrow> ip16 set \<Rightarrow> 'p \<Rightarrow> 'f \<Rightarrow> map_error + ip16 set" where
  "orphaned_pin_backends P F live p f =
     (case hm_iter P p of
        Inl e \<Rightarrow> Inl e
      | Inr pending \<Rightarrow>
     (case hm_iter F f of
        Inl e \<Rightarrow> Inl e
      | Inr rows \<Rightarrow>
          Inr (backends_absent_from
                (set (map (\<lambda>(_, v). pod_ip (fwd_backend v)) pending)
                 \<union> set (map (\<lambda>(_, v). pod_ip (fwd_backend (as_forward v)))
                      (filter (\<lambda>(k, _). flow_key_direction k = Some Forward) rows)))
                live)))"

definition evict_pod_flows ::
  "'p pending_handle \<Rightarrow> 'f flow_handle \<Rightarrow> ip16 set \<Rightarrow> 'p \<times> 'f \<Rightarrow> sweep_error option \<times> 'p \<times> 'f" where
  "evict_pod_flows P F departed_pods st =
     (if departed_pods = {} then (None, st) else
      case st of (p, f) \<Rightarrow>
      case hm_iter P p of
        Inl e \<Rightarrow> (Some (WalkFailed e), st)
      | Inr pending_entries \<Rightarrow>
     (let stale_pending = stale_forward_entries pending_entries departed_pods
      in case hm_iter F f of
        Inl e \<Rightarrow> (Some (WalkFailed e), st)
      | Inr rows \<Rightarrow>
          let forward_entries = map (\<lambda>(k, v). (k, as_forward v))
                (filter (\<lambda>(k, _). flow_key_direction k = Some Forward) rows);
              reverse_and_port_memo_keys = map fst
                (filter (\<lambda>(k, _). flow_key_direction k = Some Reverse \<or> flow_key_direction k = Some PortMemo) rows);
              stale_flow_table = stale_forward_entries forward_entries departed_pods
                @ stale_flow_table_keys reverse_and_port_memo_keys departed_pods
          in case count_failures (hm_remove P) stale_pending p of (failed_pending, p) \<Rightarrow>
             case count_failures (hm_remove F) stale_flow_table f of (failed_flows, f) \<Rightarrow>
             let failed = failed_pending + failed_flows
             in (if failed > 0 then Some (DeletesFailed failed) else None, (p, f))))"

section \<open>The idle sweep\<close>

definition row_swept :: "flow_key \<Rightarrow> flow_value \<Rightarrow> u8 \<Rightarrow> gc_parity \<Rightarrow> bool" where
  "row_swept key value class parity =
     (let proto = key ! (TCP_FLOW_KEY_LEN - 1)
      in sweep_class (flow_value_flags value) proto = class
         \<and> parity_sweep_deletes (flow_value_flags value) proto parity)"

definition memo_reverse_key :: "flow_key \<Rightarrow> flow_value \<Rightarrow> u8 \<Rightarrow> u16 \<times> flow_key" where
  "memo_reverse_key key value proto =
     (case decode_tcp_flow_key (take TCP_FLOW_KEY_LEN key) of
        (client_ip, client_port, pod, target_port, _) \<Rightarrow>
          (client_port,
           encode_flow_key client_ip (memo_backend_src_port (as_port_memo value)) pod target_port proto Reverse))"

definition idle_flow_keys :: "(flow_key \<times> flow_value) list \<Rightarrow> u8 \<Rightarrow> gc_parity \<Rightarrow> flow_key list" where
  "idle_flow_keys rows class parity =
     (let doomed = map fst (filter (\<lambda>(key, value).
            (flow_key_direction key = Some Forward \<or> flow_key_direction key = Some Reverse)
            \<and> row_swept key value class parity) rows);
          surviving_reverse = map_of (rev (map (\<lambda>(key, value). (key, rev_original_client_port (as_reverse value)))
            (filter (\<lambda>(key, value). flow_key_direction key = Some Reverse \<and> \<not> row_swept key value class parity) rows)))
      in doomed @ map fst (filter (\<lambda>(key, value).
           flow_key_direction key = Some PortMemo
           \<and> (case memo_reverse_key key value (key ! (TCP_FLOW_KEY_LEN - 1)) of
                (client_port, reverse_key) \<Rightarrow> \<not> port_memo_wanted client_port (surviving_reverse reverse_key))) rows))"

definition still_idle :: "flow_key \<Rightarrow> u8 \<Rightarrow> gc_parity \<Rightarrow> (flow_key \<Rightarrow> flow_value option) \<Rightarrow> bool" where
  "still_idle key class parity fresh =
     (case fresh key of
        None \<Rightarrow> False
      | Some value \<Rightarrow>
     (case flow_key_direction key of
        Some PortMemo \<Rightarrow>
          (case memo_reverse_key key value (key ! (TCP_FLOW_KEY_LEN - 1)) of
             (client_port, reverse_key) \<Rightarrow>
               let surviving =
                     (case fresh reverse_key of
                        None \<Rightarrow> None
                      | Some row \<Rightarrow>
                          if \<not> row_swept reverse_key row class parity
                          then Some (rev_original_client_port (as_reverse row)) else None)
               in \<not> port_memo_wanted client_port surviving)
      | Some _ \<Rightarrow> row_swept key value class parity
      | None \<Rightarrow> False))"

text \<open>The delete loop of \<open>sweep_idle_flows\<close>: deletions, failures and the map.\<close>

fun sweep_loop ::
  "'f flow_handle \<Rightarrow> u8 \<Rightarrow> gc_parity \<Rightarrow> flow_key list \<Rightarrow> nat \<times> nat \<times> 'f \<Rightarrow> nat \<times> nat \<times> 'f" where
  "sweep_loop F proto parity [] acc = acc"
| "sweep_loop F proto parity (key # keys) (deleted, failed, f) =
     (if \<not> still_idle key proto parity (\<lambda>k. ok (hm_get F k f))
      then sweep_loop F proto parity keys (deleted, failed, f)
      else case hm_remove F key f of
        (None, f) \<Rightarrow> sweep_loop F proto parity keys (deleted + 1, failed, f)
      | (Some e, f) \<Rightarrow> sweep_loop F proto parity keys (deleted, failed + 1, f))"

definition sweep_idle_flows ::
  "'f flow_handle \<Rightarrow> u8 \<Rightarrow> gc_parity \<Rightarrow> 'f \<Rightarrow> (sweep_error + nat \<times> nat) \<times> 'f" where
  "sweep_idle_flows F proto parity f =
     (case hm_iter F f of
        Inl e \<Rightarrow> (Inl (WalkFailed e), f)
      | Inr rows \<Rightarrow>
          (case sweep_loop F proto parity (idle_flow_keys rows proto parity) (0, 0, f) of
             (deleted, failed, f) \<Rightarrow>
               (if failed > 0 then Inl (DeletesFailed failed) else Inr (length rows, deleted), f)))"

section \<open>The sweep clock\<close>

text \<open>\<open>CONFIG\<close> is a one-element array map, reached through \<open>aya::maps::Array\<close>.\<close>

record 'c config_handle =
  ca_slot :: "'c \<Rightarrow> config"
  ca_get :: "'c \<Rightarrow> map_error + config"
  ca_set :: "config \<Rightarrow> 'c \<Rightarrow> map_error option \<times> 'c"

definition config_handle_ok :: "'c config_handle \<Rightarrow> bool" where
  "config_handle_ok C \<longleftrightarrow>
     (\<forall>c v. ca_get C c = Inr v \<longrightarrow> v = ca_slot C c)
     \<and> (\<forall>v c. ca_slot C (snd (ca_set C v c)) = (if fst (ca_set C v c) = None then v else ca_slot C c))"

definition read_config_parity :: "'c config_handle \<Rightarrow> u8 \<Rightarrow> 'c \<Rightarrow> map_error + bool" where
  "read_config_parity C proto c =
     (case ca_get C c of
        Inl e \<Rightarrow> Inl e
      | Inr v \<Rightarrow> Inr ((if proto = IPPROTO_UDP then cfg_udp_parity v else cfg_tcp_parity v) \<noteq> 0))"

definition write_config_parity ::
  "'c config_handle \<Rightarrow> u8 \<Rightarrow> bool \<Rightarrow> 'c \<Rightarrow> map_error option \<times> 'c" where
  "write_config_parity C proto parity c =
     (case ca_get C c of
        Inl e \<Rightarrow> (Some e, c)
      | Inr v \<Rightarrow>
          let b = (if parity then 1 else 0)
          in ca_set C (if proto = IPPROTO_UDP then v\<lparr>cfg_udp_parity := b\<rparr> else v\<lparr>cfg_tcp_parity := b\<rparr>) c)"

definition write_config_seed :: "'c config_handle \<Rightarrow> u64 \<Rightarrow> 'c \<Rightarrow> map_error option \<times> 'c" where
  "write_config_seed C seed c =
     (case ca_get C c of
        Inl e \<Rightarrow> (Some e, c)
      | Inr v \<Rightarrow> ca_set C (v\<lparr>cfg_flow_hash_seed := seed\<rparr>) c)"

definition sweep_bucket :: "nat \<Rightarrow> nat \<Rightarrow> nat" where
  "sweep_bucket unix_secs interval_secs = unix_secs div interval_secs"

text \<open>One entry of \<open>classes\<close> in \<open>run_idle_sweep_loop\<close>.\<close>

record sweep_clock =
  sc_proto :: u8
  sc_secs :: nat
  sc_bucket :: nat
  sc_parity :: bool

text \<open>The body of the loop over \<open>classes\<close> for one class, at wall-clock time \<open>now\<close>.\<close>

definition idle_sweep_class ::
  "'f flow_handle \<Rightarrow> 'c config_handle \<Rightarrow> nat \<Rightarrow> sweep_clock \<Rightarrow> 'f \<times> 'c \<Rightarrow> sweep_clock \<times> 'f \<times> 'c" where
  "idle_sweep_class F C now clock st =
     (if sweep_bucket now (sc_secs clock) \<le> sc_bucket clock then (clock, st)
      else
        let clock = clock\<lparr>sc_bucket := sweep_bucket now (sc_secs clock)\<rparr>;
            gc = \<lparr>gp_udp = (if sc_proto clock = IPPROTO_UDP then sc_parity clock else False),
                  gp_tcp = (if sc_proto clock = IPPROTO_TCP then sc_parity clock else False)\<rparr>
        in case st of (f, c) \<Rightarrow>
           case sweep_idle_flows F (sc_proto clock) gc f of
             (Inl e, f) \<Rightarrow> (clock, (f, c))
           | (Inr _, f) \<Rightarrow>
               (case write_config_parity C (sc_proto clock) (\<not> sc_parity clock) c of
                  (None, c) \<Rightarrow> (clock\<lparr>sc_parity := \<not> sc_parity clock\<rparr>, (f, c))
                | (Some e, c) \<Rightarrow> (clock, (f, c))))"

text \<open>One iteration of the loop: every class in turn.\<close>

primrec idle_sweep_tick ::
  "'f flow_handle \<Rightarrow> 'c config_handle \<Rightarrow> nat \<Rightarrow> sweep_clock list \<Rightarrow> 'f \<times> 'c \<Rightarrow> sweep_clock list \<times> 'f \<times> 'c" where
  "idle_sweep_tick F C now [] st = ([], st)"
| "idle_sweep_tick F C now (clock # clocks) st =
     (case idle_sweep_class F C now clock st of (clock, st) \<Rightarrow>
      case idle_sweep_tick F C now clocks st of (clocks, st) \<Rightarrow> (clock # clocks, st))"

end
