(* ===== verification/Conntrack_Props.thy ===== *)
theory Conntrack_Props
  imports Conntrack_Sweep
begin

text \<open>
  What the conntrack sweeps delete, stated on the rows that survive: \<open>flow_row_pods\<close> is the pod a row
  names by its role, \<open>sweep_keeps\<close> the rows an idle sweep must leave.
\<close>

section \<open>Eviction\<close>

text \<open>The pod a \<open>FLOW_TABLE\<close> row belongs to: in the value for a forward row, in the key for the others.\<close>

definition flow_row_pod :: "flow_key \<Rightarrow> flow_value \<Rightarrow> ip16 option" where
  "flow_row_pod k v =
     (case flow_key_direction k of
        Some Forward \<Rightarrow> Some (pod_ip (fwd_backend (as_forward v)))
      | Some _ \<Rightarrow> Some (span k 16 32)
      | None \<Rightarrow> None)"

lemma direction_cases [case_names fwd reverse memo other]:
  obtains "flow_key_direction k = Some Forward" | "flow_key_direction k = Some Reverse"
  | "flow_key_direction k = Some PortMemo" | "flow_key_direction k = None"
  by (cases "flow_key_direction k" rule: option.exhaust) (metis flow_direction.exhaust)+

lemma decode_other_ip: "fst (snd (snd (decode_tcp_flow_key (take TCP_FLOW_KEY_LEN k)))) = span k 16 32"
  by (simp add: decode_tcp_flow_key_def span_def TCP_FLOW_KEY_LEN_def drop_take min_def)

lemma stale_flow_table_keys_eq:
  "stale_flow_table_keys keys D = filter (\<lambda>k. span k 16 32 \<in> D) keys"
  unfolding stale_flow_table_keys_def
  by (rule filter_cong) (auto simp: decode_other_ip [symmetric] split: prod.split)

lemma stale_flow_rows:
  "set (stale_forward_entries (map (\<lambda>(k, v). (k, as_forward v))
        (filter (\<lambda>(k, _). flow_key_direction k = Some Forward) rows)) D
      @ stale_flow_table_keys (map fst
        (filter (\<lambda>(k, _). flow_key_direction k = Some Reverse \<or> flow_key_direction k = Some PortMemo) rows)) D) =
   {k. \<exists>v. (k, v) \<in> set rows \<and> (\<exists>p \<in> D. flow_row_pod k v = Some p)}"
  (is "?L = ?R")
proof (rule set_eqI)
  fix k
  show "k \<in> ?L \<longleftrightarrow> k \<in> ?R"
  proof (cases rule: direction_cases [of k])
    case fwd
    then show ?thesis
      by (force simp: stale_forward_entries_def stale_flow_table_keys_eq flow_row_pod_def)
  qed (auto simp: stale_forward_entries_def stale_flow_table_keys_eq flow_row_pod_def image_iff)
qed

lemma count_zero: "(a :: nat) + b > 0 \<longleftrightarrow> \<not> (a = 0 \<and> b = 0)"
  by auto

lemma evict_cases:
  assumes "evict_pod_flows P F D (p, f) = (r, (p', f'))" "D \<noteq> {}" "hash_map_ok P" "hash_map_ok F"
  obtains (walk) e where "r = Some (WalkFailed e)" "p' = p" "f' = f"
  | (swept) sp sf where "set sp = {k. \<exists>v. hm_rows P p k = Some v \<and> pod_ip (fwd_backend v) \<in> D}"
      "set sf = {k. \<exists>v. hm_rows F f k = Some v \<and> (\<exists>q \<in> D. flow_row_pod k v = Some q)}"
      "p' = snd (count_failures (hm_remove P) sp p)" "f' = snd (count_failures (hm_remove F) sf f)"
      "r = None \<longleftrightarrow> fst (count_failures (hm_remove P) sp p) = 0 \<and> fst (count_failures (hm_remove F) sf f) = 0"
proof (cases "hm_iter P p")
  case (Inl e)
  then show ?thesis using assms(1,2) by (intro walk [of e]) (simp_all add: evict_pod_flows_def)
next
  case (Inr pe)
  show ?thesis
  proof (cases "hm_iter F f")
    case (Inl e)
    then show ?thesis using assms(1,2) Inr by (intro walk [of e]) (simp_all add: evict_pod_flows_def)
  next
    case (Inr rows)
    note P = bpf_map.iter_rows [OF bpf_map.intro [OF assms(3)] \<open>hm_iter P p = Inr pe\<close>]
      and F = bpf_map.iter_rows [OF bpf_map.intro [OF assms(4)] Inr]
    let ?sp = "stale_forward_entries pe D"
    let ?sf = "stale_forward_entries (map (\<lambda>(k, v). (k, as_forward v))
        (filter (\<lambda>(k, _). flow_key_direction k = Some Forward) rows)) D
      @ stale_flow_table_keys (map fst
        (filter (\<lambda>(k, _). flow_key_direction k = Some Reverse \<or> flow_key_direction k = Some PortMemo) rows)) D"
    have "set ?sp = {k. \<exists>v. hm_rows P p k = Some v \<and> pod_ip (fwd_backend v) \<in> D}"
      by (force simp: stale_forward_entries_def P [symmetric])
    moreover have "set ?sf = {k. \<exists>v. hm_rows F f k = Some v \<and> (\<exists>q \<in> D. flow_row_pod k v = Some q)}"
      unfolding stale_flow_rows F ..
    ultimately show ?thesis
      using assms(1,2) \<open>hm_iter P p = Inr pe\<close> Inr
      by (intro swept [of ?sp ?sf]) (auto simp: evict_pod_flows_def Let_def split: prod.splits if_splits)
  qed
qed

section \<open>The idle sweep\<close>

text \<open>The reverse row a memo points at, if it survives the sweep: its original client port.\<close>

definition surviving_port :: "(flow_key \<rightharpoonup> flow_value) \<Rightarrow> u8 \<Rightarrow> gc_parity \<Rightarrow> flow_key \<Rightarrow> u16 option" where
  "surviving_port rows class parity rk =
     (case rows rk of
        None \<Rightarrow> None
      | Some row \<Rightarrow>
          if \<not> row_swept rk row class parity then Some (rev_original_client_port (as_reverse row)) else None)"

definition sweep_keeps :: "(flow_key \<rightharpoonup> flow_value) \<Rightarrow> u8 \<Rightarrow> gc_parity \<Rightarrow> flow_key \<Rightarrow> flow_value \<Rightarrow> bool" where
  "sweep_keeps rows class parity k v =
     (case flow_key_direction k of
        None \<Rightarrow> True
      | Some PortMemo \<Rightarrow>
          (case memo_reverse_key k v (k ! (TCP_FLOW_KEY_LEN - 1)) of
             (client_port, rk) \<Rightarrow> port_memo_wanted client_port (surviving_port rows class parity rk))
      | Some _ \<Rightarrow> \<not> row_swept k v class parity)"

lemma still_idle_iff:
  "still_idle k class parity rows \<longleftrightarrow> (\<exists>v. rows k = Some v \<and> \<not> sweep_keeps rows class parity k v)"
  by (auto simp: still_idle_def sweep_keeps_def surviving_port_def Let_def split: option.split flow_direction.split)

lemma memo_reverse_direction:
  assumes "length k = FLOW_KEY_LEN"
  shows "flow_key_direction (snd (memo_reverse_key k v pr)) = Some Reverse"
  using assms
  by (auto simp: memo_reverse_key_def decode_tcp_flow_key_def FLOW_KEY_LEN_def TCP_FLOW_KEY_LEN_def
      intro!: flow_key_direction_encode)

definition surviving_entries :: "(flow_key \<times> flow_value) list \<Rightarrow> u8 \<Rightarrow> gc_parity \<Rightarrow> (flow_key \<times> u16) list" where
  "surviving_entries xs class parity = rev (map (\<lambda>(key, value). (key, rev_original_client_port (as_reverse value)))
     (filter (\<lambda>(key, value). flow_key_direction key = Some Reverse \<and> \<not> row_swept key value class parity) xs))"

lemma map_of_iff_rel:
  assumes "\<And>v. (k, v) \<in> set ys \<longleftrightarrow> r = Some v"
  shows "map_of ys k = r"
proof (cases r)
  case None
  then have "k \<notin> fst ` set ys" using assms by auto
  with None show ?thesis by (simp add: map_of_eq_None_iff)
next
  case (Some v)
  then have "k \<in> fst ` set ys" using assms [of v] by (force simp: image_iff)
  then obtain w where "map_of ys k = Some w" by (metis map_of_eq_None_iff not_None_eq)
  with Some assms [of w] show ?thesis by (auto dest: map_of_SomeD)
qed

lemma surviving_entries_lookup:
  assumes "\<And>k v. (k, v) \<in> set xs \<longleftrightarrow> rows k = Some v" "flow_key_direction rk = Some Reverse"
  shows "map_of (surviving_entries xs class parity) rk = surviving_port rows class parity rk"
proof (rule map_of_iff_rel)
  fix v
  show "(rk, v) \<in> set (surviving_entries xs class parity) \<longleftrightarrow> surviving_port rows class parity rk = Some v"
    using assms(2) by (cases "rows rk") (auto simp: surviving_entries_def surviving_port_def assms(1) image_iff)
qed

lemma idle_flow_keys_set:
  assumes rows: "\<And>k v. (k, v) \<in> set xs \<longleftrightarrow> rows k = Some v" and len: "\<And>k. k \<in> dom rows \<Longrightarrow> length k = FLOW_KEY_LEN"
  shows "set (idle_flow_keys xs class parity) = {k. still_idle k class parity rows}"
proof (rule set_eqI)
  fix k
  have keys: "k \<in> set (idle_flow_keys xs class parity) \<longleftrightarrow>
    (\<exists>v. rows k = Some v \<and>
      ((flow_key_direction k = Some Forward \<or> flow_key_direction k = Some Reverse) \<and> row_swept k v class parity
       \<or> flow_key_direction k = Some PortMemo
         \<and> (case memo_reverse_key k v (k ! (TCP_FLOW_KEY_LEN - 1)) of
              (cp, rk) \<Rightarrow> \<not> port_memo_wanted cp (map_of (surviving_entries xs class parity) rk))))"
    unfolding idle_flow_keys_def Let_def surviving_entries_def [symmetric] by (auto simp: rows image_iff)
  show "k \<in> set (idle_flow_keys xs class parity) \<longleftrightarrow> k \<in> {k. still_idle k class parity rows}"
  proof (cases "rows k")
    case None
    then show ?thesis by (simp add: keys still_idle_iff)
  next
    case (Some v)
    have "flow_key_direction (snd (memo_reverse_key k v (k ! (TCP_FLOW_KEY_LEN - 1)))) = Some Reverse"
      using len [of k] Some by (intro memo_reverse_direction) (simp add: domI)
    note surv = surviving_entries_lookup [OF rows this, of "class" parity]
    show ?thesis
      by (cases rule: direction_cases [of k])
        (simp_all add: keys still_idle_iff Some sweep_keeps_def surv case_prod_unfold del: One_nat_def)
  qed
qed

text \<open>Deleting idle rows changes neither which rows are idle nor which memos are wanted.\<close>

definition sweeping :: "(flow_key \<rightharpoonup> flow_value) \<Rightarrow> u8 \<Rightarrow> gc_parity \<Rightarrow> (flow_key \<rightharpoonup> flow_value) \<Rightarrow> bool" where
  "sweeping rows class parity now \<longleftrightarrow>
     (\<forall>k. now k = rows k \<or> now k = None \<and> still_idle k class parity rows)"

lemma sweeping_surviving:
  assumes "sweeping rows class parity now" "flow_key_direction rk = Some Reverse"
  shows "surviving_port now class parity rk = surviving_port rows class parity rk"
proof (cases "now rk = rows rk")
  case False
  then have n: "now rk = None" and idle: "still_idle rk class parity rows"
    using assms(1) unfolding sweeping_def by metis+
  from idle obtain v where "rows rk = Some v" "row_swept rk v class parity"
    by (auto simp: still_idle_iff sweep_keeps_def assms(2))
  with n show ?thesis by (simp add: surviving_port_def)
qed (simp add: surviving_port_def)

lemma sweeping_still_idle:
  assumes "sweeping rows class parity now" "\<And>k. k \<in> dom rows \<Longrightarrow> length k = FLOW_KEY_LEN"
  shows "still_idle k class parity now \<longleftrightarrow> now k \<noteq> None \<and> still_idle k class parity rows"
proof (cases "now k")
  case None
  then show ?thesis by (simp add: still_idle_iff)
next
  case (Some v)
  then have r: "rows k = Some v" using assms(1) unfolding sweeping_def by (metis option.distinct(1))
  have "flow_key_direction (snd (memo_reverse_key k v (k ! (TCP_FLOW_KEY_LEN - 1)))) = Some Reverse"
    using assms(2) [of k] r by (intro memo_reverse_direction) (simp add: domI)
  note surv = sweeping_surviving [OF assms(1) this]
  show ?thesis
    by (cases rule: direction_cases [of k])
      (simp_all add: still_idle_iff Some r sweep_keeps_def surv case_prod_unfold del: One_nat_def)
qed

lemma sweep_loop_effect:
  assumes ok: "hash_map_ok F" and len: "\<And>k. k \<in> dom rows \<Longrightarrow> length k = FLOW_KEY_LEN"
    and "sweep_loop F class parity keys (d, n, f) = (d', n', f')" "sweeping rows class parity (hm_rows F f)"
  shows "sweeping rows class parity (hm_rows F f') \<and> hm_rows F f' \<subseteq>\<^sub>m hm_rows F f \<and> n \<le> n'
    \<and> (n' = n \<longrightarrow> (\<forall>k \<in> set keys. still_idle k class parity rows \<longrightarrow> hm_rows F f' k = None))"
  using assms(3,4)
proof (induction keys arbitrary: d n f)
  case Nil then show ?case by (simp add: map_le_def)
next
  case (Cons key keys)
  note H = bpf_map.intro [OF ok]
  have get: "(\<lambda>k. ok (hm_get F k f)) = hm_rows F f" by (simp add: bpf_map.ok_get [OF H] fun_eq_iff)
  have gone: "hm_rows F g key = None" if "hm_rows F g \<subseteq>\<^sub>m hm_rows F h" "hm_rows F h key = None" for g h
    using that by (auto simp: map_le_def dom_def)
  show ?case
  proof (cases "still_idle key class parity (hm_rows F f)")
    case False
    then have "sweep_loop F class parity keys (d, n, f) = (d', n', f')" using Cons.prems(1) by (simp add: get)
    note ih = Cons.IH [OF this Cons.prems(2)]
    have "hm_rows F f' key = None" if "still_idle key class parity rows"
      using that False gone [of f' f] ih sweeping_still_idle [OF Cons.prems(2) len, of key] by blast
    with ih show ?thesis by simp
  next
    case True
    then have idle: "still_idle key class parity rows"
      using sweeping_still_idle [OF Cons.prems(2) len] by blast
    show ?thesis
    proof (cases rule: bpf_map.remove_cases [OF H, of key f])
      case 1
      let ?f = "snd (hm_remove F key f)"
      have sw: "sweeping rows class parity (hm_rows F ?f)"
        using Cons.prems(2) idle 1(2) by (simp add: sweeping_def)
      have le: "hm_rows F ?f \<subseteq>\<^sub>m hm_rows F f" by (simp add: 1(2) map_le_def)
      have "sweep_loop F class parity keys (d + 1, n, ?f) = (d', n', f')"
        using Cons.prems(1) True 1(1) by (cases "hm_remove F key f") (simp add: get)
      note ih = Cons.IH [OF this sw]
      have "hm_rows F ?f key = None" by (simp add: 1(2))
      then have "hm_rows F f' key = None" using ih gone by blast
      with ih map_le_trans [OF _ le, of "hm_rows F f'"] show ?thesis by simp
    next
      case (2 e)
      let ?f = "snd (hm_remove F key f)"
      have "sweep_loop F class parity keys (d, n + 1, ?f) = (d', n', f')"
        using Cons.prems(1) True 2(1) by (cases "hm_remove F key f") (simp add: get)
      note ih = Cons.IH [OF this, unfolded 2(2), OF Cons.prems(2)]
      then show ?thesis by simp
    qed
  qed
qed

lemma sweep_outcome:
  assumes "hash_map_ok F" "\<And>k. k \<in> dom (hm_rows F f) \<Longrightarrow> length k = FLOW_KEY_LEN"
    and "sweep_idle_flows F class parity f = (r, f')"
  shows "sweeping (hm_rows F f) class parity (hm_rows F f')
    \<and> (\<forall>c. r = Inr c \<longrightarrow> (\<forall>k. still_idle k class parity (hm_rows F f) \<longrightarrow> hm_rows F f' k = None))"
proof (cases "hm_iter F f")
  case (Inl e)
  then show ?thesis using assms(3) by (auto simp: sweep_idle_flows_def sweeping_def)
next
  case (Inr xs)
  obtain d n g where loop: "sweep_loop F class parity (idle_flow_keys xs class parity) (0, 0, f) = (d, n, g)"
    by (metis prod_cases3)
  have "set (idle_flow_keys xs class parity) = {k. still_idle k class parity (hm_rows F f)}"
    using bpf_map.iter_rows [OF bpf_map.intro [OF assms(1)] Inr] assms(2) by (rule idle_flow_keys_set)
  moreover have "sweeping (hm_rows F f) class parity (hm_rows F f)" by (simp add: sweeping_def)
  moreover have "f' = g" "\<And>c. r = Inr c \<Longrightarrow> n = 0"
    using assms(3) Inr loop by (auto simp: sweep_idle_flows_def split: if_splits)
  ultimately show ?thesis using sweep_loop_effect [OF assms(1,2) loop] by simp
qed

text \<open>A row's parity bit is what decides: a row the sweep of one parity leaves is deleted by the sweep
  of the other.\<close>

lemma swept_under_flip:
  assumes "sweep_class (flow_value_flags v) (k ! (TCP_FLOW_KEY_LEN - 1)) = proto" "proto = IPPROTO_UDP \<or> proto = IPPROTO_TCP"
    and "par = \<lparr>gp_udp = (if proto = IPPROTO_UDP then b else False), gp_tcp = (if proto = IPPROTO_TCP then b else False)\<rparr>"
    and "par' = \<lparr>gp_udp = (if proto = IPPROTO_UDP then \<not> b else False), gp_tcp = (if proto = IPPROTO_TCP then \<not> b else False)\<rparr>"
  shows "row_swept k v proto par' \<longleftrightarrow> \<not> row_swept k v proto par"
proof -
  have "IPPROTO_TCP \<noteq> IPPROTO_UDP" by (simp add: proto_defs)
  then show ?thesis using assms
    by (auto simp: row_swept_def Let_def parity_sweep_deletes_def parity_bit_def)
qed

section \<open>An example\<close>

definition cs_pod :: "u8 \<Rightarrow> ip16" where "cs_pod x = replicate 16 x"

definition cs_fwd :: "u8 \<Rightarrow> u16 \<Rightarrow> forward_flow_value" where
  "cs_fwd x flags = \<lparr>fwd_backend = \<lparr>backend_node_ip = cs_pod 9, pod_ip = cs_pod x\<rparr>,
     fwd_ingress_ifindex = 2, fwd_target_port = 8080, fwd_flags = flags\<rparr>"

definition cs_key :: "u16 \<Rightarrow> u8 \<Rightarrow> flow_direction \<Rightarrow> flow_key" where
  "cs_key port x d = encode_flow_key (cs_pod 1) port (cs_pod x) 80 17 d"

definition cs_rev :: rev_flow_value where
  "cs_rev = \<lparr>rev_ingress_node_ip = cs_pod 9, rev_front_ip = cs_pod 8, rev_front_port = 80,
     rev_original_client_port = 1000, rev_pad = 0, rev_flags = 4\<rparr>"

text \<open>Two forward rows, a reverse row on a remapped port and its memo; the first forward row is idle
  under parity 1.\<close>

definition cs_table :: "(flow_key, flow_value) std_map" where
  "cs_table = \<lparr>sm_rows =
     [(cs_key 1000 8 Forward, from_forward (cs_fwd 3 0)), (cs_key 1001 8 Forward, from_forward (cs_fwd 4 4)),
      (cs_key 2000 4 Reverse, from_reverse cs_rev),
      (cs_key 1000 4 PortMemo, from_port_memo \<lparr>memo_backend_src_port = 2000\<rparr>)],
     sm_max = 8, sm_faults = []\<rparr>"

definition cs_pending :: "(tcp_flow_key, forward_flow_value) std_map" where
  "cs_pending = \<lparr>sm_rows = [(encode_tcp_flow_key (cs_pod 1) 1002 (cs_pod 8) 80 17, cs_fwd 4 0)],
     sm_max = 8, sm_faults = []\<rparr>"

definition cs_parity :: "bool \<Rightarrow> gc_parity" where
  "cs_parity b = \<lparr>gp_udp = b, gp_tcp = False\<rparr>"

definition cs_clock :: sweep_clock where
  "cs_clock = \<lparr>sc_proto = 17, sc_secs = 60, sc_bucket = 0, sc_parity = True\<rparr>"

definition cs_config :: "config config_handle" where
  "cs_config = \<lparr>ca_slot = \<lambda>c. c, ca_get = Inr, ca_set = \<lambda>v c. (None, v)\<rparr>"

definition cs_conf :: config where
  "cs_conf = \<lparr>cfg_geneve_ifindex = 7, cfg_udp_parity = 1, cfg_tcp_parity = 0, cfg_pad = [0, 0], cfg_flow_hash_seed = 5\<rparr>"

lemma cs_table_keys: "k \<in> dom (hm_rows std_hash_map cs_table) \<Longrightarrow> length k = FLOW_KEY_LEN"
  by (auto simp: std_hash_map_def cs_table_def cs_key_def cs_pod_def split: if_splits)

lemma evict_rows:
  assumes "hash_map_ok P" "hash_map_ok F" "evict_pod_flows P F D (p, f) = (r, (p', f'))"
  shows "hm_rows P p' k = Some v \<Longrightarrow> hm_rows P p k = Some v" "hm_rows F f' k' = Some w \<Longrightarrow> hm_rows F f k' = Some w"
    and "hm_rows P p k = Some v \<Longrightarrow> pod_ip (fwd_backend v) \<notin> D \<Longrightarrow> hm_rows P p' k = Some v"
    and "hm_rows F f k' = Some w \<Longrightarrow> \<not> (\<exists>q \<in> D. flow_row_pod k' w = Some q) \<Longrightarrow> hm_rows F f' k' = Some w"
    and "r = None \<Longrightarrow> hm_rows P p' k = Some v \<Longrightarrow> pod_ip (fwd_backend v) \<notin> D"
    and "r = None \<Longrightarrow> hm_rows F f' k' = Some w \<Longrightarrow> \<not> (\<exists>q \<in> D. flow_row_pod k' w = Some q)"
proof -
  have "(\<forall>k v. hm_rows P p' k = Some v \<longrightarrow> hm_rows P p k = Some v)
    \<and> (\<forall>k v. hm_rows F f' k = Some v \<longrightarrow> hm_rows F f k = Some v)
    \<and> (\<forall>k v. hm_rows P p k = Some v \<and> pod_ip (fwd_backend v) \<notin> D \<longrightarrow> hm_rows P p' k = Some v)
    \<and> (\<forall>k v. hm_rows F f k = Some v \<and> \<not> (\<exists>q \<in> D. flow_row_pod k v = Some q) \<longrightarrow> hm_rows F f' k = Some v)
    \<and> (r = None \<longrightarrow>
        (\<forall>k v. hm_rows P p' k = Some v \<longrightarrow> pod_ip (fwd_backend v) \<notin> D)
        \<and> (\<forall>k v. hm_rows F f' k = Some v \<longrightarrow> \<not> (\<exists>q \<in> D. flow_row_pod k v = Some q)))"
  proof (cases "D = {}")
    case True
    then show ?thesis using assms(3) by (simp add: evict_pod_flows_def)
  next
    case False
    note HP = bpf_map.intro [OF assms(1)] and HF = bpf_map.intro [OF assms(2)]
    show ?thesis
    proof (rule evict_cases [OF assms(3) False assms(1,2)])
      fix sp sf
      assume sp: "set sp = {k. \<exists>v. hm_rows P p k = Some v \<and> pod_ip (fwd_backend v) \<in> D}"
        and sf: "set sf = {k. \<exists>v. hm_rows F f k = Some v \<and> (\<exists>q \<in> D. flow_row_pod k v = Some q)}"
        and p': "p' = snd (count_failures (hm_remove P) sp p)" and f': "f' = snd (count_failures (hm_remove F) sf f)"
        and r: "r = None \<longleftrightarrow> fst (count_failures (hm_remove P) sp p) = 0 \<and> fst (count_failures (hm_remove F) sf f) = 0"
      have shrink: "hm_rows P p' k = Some v \<Longrightarrow> hm_rows P p k = Some v" "hm_rows F f' k' = Some w \<Longrightarrow> hm_rows F f k' = Some w"
        for k v k' w
        using bpf_map.remove_all_shrinks [OF HP, of sp p] bpf_map.remove_all_shrinks [OF HF, of sf f]
        by (auto simp: p' f' map_le_def dom_def)
      have frame: "k \<notin> set sp \<Longrightarrow> hm_rows P p' k = hm_rows P p k" "k' \<notin> set sf \<Longrightarrow> hm_rows F f' k' = hm_rows F f k'" for k k'
        using bpf_map.remove_all_frame [OF HP] bpf_map.remove_all_frame [OF HF] by (simp_all add: p' f')
      have gone: "r = None \<Longrightarrow> k \<in> set sp \<Longrightarrow> hm_rows P p' k = None" "r = None \<Longrightarrow> k' \<in> set sf \<Longrightarrow> hm_rows F f' k' = None"
        for k k'
        using bpf_map.remove_all_ok [OF HP, of sp p] bpf_map.remove_all_ok [OF HF, of sf f] r
        by (simp_all add: p' f' restrict_map_def)
      have keepP: "hm_rows P p' k = Some v" if "hm_rows P p k = Some v" "pod_ip (fwd_backend v) \<notin> D" for k v
        using that frame(1) [of k] by (simp add: sp)
      have keepF: "hm_rows F f' k = Some v" if "hm_rows F f k = Some v" "\<not> (\<exists>q \<in> D. flow_row_pod k v = Some q)" for k v
        using that frame(2) [of k] by (simp add: sf)
      have outP: "pod_ip (fwd_backend v) \<notin> D" if "r = None" "hm_rows P p' k = Some v" for k v
        using that gone(1) [of k] shrink(1) [of k v] by (auto simp: sp)
      have outF: "\<not> (\<exists>q \<in> D. flow_row_pod k v = Some q)" if "r = None" "hm_rows F f' k = Some v" for k v
        using that gone(2) [of k] shrink(2) [of k v] by (auto simp: sf)
      from shrink keepP keepF outP outF show ?thesis by blast
    qed auto
  qed
  then show "hm_rows P p' k = Some v \<Longrightarrow> hm_rows P p k = Some v" "hm_rows F f' k' = Some w \<Longrightarrow> hm_rows F f k' = Some w"
    "hm_rows P p k = Some v \<Longrightarrow> pod_ip (fwd_backend v) \<notin> D \<Longrightarrow> hm_rows P p' k = Some v"
    "hm_rows F f k' = Some w \<Longrightarrow> \<not> (\<exists>q \<in> D. flow_row_pod k' w = Some q) \<Longrightarrow> hm_rows F f' k' = Some w"
    "r = None \<Longrightarrow> hm_rows P p' k = Some v \<Longrightarrow> pod_ip (fwd_backend v) \<notin> D"
    "r = None \<Longrightarrow> hm_rows F f' k' = Some w \<Longrightarrow> \<not> (\<exists>q \<in> D. flow_row_pod k' w = Some q)"
    by blast+
qed

section \<open>Properties\<close>

text \<open>C32. An eviction that succeeds removes exactly the rows of the departed pods: pending flows and
  forward rows by the backend in their value, reverse and memo rows by the pod in their key. One that
  fails has removed no other row, and has changed none.\<close>

theorem eviction_exact:
  assumes "hash_map_ok P" "hash_map_ok F" "evict_pod_flows P F D (p, f) = (r, (p', f'))"
  shows "(\<forall>k v. hm_rows P p' k = Some v \<longrightarrow> hm_rows P p k = Some v)
    \<and> (\<forall>k v. hm_rows F f' k = Some v \<longrightarrow> hm_rows F f k = Some v)
    \<and> (\<forall>k v. hm_rows P p k = Some v \<and> pod_ip (fwd_backend v) \<notin> D \<longrightarrow> hm_rows P p' k = Some v)
    \<and> (\<forall>k v. hm_rows F f k = Some v \<and> \<not> (\<exists>q \<in> D. flow_row_pod k v = Some q) \<longrightarrow> hm_rows F f' k = Some v)
    \<and> (r = None \<longrightarrow>
        (\<forall>k v. hm_rows P p' k = Some v \<longrightarrow> pod_ip (fwd_backend v) \<notin> D)
        \<and> (\<forall>k v. hm_rows F f' k = Some v \<longrightarrow> \<not> (\<exists>q \<in> D. flow_row_pod k v = Some q)))"
  using evict_rows [OF assms] by blast

theorem eviction_exact_witness:
  "let st = snd (evict_pod_flows std_hash_map std_hash_map {cs_pod 4} (cs_pending, cs_table))
   in hm_rows std_hash_map (snd st) (cs_key 1000 8 Forward) = Some (from_forward (cs_fwd 3 0))
      \<and> (\<forall>k v. hm_rows std_hash_map (snd st) k = Some v \<longrightarrow> flow_row_pod k v \<noteq> Some (cs_pod 4))"
proof -
  let ?r = "evict_pod_flows std_hash_map std_hash_map {cs_pod 4} (cs_pending, cs_table)"
  obtain r p' f' where e: "?r = (r, (p', f'))" by (metis prod.collapse)
  have "fst ?r = None" by code_simp
  then have r: "r = None" by (simp add: e)
  have "hm_rows std_hash_map cs_table (cs_key 1000 8 Forward) = Some (from_forward (cs_fwd 3 0))"
    "flow_row_pod (cs_key 1000 8 Forward) (from_forward (cs_fwd 3 0)) = Some (cs_pod 3)" "cs_pod 3 \<noteq> cs_pod 4"
    by code_simp+
  then have row: "hm_rows std_hash_map cs_table (cs_key 1000 8 Forward) = Some (from_forward (cs_fwd 3 0))
      \<and> \<not> (\<exists>q \<in> {cs_pod 4}. flow_row_pod (cs_key 1000 8 Forward) (from_forward (cs_fwd 3 0)) = Some q)"
    by simp
  note ev = eviction_exact [OF std_hash_map_ok std_hash_map_ok e]
  have "hm_rows std_hash_map f' (cs_key 1000 8 Forward) = Some (from_forward (cs_fwd 3 0))"
    using ev row by blast
  moreover have "flow_row_pod k v \<noteq> Some (cs_pod 4)" if "hm_rows std_hash_map f' k = Some v" for k v
    using ev r that by blast
  ultimately show ?thesis unfolding e Let_def by simp
qed

text \<open>C33. The idle sweep is exact: it keeps every row that should survive (a row of another class or with
  the current parity, a memo whose reverse row survives under its client port, a row with a foreign
  tag), changes none, and when it succeeds no other row is left.\<close>

theorem idle_sweep_exact:
  assumes "hash_map_ok F" "\<And>k. k \<in> dom (hm_rows F f) \<Longrightarrow> length k = FLOW_KEY_LEN"
    and "sweep_idle_flows F proto parity f = (r, f')"
  shows "(\<forall>k v. hm_rows F f k = Some v \<and> sweep_keeps (hm_rows F f) proto parity k v \<longrightarrow> hm_rows F f' k = Some v)
    \<and> (\<forall>k v. hm_rows F f' k = Some v \<longrightarrow> hm_rows F f k = Some v
         \<and> (r \<in> range Inr \<longrightarrow> sweep_keeps (hm_rows F f) proto parity k v))"
proof -
  note out = sweep_outcome [OF assms]
  have kept: "hm_rows F f' k = Some v" if "hm_rows F f k = Some v" "sweep_keeps (hm_rows F f) proto parity k v" for k v
    using out that unfolding sweeping_def still_idle_iff by (metis option.inject)
  have old: "hm_rows F f k = Some v" if "hm_rows F f' k = Some v" for k v
    using out that unfolding sweeping_def by (metis option.distinct(1))
  have "sweep_keeps (hm_rows F f) proto parity k v" if "hm_rows F f' k = Some v" "r = Inr c" for k v c
    using out that old [OF that(1)] unfolding still_idle_iff by (metis option.distinct(1))
  with kept old show ?thesis by blast
qed

theorem idle_sweep_exact_witness:
  "let t = snd (sweep_idle_flows std_hash_map 17 (cs_parity True) cs_table)
   in hm_rows std_hash_map t (cs_key 1000 4 PortMemo) = Some (from_port_memo \<lparr>memo_backend_src_port = 2000\<rparr>)
      \<and> hm_rows std_hash_map t (cs_key 1000 8 Forward) = None"
proof -
  let ?r = "sweep_idle_flows std_hash_map 17 (cs_parity True) cs_table"
  have r: "fst ?r = Inr (4, 1)" by code_simp
  have "hm_rows std_hash_map cs_table (cs_key 1000 4 PortMemo) = Some (from_port_memo \<lparr>memo_backend_src_port = 2000\<rparr>)"
    "sweep_keeps (hm_rows std_hash_map cs_table) 17 (cs_parity True) (cs_key 1000 4 PortMemo)
      (from_port_memo \<lparr>memo_backend_src_port = 2000\<rparr>)"
    "hm_rows std_hash_map cs_table (cs_key 1000 8 Forward) = Some (from_forward (cs_fwd 3 0))"
    "\<not> sweep_keeps (hm_rows std_hash_map cs_table) 17 (cs_parity True) (cs_key 1000 8 Forward) (from_forward (cs_fwd 3 0))"
    by code_simp+
  moreover have "?r = (fst ?r, snd ?r)" by simp
  ultimately show ?thesis
    using idle_sweep_exact [OF std_hash_map_ok cs_table_keys \<open>?r = (fst ?r, snd ?r)\<close>] r
    unfolding Let_def by (metis option.exhaust option.inject rangeI)
qed

text \<open>C34. An idle flow is collected. When two passes of a class's clock both sweep and flip the parity,
  and between them the row is left as the first pass left it (whatever else the dataplane does to the
  table), the row is gone after the second.\<close>

theorem idle_row_collected:
  assumes "hash_map_ok F" "\<And>k. k \<in> dom (hm_rows F f1) \<Longrightarrow> length k = FLOW_KEY_LEN"
      "\<And>k. k \<in> dom (hm_rows F f3) \<Longrightarrow> length k = FLOW_KEY_LEN"
    and pass1: "idle_sweep_class F C now1 clock1 (f1, c1) = (clock2, f2, c2)" "sc_parity clock2 \<noteq> sc_parity clock1"
    and pass2: "idle_sweep_class F C now2 clock2 (f3, c3) = (clock3, f4, c4)" "sc_parity clock3 \<noteq> sc_parity clock2"
    and row: "hm_rows F f3 k = hm_rows F f2 k" "hm_rows F f2 k = Some v"
      "flow_key_direction k = Some Forward \<or> flow_key_direction k = Some Reverse"
      "sweep_class (flow_value_flags v) (k ! (TCP_FLOW_KEY_LEN - 1)) = sc_proto clock1"
      "sc_proto clock1 = IPPROTO_UDP \<or> sc_proto clock1 = IPPROTO_TCP"
  shows "hm_rows F f4 k = None"
proof -
  define gc where "gc b = \<lparr>gp_udp = (if sc_proto clock1 = IPPROTO_UDP then b else False),
    gp_tcp = (if sc_proto clock1 = IPPROTO_TCP then b else False)\<rparr>" for b
  have p1: "\<exists>n. sweep_idle_flows F (sc_proto clock1) (gc (sc_parity clock1)) f1 = (Inr n, f2)"
      and c2: "sc_proto clock2 = sc_proto clock1" "sc_parity clock2 = (\<not> sc_parity clock1)"
    using pass1 by (auto simp: idle_sweep_class_def gc_def Let_def split: if_splits prod.splits sum.splits option.splits)
  have p2: "\<exists>n. sweep_idle_flows F (sc_proto clock1) (gc (\<not> sc_parity clock1)) f3 = (Inr n, f4)"
    using pass2 c2 by (auto simp: idle_sweep_class_def gc_def Let_def split: if_splits prod.splits sum.splits option.splits)
  from p1 obtain n1 where "sweep_idle_flows F (sc_proto clock1) (gc (sc_parity clock1)) f1 = (Inr n1, f2)" ..
  note out1 = sweep_outcome [OF assms(1,2) this]
  from p2 obtain n2 where "sweep_idle_flows F (sc_proto clock1) (gc (\<not> sc_parity clock1)) f3 = (Inr n2, f4)" ..
  note out2 = sweep_outcome [OF assms(1,3) this]
  have "hm_rows F f1 k = Some v" using out1 row(2) unfolding sweeping_def by (metis option.distinct(1))
  moreover have "\<not> still_idle k (sc_proto clock1) (gc (sc_parity clock1)) (hm_rows F f1)"
    using out1 row(2) by (metis option.distinct(1))
  ultimately have "\<not> row_swept k v (sc_proto clock1) (gc (sc_parity clock1))"
    using row(3) by (auto simp: still_idle_iff sweep_keeps_def)
  then have "row_swept k v (sc_proto clock1) (gc (\<not> sc_parity clock1))"
    using swept_under_flip [OF row(4,5), of "gc (sc_parity clock1)" "sc_parity clock1" "gc (\<not> sc_parity clock1)"]
    by (simp add: gc_def)
  then have "still_idle k (sc_proto clock1) (gc (\<not> sc_parity clock1)) (hm_rows F f3)"
    using row(1,2,3) by (auto simp: still_idle_iff sweep_keeps_def)
  with out2 show ?thesis by blast
qed

theorem idle_row_collected_witness:
  "let r1 = idle_sweep_class std_hash_map cs_config 60 cs_clock (cs_table, cs_conf);
       r2 = idle_sweep_class std_hash_map cs_config 120 (fst r1) (fst (snd r1), snd (snd r1))
   in hm_rows std_hash_map (fst (snd r1)) (cs_key 1001 8 Forward) = Some (from_forward (cs_fwd 4 4))
      \<and> hm_rows std_hash_map (fst (snd r2)) (cs_key 1001 8 Forward) = None"
proof -
  let ?r1 = "idle_sweep_class std_hash_map cs_config 60 cs_clock (cs_table, cs_conf)"
  obtain clock2 f2 c2 where r1: "?r1 = (clock2, f2, c2)" by (metis prod.collapse)
  let ?r2 = "idle_sweep_class std_hash_map cs_config 120 clock2 (f2, c2)"
  obtain clock3 f4 c4 where r2: "?r2 = (clock3, f4, c4)" by (metis prod.collapse)
  have "fst ?r1 = cs_clock\<lparr>sc_bucket := 1, sc_parity := False\<rparr>" by code_simp
  then have c2: "clock2 = cs_clock\<lparr>sc_bucket := 1, sc_parity := False\<rparr>" by (simp add: r1)
  have "case ?r1 of (c, f, d) \<Rightarrow> fst (idle_sweep_class std_hash_map cs_config 120 c (f, d)) =
      cs_clock\<lparr>sc_bucket := 2, sc_parity := True\<rparr>" by code_simp
  then have c3: "clock3 = cs_clock\<lparr>sc_bucket := 2, sc_parity := True\<rparr>" by (simp add: r1 r2)
  have "hm_rows std_hash_map (fst (snd ?r1)) (cs_key 1001 8 Forward) = Some (from_forward (cs_fwd 4 4))" by code_simp
  then have row: "hm_rows std_hash_map f2 (cs_key 1001 8 Forward) = Some (from_forward (cs_fwd 4 4))" by (simp add: r1)
  have facts: "flow_key_direction (cs_key 1001 8 Forward) = Some Forward"
    "sweep_class (flow_value_flags (from_forward (cs_fwd 4 4))) (cs_key 1001 8 Forward ! (TCP_FLOW_KEY_LEN - 1)) = sc_proto cs_clock"
    "sc_proto cs_clock = IPPROTO_UDP" "sc_parity cs_clock" by code_simp+
  have "list_all (\<lambda>(k, v). length k = FLOW_KEY_LEN) (sm_rows (fst (snd ?r1)))" by code_simp
  then have "list_all (\<lambda>(k, v). length k = FLOW_KEY_LEN) (sm_rows f2)" by (simp add: r1)
  then have "length k = FLOW_KEY_LEN" if "k \<in> dom (hm_rows std_hash_map f2)" for k
    using that by (force simp: std_hash_map_def list_all_iff dest: map_of_SomeD)
  from idle_row_collected [OF std_hash_map_ok cs_table_keys this r1 _ r2 _ refl row] facts
  have "hm_rows std_hash_map f4 (cs_key 1001 8 Forward) = None" by (simp add: c2 c3)
  with row show ?thesis by (simp add: r1 r2 Let_def)
qed

end
