(* ===== verification/Pin_Migrate.thy ===== *)
theory Pin_Migrate
  imports Bpf_Map "HOL-Library.List_Lexorder"
begin

text \<open>
  Carrying map entries across a pinned-map recreation (\<open>src/pin_migrate.rs\<close> and the \<open>PinStore\<close> part of
  \<open>src/lib.rs\<close>): which pins a start keeps, migrates or recreates, parking the old map under a
  \<open>_migrating\<close> pin, planning which entries fit the new maps, and writing them back rows before meta.

  bpffs and the \<open>bpf(2)\<close> element calls are parameters: the record \<open>pin_store\<close> (the source's own trait)
  and the writer closure of \<open>apply_plan\<close>.
\<close>

section \<open>Shapes and fates\<close>

record map_shape =
  ms_type :: u32
  ms_key_size :: u32
  ms_value_size :: u32
  ms_max_entries :: u32
  ms_flags :: u32

definition BPF_F_NO_PREALLOC :: u32 where "BPF_F_NO_PREALLOC = 1"

definition COMPARED_MAP_FLAGS :: u32 where "COMPARED_MAP_FLAGS = BPF_F_NO_PREALLOC"

text \<open>The mismatching fields with their old and new values; the source formats each as a string.\<close>

definition map_shape_mismatches :: "map_shape \<Rightarrow> map_shape \<Rightarrow> (string \<times> u32 \<times> u32) list" where
  "map_shape_mismatches existing requested =
     filter (\<lambda>(field, old, new). old \<noteq> new)
       [(''map_type'', ms_type existing, ms_type requested),
        (''key_size'', ms_key_size existing, ms_key_size requested),
        (''value_size'', ms_value_size existing, ms_value_size requested),
        (''max_entries'', ms_max_entries existing, ms_max_entries requested),
        (''map_flags'', ms_flags existing AND COMPARED_MAP_FLAGS, ms_flags requested AND COMPARED_MAP_FLAGS)]"

datatype fate = Keep | Migrate | RecreateEmpty

definition couple_front_fates :: "fate option \<times> fate option \<Rightarrow> fate \<times> fate" where
  "couple_front_fates fates =
     (let both = (case fates of
                    (Some Keep, Some Keep) \<Rightarrow> Keep
                  | (Some Keep, Some Migrate) \<Rightarrow> Migrate
                  | (Some Migrate, Some Keep) \<Rightarrow> Migrate
                  | (Some Migrate, Some Migrate) \<Rightarrow> Migrate
                  | (None, None) \<Rightarrow> Keep
                  | _ \<Rightarrow> RecreateEmpty)
      in (both, both))"

text \<open>The kernel's \<open>bpf_map_type\<close> ids of a hash and of an LRU hash.\<close>

definition BPF_MAP_TYPE_HASH_ID :: u32 where "BPF_MAP_TYPE_HASH_ID = 1"
definition BPF_MAP_TYPE_LRU_HASH_ID :: u32 where "BPF_MAP_TYPE_LRU_HASH_ID = 9"

definition restorable_map_type :: "u32 \<Rightarrow> bool" where
  "restorable_map_type map_type \<longleftrightarrow> map_type \<in> {BPF_MAP_TYPE_HASH_ID, BPF_MAP_TYPE_LRU_HASH_ID}"

definition pin_fate :: "map_shape \<Rightarrow> map_shape \<Rightarrow> fate" where
  "pin_fate existing wanted =
     (if map_shape_mismatches existing wanted = [] then Keep
      else if (ms_type existing, ms_key_size existing, ms_value_size existing)
                = (ms_type wanted, ms_key_size wanted, ms_value_size wanted)
              \<and> restorable_map_type (ms_type wanted)
      then Migrate else RecreateEmpty)"

datatype pin_origin = Plain | Migrating

definition pin_source ::
  "map_shape option \<Rightarrow> map_shape option \<Rightarrow> map_shape \<Rightarrow> (pin_origin \<times> map_shape \<times> fate) option" where
  "pin_source plain migrating wanted =
     (case (migrating, plain) of
        (Some m, _) \<Rightarrow>
          Some (Migrating, m, (case pin_fate m wanted of Keep \<Rightarrow> Migrate | other \<Rightarrow> other))
      | (None, Some p) \<Rightarrow> Some (Plain, p, pin_fate p wanted)
      | (None, None) \<Rightarrow> None)"

section \<open>The pin store\<close>

type_synonym entry = "bytes \<times> bytes"

definition FRONT_META_NAME :: string where "FRONT_META_NAME = ''FRONT_META''"
definition FRONT_ENDPOINTS_NAME :: string where "FRONT_ENDPOINTS_NAME = ''FRONT_ENDPOINTS''"

definition MIGRATING_SUFFIX :: string where "MIGRATING_SUFFIX = ''_migrating''"

definition migrating_name :: "string \<Rightarrow> string" where
  "migrating_name name = name @ MIGRATING_SUFFIX"

text \<open>\<open>trait PinStore\<close>. \<open>ps_pins\<close> is what is pinned under each name; the program reaches it through the
  four methods only. Any error ends the start.\<close>

datatype pin_error = PinError

record 's pin_store =
  ps_pins :: "'s \<Rightarrow> string \<rightharpoonup> map_shape \<times> entry list"
  ps_shape :: "string \<Rightarrow> 's \<Rightarrow> pin_error + map_shape option"
  ps_snapshot :: "string \<Rightarrow> 's \<Rightarrow> pin_error + entry list"
  ps_remove :: "string \<Rightarrow> 's \<Rightarrow> pin_error option \<times> 's"
  ps_repin :: "string \<Rightarrow> string \<Rightarrow> 's \<Rightarrow> pin_error option \<times> 's"

record recreated =
  rc_name :: string
  rc_snapshot :: "entry list option"
  rc_parked :: bool

text \<open>The first loop of \<open>recreate_mismatched_pins\<close>: the source and fate of every requested map.\<close>

primrec pin_fates ::
  "'s pin_store \<Rightarrow> 's \<Rightarrow> (string \<times> map_shape) list \<Rightarrow>
   pin_error + (string \<times> (pin_origin \<times> map_shape \<times> fate) option \<times> map_shape) list" where
  "pin_fates S s [] = Inr []"
| "pin_fates S s (req # reqs) =
     (case ps_shape S (fst req) s of
        Inl e \<Rightarrow> Inl e
      | Inr plain \<Rightarrow>
     (case ps_shape S (migrating_name (fst req)) s of
        Inl e \<Rightarrow> Inl e
      | Inr migrating \<Rightarrow>
     (case pin_fates S s reqs of
        Inl e \<Rightarrow> Inl e
      | Inr rest \<Rightarrow> Inr ((fst req, pin_source plain migrating (snd req), snd req) # rest))))"

definition fate_of ::
  "(string \<times> (pin_origin \<times> map_shape \<times> fate) option \<times> map_shape) list \<Rightarrow> string \<Rightarrow> fate option" where
  "fate_of fates name =
     (case List.find (\<lambda>(n, _). n = name) fates of
        None \<Rightarrow> None
      | Some (_, source, _) \<Rightarrow> map_option (\<lambda>(_, _, fate). fate) source)"

text \<open>The moves for one replaced pin: the final \<open>match\<close> of the loop body.\<close>

definition move_pin ::
  "'s pin_store \<Rightarrow> string \<Rightarrow> pin_origin \<Rightarrow> map_shape \<Rightarrow> bool \<Rightarrow> 's \<Rightarrow> pin_error option \<times> 's" where
  "move_pin S name source wanted keeps_entries s =
     (case (source, keeps_entries) of
        (Plain, True) \<Rightarrow> ps_repin S name (migrating_name name) s
      | (Plain, False) \<Rightarrow> ps_remove S name s
      | (Migrating, True) \<Rightarrow>
          (case ps_shape S name s of
             Inl e \<Rightarrow> (Some e, s)
           | Inr None \<Rightarrow> (None, s)
           | Inr (Some plain) \<Rightarrow>
               if map_shape_mismatches plain wanted \<noteq> [] then ps_remove S name s else (None, s))
      | (Migrating, False) \<Rightarrow>
          (case ps_remove S (migrating_name name) s of
             (Some e, s) \<Rightarrow> (Some e, s)
           | (None, s) \<Rightarrow>
               (case ps_shape S name s of
                  Inl e \<Rightarrow> (Some e, s)
                | Inr None \<Rightarrow> (None, s)
                | Inr (Some _) \<Rightarrow> ps_remove S name s)))"

definition coupled_fate :: "fate \<times> fate \<Rightarrow> string \<Rightarrow> fate \<Rightarrow> fate" where
  "coupled_fate coupled name fate =
     (if name = FRONT_META_NAME then fst coupled
      else if name = FRONT_ENDPOINTS_NAME then snd coupled else fate)"

primrec recreate_loop ::
  "'s pin_store \<Rightarrow> fate \<times> fate \<Rightarrow>
   (string \<times> (pin_origin \<times> map_shape \<times> fate) option \<times> map_shape) list \<Rightarrow> recreated list \<times> 's \<Rightarrow>
   (pin_error + recreated list) \<times> 's" where
  "recreate_loop S coupled [] acc = (case acc of (recreated, s) \<Rightarrow> (Inr recreated, s))"
| "recreate_loop S coupled (item # items) acc =
     (case acc of (recreated, s) \<Rightarrow>
      case item of (name, source, wanted) \<Rightarrow>
      case source of
        None \<Rightarrow> recreate_loop S coupled items (recreated, s)
      | Some (origin, existing, fate) \<Rightarrow>
          let fate = coupled_fate coupled name fate
          in if fate = Keep then recreate_loop S coupled items (recreated, s)
             else
               let src_pin = (case origin of Plain \<Rightarrow> name | Migrating \<Rightarrow> migrating_name name);
                   snapshot = (if fate = Migrate then ok (ps_snapshot S src_pin s) else None);
                   keeps_entries = (snapshot \<noteq> None)
               in case move_pin S name origin wanted keeps_entries s of
                    (Some e, s) \<Rightarrow> (Inl e, s)
                  | (None, s) \<Rightarrow>
                      recreate_loop S coupled items
                        (recreated @ [\<lparr>rc_name = name, rc_snapshot = snapshot, rc_parked = keeps_entries\<rparr>], s))"

definition recreate_mismatched_pins ::
  "'s pin_store \<Rightarrow> (string \<times> map_shape) list \<Rightarrow> 's \<Rightarrow> (pin_error + recreated list) \<times> 's" where
  "recreate_mismatched_pins S requested s =
     (case pin_fates S s requested of
        Inl e \<Rightarrow> (Inl e, s)
      | Inr fates \<Rightarrow>
          recreate_loop S (couple_front_fates (fate_of fates FRONT_META_NAME, fate_of fates FRONT_ENDPOINTS_NAME))
            fates ([], s))"

primrec unpark_migrated :: "'s pin_store \<Rightarrow> string list \<Rightarrow> 's \<Rightarrow> pin_error option \<times> 's" where
  "unpark_migrated S [] s = (None, s)"
| "unpark_migrated S (name # names) s =
     (case ps_remove S (migrating_name name) s of
        (Some e, s) \<Rightarrow> (Some e, s)
      | (None, s) \<Rightarrow> unpark_migrated S names s)"

section \<open>Planning the restore\<close>

record front_copy =
  fy_meta :: entry
  fy_rows :: "entry list"

text \<open>The lines of \<open>losses\<close>, with the values they print.\<close>

datatype loss =
    TooMany string nat nat
  | UndecodableEndpointKey
  | UndecodableMetaValue
  | FrontsDropped nat nat nat nat nat nat

record restore_plan =
  rp_generic :: "(string \<times> entry list) list"
  rp_fronts :: "front_copy list"
  rp_losses :: "loss list"

text \<open>\<open>decode::<T>\<close>: an unaligned read of a \<open>repr(C)\<close> struct, if the length is its size.\<close>

definition decode_lb_front_key :: "bytes \<Rightarrow> lb_front_key option" where
  "decode_lb_front_key b =
     (if length b = 20
      then Some \<lparr>lfk_front_ip = span b 0 16, lfk_front_port = u16_of_ne (span b 16 18),
                 lfk_proto = b ! 18, lfk_pad = b ! 19\<rparr>
      else None)"

definition decode_front_endpoint_key :: "bytes \<Rightarrow> front_endpoint_key_rec option" where
  "decode_front_endpoint_key b =
     (if length b = 28
      then Some \<lparr>fek_front = the (decode_lb_front_key (span b 0 20)), fek_generation = u32_of_ne (span b 20 24),
                 fek_slot = u16_of_ne (span b 24 26), fek_pad = u16_of_ne (span b 26 28)\<rparr>
      else None)"

definition decode_front_meta :: "bytes \<Rightarrow> front_meta option" where
  "decode_front_meta b =
     (if length b = 12
      then Some \<lparr>fm_generation = u32_of_ne (span b 0 4), fm_count = u16_of_ne (span b 4 6),
                 fm_flags = u16_of_ne (span b 6 8), fm_local_count = u16_of_ne (span b 8 10),
                 fm_pad = u16_of_ne (span b 10 12)\<rparr>
      else None)"

text \<open>The loop over \<open>snapshots\<close>: the front maps are set aside, every other map is truncated to its cap.\<close>

fun sort_snapshots ::
  "(string \<Rightarrow> u32) \<Rightarrow> (string \<times> entry list) list \<Rightarrow> restore_plan \<times> entry list \<times> entry list \<Rightarrow>
   restore_plan \<times> entry list \<times> entry list" where
  "sort_snapshots cap [] acc = acc"
| "sort_snapshots cap ((name, entries) # snapshots) (plan, metas, endpoints) =
     (if name = FRONT_META_NAME then sort_snapshots cap snapshots (plan, entries, endpoints)
      else if name = FRONT_ENDPOINTS_NAME then sort_snapshots cap snapshots (plan, metas, entries)
      else
        let c = unat (cap name);
            losses = (if length entries > c then rp_losses plan @ [TooMany name (length entries) c] else rp_losses plan)
        in sort_snapshots cap snapshots
             (plan\<lparr>rp_losses := losses, rp_generic := rp_generic plan @ [(name, take c entries)]\<rparr>, metas, endpoints))"

type_synonym rows_by_gen = "lb_front_key \<times> u32 \<rightharpoonup> (u16 \<times> entry) list"

definition group_row :: "entry \<Rightarrow> rows_by_gen \<Rightarrow> rows_by_gen" where
  "group_row e rows =
     (case decode_front_endpoint_key (fst e) of
        None \<Rightarrow> rows
      | Some k \<Rightarrow>
          rows((fek_front k, fek_generation k) \<mapsto>
            (case rows (fek_front k, fek_generation k) of None \<Rightarrow> [] | Some old \<Rightarrow> old) @ [(fek_slot k, e)]))"

record admit_state =
  as_fronts :: "front_copy list"
  as_rows_used :: nat
  as_dropped :: nat
  as_rows :: rows_by_gen

text \<open>The loop body over \<open>sorted_metas\<close>: a front is copied whole or not at all.\<close>

definition admit_front ::
  "nat \<Rightarrow> nat \<Rightarrow> bytes \<times> front_meta \<times> bytes \<Rightarrow> admit_state \<Rightarrow> admit_state" where
  "admit_front meta_cap ep_cap item st =
     (case item of (key, meta, value) \<Rightarrow>
      let front = decode_lb_front_key key;
          found = (case front of None \<Rightarrow> None | Some f \<Rightarrow> as_rows st (f, fm_generation meta));
          remaining = (case front of None \<Rightarrow> as_rows st | Some f \<Rightarrow> (as_rows st)((f, fm_generation meta) := None));
          rows = sort_key fst (filter (\<lambda>(slot, _). slot < fm_count meta) (case found of None \<Rightarrow> [] | Some r \<Rightarrow> r));
          complete = (length rows = unat (fm_count meta));
          fits = (length (as_fronts st) < meta_cap \<and> as_rows_used st + length rows \<le> ep_cap)
      in if \<not> complete \<or> \<not> fits \<or> front = None
         then st\<lparr>as_dropped := as_dropped st + 1, as_rows := remaining\<rparr>
         else st\<lparr>as_rows_used := as_rows_used st + length rows, as_rows := remaining,
                 as_fronts := as_fronts st @ [\<lparr>fy_meta = (key, value), fy_rows = map snd rows\<rparr>]\<rparr>)"

definition plan_restore :: "(string \<Rightarrow> u32) \<Rightarrow> (string \<times> entry list) list \<Rightarrow> restore_plan" where
  "plan_restore cap snapshots =
     (case sort_snapshots cap snapshots (\<lparr>rp_generic = [], rp_fronts = [], rp_losses = []\<rparr>, [], []) of
        (plan, metas, endpoints) \<Rightarrow>
          let rows_by_gen = fold group_row endpoints Map.empty;
              losses = rp_losses plan
                @ map (\<lambda>_. UndecodableEndpointKey) (filter (\<lambda>e. decode_front_endpoint_key (fst e) = None) endpoints)
                @ map (\<lambda>_. UndecodableMetaValue) (filter (\<lambda>e. decode_front_meta (snd e) = None) metas);
              sorted_metas = sort_key fst (collect_map (List.map_filter (\<lambda>(key, value).
                map_option (\<lambda>m. (key, m, value)) (decode_front_meta value)) metas));
              meta_cap = unat (cap FRONT_META_NAME);
              ep_cap = unat (cap FRONT_ENDPOINTS_NAME);
              st = fold (admit_front meta_cap ep_cap) sorted_metas
                     \<lparr>as_fronts = [], as_rows_used = 0, as_dropped = 0, as_rows = rows_by_gen\<rparr>
          in plan\<lparr>rp_fronts := as_fronts st,
                  rp_losses := (if as_dropped st > 0
                    then losses @ [FrontsDropped (length (as_fronts st)) (length metas) (as_rows_used st)
                                     meta_cap ep_cap (as_dropped st)]
                    else losses)\<rparr>)"

section \<open>Applying the plan\<close>

definition BPF_NOEXIST :: u64 where "BPF_NOEXIST = 1"

text \<open>\<open>EntryWriter\<close>: writes an entry into the named map. The error is its \<open>raw_os_error\<close>.\<close>

type_synonym 's entry_writer = "string \<Rightarrow> entry \<Rightarrow> u64 \<Rightarrow> 's \<Rightarrow> int option option \<times> 's"

definition write_landed :: "int option option \<Rightarrow> bool" where
  "write_landed result = (case result of None \<Rightarrow> True | Some errno \<Rightarrow> errno = Some EEXIST)"

record write_failure =
  wf_map :: string
  wf_errno :: "int option"

record restore_failure =
  rf_map :: string
  rf_errno :: "int option"
  rf_count :: nat
  rf_first :: "write_failure list"

primrec write_all ::
  "'s entry_writer \<Rightarrow> string \<Rightarrow> entry list \<Rightarrow> write_failure list \<times> 's \<Rightarrow> bool list \<times> write_failure list \<times> 's" where
  "write_all write name [] acc = ([], acc)"
| "write_all write name (e # es) acc =
     (case acc of (failures, s) \<Rightarrow>
      case write name e BPF_NOEXIST s of (result, s) \<Rightarrow>
      let landed = write_landed result;
          failures = (case result of
                        Some errno \<Rightarrow> if \<not> landed then failures @ [\<lparr>wf_map = name, wf_errno = errno\<rparr>] else failures
                      | None \<Rightarrow> failures)
      in case write_all write name es (failures, s) of (flags, acc) \<Rightarrow> (landed # flags, acc))"

primrec write_generic ::
  "'s entry_writer \<Rightarrow> (string \<times> entry list) list \<Rightarrow> write_failure list \<times> 's \<Rightarrow> write_failure list \<times> 's" where
  "write_generic write [] acc = acc"
| "write_generic write (item # items) acc =
     (case write_all write (fst item) (snd item) acc of (_, acc) \<Rightarrow> write_generic write items acc)"

primrec write_rows ::
  "'s entry_writer \<Rightarrow> front_copy list \<Rightarrow> write_failure list \<times> 's \<Rightarrow> bool list \<times> write_failure list \<times> 's" where
  "write_rows write [] acc = ([], acc)"
| "write_rows write (front # fronts) acc =
     (case write_all write FRONT_ENDPOINTS_NAME (fy_rows front) acc of (results, acc) \<Rightarrow>
      case write_rows write fronts acc of (landed, acc) \<Rightarrow> (list_all (\<lambda>b. b) results # landed, acc))"

definition apply_plan ::
  "'s entry_writer \<Rightarrow> restore_plan \<Rightarrow> 's \<Rightarrow> restore_failure option \<times> 's" where
  "apply_plan write plan s =
     (case write_generic write (rp_generic plan) ([], s) of acc \<Rightarrow>
      let (failures, s) =
            (if rp_fronts plan = [] then acc
             else case write_rows write (rp_fronts plan) acc of (landed, acc) \<Rightarrow>
                  let metas = map (\<lambda>(f, _). fy_meta f) (filter (\<lambda>(_, b). b) (zip (rp_fronts plan) landed))
                  in case write_all write FRONT_META_NAME metas acc of (_, acc) \<Rightarrow> acc)
      in ((case failures of
             [] \<Rightarrow> None
           | first # _ \<Rightarrow>
               Some \<lparr>rf_map = wf_map first, rf_errno = wf_errno first, rf_count = length failures,
                     rf_first = take 5 failures\<rparr>), s))"

definition restore_migrated ::
  "'s entry_writer \<Rightarrow> recreated list \<Rightarrow> (string \<times> map_shape) list \<Rightarrow> 's \<Rightarrow> restore_failure option \<times> 's" where
  "restore_migrated write recreated requested s =
     (let snapshots = List.map_filter (\<lambda>r. map_option (\<lambda>e. (rc_name r, e)) (rc_snapshot r)) recreated
      in if snapshots = [] then (None, s)
         else apply_plan write
                (plan_restore (\<lambda>name. case map_of requested name of None \<Rightarrow> 0 | Some sh \<Rightarrow> ms_max_entries sh) snapshots) s)"

text \<open>What an operator is told about a failed restore write.\<close>

datatype remediation = RaiseMemory | ReportBug | CheckCapabilities | ReportUnexpected

definition restore_remediation :: "int option \<Rightarrow> remediation" where
  "restore_remediation errno =
     (if errno = Some ENOMEM then RaiseMemory
      else if errno \<in> {Some E2BIG, Some EINVAL, Some EFAULT} then ReportBug
      else if errno \<in> {Some EPERM, Some EACCES} then CheckCapabilities
      else ReportUnexpected)"

end
