(* ===== verification/Pin_Migrate_Props.thy ===== *)
theory Pin_Migrate_Props
  imports Pin_Migrate
begin

text \<open>
  A start may fail, or be killed, at any call it makes on the pin store: the entries of a map that is
  kept or migrated stay reachable for the next start. What a restore writes back is whole: no meta row
  without all the endpoint rows of its live generation.
\<close>

section \<open>The pin store contract\<close>

text \<open>A failed \<open>repin\<close> may have pinned the second name already.\<close>

definition pin_store_ok :: "'s pin_store \<Rightarrow> bool" where
  "pin_store_ok S \<longleftrightarrow>
     (\<forall>n s r. ps_shape S n s = Inr r \<longrightarrow> r = map_option fst (ps_pins S s n))
     \<and> (\<forall>n s es. ps_snapshot S n s = Inr es \<longrightarrow> map_option snd (ps_pins S s n) = Some es)
     \<and> (\<forall>n s. ps_pins S (snd (ps_remove S n s)) =
          (if fst (ps_remove S n s) = None then (ps_pins S s)(n := None) else ps_pins S s))
     \<and> (\<forall>a b s. ps_pins S (snd (ps_repin S a b s)) \<in>
          (if fst (ps_repin S a b s) = None then {(ps_pins S s)(b := ps_pins S s a, a := None)}
           else {ps_pins S s, (ps_pins S s)(b := ps_pins S s a)}))"

text \<open>The entries a start finds for a map: those of the parked pin if there is one.\<close>

definition carried :: "(string \<rightharpoonup> map_shape \<times> entry list) \<Rightarrow> string \<Rightarrow> entry list option" where
  "carried pins name =
     (case pins (migrating_name name) of Some (_, es) \<Rightarrow> Some es | None \<Rightarrow> map_option snd (pins name))"

definition view_source ::
  "(string \<rightharpoonup> map_shape \<times> entry list) \<Rightarrow> string \<Rightarrow> map_shape \<Rightarrow> (pin_origin \<times> map_shape \<times> fate) option" where
  "view_source pins name wanted =
     pin_source (map_option fst (pins name)) (map_option fst (pins (migrating_name name))) wanted"

definition view_fates where
  "view_fates pins requested = map (\<lambda>(n, w). (n, view_source pins n w, w)) requested"

definition view_coupled where
  "view_coupled pins requested =
     couple_front_fates (fate_of (view_fates pins requested) FRONT_META_NAME,
                         fate_of (view_fates pins requested) FRONT_ENDPOINTS_NAME)"

text \<open>What a start decides for a requested map, from what is pinned.\<close>

definition decided_fate ::
  "(string \<rightharpoonup> map_shape \<times> entry list) \<Rightarrow> (string \<times> map_shape) list \<Rightarrow> string \<times> map_shape \<Rightarrow> fate option" where
  "decided_fate pins requested req =
     map_option (\<lambda>(_, _, f). coupled_fate (view_coupled pins requested) (fst req) f)
       (view_source pins (fst req) (snd req))"

lemma migrating_name_inj [simp]: "migrating_name a = migrating_name b \<longleftrightarrow> a = b"
  by (simp add: migrating_name_def)

lemma migrating_name_neq [simp]: "migrating_name a \<noteq> a" "a \<noteq> migrating_name a"
  by (simp_all add: migrating_name_def MIGRATING_SUFFIX_def)

text \<open>The loop over the decided pins, seen from one of them: its entries stay, and once the loop has
  completed a migrated map is parked and nothing of another shape is pinned under its name.\<close>

definition keeps :: "'s pin_store \<Rightarrow> bool \<Rightarrow> string \<Rightarrow> map_shape \<Rightarrow> 's \<Rightarrow> (pin_error + recreated list) \<times> 's \<Rightarrow> bool" where
  "keeps S mig n w s res \<longleftrightarrow>
     carried (ps_pins S (snd res)) n = carried (ps_pins S s) n
     \<and> (mig \<and> fst res \<in> range Inr \<longrightarrow>
        map_option snd (ps_pins S (snd res) (migrating_name n)) = carried (ps_pins S s) n
        \<and> (\<forall>sh es. ps_pins S (snd res) n = Some (sh, es) \<longrightarrow> map_shape_mismatches sh w = []))"

lemma carried_cong:
  "p' n = p n \<Longrightarrow> p' (migrating_name n) = p (migrating_name n) \<Longrightarrow> carried p' n = carried p n"
  by (simp add: carried_def cong: option.case_cong)

locale pin_provider =
  fixes S :: "'s pin_store"
  assumes store_ok: "pin_store_ok S"
begin

lemma shape_pins: "ps_shape S n s = Inr r \<Longrightarrow> r = map_option fst (ps_pins S s n)"
  using store_ok by (simp add: pin_store_ok_def)

lemma snapshot_pins: "ps_snapshot S n s = Inr es \<Longrightarrow> map_option snd (ps_pins S s n) = Some es"
  using store_ok by (simp add: pin_store_ok_def)

lemma remove_pins:
  "ps_pins S (snd (ps_remove S n s)) =
   (if fst (ps_remove S n s) = None then (ps_pins S s)(n := None) else ps_pins S s)"
  using store_ok by (simp add: pin_store_ok_def)

lemma repin_pins:
  "ps_pins S (snd (ps_repin S a b s)) \<in>
   (if fst (ps_repin S a b s) = None then {(ps_pins S s)(b := ps_pins S s a, a := None)}
    else {ps_pins S s, (ps_pins S s)(b := ps_pins S s a)})"
  using store_ok unfolding pin_store_ok_def by blast

lemma move_frame:
  assumes "k \<noteq> n" "k \<noteq> migrating_name n"
  shows "ps_pins S (snd (move_pin S n origin wanted b s)) k = ps_pins S s k"
proof -
  have rm: "ps_pins S (snd (ps_remove S m t)) k = ps_pins S t k" if "m = n \<or> m = migrating_name n" for m t
    using remove_pins [of m t] that assms by auto
  show ?thesis
  proof (cases origin)
    case Plain
    show ?thesis
    proof (cases b)
      case True
      then show ?thesis using repin_pins [of n "migrating_name n" s] assms Plain
        by (auto simp: move_pin_def split: if_splits)
    qed (simp add: move_pin_def Plain rm)
  next
    case Migrating
    obtain r t where r: "ps_remove S (migrating_name n) s = (r, t)" by (cases "ps_remove S (migrating_name n) s")
    then have "ps_pins S t k = ps_pins S s k" using rm [of "migrating_name n" s] by simp
    then show ?thesis
      by (cases b) (auto simp: move_pin_def Migrating r rm split: sum.split option.split)
  qed
qed

text \<open>Parking keeps the entries whatever happens on the way; when it completes they are parked.\<close>

lemma move_keeps:
  assumes "view_source (ps_pins S s) n w = Some (origin, ex, f)"
  shows "carried (ps_pins S (snd (move_pin S n origin w True s))) n = carried (ps_pins S s) n"
    and "fst (move_pin S n origin w True s) = None \<Longrightarrow>
      map_option snd (ps_pins S (snd (move_pin S n origin w True s)) (migrating_name n)) = carried (ps_pins S s) n
      \<and> (\<forall>sh es. ps_pins S (snd (move_pin S n origin w True s)) n = Some (sh, es) \<longrightarrow> map_shape_mismatches sh w = [])"
proof -
  let ?p = "ps_pins S s"
  have "carried (ps_pins S (snd (move_pin S n origin w True s))) n = carried ?p n
    \<and> (fst (move_pin S n origin w True s) = None \<longrightarrow>
      map_option snd (ps_pins S (snd (move_pin S n origin w True s)) (migrating_name n)) = carried ?p n
      \<and> (\<forall>sh es. ps_pins S (snd (move_pin S n origin w True s)) n = Some (sh, es) \<longrightarrow> map_shape_mismatches sh w = []))"
  proof (cases origin)
    case Plain
    then have pl: "?p (migrating_name n) = None" "\<exists>sh es. ?p n = Some (sh, es)"
      using assms by (auto simp: view_source_def pin_source_def split: option.splits)
    then show ?thesis using repin_pins [of n "migrating_name n" s] Plain
      by (auto simp: move_pin_def carried_def split: if_splits)
  next
    case Migrating
    then have mg: "\<exists>sh es. ?p (migrating_name n) = Some (sh, es)"
      using assms by (auto simp: view_source_def pin_source_def split: option.splits)
    show ?thesis
    proof (cases "ps_shape S n s")
      case (Inl e)
      then show ?thesis by (simp add: move_pin_def Migrating)
    next
      case (Inr r)
      show ?thesis
      proof (cases "?p n")
        case None
        then have "r = None" using shape_pins [OF Inr] by simp
        then show ?thesis using mg None by (auto simp: move_pin_def Migrating Inr carried_def)
      next
        case (Some pin)
        then have "r = Some (fst pin)" using shape_pins [OF Inr] by simp
        then show ?thesis using mg Some remove_pins [of n s]
          by (cases pin) (auto simp: move_pin_def Migrating Inr carried_def split: if_splits)
      qed
    qed
  qed
  then show "carried (ps_pins S (snd (move_pin S n origin w True s))) n = carried (ps_pins S s) n"
    and "fst (move_pin S n origin w True s) = None \<Longrightarrow>
      map_option snd (ps_pins S (snd (move_pin S n origin w True s)) (migrating_name n)) = carried (ps_pins S s) n
      \<and> (\<forall>sh es. ps_pins S (snd (move_pin S n origin w True s)) n = Some (sh, es) \<longrightarrow> map_shape_mismatches sh w = [])"
    by blast+
qed

lemma pin_fates_view:
  "pin_fates S s requested = Inr fates \<Longrightarrow> fates = view_fates (ps_pins S s) requested"
proof (induction requested arbitrary: fates)
  case (Cons req requested)
  then show ?case
    by (cases req) (auto simp: view_fates_def view_source_def split: sum.splits dest!: shape_pins)
qed (simp add: view_fates_def)

lemma loop_frame:
  assumes "\<And>n. n \<in> fst ` set items \<Longrightarrow> k \<noteq> n \<and> k \<noteq> migrating_name n"
  shows "ps_pins S (snd (recreate_loop S coupled items (acc, s))) k = ps_pins S s k"
  using assms
proof (induction items arbitrary: acc s)
  case (Cons item items)
  obtain n src w where item: "item = (n, src, w)" by (cases item)
  have k: "k \<noteq> n" "k \<noteq> migrating_name n" and IH: "\<And>acc s. ps_pins S (snd (recreate_loop S coupled items (acc, s))) k = ps_pins S s k"
    using Cons by (auto simp: item)
  show ?case
  proof (cases src)
    case None
    then show ?thesis by (simp add: item IH)
  next
    case (Some x)
    obtain origin ex f where x: "x = (origin, ex, f)" by (cases x)
    have mv: "ps_pins S t k = ps_pins S s k" if "move_pin S n origin w b s = (r, t)" for b r t
      using move_frame [OF k, of origin w b s] that by simp
    show ?thesis
      by (auto simp: item Some x Let_def IH split: prod.split option.split dest: mv)
  qed
qed simp

lemma keeps_from:
  assumes "ps_pins S t n = ps_pins S s n" "ps_pins S t (migrating_name n) = ps_pins S s (migrating_name n)"
  shows "keeps S mig n w t res = keeps S mig n w s res"
  using carried_cong [of "ps_pins S t" n "ps_pins S s"] assms by (simp add: keeps_def)

lemma keeps_same:
  assumes "ps_pins S (snd res) n = ps_pins S s n" "ps_pins S (snd res) (migrating_name n) = ps_pins S s (migrating_name n)"
    and "mig \<Longrightarrow> fst res \<notin> range Inr"
  shows "keeps S mig n w s res"
  using carried_cong [of "ps_pins S (snd res)" n "ps_pins S s"] assms by (auto simp: keeps_def)

lemma loop_head:
  assumes "n \<notin> fst ` set items" and sep: "\<And>b. b \<in> fst ` set items \<Longrightarrow> n \<noteq> migrating_name b \<and> migrating_name n \<noteq> b"
    and snap: "\<And>a t. ps_pins S t a \<noteq> None \<Longrightarrow> \<exists>es. ps_snapshot S a t = Inr es"
    and src: "view_source (ps_pins S s) n w = Some (origin, ex, f)" "coupled_fate coupled n f \<noteq> RecreateEmpty"
  shows "keeps S (coupled_fate coupled n f = Migrate) n w s
    (recreate_loop S coupled ((n, Some (origin, ex, f), w) # items) (acc, s))"
proof -
  have frame: "ps_pins S (snd (recreate_loop S coupled items (a, t))) n = ps_pins S t n"
      "ps_pins S (snd (recreate_loop S coupled items (a, t))) (migrating_name n) = ps_pins S t (migrating_name n)" for a t
    using assms(1) sep by (intro loop_frame; force)+
  show ?thesis
  proof (cases "coupled_fate coupled n f = Keep")
    case True
    then show ?thesis by (intro keeps_same) (simp_all add: Let_def frame)
  next
    case False
    then have mig: "coupled_fate coupled n f = Migrate" using src(2) by (cases "coupled_fate coupled n f") simp_all
    let ?src = "case origin of Plain \<Rightarrow> n | Migrating \<Rightarrow> migrating_name n"
    have "ps_pins S s ?src \<noteq> None"
      using src(1) by (auto simp: view_source_def pin_source_def split: option.splits)
    then obtain es where es: "ps_snapshot S ?src s = Inr es" using snap by blast
    obtain e t where mv: "move_pin S n origin w True s = (e, t)" by (cases "move_pin S n origin w True s")
    have run: "recreate_loop S coupled ((n, Some (origin, ex, f), w) # items) (acc, s) =
        (case e of Some err \<Rightarrow> (Inl err, t)
         | None \<Rightarrow> recreate_loop S coupled items (acc @ [\<lparr>rc_name = n, rc_snapshot = Some es, rc_parked = True\<rparr>], t))"
      using es mv by (cases origin; cases e) (simp_all add: mig Let_def)
    note kept = move_keeps [OF src(1), unfolded mv snd_conv fst_conv]
    show ?thesis
    proof (cases e)
      case None
      let ?res = "recreate_loop S coupled items (acc @ [\<lparr>rc_name = n, rc_snapshot = Some es, rc_parked = True\<rparr>], t)"
      have "carried (ps_pins S (snd ?res)) n = carried (ps_pins S t) n" by (rule carried_cong) (rule frame)+
      then show ?thesis unfolding run None option.case using kept(1) kept(2) [OF None] by (simp add: keeps_def frame)
    next
      case (Some err)
      then show ?thesis unfolding run Some option.case using kept(1) by (auto simp: keeps_def)
    qed
  qed
qed

lemma loop_skip:
  assumes "n \<noteq> n0" "n \<noteq> migrating_name n0" "migrating_name n \<noteq> n0"
    and IH: "\<And>t acc. ps_pins S t n = ps_pins S s n \<Longrightarrow>
      ps_pins S t (migrating_name n) = ps_pins S s (migrating_name n) \<Longrightarrow>
      keeps S mig n w t (recreate_loop S coupled items (acc, t))"
  shows "keeps S mig n w s (recreate_loop S coupled ((n0, src, w0) # items) (acc, s))"
proof (cases src)
  case None
  then show ?thesis using IH [of s acc] by simp
next
  case (Some x)
  obtain o0 e0 f0 where x: "x = (o0, e0, f0)" by (cases x)
  define snp where "snp = (if coupled_fate coupled n0 f0 = Migrate
    then ok (ps_snapshot S (case o0 of Plain \<Rightarrow> n0 | Migrating \<Rightarrow> migrating_name n0) s) else None)"
  obtain e t where t: "move_pin S n0 o0 w0 (snp \<noteq> None) s = (e, t)"
    by (cases "move_pin S n0 o0 w0 (snp \<noteq> None) s")
  have same: "ps_pins S t n = ps_pins S s n" "ps_pins S t (migrating_name n) = ps_pins S s (migrating_name n)"
    using move_frame [of n n0 o0 w0 "snp \<noteq> None" s] move_frame [of "migrating_name n" n0 o0 w0 "snp \<noteq> None" s] assms(1-3)
    by (simp_all add: t del: not_None_eq)
  have run: "recreate_loop S coupled ((n0, src, w0) # items) (acc, s) =
      (if coupled_fate coupled n0 f0 = Keep then recreate_loop S coupled items (acc, s)
       else case e of Some err \<Rightarrow> (Inl err, t)
         | None \<Rightarrow> recreate_loop S coupled items (acc @ [\<lparr>rc_name = n0, rc_snapshot = snp, rc_parked = (snp \<noteq> None)\<rparr>], t))"
    using t unfolding snp_def by (cases e) (simp_all add: Some x Let_def del: not_None_eq cong: if_cong)
  show ?thesis
    unfolding run using IH [of s acc] IH [OF same] keeps_from [OF same]
    by (cases e) (auto intro!: keeps_same simp: same)
qed

lemma loop_item:
  assumes "(n, view_source (ps_pins S s) n w, w) \<in> set items" "distinct (map fst items)"
    and "\<And>a b. a \<in> fst ` set items \<Longrightarrow> b \<in> fst ` set items \<Longrightarrow> a \<noteq> migrating_name b"
    and snap: "\<And>a t. ps_pins S t a \<noteq> None \<Longrightarrow> \<exists>es. ps_snapshot S a t = Inr es"
    and "view_source (ps_pins S s) n w = Some (origin, ex, f)" and f: "coupled_fate coupled n f \<noteq> RecreateEmpty"
  shows "keeps S (coupled_fate coupled n f = Migrate) n w s (recreate_loop S coupled items (acc, s))"
  using assms(1,2,3,5)
proof (induction items arbitrary: acc s)
  case (Cons item items)
  obtain n0 src0 w0 where item: "item = (n0, src0, w0)" by (cases item)
  have tail: "n0 \<notin> fst ` set items" "distinct (map fst items)" using Cons.prems(2) by (auto simp: item)
  have sep: "a \<noteq> migrating_name b" if "a = n0 \<or> a \<in> fst ` set items" "b = n0 \<or> b \<in> fst ` set items" for a b
    using Cons.prems(3) [of a b] that by (auto simp: item)
  show ?case
  proof (cases "n0 = n")
    case True
    then have "src0 = Some (origin, ex, f)" "w0 = w"
      using Cons.prems(1,4) tail(1) by (force simp: item image_iff)+
    then show ?thesis
      using loop_head [OF _ _ snap Cons.prems(4) f, of items acc] tail(1) sep [of n] sep [of _ n] True
      by (simp add: item) blast
  next
    case False
    then have mem: "(n, view_source (ps_pins S s) n w, w) \<in> set items" using Cons.prems(1) by (auto simp: item)
    then have nin: "n \<in> fst ` set items" by force
    show ?thesis unfolding item
    proof (rule loop_skip)
      show "n \<noteq> n0" using False by simp
      show "n \<noteq> migrating_name n0" using sep [of n n0] nin by simp
      show "migrating_name n \<noteq> n0" using sep [of n0 n] nin by auto
      fix t acc' assume "ps_pins S t n = ps_pins S s n" "ps_pins S t (migrating_name n) = ps_pins S s (migrating_name n)"
      then show "keeps S (coupled_fate coupled n f = Migrate) n w t (recreate_loop S coupled items (acc', t))"
        using Cons.IH [of t acc'] mem tail(2) sep Cons.prems(4) by (simp add: view_source_def)
    qed
  qed
qed simp

end

text \<open>An in-memory pin store whose moves fail as scheduled; a failing \<open>repin\<close> stops half way.\<close>

record mem_pins =
  mp_pins :: "(string \<times> map_shape \<times> entry list) list"
  mp_faults :: "bool list"

definition mp_fault :: "mem_pins \<Rightarrow> bool \<times> mem_pins" where
  "mp_fault m = (case mp_faults m of [] \<Rightarrow> (False, m) | b # bs \<Rightarrow> (b, m\<lparr>mp_faults := bs\<rparr>))"

definition mp_put :: "string \<Rightarrow> (map_shape \<times> entry list) option \<Rightarrow> mem_pins \<Rightarrow> mem_pins" where
  "mp_put n v m = m\<lparr>mp_pins := (case v of None \<Rightarrow> [] | Some p \<Rightarrow> [(n, p)]) @ filter (\<lambda>q. fst q \<noteq> n) (mp_pins m)\<rparr>"

definition mem_store :: "mem_pins pin_store" where
  "mem_store =
     \<lparr>ps_pins = \<lambda>m. map_of (mp_pins m),
      ps_shape = \<lambda>n m. Inr (map_option fst (map_of (mp_pins m) n)),
      ps_snapshot = \<lambda>n m. (case map_of (mp_pins m) n of Some (_, es) \<Rightarrow> Inr es | None \<Rightarrow> Inl PinError),
      ps_remove = \<lambda>n m. (case mp_fault m of (True, m) \<Rightarrow> (Some PinError, m) | (False, m) \<Rightarrow> (None, mp_put n None m)),
      ps_repin = \<lambda>a b m. (let moved = mp_put b (map_of (mp_pins m) a) m
         in case mp_fault moved of (True, m) \<Rightarrow> (Some PinError, m) | (False, m) \<Rightarrow> (None, mp_put a None m))\<rparr>"

lemma mp_put_pins: "map_of (mp_pins (mp_put n v m)) = (map_of (mp_pins m))(n := v)"
  by (cases v) (auto simp: mp_put_def map_of_drop_key fun_eq_iff)

lemma mp_fault_pins: "mp_fault m = (b, m') \<Longrightarrow> mp_pins m' = mp_pins m"
  by (auto simp: mp_fault_def split: list.splits)

lemma mem_store_ok: "pin_store_ok mem_store"
  unfolding pin_store_ok_def
  by (auto simp: mem_store_def Let_def mp_put_pins split: option.splits prod.splits bool.splits dest!: mp_fault_pins)

interpretation mem: pin_provider mem_store
  by unfold_locales (rule mem_store_ok)

section \<open>What a restore writes\<close>

definition entry_writer_ok :: "'s entry_writer \<Rightarrow> ('s \<Rightarrow> string \<Rightarrow> bytes \<rightharpoonup> bytes) \<Rightarrow> bool" where
  "entry_writer_ok write view \<longleftrightarrow> (\<forall>name k v s.
     case write name (k, v) BPF_NOEXIST s of
       (None, s') \<Rightarrow> view s name k = None \<and> view s' = (view s)(name := (view s name)(k \<mapsto> v))
     | (Some errno, s') \<Rightarrow> view s' = view s \<and> (errno = Some EEXIST \<longrightarrow> view s name k \<noteq> None))"

text \<open>A writer fills gaps only: entries there stay, and a landed entry is there.\<close>

locale gap_writer =
  fixes wr :: "'s entry_writer" and view :: "'s \<Rightarrow> string \<Rightarrow> bytes \<rightharpoonup> bytes"
  assumes writes: "entry_writer_ok wr view"
begin

lemma write_cases:
  obtains (new) s' where "wr name (k, v) BPF_NOEXIST s = (None, s')" "view s name k = None"
      "view s' = (view s)(name := (view s name)(k \<mapsto> v))"
  | (old) errno s' where "wr name (k, v) BPF_NOEXIST s = (Some errno, s')" "view s' = view s"
      "errno = Some EEXIST \<Longrightarrow> view s name k \<noteq> None"
proof (cases "wr name (k, v) BPF_NOEXIST s")
  case (Pair r s')
  have "case wr name (k, v) BPF_NOEXIST s of
       (None, s') \<Rightarrow> view s name k = None \<and> view s' = (view s)(name := (view s name)(k \<mapsto> v))
     | (Some errno, s') \<Rightarrow> view s' = view s \<and> (errno = Some EEXIST \<longrightarrow> view s name k \<noteq> None)"
    using writes unfolding entry_writer_ok_def by (elim allE)
  with Pair show ?thesis using that by (cases r) auto
qed

lemma write_all_effect:
  assumes "write_all wr name es (fs, s) = (flags, fs', s')"
  shows "length flags = length es \<and> (\<forall>m. m \<noteq> name \<longrightarrow> view s' m = view s m)
    \<and> view s name \<subseteq>\<^sub>m view s' name
    \<and> (\<forall>i < length es. flags ! i \<longrightarrow> view s' name (fst (es ! i)) \<noteq> None)
    \<and> (\<forall>k v. view s' name k = Some v \<longrightarrow> view s name k = Some v \<or> (k, v) \<in> set es)"
  using assms
proof (induction es arbitrary: fs s flags)
  case (Cons e es)
  obtain k v where e: "e = (k, v)" by (cases e)
  obtain r s1 where r: "wr name (k, v) BPF_NOEXIST s = (r, s1)" by (cases "wr name (k, v) BPF_NOEXIST s")
  obtain fs1 flags1 where tl: "write_all wr name es (fs1, s1) = (flags1, fs', s')" "flags = write_landed r # flags1"
    using Cons.prems by (auto simp: e r Let_def split: prod.splits)
  note ih = Cons.IH [OF tl(1)]
  have s1: "(\<forall>m. m \<noteq> name \<longrightarrow> view s1 m = view s m) \<and> view s name \<subseteq>\<^sub>m view s1 name
      \<and> (write_landed r \<longrightarrow> view s1 name k \<noteq> None)
      \<and> (\<forall>k' v'. view s1 name k' = Some v' \<longrightarrow> view s name k' = Some v' \<or> (k', v') = (k, v))"
    by (cases rule: write_cases [of name k v s]) (auto simp: r write_landed_def map_le_def)
  have grow: "view s1 name k \<noteq> None \<Longrightarrow> view s' name k \<noteq> None"
    using ih by (auto simp: map_le_def dom_def)
  have le: "view s name \<subseteq>\<^sub>m view s' name" using ih s1 map_le_trans by blast
  have landed: "view s' name (fst ((e # es) ! i)) \<noteq> None" if "i < length (e # es)" "flags ! i" for i
  proof (cases i)
    case 0
    then show ?thesis using that(2) s1 grow by (simp add: e tl(2) del: not_None_eq)
  next
    case (Suc j)
    then show ?thesis using that ih by (simp add: tl(2) del: not_None_eq)
  qed
  have entries: "view s name k' = Some v' \<or> (k', v') \<in> set (e # es)" if "view s' name k' = Some v'" for k' v'
    using that ih s1 unfolding e list.set insert_iff by blast
  have "length flags = length (e # es)" "\<forall>m. m \<noteq> name \<longrightarrow> view s' m = view s m"
    using ih s1 by (simp_all add: tl(2))
  with le landed entries show ?case by blast
qed simp

lemma write_generic_frame:
  "m \<notin> fst ` set items \<Longrightarrow> view (snd (write_generic wr items acc)) m = view (snd acc) m"
proof (induction items arbitrary: acc)
  case (Cons item items)
  obtain fs s where acc: "acc = (fs, s)" by (cases acc)
  obtain flags fs' s' where w: "write_all wr (fst item) (snd item) (fs, s) = (flags, fs', s')"
    by (metis prod_cases3)
  from Cons show ?case using write_all_effect [OF w] by (simp add: acc w)
qed simp

lemma write_rows_effect:
  assumes "write_rows wr fronts (fs, s) = (landed, fs', s')"
  shows "length landed = length fronts \<and> view s' FRONT_META_NAME = view s FRONT_META_NAME
    \<and> view s FRONT_ENDPOINTS_NAME \<subseteq>\<^sub>m view s' FRONT_ENDPOINTS_NAME
    \<and> (\<forall>i < length fronts. landed ! i \<longrightarrow>
        (\<forall>k v. (k, v) \<in> set (fy_rows (fronts ! i)) \<longrightarrow> view s' FRONT_ENDPOINTS_NAME k \<noteq> None))
    \<and> (\<forall>k v. view s' FRONT_ENDPOINTS_NAME k = Some v \<longrightarrow>
        view s FRONT_ENDPOINTS_NAME k = Some v \<or> (\<exists>c \<in> set fronts. (k, v) \<in> set (fy_rows c)))"
  using assms
proof (induction fronts arbitrary: fs s landed)
  case (Cons front fronts)
  obtain flags fs1 s1 where w: "write_all wr FRONT_ENDPOINTS_NAME (fy_rows front) (fs, s) = (flags, fs1, s1)"
    by (metis prod_cases3)
  obtain landed1 where tl: "write_rows wr fronts (fs1, s1) = (landed1, fs', s')"
      "landed = list_all (\<lambda>b. b) flags # landed1"
    using Cons.prems by (auto simp: w split: prod.splits)
  note ih = Cons.IH [OF tl(1)] and w' = write_all_effect [OF w]
  have "FRONT_META_NAME \<noteq> FRONT_ENDPOINTS_NAME" by (simp add: FRONT_META_NAME_def FRONT_ENDPOINTS_NAME_def)
  then have meta: "view s' FRONT_META_NAME = view s FRONT_META_NAME" using ih w' by simp
  have le: "view s FRONT_ENDPOINTS_NAME \<subseteq>\<^sub>m view s' FRONT_ENDPOINTS_NAME"
    using ih w' map_le_trans by blast
  have rows: "view s' FRONT_ENDPOINTS_NAME k \<noteq> None"
    if "list_all (\<lambda>b. b) flags" "(k, v) \<in> set (fy_rows front)" for k v
  proof -
    from that(2) obtain i where "i < length (fy_rows front)" "fy_rows front ! i = (k, v)"
      by (auto simp: in_set_conv_nth)
    moreover have "flags ! i" using that(1) calculation w' by (simp add: list_all_length)
    ultimately have "view s1 FRONT_ENDPOINTS_NAME k \<noteq> None" using w' by fastforce
    then show ?thesis using ih by (auto simp: map_le_def dom_def)
  qed
  have "view s' FRONT_ENDPOINTS_NAME k \<noteq> None"
    if "i < length (front # fronts)" "landed ! i" "(k, v) \<in> set (fy_rows ((front # fronts) ! i))" for i k v
  proof (cases i)
    case 0
    then show ?thesis using that rows by (simp add: tl(2) del: not_None_eq)
  next
    case (Suc j)
    then have "j < length fronts" "landed1 ! j" "(k, v) \<in> set (fy_rows (fronts ! j))"
      using that by (simp_all add: tl(2))
    then show ?thesis using ih by blast
  qed
  moreover have "view s FRONT_ENDPOINTS_NAME k = Some v \<or> (\<exists>c \<in> set (front # fronts). (k, v) \<in> set (fy_rows c))"
    if "view s' FRONT_ENDPOINTS_NAME k = Some v" for k v
    using that ih w' by (meson list.set_intros)
  moreover have "length landed = length (front # fronts)" using ih by (simp add: tl(2))
  ultimately show ?case using meta le by blast
qed simp

lemma apply_plan_dangling:
  assumes "apply_plan wr plan s = (r, s')"
    and "FRONT_META_NAME \<notin> fst ` set (rp_generic plan)" "FRONT_ENDPOINTS_NAME \<notin> fst ` set (rp_generic plan)"
    and "view s FRONT_META_NAME k = None" "view s' FRONT_META_NAME k = Some v"
  shows "\<exists>c \<in> set (rp_fronts plan). fy_meta c = (k, v)
    \<and> (\<forall>rk rv. (rk, rv) \<in> set (fy_rows c) \<longrightarrow> (\<exists>x. view s' FRONT_ENDPOINTS_NAME rk = Some x
        \<and> (view s FRONT_ENDPOINTS_NAME rk = Some x \<or> (\<exists>c \<in> set (rp_fronts plan). (rk, x) \<in> set (fy_rows c)))))"
proof -
  obtain fs1 s1 where g: "write_generic wr (rp_generic plan) ([], s) = (fs1, s1)"
    by (cases "write_generic wr (rp_generic plan) ([], s)")
  have m1: "view s1 FRONT_META_NAME k = None"
    using write_generic_frame [OF assms(2), of "([], s)"] assms(4) by (simp add: g)
  have e1: "view s1 FRONT_ENDPOINTS_NAME = view s FRONT_ENDPOINTS_NAME"
    using write_generic_frame [OF assms(3), of "([], s)"] by (simp add: g)
  obtain landed fs2 s2 where w: "write_rows wr (rp_fronts plan) (fs1, s1) = (landed, fs2, s2)"
    by (metis prod_cases3)
  let ?metas = "map (\<lambda>(f, _). fy_meta f) (filter (\<lambda>(_, b). b) (zip (rp_fronts plan) landed))"
  obtain flags fs3 s3 where m: "write_all wr FRONT_META_NAME ?metas (fs2, s2) = (flags, fs3, s3)"
    by (metis prod_cases3)
  note w' = write_rows_effect [OF w] and m' = write_all_effect [OF m]
  have "rp_fronts plan \<noteq> []" "s' = s3"
    using assms(1,5) m1 by (auto simp: apply_plan_def g w m split: if_splits)
  have "view s2 FRONT_META_NAME k = None" "view s3 FRONT_META_NAME k = Some v"
    using w' m1 assms(5) \<open>s' = s3\<close> by simp_all
  then have "(k, v) \<in> set ?metas" using m' by (metis option.distinct(1))
  then obtain i where i: "i < length (rp_fronts plan)" "fy_meta (rp_fronts plan ! i) = (k, v)" "landed ! i"
    using w' by (auto simp: in_set_zip)
  moreover have e3: "view s' FRONT_ENDPOINTS_NAME = view s2 FRONT_ENDPOINTS_NAME"
    using m' \<open>s' = s3\<close> by (simp add: FRONT_META_NAME_def FRONT_ENDPOINTS_NAME_def)
  ultimately have "\<exists>x. view s' FRONT_ENDPOINTS_NAME rk = Some x
      \<and> (view s FRONT_ENDPOINTS_NAME rk = Some x \<or> (\<exists>c \<in> set (rp_fronts plan). (rk, x) \<in> set (fy_rows c)))"
    if "(rk, rv) \<in> set (fy_rows (rp_fronts plan ! i))" for rk rv
    using that w' e1 by (metis not_None_eq)
  then show ?thesis using i(1,2) by (meson nth_mem)
qed

end

text \<open>An in-memory writer whose calls fail as scheduled.\<close>

record mem_maps =
  mw_maps :: "(string \<times> bytes \<times> bytes) list"
  mw_faults :: "int option list"

definition mw_view :: "mem_maps \<Rightarrow> string \<Rightarrow> bytes \<rightharpoonup> bytes" where
  "mw_view m name k = map_of (map (\<lambda>(n, k, v). ((n, k), v)) (mw_maps m)) (name, k)"

definition mem_write :: "mem_maps entry_writer" where
  "mem_write name e fl m =
     (let (fault, m) = (case mw_faults m of [] \<Rightarrow> (None, m) | f # fs \<Rightarrow> (f, m\<lparr>mw_faults := fs\<rparr>))
      in case fault of
           Some errno \<Rightarrow> if errno = EEXIST then (Some None, m) else (Some (Some errno), m)
         | None \<Rightarrow> if mw_view m name (fst e) \<noteq> None then (Some (Some EEXIST), m)
                   else (None, m\<lparr>mw_maps := (name, fst e, snd e) # mw_maps m\<rparr>))"

lemma mem_write_ok: "entry_writer_ok mem_write mw_view"
proof -
  have view: "mw_view (m\<lparr>mw_maps := (n, k, v) # mw_maps m\<rparr>) = (mw_view m)(n := (mw_view m n)(k \<mapsto> v))" for m n k v
    by (auto simp: mw_view_def fun_eq_iff)
  have faults: "mw_view (m\<lparr>mw_faults := fs\<rparr>) = mw_view m" for m fs by (auto simp: mw_view_def fun_eq_iff)
  have upd: "mw_view (m\<lparr>mw_faults := fs, mw_maps := (n, k, v) # mw_maps m\<rparr>) = (mw_view m)(n := (mw_view m n)(k \<mapsto> v))" for m fs n k v
    by (auto simp: mw_view_def fun_eq_iff)
  show ?thesis
    unfolding entry_writer_ok_def mem_write_def
    by (auto simp: Let_def view faults upd split: list.split option.split)
qed

interpretation memw: gap_writer mem_write mw_view
  by unfold_locales (rule mem_write_ok)

section \<open>What a restore plans\<close>

lemma sort_snapshots_spec:
  assumes "sort_snapshots cap snaps (plan, ms, es) = (plan', ms', es')"
  shows "(\<forall>n \<in> fst ` set (rp_generic plan'). n \<in> fst ` set (rp_generic plan) \<or> n \<noteq> FRONT_META_NAME \<and> n \<noteq> FRONT_ENDPOINTS_NAME)
    \<and> (ms' = ms \<or> (FRONT_META_NAME, ms') \<in> set snaps) \<and> (es' = es \<or> (FRONT_ENDPOINTS_NAME, es') \<in> set snaps)"
  using assms
proof (induction cap snaps "(plan, ms, es)" arbitrary: plan ms es rule: sort_snapshots.induct)
  case (2 cap name entries snaps plan ms es)
  consider "name = FRONT_META_NAME" | "name \<noteq> FRONT_META_NAME" "name = FRONT_ENDPOINTS_NAME"
    | "name \<noteq> FRONT_META_NAME" "name \<noteq> FRONT_ENDPOINTS_NAME" by blast
  then show ?case
  proof cases
    case 1
    then show ?thesis using 2(1) 2(4) by (simp; blast)
  next
    case 2
    then show ?thesis using "2.hyps"(2) "2.prems" by (simp; blast)
  next
    case 3
    then show ?thesis using "2.hyps"(3) [OF 3 refl refl] "2.prems" by (auto simp: Let_def split: if_splits)
  qed
qed simp

definition rows_of :: "rows_by_gen \<Rightarrow> lb_front_key \<times> u32 \<Rightarrow> (u16 \<times> entry) list" where
  "rows_of rows fg = (case rows fg of None \<Rightarrow> [] | Some r \<Rightarrow> r)"

definition row_of :: "lb_front_key \<times> u32 \<Rightarrow> entry \<Rightarrow> (u16 \<times> entry) option" where
  "row_of fg e =
     (case decode_front_endpoint_key (fst e) of
        None \<Rightarrow> None
      | Some k \<Rightarrow> if (fek_front k, fek_generation k) = fg then Some (fek_slot k, e) else None)"

lemma row_of_Some: "row_of fg e = Some r \<longleftrightarrow> (\<exists>k. decode_front_endpoint_key (fst e) = Some k
    \<and> (fek_front k, fek_generation k) = fg \<and> r = (fek_slot k, e))"
  by (cases "decode_front_endpoint_key (fst e)") (auto simp: row_of_def)

lemma group_rows: "rows_of (fold group_row es rows) fg = rows_of rows fg @ List.map_filter (row_of fg) es"
proof (induction es arbitrary: rows)
  case (Cons e es)
  have "rows_of (group_row e rows) fg = rows_of rows fg @ (case row_of fg e of None \<Rightarrow> [] | Some r \<Rightarrow> [r])"
    by (auto simp: rows_of_def group_row_def row_of_def split: option.splits)
  then show ?case by (simp add: Cons List.map_filter_simps split: option.split)
qed (simp add: List.map_filter_simps)

lemma span_pieces:
  assumes "span a i j = span b i j" "span a j k = span b j k" "i \<le> j" "j \<le> k"
  shows "span a i k = span b i k"
  using assms by (metis span_join)

lemma u16_of_ne_inj: "length a = 2 \<Longrightarrow> length b = 2 \<Longrightarrow> u16_of_ne a = u16_of_ne b \<Longrightarrow> a = b"
  by (metis u16_to_of_ne)

lemma u32_of_ne_inj: "length a = 4 \<Longrightarrow> length b = 4 \<Longrightarrow> u32_of_ne a = u32_of_ne b \<Longrightarrow> a = b"
  by (metis u32_to_of_ne)

lemma decode_lb_front_key_inj:
  assumes "decode_lb_front_key a = Some f" "decode_lb_front_key b = Some f"
  shows "a = b"
proof -
  have len: "length a = 20" "length b = 20" using assms by (auto simp: decode_lb_front_key_def split: if_splits)
  then have eq: "span a 0 16 = span b 0 16" "u16_of_ne (span a 16 18) = u16_of_ne (span b 16 18)" "a ! 18 = b ! 18" "a ! 19 = b ! 19"
    using assms by (auto simp: decode_lb_front_key_def)
  have "span a 16 18 = span b 16 18" by (rule u16_of_ne_inj) (simp_all add: len eq)
  moreover have "span a 18 19 = span b 18 19" "span a 19 20 = span b 19 20"
    using span_single [of 18 a] span_single [of 18 b] span_single [of 19 a] span_single [of 19 b] len eq by simp_all
  ultimately have "span a 0 20 = span b 0 20"
    using eq(1) span_pieces [of a 0 16 b 18] span_pieces [of a 0 18 b 19] span_pieces [of a 0 19 b 20] by simp
  then show ?thesis using len by simp
qed

lemma decode_front_endpoint_key_inj:
  assumes "decode_front_endpoint_key a = Some k" "decode_front_endpoint_key b = Some k"
  shows "a = b"
proof -
  have len: "length a = 28" "length b = 28" using assms by (auto simp: decode_front_endpoint_key_def split: if_splits)
  obtain fa fb where f: "decode_lb_front_key (span a 0 20) = Some fa" "decode_lb_front_key (span b 0 20) = Some fb"
    using len by (simp add: decode_lb_front_key_def)
  have eq: "fa = fb" "u32_of_ne (span a 20 24) = u32_of_ne (span b 20 24)"
      "u16_of_ne (span a 24 26) = u16_of_ne (span b 24 26)" "u16_of_ne (span a 26 28) = u16_of_ne (span b 26 28)"
    using assms len f by (auto simp: decode_front_endpoint_key_def)
  have "span a 0 20 = span b 0 20" using decode_lb_front_key_inj f eq(1) by blast
  moreover have "span a 20 24 = span b 20 24" by (rule u32_of_ne_inj) (simp_all add: len eq)
  moreover have "span a 24 26 = span b 24 26" "span a 26 28 = span b 26 28"
    by (rule u16_of_ne_inj; simp add: len eq)+
  ultimately have "span a 0 28 = span b 0 28"
    using span_pieces [of a 0 20 b 24] span_pieces [of a 0 24 b 26] span_pieces [of a 0 26 b 28] by simp
  then show ?thesis using len by simp
qed

text \<open>The endpoint rows of a snapshot: the kernel's keys are distinct, and the control plane writes no padding.\<close>

definition rows_wf :: "entry list \<Rightarrow> bool" where
  "rows_wf es \<longleftrightarrow> distinct (map fst es)
     \<and> (\<forall>e \<in> set es. \<forall>k. decode_front_endpoint_key (fst e) = Some k \<longrightarrow> fek_pad k = 0)"

lemma slots_distinct: "rows_wf es \<Longrightarrow> distinct (map fst (List.map_filter (row_of fg) es))"
proof (induction es)
  case (Cons e es)
  then have wf: "rows_wf es" by (simp add: rows_wf_def)
  show ?case
  proof (cases "row_of fg e")
    case None
    then show ?thesis using Cons.IH [OF wf] by (simp add: List.map_filter_simps)
  next
    case (Some r)
    then obtain k where k: "decode_front_endpoint_key (fst e) = Some k" "(fek_front k, fek_generation k) = fg" "r = (fek_slot k, e)"
      by (auto simp: row_of_Some)
    have "fek_slot k \<notin> fst ` set (List.map_filter (row_of fg) es)"
    proof
      assume "fek_slot k \<in> fst ` set (List.map_filter (row_of fg) es)"
      then obtain e' k' where e': "e' \<in> set es" "decode_front_endpoint_key (fst e') = Some k'"
          "(fek_front k', fek_generation k') = fg" "fek_slot k' = fek_slot k"
        by (auto simp: in_set_map_filter row_of_Some)
      then have "fek_pad k' = fek_pad k" using Cons.prems k(1) by (auto simp: rows_wf_def)
      then have "k' = k" using e' k(2) by (metis (full_types) front_endpoint_key_rec.equality old.unit.exhaust prod.inject)
      then have "fst e' = fst e" using decode_front_endpoint_key_inj e'(2) k(1) by blast
      moreover have "fst e \<notin> fst ` set es" using Cons.prems by (simp add: rows_wf_def)
      ultimately show False using imageI [OF e'(1), of fst] by simp
    qed
    then show ?thesis using Cons.IH [OF wf] by (simp add: List.map_filter_simps Some k(3))
  qed
qed (simp add: List.map_filter_simps)

text \<open>Distinct slots below the count, as many as the count: all of them.\<close>

lemma slots_full:
  fixes rows :: "(u16 \<times> 'a) list"
  assumes "distinct (map fst rows)" "\<forall>r \<in> set rows. fst r < n" "length rows = unat n" "slot < n"
  shows "\<exists>e. (slot, e) \<in> set rows"
proof -
  let ?U = "unat ` fst ` set rows"
  have inj: "inj_on unat (fst ` set rows)" by (auto simp: inj_on_def word_unat_eq_iff)
  have "card ?U = unat n"
    using assms(1,3) by (simp add: card_image [OF inj]) (metis distinct_card length_map list.set_map)
  moreover have "?U \<subseteq> {..<unat n}" using assms(2) by (auto simp: word_less_nat_alt)
  ultimately have "?U = {..<unat n}" by (intro card_subset_eq) simp_all
  moreover have "unat slot \<in> {..<unat n}" using assms(4) by (simp add: word_less_nat_alt)
  ultimately obtain r where "r \<in> set rows" "unat slot = unat (fst r)" by blast
  then show ?thesis by (metis prod.collapse word_unat_eq_iff)
qed

text \<open>A planned front: its meta entry decodes, and its rows cover the live generation.\<close>

definition planned :: "rows_by_gen \<Rightarrow> (bytes \<times> front_meta \<times> bytes) list \<Rightarrow> front_copy \<Rightarrow> bool" where
  "planned rows metas c \<longleftrightarrow> (\<exists>key meta val f. (key, meta, val) \<in> set metas \<and> fy_meta c = (key, val)
     \<and> decode_lb_front_key key = Some f
     \<and> (let live = filter (\<lambda>(slot, _). slot < fm_count meta) (rows_of rows (f, fm_generation meta))
        in length live = unat (fm_count meta) \<and> set (fy_rows c) = snd ` set live))"

lemma planned_empty:
  "(key, meta, val) \<in> set metas \<Longrightarrow> decode_lb_front_key key = Some f \<Longrightarrow> fm_count meta = 0 \<Longrightarrow>
   planned rows metas \<lparr>fy_meta = (key, val), fy_rows = []\<rparr>"
  unfolding planned_def by (intro exI [of _ key] exI [of _ meta] exI [of _ val] exI [of _ f]) simp

lemma admit_front_decoded:
  assumes "decode_lb_front_key key = Some f"
    and "live = filter (\<lambda>(slot, _). slot < fm_count meta) (rows_of (as_rows st) (f, fm_generation meta))"
  shows "as_fronts (admit_front mc ec (key, meta, val) st) = as_fronts st
      @ (if length live = unat (fm_count meta) \<and> length (as_fronts st) < mc \<and> as_rows_used st + length live \<le> ec
         then [\<lparr>fy_meta = (key, val), fy_rows = map snd (sort_key fst live)\<rparr>] else [])"
    and "as_rows (admit_front mc ec (key, meta, val) st) = (as_rows st)((f, fm_generation meta) := None)"
  by (simp_all add: admit_front_def Let_def assms rows_of_def)

lemma admit_step:
  assumes "item \<in> set metas" "\<forall>c \<in> set (as_fronts st). planned rows metas c"
    and "\<forall>fg. as_rows st fg = None \<or> as_rows st fg = rows fg"
  shows "(\<forall>c \<in> set (as_fronts (admit_front mc ec item st)). planned rows metas c)
    \<and> (\<forall>fg. as_rows (admit_front mc ec item st) fg = None \<or> as_rows (admit_front mc ec item st) fg = rows fg)"
proof -
  obtain key meta val where item: "item = (key, meta, val)" by (cases item)
  show ?thesis
  proof (cases "decode_lb_front_key key")
    case None
    then show ?thesis using assms by (simp add: item admit_front_def Let_def)
  next
    case (Some f)
    let ?live = "\<lambda>rows. filter (\<lambda>(slot, _). slot < fm_count meta) (rows_of rows (f, fm_generation meta))"
    have new: "planned rows metas \<lparr>fy_meta = (key, val), fy_rows = map snd (sort_key fst (?live (as_rows st)))\<rparr>"
      if "length (?live (as_rows st)) = unat (fm_count meta)"
    proof (cases "as_rows st (f, fm_generation meta)")
      case None
      then have "fm_count meta = 0" "?live (as_rows st) = []"
        using that by (simp_all add: rows_of_def unat_eq_zero)
      then show ?thesis using planned_empty assms(1) Some by (simp add: item)
    next
      case (Some r)
      then have "?live (as_rows st) = ?live rows" 
        using assms(3) [rule_format, of "(f, fm_generation meta)"] by (simp add: rows_of_def)
      then show ?thesis
        using assms(1) \<open>decode_lb_front_key key = Some f\<close> that unfolding planned_def item
        by (intro exI [of _ key] exI [of _ meta] exI [of _ val] exI [of _ f]) (simp add: Let_def)
    qed
    have "planned rows metas c" if "c \<in> set (as_fronts (admit_front mc ec item st))" for c
      using that assms(2) new unfolding item admit_front_decoded(1) [OF Some refl] by (auto split: if_splits)
    moreover have "as_rows (admit_front mc ec item st) fg = None \<or> as_rows (admit_front mc ec item st) fg = rows fg" for fg
      using assms(3) [rule_format, of fg] unfolding item admit_front_decoded(2) [OF Some refl] by simp
    ultimately show ?thesis by blast
  qed
qed

lemma admit_fold:
  assumes "set items \<subseteq> set metas" "\<forall>c \<in> set (as_fronts st). planned rows metas c"
    and "\<forall>fg. as_rows st fg = None \<or> as_rows st fg = rows fg"
  shows "\<forall>c \<in> set (as_fronts (fold (admit_front mc ec) items st)). planned rows metas c"
  using assms
proof (induction items arbitrary: st)
  case (Cons item items)
  have "item \<in> set metas" using Cons.prems(1) by simp
  note step = admit_step [OF this Cons.prems(2,3), of mc ec]
  show ?case using Cons.IH [OF _ step [THEN conjunct1] step [THEN conjunct2]] Cons.prems(1) by simp
qed simp

lemma plan_restore_planned:
  obtains metas es where "\<forall>n \<in> fst ` set (rp_generic (plan_restore cap snaps)). n \<noteq> FRONT_META_NAME \<and> n \<noteq> FRONT_ENDPOINTS_NAME"
    and "metas = [] \<or> (FRONT_META_NAME, metas) \<in> set snaps" "es = [] \<or> (FRONT_ENDPOINTS_NAME, es) \<in> set snaps"
    and "\<forall>c \<in> set (rp_fronts (plan_restore cap snaps)). planned (fold group_row es Map.empty)
      (List.map_filter (\<lambda>(key, val). map_option (\<lambda>m. (key, m, val)) (decode_front_meta val)) metas) c"
proof -
  obtain plan metas es where st: "sort_snapshots cap snaps (\<lparr>rp_generic = [], rp_fronts = [], rp_losses = []\<rparr>, [], []) = (plan, metas, es)"
    by (metis prod_cases3)
  let ?ms = "List.map_filter (\<lambda>(key, val). map_option (\<lambda>m. (key, m, val)) (decode_front_meta val)) metas"
  have "set (sort_key fst (collect_map ?ms)) \<subseteq> set ?ms" using collect_map_subset by simp
  note fronts = admit_fold [OF this, of "\<lparr>as_fronts = [], as_rows_used = 0, as_dropped = 0, as_rows = fold group_row es Map.empty\<rparr>"
    "fold group_row es Map.empty" "unat (cap FRONT_META_NAME)" "unat (cap FRONT_ENDPOINTS_NAME)"]
  show ?thesis
    by (rule that [of metas es])
       (use sort_snapshots_spec [OF st] fronts in \<open>simp_all add: plan_restore_def st Let_def\<close>)
qed

text \<open>The rows of a planned front, one per slot.\<close>

lemma planned_rows:
  assumes "planned (fold group_row es Map.empty) metas c" "rows_wf es"
  obtains key meta val f where "(key, meta, val) \<in> set metas" "fy_meta c = (key, val)" "decode_lb_front_key key = Some f"
    and "set (fy_rows c) \<subseteq> set es"
    and "\<forall>slot < fm_count meta. \<exists>e \<in> set (fy_rows c).
      decode_front_endpoint_key (fst e) = Some \<lparr>fek_front = f, fek_generation = fm_generation meta, fek_slot = slot, fek_pad = 0\<rparr>"
proof -
  obtain key meta val f where c: "(key, meta, val) \<in> set metas" "fy_meta c = (key, val)" "decode_lb_front_key key = Some f"
    and live: "length (filter (\<lambda>(slot, _). slot < fm_count meta) (rows_of (fold group_row es Map.empty) (f, fm_generation meta))) = unat (fm_count meta)"
      "set (fy_rows c) = snd ` set (filter (\<lambda>(slot, _). slot < fm_count meta) (rows_of (fold group_row es Map.empty) (f, fm_generation meta)))"
    using assms(1) unfolding planned_def Let_def by blast
  define rows where "rows = filter (\<lambda>(slot, _). slot < fm_count meta) (List.map_filter (row_of (f, fm_generation meta)) es)"
  have rows: "length rows = unat (fm_count meta)" "set (fy_rows c) = snd ` set rows"
    using live unfolding group_rows rows_of_def [of Map.empty] rows_def by simp_all
  have mem: "e \<in> set es \<and> slot < fm_count meta \<and> (\<exists>k. decode_front_endpoint_key (fst e) = Some k
      \<and> fek_front k = f \<and> fek_generation k = fm_generation meta \<and> fek_slot k = slot)" if "(slot, e) \<in> set rows" for slot e
    using that by (auto simp: rows_def in_set_map_filter row_of_Some)
  have "distinct (map fst rows)"
    using slots_distinct [OF assms(2)] by (auto simp: rows_def distinct_map intro: inj_on_subset)
  moreover have "\<forall>r \<in> set rows. fst r < fm_count meta" using mem by auto
  ultimately have full: "\<exists>e. (slot, e) \<in> set rows" if "slot < fm_count meta" for slot
    using slots_full rows(1) that by blast
  have "\<exists>e \<in> set (fy_rows c). decode_front_endpoint_key (fst e) =
      Some \<lparr>fek_front = f, fek_generation = fm_generation meta, fek_slot = slot, fek_pad = 0\<rparr>" if slot: "slot < fm_count meta" for slot
  proof -
    obtain e where e: "(slot, e) \<in> set rows" using full slot by blast
    with mem obtain k where k: "e \<in> set es" "decode_front_endpoint_key (fst e) = Some k"
        "fek_front k = f" "fek_generation k = fm_generation meta" "fek_slot k = slot" by blast
    then have "fek_pad k = 0" using assms(2) by (auto simp: rows_wf_def)
    with k have "k = \<lparr>fek_front = f, fek_generation = fm_generation meta, fek_slot = slot, fek_pad = 0\<rparr>" by simp
    then show ?thesis using k(2) e rows(2) by force
  qed
  moreover have "set (fy_rows c) \<subseteq> set es" using rows(2) mem by auto
  ultimately show ?thesis using that c by blast
qed

section \<open>Properties\<close>

text \<open>The moves may end with an error, or be killed, at any call on the pin store. The entries of a map that is to be kept
  or migrated are still found by the next start: in the parked pin if there is one, else in the plain pin. When the pins
  are all moved, a migrated map is parked, and a map pinned under its own name has the wanted shape.\<close>

lemma recreate_keeps_entries:
  assumes "pin_store_ok S" "\<forall>a t. ps_pins S t a \<noteq> None \<longrightarrow> (\<exists>es. ps_snapshot S a t = Inr es)"
    and "distinct (map fst requested)" "\<forall>a \<in> fst ` set requested. \<forall>b \<in> fst ` set requested. a \<noteq> migrating_name b"
    and "(n, w) \<in> set requested" "decided_fate (ps_pins S s) requested (n, w) = Some f" "f \<noteq> RecreateEmpty"
    and "recreate_mismatched_pins S requested s = (r, s')"
  shows "carried (ps_pins S s') n = carried (ps_pins S s) n
    \<and> (f = Migrate \<and> r \<in> range Inr \<longrightarrow>
       map_option snd (ps_pins S s' (migrating_name n)) = carried (ps_pins S s) n
       \<and> (\<forall>sh es. ps_pins S s' n = Some (sh, es) \<longrightarrow> map_shape_mismatches sh w = []))"
proof (cases "pin_fates S s requested")
  case (Inl e)
  then show ?thesis using assms(8) by (auto simp: recreate_mismatched_pins_def)
next
  case (Inr fates)
  have P: "pin_provider S" using assms(1) by unfold_locales
  let ?fates = "view_fates (ps_pins S s) requested"
  obtain origin ex f0 where src: "view_source (ps_pins S s) n w = Some (origin, ex, f0)"
      "f = coupled_fate (view_coupled (ps_pins S s) requested) n f0"
    using assms(6) by (auto simp: decided_fate_def)
  have names: "map fst ?fates = map fst requested" by (auto simp: view_fates_def)
  then have names': "fst ` set ?fates = fst ` set requested" by (metis list.set_map)
  have mem: "(n, view_source (ps_pins S s) n w, w) \<in> set ?fates" using assms(5) by (force simp: view_fates_def)
  have dist: "distinct (map fst ?fates)" unfolding names by (rule assms(3))
  have sep: "a \<noteq> migrating_name b" if "a \<in> fst ` set ?fates" "b \<in> fst ` set ?fates" for a b
    using assms(4) that unfolding names' by blast
  have snap: "\<exists>es. ps_snapshot S a t = Inr es" if "ps_pins S t a \<noteq> None" for a t using assms(2) that by blast
  have fne: "coupled_fate (view_coupled (ps_pins S s) requested) n f0 \<noteq> RecreateEmpty" using assms(7) src(2) by simp
  have "(r, s') = recreate_loop S (view_coupled (ps_pins S s) requested) ?fates ([], s)"
    using assms(8) pin_provider.pin_fates_view [OF P Inr] Inr by (simp add: recreate_mismatched_pins_def view_coupled_def)
  then have "keeps S (f = Migrate) n w s (r, s')"
    using pin_provider.loop_item [OF P mem dist sep snap src(1) fne, of "[]"] src(2) by simp
  then show ?thesis by (simp add: keeps_def)
qed

definition ex_shape :: "u32 \<Rightarrow> map_shape" where
  "ex_shape n = \<lparr>ms_type = BPF_MAP_TYPE_HASH_ID, ms_key_size = 4, ms_value_size = 4, ms_max_entries = n, ms_flags = 0\<rparr>"

text \<open>An entry of a snapshot taken by \<open>recreate_mismatched_pins\<close>.\<close>

definition snapshot_entry :: "recreated list \<Rightarrow> string \<Rightarrow> entry \<Rightarrow> bool" where
  "snapshot_entry recreated name e \<longleftrightarrow>
     (\<exists>c \<in> set recreated. \<exists>es. rc_name c = name \<and> rc_snapshot c = Some es \<and> e \<in> set es)"

text \<open>The slot of a front has its row: one there before, or the snapshot's.\<close>

definition slot_filled ::
  "('s \<Rightarrow> string \<Rightarrow> bytes \<rightharpoonup> bytes) \<Rightarrow> recreated list \<Rightarrow> 's \<Rightarrow> 's \<Rightarrow> front_endpoint_key_rec \<Rightarrow> bool" where
  "slot_filled view recreated s s' key \<longleftrightarrow> (\<exists>rk x. decode_front_endpoint_key rk = Some key
     \<and> view s' FRONT_ENDPOINTS_NAME rk = Some x
     \<and> (view s FRONT_ENDPOINTS_NAME rk = Some x \<or> snapshot_entry recreated FRONT_ENDPOINTS_NAME (rk, x)))"

definition plan_cap :: "(string \<times> map_shape) list \<Rightarrow> string \<Rightarrow> u32" where
  "plan_cap requested name = (case map_of requested name of None \<Rightarrow> 0 | Some sh \<Rightarrow> ms_max_entries sh)"

definition snapshots_of :: "recreated list \<Rightarrow> (string \<times> entry list) list" where
  "snapshots_of recreated = List.map_filter (\<lambda>r. map_option (\<lambda>e. (rc_name r, e)) (rc_snapshot r)) recreated"

lemma snapshots_of_iff:
  "(n, es) \<in> set (snapshots_of recreated) \<longleftrightarrow> (\<exists>c \<in> set recreated. rc_name c = n \<and> rc_snapshot c = Some es)"
  by (auto simp: snapshots_of_def in_set_map_filter)

lemma restore_migrated_apply:
  assumes "restore_migrated wr recreated requested s = (r, s')"
  shows "s' = s \<or> apply_plan wr (plan_restore (plan_cap requested) (snapshots_of recreated)) s = (r, s')"
  using assms by (auto simp: restore_migrated_def snapshots_of_def plan_cap_def [abs_def] Let_def split: if_splits)

text \<open>C36: a restore never leaves a front partial. A meta row that appears decodes to a front and its
  meta, it is an entry of the \<open>FRONT_META\<close> snapshot, and each slot below its endpoint count has a row of its
  live generation, which was there before or is the snapshot's.\<close>

theorem restored_front_whole:
  assumes "entry_writer_ok wr view" "restore_migrated wr recreated requested s = (r, s')"
    and "\<forall>c \<in> set recreated. \<forall>es. rc_name c = FRONT_ENDPOINTS_NAME \<and> rc_snapshot c = Some es \<longrightarrow> rows_wf es"
    and "view s FRONT_META_NAME k = None" "view s' FRONT_META_NAME k = Some v"
  shows "\<exists>f meta. decode_lb_front_key k = Some f \<and> decode_front_meta v = Some meta
    \<and> snapshot_entry recreated FRONT_META_NAME (k, v)
    \<and> (\<forall>slot < fm_count meta. slot_filled view recreated s s'
        \<lparr>fek_front = f, fek_generation = fm_generation meta, fek_slot = slot, fek_pad = 0\<rparr>)"
proof -
  have W: "gap_writer wr view" using assms(1) by unfold_locales
  let ?plan = "plan_restore (plan_cap requested) (snapshots_of recreated)"
  have run: "apply_plan wr ?plan s = (r, s')" using restore_migrated_apply [OF assms(2)] assms(4,5) by auto
  obtain metas es where generic: "\<forall>n \<in> fst ` set (rp_generic ?plan). n \<noteq> FRONT_META_NAME \<and> n \<noteq> FRONT_ENDPOINTS_NAME"
    and src: "metas = [] \<or> (FRONT_META_NAME, metas) \<in> set (snapshots_of recreated)"
      "es = [] \<or> (FRONT_ENDPOINTS_NAME, es) \<in> set (snapshots_of recreated)"
    and planned: "\<forall>c \<in> set (rp_fronts ?plan). planned (fold group_row es Map.empty)
      (List.map_filter (\<lambda>(key, val). map_option (\<lambda>m. (key, m, val)) (decode_front_meta val)) metas) c"
    by (rule plan_restore_planned)
  have "rows_wf []" by (simp add: rows_wf_def)
  then have wf: "rows_wf es" using src(2) assms(3) unfolding snapshots_of_iff by blast
  have snap: "e \<in> set metas \<Longrightarrow> snapshot_entry recreated FRONT_META_NAME e"
      "e \<in> set es \<Longrightarrow> snapshot_entry recreated FRONT_ENDPOINTS_NAME e" for e
    using src unfolding snapshot_entry_def snapshots_of_iff by fastforce+
  obtain c where c: "c \<in> set (rp_fronts ?plan)" "fy_meta c = (k, v)"
    and rows: "\<And>rk rv. (rk, rv) \<in> set (fy_rows c) \<Longrightarrow> \<exists>x. view s' FRONT_ENDPOINTS_NAME rk = Some x
      \<and> (view s FRONT_ENDPOINTS_NAME rk = Some x \<or> (\<exists>c \<in> set (rp_fronts ?plan). (rk, x) \<in> set (fy_rows c)))"
    using gap_writer.apply_plan_dangling [OF W run _ _ assms(4,5)] generic by blast
  have from_es: "set (fy_rows c) \<subseteq> set es" if "c \<in> set (rp_fronts ?plan)" for c
    using planned_rows [OF planned [rule_format, OF that] wf] by blast
  obtain key meta val f where m: "(key, meta, val) \<in> set (List.map_filter (\<lambda>(key, val). map_option (\<lambda>m. (key, m, val)) (decode_front_meta val)) metas)"
      "fy_meta c = (key, val)" "decode_lb_front_key key = Some f" "set (fy_rows c) \<subseteq> set es"
    and slots: "\<forall>slot < fm_count meta. \<exists>e \<in> set (fy_rows c).
      decode_front_endpoint_key (fst e) = Some \<lparr>fek_front = f, fek_generation = fm_generation meta, fek_slot = slot, fek_pad = 0\<rparr>"
    by (rule planned_rows [OF planned [rule_format, OF c(1)] wf])
  have kv: "(k, v) \<in> set metas" "decode_front_meta v = Some meta" "decode_lb_front_key k = Some f"
    using m c(2) by (auto simp: in_set_map_filter)
  have "slot_filled view recreated s s' \<lparr>fek_front = f, fek_generation = fm_generation meta, fek_slot = slot, fek_pad = 0\<rparr>"
    if slot: "slot < fm_count meta" for slot
  proof -
    obtain rk rv where e: "(rk, rv) \<in> set (fy_rows c)" "decode_front_endpoint_key rk =
        Some \<lparr>fek_front = f, fek_generation = fm_generation meta, fek_slot = slot, fek_pad = 0\<rparr>"
      using slots slot by fastforce
    show ?thesis using rows [OF e(1)] e(2) from_es snap(2) unfolding slot_filled_def by blast
  qed
  then show ?thesis using kv snap(1) by blast
qed

text \<open>One front with one endpoint, restored into empty maps.\<close>

definition ex_front_bytes :: bytes where "ex_front_bytes = replicate 18 0 @ [6, 0]"
definition ex_meta_bytes :: bytes where "ex_meta_bytes = [3, 0, 0, 0, 1, 0, 0, 0, 0, 0, 0, 0]"
definition ex_row_bytes :: bytes where "ex_row_bytes = ex_front_bytes @ [3, 0, 0, 0, 0, 0, 0, 0]"

definition ex_recreated :: "recreated list" where
  "ex_recreated =
     [\<lparr>rc_name = FRONT_META_NAME, rc_snapshot = Some [(ex_front_bytes, ex_meta_bytes)], rc_parked = True\<rparr>,
      \<lparr>rc_name = FRONT_ENDPOINTS_NAME, rc_snapshot = Some [(ex_row_bytes, [9])], rc_parked = True\<rparr>]"

definition ex_restored :: mem_maps where
  "ex_restored = snd (restore_migrated mem_write ex_recreated
     [(FRONT_META_NAME, ex_shape 4), (FRONT_ENDPOINTS_NAME, ex_shape 4)] \<lparr>mw_maps = [], mw_faults = []\<rparr>)"

lemma ex_restored_meta: "mw_view ex_restored FRONT_META_NAME ex_front_bytes = Some ex_meta_bytes"
  by code_simp

lemma ex_rows_wf: "rows_wf [(ex_row_bytes, [9])]"
proof -
  have "map_option fek_pad (decode_front_endpoint_key ex_row_bytes) = Some 0" by code_simp
  then show ?thesis by (auto simp: rows_wf_def)
qed

lemma ex_decoded: "map_option fm_count (decode_front_meta ex_meta_bytes) = Some 1" "map_option fm_generation (decode_front_meta ex_meta_bytes) = Some 3"
  by code_simp+

theorem restored_front_whole_witness:
  "\<exists>f. decode_lb_front_key ex_front_bytes = Some f
    \<and> slot_filled mw_view ex_recreated \<lparr>mw_maps = [], mw_faults = []\<rparr> ex_restored
        \<lparr>fek_front = f, fek_generation = 3, fek_slot = 0, fek_pad = 0\<rparr>"
proof -
  have "\<forall>c \<in> set ex_recreated. \<forall>es. rc_name c = FRONT_ENDPOINTS_NAME \<and> rc_snapshot c = Some es \<longrightarrow> rows_wf es"
    using ex_rows_wf by (simp add: ex_recreated_def FRONT_META_NAME_def FRONT_ENDPOINTS_NAME_def)
  note whole = restored_front_whole [OF mem_write_ok _ this _ ex_restored_meta]
  obtain r where "restore_migrated mem_write ex_recreated
      [(FRONT_META_NAME, ex_shape 4), (FRONT_ENDPOINTS_NAME, ex_shape 4)] \<lparr>mw_maps = [], mw_faults = []\<rparr> = (r, ex_restored)"
    by (metis ex_restored_def prod.collapse)
  moreover have "mw_view \<lparr>mw_maps = [], mw_faults = []\<rparr> FRONT_META_NAME ex_front_bytes = None" by (simp add: mw_view_def)
  ultimately show ?thesis using whole ex_decoded by fastforce
qed

end
