(* ===== verification/Ip_Addr.thy ===== *)
theory Ip_Addr
  imports Wire_Codec "HOL-Library.Product_Lexorder"
begin

text \<open>
  Addresses in user space: \<open>std::net::IpAddr\<close> with its order and its printed form, the two embeddings into the
  16 bytes of the maps (\<open>src/lib.rs\<close>), and the CIDR tests of \<open>controller/src/reconcile.rs\<close>.
\<close>

section \<open>\<open>IpAddr\<close>\<close>

text \<open>An address is kept as the number its octets spell in network order (\<open>u32::from\<close>, \<open>u128::from\<close>).\<close>

type_synonym u128 = "128 word"

datatype ip_addr = V4 u32 | V6 u128

text \<open>The derived order of the enum: every IPv4 address is below every IPv6 address.\<close>

instantiation ip_addr :: linorder
begin

fun less_eq_ip_addr :: "ip_addr \<Rightarrow> ip_addr \<Rightarrow> bool" where
  "less_eq_ip_addr (V4 a) (V4 b) = (a \<le> b)"
| "less_eq_ip_addr (V4 a) (V6 b) = True"
| "less_eq_ip_addr (V6 a) (V4 b) = False"
| "less_eq_ip_addr (V6 a) (V6 b) = (a \<le> b)"

definition less_ip_addr :: "ip_addr \<Rightarrow> ip_addr \<Rightarrow> bool" where
  "less_ip_addr a b \<longleftrightarrow> a \<le> b \<and> \<not> b \<le> a"

instance
proof
  fix x y z :: ip_addr
  show "x < y \<longleftrightarrow> x \<le> y \<and> \<not> y \<le> x" by (simp add: less_ip_addr_def)
  show "x \<le> x" by (cases x) simp_all
  show "x \<le> y \<Longrightarrow> y \<le> z \<Longrightarrow> x \<le> z" by (cases x; cases y; cases z) simp_all
  show "x \<le> y \<Longrightarrow> y \<le> x \<Longrightarrow> x = y" by (cases x; cases y) simp_all
  show "x \<le> y \<or> y \<le> x" by (cases x; cases y) auto
qed

end

definition is_ipv4 :: "ip_addr \<Rightarrow> bool" where
  "is_ipv4 ip = (case ip of V4 _ \<Rightarrow> True | V6 _ \<Rightarrow> False)"

lemma is_ipv4_simps [simp]: "is_ipv4 (V4 a)" "\<not> is_ipv4 (V6 b)"
  by (simp_all add: is_ipv4_def)

text \<open>\<open>Ipv6Addr::octets\<close>: most significant byte first.\<close>

definition v6_octets :: "u128 \<Rightarrow> ip16" where
  "v6_octets a = map (\<lambda>i. ucast (drop_bit (8 * i) a)) (rev [0..<16])"

definition wire_ip_v6 :: "ip_addr \<Rightarrow> ip16" where
  "wire_ip_v6 ip = (case ip of V4 v4 \<Rightarrow> ipv4_mapped_v6 (wire_ip v4) | V6 v6 \<Rightarrow> v6_octets v6)"

definition tunnel_remote_v6 :: "ip_addr \<Rightarrow> ip16" where
  "tunnel_remote_v6 ip = (case ip of V4 v4 \<Rightarrow> ipv4_mapped_v6 v4 | V6 v6 \<Rightarrow> v6_octets v6)"

lemma length_v6_octets [simp]: "length (v6_octets a) = 16"
  by (simp add: v6_octets_def)

lemma length_wire_ip_v6 [simp]: "length (wire_ip_v6 ip) = 16"
  by (simp add: wire_ip_v6_def split: ip_addr.split)

lemma v6_octets_inject: "v6_octets a = v6_octets b \<longleftrightarrow> a = b"
proof
  assume eq: "v6_octets a = v6_octets b"
  have oct: "(ucast (drop_bit (8 * i) a) :: u8) = ucast (drop_bit (8 * i) b)" if "i < 16" for i
  proof -
    have idx: "rev [0..<16] ! (15 - i) = i" using that by (subst rev_nth) (auto simp: nth_upt)
    have "v6_octets c ! (15 - i) = ucast (drop_bit (8 * (rev [0..<16] ! (15 - i))) c)" for c
      by (simp add: v6_octets_def)
    then have "v6_octets c ! (15 - i) = ucast (drop_bit (8 * i) c)" for c by (simp only: idx)
    then show ?thesis using eq by metis
  qed
  show "a = b"
  proof (rule bit_word_eqI)
    fix n assume n: "n < LENGTH(128)"
    then have "n div 8 < 16" by simp
    from oct [OF this] have "bit (ucast (drop_bit (8 * (n div 8)) a) :: u8) (n mod 8)
        = bit (ucast (drop_bit (8 * (n div 8)) b) :: u8) (n mod 8)" by simp
    then show "bit a n = bit b n" by (simp add: bit_simps)
  qed
qed simp

section \<open>Printing\<close>

definition digit_char :: "nat \<Rightarrow> char" where
  "digit_char d = (if d < 10 then char_of (48 + d) else char_of (87 + d))"

text \<open>\<open>{}\<close> and \<open>{:x}\<close>.\<close>

function print_base :: "nat \<Rightarrow> nat \<Rightarrow> string" where
  "print_base b n = (if b < 2 \<or> n < b then [digit_char n] else print_base b (n div b) @ [digit_char (n mod b)])"
  by pat_completeness auto
termination
  by (relation "measure snd") auto

declare print_base.simps [simp del]

primrec join_str :: "string \<Rightarrow> string list \<Rightarrow> string" where
  "join_str sep [] = ''''"
| "join_str sep (x # xs) = (case xs of [] \<Rightarrow> x | _ \<Rightarrow> x @ sep @ join_str sep xs)"

definition v4_to_string :: "u32 \<Rightarrow> string" where
  "v4_to_string a = join_str ''.''
     (map (\<lambda>i. print_base 10 (unat (ucast (drop_bit (8 * i) a) :: u8))) [3, 2, 1, 0])"

definition v6_segments :: "u128 \<Rightarrow> u16 list" where
  "v6_segments a = map (\<lambda>i. ucast (drop_bit (16 * i) a)) (rev [0..<8])"

text \<open>The first longest run of zero segments: start and length.\<close>

definition zero_span_step :: "nat \<times> u16 \<Rightarrow> (nat \<times> nat) \<times> nat \<times> nat \<Rightarrow> (nat \<times> nat) \<times> nat \<times> nat" where
  "zero_span_step item acc =
     (case item of (i, segment) \<Rightarrow>
      case acc of (longest, current) \<Rightarrow>
        if segment = 0
        then let current = (if snd current = 0 then i else fst current, snd current + 1)
             in (if snd current > snd longest then current else longest, current)
        else (longest, 0, 0))"

definition zero_span :: "u16 list \<Rightarrow> nat \<times> nat" where
  "zero_span segments = fst (fold zero_span_step (enumerate 0 segments) ((0, 0), 0, 0))"

definition hex_groups :: "u16 list \<Rightarrow> string" where
  "hex_groups segments = join_str '':'' (map (\<lambda>s. print_base 16 (unat s)) segments)"

definition v6_to_string :: "u128 \<Rightarrow> string" where
  "v6_to_string a =
     (let segments = v6_segments a
      in if take 6 segments = [0, 0, 0, 0, 0, 0xffff] then ''::ffff:'' @ v4_to_string (ucast a)
         else case zero_span segments of (start, len) \<Rightarrow>
           if len > 1 then hex_groups (take start segments) @ ''::'' @ hex_groups (drop (start + len) segments)
           else hex_groups segments)"

definition ip_to_string :: "ip_addr \<Rightarrow> string" where
  "ip_to_string ip = (case ip of V4 a \<Rightarrow> v4_to_string a | V6 a \<Rightarrow> v6_to_string a)"

section \<open>CIDRs\<close>

record ipv4_cidr =
  c4_network :: u32
  c4_prefix_len :: u8

definition ipv4_mask :: "u8 \<Rightarrow> u32" where
  "ipv4_mask prefix_len = (if prefix_len = 0 then 0 else push_bit (unat (32 - prefix_len)) (- 1))"

definition ipv4_cidr_new :: "u32 \<Rightarrow> u8 \<Rightarrow> ipv4_cidr" where
  "ipv4_cidr_new network prefix_len = \<lparr>c4_network = network AND ipv4_mask prefix_len, c4_prefix_len = prefix_len\<rparr>"

definition ipv4_cidr_contains :: "ipv4_cidr \<Rightarrow> u32 \<Rightarrow> bool" where
  "ipv4_cidr_contains c ip \<longleftrightarrow> ip AND ipv4_mask (c4_prefix_len c) = c4_network c AND ipv4_mask (c4_prefix_len c)"

record ipv6_cidr =
  c6_network :: u128
  c6_prefix_len :: u8

definition ipv6_mask :: "u8 \<Rightarrow> u128" where
  "ipv6_mask prefix_len = (if prefix_len = 0 then 0 else push_bit (unat (128 - prefix_len)) (- 1))"

definition ipv6_cidr_new :: "u128 \<Rightarrow> u8 \<Rightarrow> ipv6_cidr" where
  "ipv6_cidr_new network prefix_len = \<lparr>c6_network = network AND ipv6_mask prefix_len, c6_prefix_len = prefix_len\<rparr>"

definition ipv6_cidr_contains :: "ipv6_cidr \<Rightarrow> u128 \<Rightarrow> bool" where
  "ipv6_cidr_contains c ip \<longleftrightarrow> ip AND ipv6_mask (c6_prefix_len c) = c6_network c AND ipv6_mask (c6_prefix_len c)"

datatype ip_cidr = CidrV4 ipv4_cidr | CidrV6 ipv6_cidr

record pod_cidrs =
  pc_v4 :: "ipv4_cidr option"
  pc_v6 :: "ipv6_cidr option"

text \<open>\<open>PodCidrs::new\<close>. The error names the two CIDRs of one family.\<close>

primrec pod_cidrs_loop :: "ip_cidr list \<Rightarrow> pod_cidrs \<Rightarrow> (ip_cidr \<times> ip_cidr) + pod_cidrs" where
  "pod_cidrs_loop [] out = Inr out"
| "pod_cidrs_loop (cidr # cidrs) out =
     (case cidr of
        CidrV4 c \<Rightarrow>
          (case pc_v4 out of
             Some prev \<Rightarrow> Inl (CidrV4 prev, CidrV4 c)
           | None \<Rightarrow> pod_cidrs_loop cidrs (out\<lparr>pc_v4 := Some c\<rparr>))
      | CidrV6 c \<Rightarrow>
          (case pc_v6 out of
             Some prev \<Rightarrow> Inl (CidrV6 prev, CidrV6 c)
           | None \<Rightarrow> pod_cidrs_loop cidrs (out\<lparr>pc_v6 := Some c\<rparr>)))"

definition pod_cidrs_new :: "ip_cidr list \<Rightarrow> (ip_cidr \<times> ip_cidr) + pod_cidrs" where
  "pod_cidrs_new cidrs = pod_cidrs_loop cidrs \<lparr>pc_v4 = None, pc_v6 = None\<rparr>"

definition pod_cidrs_contains :: "pod_cidrs \<Rightarrow> ip_addr \<Rightarrow> bool" where
  "pod_cidrs_contains p ip =
     (case ip of
        V4 a \<Rightarrow> (case pc_v4 p of None \<Rightarrow> False | Some c \<Rightarrow> ipv4_cidr_contains c a)
      | V6 a \<Rightarrow> (case pc_v6 p of None \<Rightarrow> False | Some c \<Rightarrow> ipv6_cidr_contains c a))"

end
