(* ===== verification/Reconcile.thy ===== *)
theory Reconcile
  imports Front_Swap Ip_Addr
begin

text \<open>
  \<open>controller/src/reconcile.rs\<close>: from a Service, its EndpointSlices and the node's identity to the entries the
  node's maps should hold. Hash maps and sets are maps and sets; slices and endpoints are lists in the order
  the watch delivers them.
\<close>

section \<open>Views\<close>

datatype protocol = Tcp | Udp

definition as_ip_proto :: "protocol \<Rightarrow> u8" where
  "as_ip_proto p = (case p of Tcp \<Rightarrow> 6 | Udp \<Rightarrow> 17)"

record node_context =
  nc_node_ip :: ip_addr
  nc_pod_cidr :: pod_cidrs

record service_port =
  sp_port :: u16
  sp_protocol :: protocol
  sp_target_port :: u16

datatype endpoint_policy = Uniform | PreferLocal | OnlyLocal

record service_view =
  sv_front_ip :: ip_addr
  sv_policy :: endpoint_policy
  sv_client_ip_affinity :: bool
  sv_ports :: "service_port list"

record endpoint =
  ep_pod_ip :: ip_addr
  ep_node_ip :: ip_addr
  ep_node_addrs :: "ip_addr list"
  ep_ready :: bool
  ep_terminating :: bool
  ep_serving :: bool
  ep_ports :: "u16 list"
  ep_pod_uid :: "string option"

record endpoint_slice_view =
  sl_endpoints :: "endpoint list"

text \<open>The reason of a rejection is one fixed text.\<close>

record rejected_endpoint =
  re_pod_ip :: ip_addr

record desired_entries =
  de_fronts :: "lb_front_key \<rightharpoonup> desired_front"
  de_pod_targets :: "ip16 set"
  de_cluster_backends :: "ip16 \<rightharpoonup> string option"
  de_node_allow :: "ip16 set"
  de_rejected :: "rejected_endpoint list"
  de_fronts_known :: bool
  de_pod_targets_known :: bool

definition default_entries :: desired_entries where
  "default_entries =
     \<lparr>de_fronts = Map.empty, de_pod_targets = {}, de_cluster_backends = Map.empty, de_node_allow = {},
      de_rejected = [], de_fronts_known = False, de_pod_targets_known = False\<rparr>"

definition client_ip_affinity :: "string option \<Rightarrow> bool" where
  "client_ip_affinity session_affinity \<longleftrightarrow> session_affinity = Some ''ClientIP''"

definition policy_from_spec :: "string option \<Rightarrow> string option \<Rightarrow> endpoint_policy" where
  "policy_from_spec external_traffic_policy traffic_distribution =
     (if external_traffic_policy = Some ''Local'' then OnlyLocal
      else case traffic_distribution of
             None \<Rightarrow> Uniform
           | Some d \<Rightarrow> if d \<in> {''PreferSameNode'', ''PreferClose'', ''PreferSameZone''} then PreferLocal else Uniform)"

section \<open>Choosing endpoints\<close>

definition is_local :: "endpoint \<Rightarrow> ip_addr \<Rightarrow> bool" where
  "is_local ep node_ip \<longleftrightarrow> node_ip \<in> set (ep_node_addrs ep)"

definition ep_is_ready :: "endpoint \<Rightarrow> bool" where
  "ep_is_ready e \<longleftrightarrow> ep_ready e \<and> \<not> ep_terminating e"

definition local_usable_endpoints :: "endpoint list \<Rightarrow> ip_addr \<Rightarrow> endpoint list" where
  "local_usable_endpoints candidates node_ip =
     (let local_ready = filter (\<lambda>e. is_local e node_ip \<and> ep_ready e \<and> \<not> ep_terminating e) candidates
      in if local_ready \<noteq> [] then local_ready
         else filter (\<lambda>e. is_local e node_ip \<and> ep_serving e \<and> ep_terminating e) candidates)"

definition eligible_endpoints :: "endpoint_policy \<Rightarrow> endpoint list \<Rightarrow> ip_addr \<Rightarrow> endpoint list" where
  "eligible_endpoints policy candidates node_ip =
     (let chosen = (case policy of
                      OnlyLocal \<Rightarrow>
                        let local = local_usable_endpoints candidates node_ip
                        in if local = [] then filter ep_is_ready candidates else local
                    | _ \<Rightarrow> filter ep_is_ready candidates)
      in if policy = PreferLocal then sort_key (\<lambda>e. (\<not> is_local e node_ip, ep_pod_ip e)) chosen
         else sort_key ep_pod_ip chosen)"

definition publishes_ingress :: "endpoint_policy \<Rightarrow> endpoint list \<Rightarrow> ip_addr \<Rightarrow> bool \<Rightarrow> bool" where
  "publishes_ingress policy endpoints node_ip family_is_v4 \<longleftrightarrow>
     (policy \<noteq> OnlyLocal \<or>
      (let same_family = filter (\<lambda>e. is_ipv4 (ep_pod_ip e) = family_is_v4) endpoints;
           usable_anywhere = list_ex (\<lambda>e. ep_ready e \<and> \<not> ep_terminating e \<or> ep_serving e \<and> ep_terminating e) same_family
       in \<not> usable_anywhere \<or> local_usable_endpoints same_family node_ip \<noteq> []))"

section \<open>The entries of one Service\<close>

definition front_key :: "ip_addr \<Rightarrow> service_port \<Rightarrow> lb_front_key" where
  "front_key front_ip port =
     \<lparr>lfk_front_ip = wire_ip_v6 front_ip, lfk_front_port = wire_port (sp_port port),
      lfk_proto = as_ip_proto (sp_protocol port), lfk_pad = 0\<rparr>"

definition is_admitted :: "endpoint \<Rightarrow> node_context \<Rightarrow> bool" where
  "is_admitted ep node \<longleftrightarrow> pod_cidrs_contains (nc_pod_cidr node) (ep_pod_ip ep) \<or> ep_pod_ip ep \<in> set (ep_node_addrs ep)"

definition all_endpoints :: "endpoint_slice_view list \<Rightarrow> endpoint list" where
  "all_endpoints slices = concat (map sl_endpoints slices)"

definition pod_targets_for_node :: "endpoint_slice_view list \<Rightarrow> node_context \<Rightarrow> ip16 set" where
  "pod_targets_for_node slices node =
     fold (\<lambda>ep pod_targets.
         if nc_node_ip node \<in> set (ep_node_addrs ep) \<and> is_admitted ep node
         then insert (wire_ip_v6 (ep_pod_ip ep)) pod_targets else pod_targets)
       (all_endpoints slices) {}"

definition cluster_backends :: "(ip_addr \<times> string option) list \<Rightarrow> ip16 \<rightharpoonup> string option" where
  "cluster_backends endpoints =
     fold (\<lambda>(pod_ip, pod_uid) backends.
         let uid = (case backends (wire_ip_v6 pod_ip) of None \<Rightarrow> None | Some u \<Rightarrow> u)
         in backends(wire_ip_v6 pod_ip \<mapsto> (if uid = None then pod_uid else uid)))
       endpoints Map.empty"

definition rejected_endpoints_for_node :: "endpoint_slice_view list \<Rightarrow> node_context \<Rightarrow> rejected_endpoint list" where
  "rejected_endpoints_for_node slices node =
     map (\<lambda>ep. \<lparr>re_pod_ip = ep_pod_ip ep\<rparr>)
       (filter (\<lambda>ep. nc_node_ip node \<in> set (ep_node_addrs ep) \<and> \<not> is_admitted ep node) (all_endpoints slices))"

definition front_endpoint_of :: "node_context \<Rightarrow> service_port \<Rightarrow> endpoint \<Rightarrow> front_endpoint" where
  "front_endpoint_of node port backend =
     \<lparr>fe_backend = \<lparr>backend_node_ip = tunnel_remote_v6 (ep_node_ip backend), pod_ip = wire_ip_v6 (ep_pod_ip backend)\<rparr>,
      fe_target_port = wire_port (sp_target_port port),
      fe_flags = (if is_local backend (nc_node_ip node) then ENDPOINT_FLAG_IS_LOCAL else 0),
      fe_pad = zeroes 4\<rparr>"

definition matching_endpoints :: "service_view \<Rightarrow> endpoint list \<Rightarrow> service_port \<Rightarrow> endpoint list" where
  "matching_endpoints svc endpoints port =
     filter (\<lambda>e. sp_target_port port \<in> set (ep_ports e) \<and> is_ipv4 (ep_pod_ip e) = is_ipv4 (sv_front_ip svc)) endpoints"

definition reconcile_port :: "service_view \<Rightarrow> endpoint list \<Rightarrow> node_context \<Rightarrow> service_port \<Rightarrow> desired_front" where
  "reconcile_port svc endpoints node port =
     (let matching = matching_endpoints svc endpoints port;
          candidates = eligible_endpoints (sv_policy svc) matching (nc_node_ip node)
      in \<lparr>df_flags = (if sv_client_ip_affinity svc then FRONT_FLAG_CLIENT_IP_AFFINITY else 0),
          df_prefer_local = (sv_policy svc \<noteq> Uniform),
          df_endpoints = map (front_endpoint_of node port) candidates\<rparr>)"

definition reconcile_service :: "service_view \<Rightarrow> endpoint_slice_view list \<Rightarrow> node_context \<Rightarrow> desired_entries" where
  "reconcile_service svc slices node =
     (let endpoints = all_endpoints slices
      in default_entries\<lparr>de_pod_targets := pod_targets_for_node slices node,
           de_rejected := rejected_endpoints_for_node slices node,
           de_fronts := fold (\<lambda>port fronts. fronts(front_key (sv_front_ip svc) port \<mapsto> reconcile_port svc endpoints node port))
                          (sv_ports svc) Map.empty\<rparr>)"

definition ports_without_same_family_endpoint :: "service_view \<Rightarrow> endpoint_slice_view list \<Rightarrow> service_port list" where
  "ports_without_same_family_endpoint svc slices =
     (let serving = (\<lambda>p same_family. list_ex (\<lambda>e. ep_ready e \<and> \<not> ep_terminating e \<and> sp_target_port p \<in> set (ep_ports e)
            \<and> (is_ipv4 (ep_pod_ip e) = is_ipv4 (sv_front_ip svc)) = same_family) (all_endpoints slices))
      in filter (\<lambda>p. \<not> serving p True \<and> serving p False) (sv_ports svc))"

end
