(* ===== verification/Reconcile_Props.thy ===== *)
theory Reconcile_Props
  imports Reconcile Front_Swap_Props "HOL-Library.Multiset"
begin

text \<open>
  What a reconciled front steers to, in terms of the endpoints of the Service: \<open>desired_steer\<close> of the front
  that \<open>reconcile_service\<close> computes is compared with the readiness, locality, port and family of the endpoints.
  Together with the refinement of a front pass this is what a new flow meets in the data plane.
\<close>

section \<open>Eligible endpoints\<close>

text \<open>An endpoint new flows may be sent to.\<close>

definition usable :: "endpoint_policy \<Rightarrow> ip_addr \<Rightarrow> endpoint list \<Rightarrow> endpoint \<Rightarrow> bool" where
  "usable policy node_ip candidates e \<longleftrightarrow> ep_is_ready e
     \<or> policy = OnlyLocal \<and> is_local e node_ip \<and> ep_serving e \<and> ep_terminating e
       \<and> (\<forall>e' \<in> set candidates. is_local e' node_ip \<longrightarrow> \<not> ep_is_ready e')"

lemma local_usable_set:
  "set (local_usable_endpoints candidates node_ip) =
   (if \<exists>e \<in> set candidates. is_local e node_ip \<and> ep_is_ready e
    then {e \<in> set candidates. is_local e node_ip \<and> ep_is_ready e}
    else {e \<in> set candidates. is_local e node_ip \<and> ep_serving e \<and> ep_terminating e})"
  by (auto simp: local_usable_endpoints_def Let_def ep_is_ready_def filter_empty_conv)

lemma eligible_set:
  "set (eligible_endpoints policy candidates node_ip) =
   (if policy = OnlyLocal \<and> local_usable_endpoints candidates node_ip \<noteq> []
    then set (local_usable_endpoints candidates node_ip) else {e \<in> set candidates. ep_is_ready e})"
  by (cases policy) (simp_all add: eligible_endpoints_def Let_def)

lemma eligible_usable:
  assumes "e \<in> set (eligible_endpoints policy candidates node_ip)"
  shows "e \<in> set candidates \<and> usable policy node_ip candidates e"
  using assms by (auto simp: eligible_set local_usable_set usable_def split: if_splits)

lemma eligible_empty:
  assumes "eligible_endpoints policy candidates node_ip = []" "e \<in> set candidates"
  shows "\<not> usable policy node_ip candidates e"
proof -
  have none: "set (eligible_endpoints policy candidates node_ip) = {}" using assms(1) by simp
  then have ready: "\<not> ep_is_ready e'" if "e' \<in> set candidates" for e'
    using that unfolding eligible_set by (auto split: if_splits)
  show ?thesis
  proof (cases "policy = OnlyLocal")
    case True
    then have "local_usable_endpoints candidates node_ip = []"
      using none unfolding eligible_set by (auto split: if_splits)
    then have "set (local_usable_endpoints candidates node_ip) = {}" by simp
    then show ?thesis using ready assms(2) unfolding local_usable_set by (auto simp: usable_def)
  qed (use ready assms(2) in \<open>simp add: usable_def\<close>)
qed

lemma eligible_length: "length (eligible_endpoints policy (matching_endpoints svc endpoints port) node_ip) \<le> length endpoints"
proof -
  have le: "length (local_usable_endpoints c node_ip) \<le> length c" "length (filter P c) \<le> length c" for c P
    by (simp_all add: local_usable_endpoints_def Let_def)
  have "length (eligible_endpoints policy c node_ip) \<le> length c" for c
    using le(1) [of c] le(2) [of ep_is_ready c] by (cases policy) (auto simp: eligible_endpoints_def Let_def)
  from this [of "matching_endpoints svc endpoints port"] show ?thesis
    by (rule order_trans) (simp add: matching_endpoints_def)
qed

text \<open>The local endpoints come first wherever the policy prefers them.\<close>

definition local_first :: "ip_addr \<Rightarrow> endpoint list \<Rightarrow> bool" where
  "local_first node_ip es \<longleftrightarrow> (\<forall>i j. i < j \<and> j < length es \<and> is_local (es ! j) node_ip \<longrightarrow> is_local (es ! i) node_ip)"

lemma eligible_local_first:
  assumes "policy \<noteq> Uniform"
  shows "local_first node_ip (eligible_endpoints policy candidates node_ip)"
proof (cases policy)
  case PreferLocal
  let ?es = "sort_key (\<lambda>e. (\<not> is_local e node_ip, ep_pod_ip e)) (filter ep_is_ready candidates)"
  have "is_local (?es ! i) node_ip" if "i < j" "j < length ?es" "is_local (?es ! j) node_ip" for i j
  proof -
    have "sorted (map (\<lambda>e. (\<not> is_local e node_ip, ep_pod_ip e)) ?es)" by simp
    from sorted_nth_mono [OF this, of i j] that show ?thesis by (simp add: less_eq_prod_def)
  qed
  then have "local_first node_ip ?es" unfolding local_first_def by blast
  then show ?thesis by (simp add: PreferLocal eligible_endpoints_def Let_def)
next
  case OnlyLocal
  let ?es = "eligible_endpoints policy candidates node_ip"
  have "(\<forall>e \<in> set ?es. is_local e node_ip) \<or> (\<forall>e \<in> set ?es. \<not> is_local e node_ip)"
  proof (cases "local_usable_endpoints candidates node_ip = []")
    case True
    then have "set (local_usable_endpoints candidates node_ip) = {}" by simp
    then show ?thesis unfolding eligible_set local_usable_set using True by (auto split: if_splits)
  next
    case False
    then have "set ?es = set (local_usable_endpoints candidates node_ip)" by (simp add: eligible_set OnlyLocal)
    then show ?thesis unfolding local_usable_set by (auto split: if_splits)
  qed
  then show ?thesis unfolding local_first_def by (metis nth_mem order_less_trans)
qed (use assms in simp)

lemma local_first_takeWhile:
  assumes "local_first node_ip es"
  shows "takeWhile (\<lambda>e. is_local e node_ip) es = filter (\<lambda>e. is_local e node_ip) es"
  using assms
proof (induction es)
  case (Cons e es)
  have tl: "local_first node_ip es" unfolding local_first_def
  proof (intro allI impI)
    fix i j assume "i < j \<and> j < length es \<and> is_local (es ! j) node_ip"
    then show "is_local (es ! i) node_ip"
      using Cons.prems [unfolded local_first_def, rule_format, of "Suc i" "Suc j"] by simp
  qed
  show ?case
  proof (cases "is_local e node_ip")
    case False
    have "\<not> is_local x node_ip" if x: "x \<in> set es" for x
    proof
      assume "is_local x node_ip"
      moreover obtain j where "j < length es" "es ! j = x" using x by (auto simp: in_set_conv_nth)
      ultimately show False
        using False Cons.prems [unfolded local_first_def, rule_format, of 0 "Suc j"] by simp
    qed
    then show ?thesis using False by (simp add: filter_empty_conv)
  qed (simp add: Cons.IH [OF tl])
qed simp

section \<open>Steering of a reconciled front\<close>

lemma front_endpoint_simps [simp]:
  "fe_backend (front_endpoint_of node port e) =
     \<lparr>backend_node_ip = tunnel_remote_v6 (ep_node_ip e), pod_ip = wire_ip_v6 (ep_pod_ip e)\<rparr>"
  "fe_target_port (front_endpoint_of node port e) = wire_port (sp_target_port port)"
  "fe_flags (front_endpoint_of node port e) AND ENDPOINT_FLAG_IS_LOCAL \<noteq> 0 \<longleftrightarrow> is_local e (nc_node_ip node)"
  by (simp_all add: front_endpoint_of_def ENDPOINT_FLAG_IS_LOCAL_def)

lemma reconciled_local_count:
  assumes "length endpoints < 2 ^ 16"
  shows "unat (local_count (reconcile_port svc endpoints node port)) =
    (if sv_policy svc = Uniform then 0
     else length (filter (\<lambda>e. is_local e (nc_node_ip node))
       (eligible_endpoints (sv_policy svc) (matching_endpoints svc endpoints port) (nc_node_ip node))))"
proof -
  let ?ip = "nc_node_ip node"
  let ?es = "eligible_endpoints (sv_policy svc) (matching_endpoints svc endpoints port) ?ip"
  have "local_count (reconcile_port svc endpoints node port) =
    (if sv_policy svc = Uniform then 0 else of_nat (length (takeWhile (\<lambda>e. is_local e ?ip) ?es)))"
    by (simp add: local_count_def reconcile_port_def Let_def takeWhile_map o_def)
  moreover have "length (filter (\<lambda>e. is_local e ?ip) ?es) < 2 ^ 16"
  proof -
    have "length ?es \<le> length endpoints" by (rule eligible_length)
    then show ?thesis using assms length_filter_le [of "\<lambda>e. is_local e ?ip" ?es] by linarith
  qed
  ultimately show ?thesis
    using local_first_takeWhile [OF eligible_local_first] by (auto simp: unat_of_nat_u16)
qed

lemma reconciled_steer_cases:
  assumes "length endpoints < 2 ^ 16" and es: "es = eligible_endpoints (sv_policy svc) (matching_endpoints svc endpoints port) (nc_node_ip node)"
  shows "if es = [] then desired_steer (reconcile_port svc endpoints node port) h = SteerDrop
    else \<exists>e \<in> set es. desired_steer (reconcile_port svc endpoints node port) h =
        SteerForward \<lparr>backend_node_ip = tunnel_remote_v6 (ep_node_ip e), pod_ip = wire_ip_v6 (ep_pod_ip e)\<rparr> (wire_port (sp_target_port port))
      \<and> (sv_policy svc \<noteq> Uniform \<and> (\<exists>e' \<in> set es. is_local e' (nc_node_ip node)) \<longrightarrow> is_local e (nc_node_ip node))"
proof -
  let ?d = "reconcile_port svc endpoints node port" and ?ip = "nc_node_ip node"
  let ?n = "of_nat (length es) :: u16" and ?l = "local_count ?d"
  have deps: "df_endpoints ?d = map (front_endpoint_of node port) es" by (simp add: reconcile_port_def Let_def es)
  have "length es < 2 ^ 16" using eligible_length assms(1) unfolding es by (rule order.strict_trans1)
  then have n: "unat ?n = length es" by (rule unat_of_nat_u16)
  have l: "unat ?l = (if sv_policy svc = Uniform then 0 else length (filter (\<lambda>e. is_local e ?ip) es))"
    using reconciled_local_count [OF assms(1)] unfolding es by simp
  have le: "?l \<le> ?n" unfolding word_le_nat_alt n l by (simp add: length_filter_le)
  show ?thesis
  proof (cases "es = []")
    case True
    have "select_endpoint_slot h 0 ?l = None" by (simp add: select_endpoint_slot_None_iff)
    then show ?thesis using True by (simp add: desired_steer_def deps)
  next
    case False
    then have "?n \<noteq> 0" using n by (metis length_0_conv unat_0)
    then obtain slot where slot: "select_endpoint_slot h ?n ?l = Some slot"
      using le by (cases "select_endpoint_slot h ?n ?l") (auto simp: select_endpoint_slot_None_iff not_less [symmetric])
    have lt: "unat slot < length es" and loc: "?l \<noteq> 0 \<Longrightarrow> unat slot < unat ?l"
      using select_endpoint_slot_less [OF slot] le n by (auto simp: word_less_nat_alt word_le_nat_alt word_gt_0 unat_eq_zero split: if_splits)
    let ?e = "es ! unat slot"
    have islocal: "is_local ?e ?ip" if "?l \<noteq> 0"
    proof -
      have "sv_policy svc \<noteq> Uniform" using that l by (metis unat_eq_zero)
      then have "takeWhile (\<lambda>e. is_local e ?ip) es = filter (\<lambda>e. is_local e ?ip) es"
        using local_first_takeWhile [OF eligible_local_first] es by blast
      moreover have "unat slot < length (filter (\<lambda>e. is_local e ?ip) es)"
        using loc [OF that] l \<open>sv_policy svc \<noteq> Uniform\<close> by simp
      ultimately show ?thesis using set_takeWhileD nth_mem takeWhile_nth by metis
    qed
    have steer: "desired_steer ?d h = SteerForward (fe_backend (front_endpoint_of node port ?e)) (fe_target_port (front_endpoint_of node port ?e))"
    proof -
      have "?l = 0 \<or> fe_flags (front_endpoint_of node port ?e) AND ENDPOINT_FLAG_IS_LOCAL \<noteq> 0" using islocal by auto
      then show ?thesis using slot lt by (simp add: desired_steer_def deps Let_def)
    qed
    have pref: "is_local ?e ?ip" if "sv_policy svc \<noteq> Uniform" "\<exists>e' \<in> set es. is_local e' ?ip"
    proof -
      have "unat ?l \<noteq> 0" using that l by (auto simp: filter_empty_conv)
      then show ?thesis using islocal by (metis unat_0)
    qed
    have "?e \<in> set es" using lt by simp
    then show ?thesis
      unfolding if_not_P [OF False] using steer [unfolded front_endpoint_simps(1,2)] pref by blast
  qed
qed

lemma fold_updates:
  assumes "x \<in> set xs" "\<And>y. y \<in> set xs \<Longrightarrow> f y = f x \<Longrightarrow> g y = g x"
  shows "fold (\<lambda>y m. m(f y \<mapsto> g y)) xs m0 (f x) = Some (g x)"
  using assms
proof (induction xs rule: rev_induct)
  case (snoc y xs)
  show ?case
  proof (cases "f y = f x")
    case True
    then show ?thesis using snoc.prems(2) [of y] by simp
  next
    case False
    then have "x \<in> set xs" using snoc.prems(1) by auto
    then have ih: "fold (\<lambda>y m. m(f y \<mapsto> g y)) xs m0 (f x) = Some (g x)"
      by (rule snoc.IH) (rule snoc.prems(2); simp)
    have last: "fold (\<lambda>y m. m(f y \<mapsto> g y)) (xs @ [y]) m0 = (fold (\<lambda>y m. m(f y \<mapsto> g y)) xs m0)(f y \<mapsto> g y)"
      by (simp only: fold_append fold.simps o_def id_def)
    show ?thesis unfolding last fun_upd_other [OF False [symmetric]] by (rule ih)
  qed
qed simp

lemma front_key_inject:
  "front_key ip p = front_key ip q \<longleftrightarrow> sp_port p = sp_port q \<and> sp_protocol p = sp_protocol q"
proof -
  have "wire_port a = wire_port b \<longleftrightarrow> a = b" for a b unfolding wire_port_def by (metis u16_swap_swap)
  moreover have "as_ip_proto a = as_ip_proto b \<longleftrightarrow> a = b" for a b by (cases a; cases b) (simp_all add: as_ip_proto_def)
  ultimately show ?thesis by (simp add: front_key_def)
qed

lemma reconcile_service_fronts:
  "de_fronts (reconcile_service svc slices node) =
   fold (\<lambda>port fronts. fronts(front_key (sv_front_ip svc) port \<mapsto> reconcile_port svc (all_endpoints slices) node port))
     (sv_ports svc) Map.empty"
  by (simp add: reconcile_service_def Let_def)


text \<open>Two endpoints on this node and one on another, served under a local preference.\<close>

definition ex_ep :: "u32 \<Rightarrow> u32 \<Rightarrow> bool \<Rightarrow> endpoint" where
  "ex_ep pod node ready =
     \<lparr>ep_pod_ip = V4 pod, ep_node_ip = V4 node, ep_node_addrs = [V4 node], ep_ready = ready, ep_terminating = False,
      ep_serving = ready, ep_ports = [8080], ep_pod_uid = None\<rparr>"

definition ex_slices :: "endpoint_slice_view list" where
  "ex_slices = [\<lparr>sl_endpoints = [ex_ep 10 1 True, ex_ep 11 2 True]\<rparr>, \<lparr>sl_endpoints = [ex_ep 12 2 False]\<rparr>]"

definition ex_service :: service_view where
  "ex_service = \<lparr>sv_front_ip = V4 7, sv_policy = PreferLocal, sv_client_ip_affinity = False,
     sv_ports = [\<lparr>sp_port = 80, sp_protocol = Tcp, sp_target_port = 8080\<rparr>]\<rparr>"

definition ex_node :: node_context where
  "ex_node = \<lparr>nc_node_ip = V4 2, nc_pod_cidr = \<lparr>pc_v4 = None, pc_v6 = None\<rparr>\<rparr>"


section \<open>Agreement between nodes\<close>

lemma uniform_candidates:
  assumes "mset endpoints = mset endpoints'" "distinct (map ep_pod_ip endpoints)"
  shows "eligible_endpoints Uniform (matching_endpoints svc endpoints port) ip =
    eligible_endpoints Uniform (matching_endpoints svc endpoints' port) ip'"
proof -
  let ?c = "\<lambda>es. filter ep_is_ready (matching_endpoints svc es port)"
  have eq: "mset (?c endpoints) = mset (?c endpoints')" using assms(1) by (simp add: matching_endpoints_def mset_filter)
  have "inj_on ep_pod_ip (set (?c endpoints))"
    using assms(2) by (auto simp: distinct_map matching_endpoints_def intro: inj_on_subset)
  then have "sort_key ep_pod_ip (?c endpoints) = sort_key ep_pod_ip (?c endpoints')"
    using eq by (intro sort_key_inj_key_eq) simp_all
  then show ?thesis by (simp add: eligible_endpoints_def Let_def)
qed

lemma uniform_steer:
  assumes "sv_policy svc = Uniform" "mset endpoints = mset endpoints'" "distinct (map ep_pod_ip endpoints)"
  shows "desired_steer (reconcile_port svc endpoints node port) h = desired_steer (reconcile_port svc endpoints' node' port) h"
proof -
  define es where "es = eligible_endpoints Uniform (matching_endpoints svc endpoints port) (nc_node_ip node)"
  have es': "eligible_endpoints Uniform (matching_endpoints svc endpoints' port) (nc_node_ip node') = es"
    unfolding es_def by (rule uniform_candidates [OF assms(2,3), symmetric])
  have d: "df_endpoints (reconcile_port svc endpoints node port) = map (front_endpoint_of node port) es"
      "df_endpoints (reconcile_port svc endpoints' node' port) = map (front_endpoint_of node' port) es"
    by (simp_all add: reconcile_port_def Let_def assms(1) es_def [symmetric] es')
  have l: "local_count (reconcile_port svc endpoints node port) = 0" "local_count (reconcile_port svc endpoints' node' port) = 0"
    by (simp_all add: local_count_def reconcile_port_def Let_def assms(1))
  have "unat slot < length es" if "select_endpoint_slot h (of_nat (length es)) 0 = Some slot" for slot
    using select_endpoint_slot_less [OF that] by (simp add: word_less_nat_alt unat_of_nat)
  then show ?thesis by (simp add: desired_steer_def d l Let_def split: option.split)
qed

lemma fold_updates_related:
  assumes "\<And>y. y \<in> set xs \<Longrightarrow> P (g y) = P (g' y)" "map_option P (m k) = map_option P (m' k)"
  shows "map_option P (fold (\<lambda>y m. m(f y \<mapsto> g y)) xs m k) = map_option P (fold (\<lambda>y m. m(f y \<mapsto> g' y)) xs m' k)"
  using assms
proof (induction xs arbitrary: m m')
  case (Cons x xs)
  have "map_option P ((m(f x \<mapsto> g x)) k) = map_option P ((m'(f x \<mapsto> g' x)) k)" using Cons.prems by simp
  with Cons.IH [of "m(f x \<mapsto> g x)" "m'(f x \<mapsto> g' x)"] Cons.prems(1) show ?case by (simp del: fun_upd_apply)
qed simp



end
