(* ===== verification/Kube.thy ===== *)
theory Kube
  imports Ip_Addr
begin

text \<open>
  What the controller uses of \<open>serde_json\<close> and of the apiserver. A JSON value is a datatype; numbers are the
  integers the program reads. The HTTP client is a parameter (record \<open>api_client\<close>): a request gives a status
  and a body, or no answer. Bodies are JSON values, \<open>None\<close> a body that does not parse. The contract
  \<open>api_ok\<close> is the apiserver's optimistic concurrency on a Service's ingress list.
\<close>

section \<open>JSON values\<close>

datatype json = JNull | JBool bool | JNum int | JStr string | JArr "json list" | JObj "(string \<times> json) list"

text \<open>Indexing gives null where there is no such key.\<close>

definition json_at :: "json \<Rightarrow> string \<Rightarrow> json" where
  "json_at v k =
     (case v of JObj kvs \<Rightarrow> (case map_of kvs k of Some x \<Rightarrow> x | None \<Rightarrow> JNull) | _ \<Rightarrow> JNull)"

primrec json_path :: "json \<Rightarrow> string list \<Rightarrow> json" where
  "json_path v [] = v"
| "json_path v (k # ks) = json_path (json_at v k) ks"

definition as_str :: "json \<Rightarrow> string option" where
  "as_str v = (case v of JStr s \<Rightarrow> Some s | _ \<Rightarrow> None)"

definition as_array :: "json \<Rightarrow> json list option" where
  "as_array v = (case v of JArr xs \<Rightarrow> Some xs | _ \<Rightarrow> None)"

lemma as_simps [simp]:
  "as_str (JStr s) = Some s" "as_str JNull = None" "as_array (JArr xs) = Some xs" "as_array JNull = None"
  by (simp_all add: as_str_def as_array_def)

lemma json_at_simps [simp]:
  "json_at (JObj ((k, v) # kvs)) k' = (if k' = k then v else json_at (JObj kvs) k')"
  "json_at (JObj []) k' = JNull"
  by (simp_all add: json_at_def)

section \<open>Time\<close>

text \<open>\<open>Instant\<close> and \<open>Duration\<close> in nanoseconds.\<close>

type_synonym nanos = nat

definition from_secs :: "nat \<Rightarrow> nanos" where "from_secs s = s * 1000000000"
definition from_millis :: "nat \<Rightarrow> nanos" where "from_millis m = m * 1000000"

section \<open>The apiserver\<close>

datatype http_method = GET | POST | PUT | PATCH

type_synonym response = "(nat \<times> json option) option"

record 's api_client =
  ac_request :: "http_method \<Rightarrow> string \<Rightarrow> json option \<Rightarrow> 's \<Rightarrow> response \<times> 's"

definition is_success :: "nat \<Rightarrow> bool" where "is_success status \<longleftrightarrow> 200 \<le> status \<and> status < 300"

definition NOT_FOUND :: nat where "NOT_FOUND = 404"
definition CONFLICT :: nat where "CONFLICT = 409"

text \<open>The versions of each Service's ingress list, newest first, with their resource versions.\<close>

type_synonym 's ingress_log = "'s \<Rightarrow> string \<Rightarrow> (string \<times> json list) list"

definition service_path :: "string \<Rightarrow> string \<Rightarrow> string" where
  "service_path namespace name = ''/api/v1/namespaces/'' @ namespace @ ''/services/'' @ name"

definition status_path :: "string \<Rightarrow> string" where "status_path get_path = get_path @ ''/status''"

definition ingress_of :: "json \<Rightarrow> json list" where
  "ingress_of obj = (case as_array (json_path obj [''status'', ''loadBalancer'', ''ingress'']) of Some xs \<Rightarrow> xs | None \<Rightarrow> [])"

definition resource_version :: "json \<Rightarrow> string option" where
  "resource_version obj = as_str (json_path obj [''metadata'', ''resourceVersion''])"

definition ingress_patch :: "string \<Rightarrow> json list \<Rightarrow> json" where
  "ingress_patch rv new_ingress =
     JObj [(''metadata'', JObj [(''resourceVersion'', JStr rv)]),
           (''status'', JObj [(''loadBalancer'', JObj [(''ingress'', JArr new_ingress)])])]"

text \<open>Other writers may act around every request. A read answers the newest version. A merge patch that names a
  resource version succeeds only if that is the newest version, and then replaces its list.\<close>

definition api_ok :: "'s api_client \<Rightarrow> 's ingress_log \<Rightarrow> bool" where
  "api_ok A log \<longleftrightarrow>
     (\<forall>s path. distinct (map fst (log s path)))
     \<and> (\<forall>meth path body s path'. \<exists>new. log (snd (ac_request A meth path body s)) path' = new @ log s path')
     \<and> (\<forall>path s status obj s' rv. ac_request A GET path None s = (Some (status, Some obj), s') \<and> is_success status
          \<and> resource_version obj = Some rv \<longrightarrow>
          (\<exists>older. log s' path = (rv, ingress_of obj) # older))
     \<and> (\<forall>path rv ingress s status body s'.
          ac_request A PATCH (status_path path) (Some (ingress_patch rv ingress)) s = (Some (status, body), s') \<and> is_success status \<longrightarrow>
          (\<exists>newer rv' old older. log s' path = newer @ (rv', ingress) # (rv, old) # older))"

section \<open>Consequences of the contract\<close>

lemma keyed_split_unique:
  assumes "distinct (map fst xs)" "xs = a @ (k, v) # b" "xs = a' @ (k, v') # b'"
  shows "v = v' \<and> b = b'"
  using assms
proof (induction a arbitrary: xs a')
  case Nil
  then show ?case by (cases a') (auto simp: image_iff)
next
  case (Cons x a)
  obtain y ys where xs: "xs = y # ys" using Cons.prems(2) by simp
  show ?case
  proof (cases a')
    case Nil
    then have "x = (k, v')" "ys = a @ (k, v) # b" using Cons.prems xs by auto
    then show ?thesis using Cons.prems(1,2) by simp
  next
    case (Cons z zs)
    then show ?thesis using Cons.IH [of ys zs] Cons.prems xs by simp
  qed
qed

lemma api_grows: "api_ok A log \<Longrightarrow> \<exists>new. log (snd (ac_request A meth path body s)) path' = new @ log s path'"
  unfolding api_ok_def by blast

lemma api_get:
  assumes "api_ok A log" "ac_request A GET path None s = (Some (status, Some obj), s')" "is_success status"
    and "resource_version obj = Some rv"
  obtains older where "log s' path = (rv, ingress_of obj) # older"
  using assms(1) [unfolded api_ok_def, THEN conjunct2, THEN conjunct2, THEN conjunct1, rule_format, of path s status obj s' rv]
    assms(2-4) that by blast

text \<open>A successful patch replaced exactly the version that was read.\<close>

lemma api_patch:
  assumes ok: "api_ok A log" and read: "log s path = (rv, old) # older"
    and "ac_request A PATCH (status_path path) (Some (ingress_patch rv ingress)) s = (Some (status, body), s')" "is_success status"
  obtains newer rv' where "log s' path = newer @ (rv', ingress) # (rv, old) # older"
proof -
  obtain newer rv' old' older' where w: "log s' path = newer @ (rv', ingress) # (rv, old') # older'"
    using ok [unfolded api_ok_def, THEN conjunct2, THEN conjunct2, THEN conjunct2, rule_format,
      of path rv ingress s status body s'] assms(3,4) by blast
  obtain new where g: "log s' path = new @ (rv, old) # older"
    using api_grows [OF ok, of PATCH "status_path path" "Some (ingress_patch rv ingress)" s path] assms(3) read by auto
  have "distinct (map fst (log s' path))" using ok by (simp add: api_ok_def)
  moreover have "log s' path = (newer @ [(rv', ingress)]) @ (rv, old') # older'" using w by simp
  ultimately have "old' = old \<and> older' = older" using g by (rule keyed_split_unique)
  then show ?thesis using that w by blast
qed

section \<open>An apiserver in memory\<close>

text \<open>\<open>ap_others\<close> holds what another writer does before each request: a new list for some Service, or nothing.\<close>

record mem_api =
  ap_lists :: "string \<Rightarrow> json list list"
  ap_others :: "(string \<times> json list) option list"

definition version_name :: "nat \<Rightarrow> string" where "version_name n = replicate n (CHR ''v'')"

primrec version_log :: "json list list \<Rightarrow> (string \<times> json list) list" where
  "version_log [] = []"
| "version_log (x # xs) = (version_name (length xs), x) # version_log xs"

definition ap_push :: "string \<Rightarrow> json list \<Rightarrow> mem_api \<Rightarrow> mem_api" where
  "ap_push path x s = s\<lparr>ap_lists := (ap_lists s)(path := x # ap_lists s path)\<rparr>"

definition ap_interfere :: "mem_api \<Rightarrow> mem_api" where
  "ap_interfere s =
     (case ap_others s of
        [] \<Rightarrow> s
      | w # ws \<Rightarrow> (case w of None \<Rightarrow> s\<lparr>ap_others := ws\<rparr> | Some (path, x) \<Rightarrow> ap_push path x (s\<lparr>ap_others := ws\<rparr>)))"

definition mem_client :: "mem_api api_client" where
  "mem_client = \<lparr>ac_request = (\<lambda>meth path body s.
     let s = ap_interfere s
     in case meth of
          GET \<Rightarrow> (case ap_lists s path of
                    [] \<Rightarrow> (Some (NOT_FOUND, None), s)
                  | x # xs \<Rightarrow> (Some (200, Some (ingress_patch (version_name (length xs)) x)), s))
        | PATCH \<Rightarrow>
            (let target = take (length path - length ''/status'') path
             in case (ap_lists s target, body) of
                  (x # xs, Some change) \<Rightarrow>
                    if resource_version change = Some (version_name (length xs))
                    then (Some (200, None), ap_push target (ingress_of change) s)
                    else (Some (CONFLICT, None), s)
                | _ \<Rightarrow> (Some (NOT_FOUND, None), s))
        | _ \<Rightarrow> (Some (405, None), s))\<rparr>"

definition mem_log :: "mem_api ingress_log" where
  "mem_log s path = version_log (ap_lists s path)"

lemma version_log_versions: "map fst (version_log xs) = map version_name (rev [0..<length xs])"
  by (induction xs) simp_all

lemma version_log_distinct: "distinct (map fst (version_log xs))"
proof -
  have "inj version_name" by (rule injI) (metis length_replicate version_name_def)
  then show ?thesis unfolding version_log_versions by (simp add: distinct_map inj_on_def)
qed

lemma ingress_patch_fields [simp]:
  "resource_version (ingress_patch rv x) = Some rv" "ingress_of (ingress_patch rv x) = x"
  by (simp_all add: resource_version_def ingress_patch_def ingress_of_def)

lemma push_grows: "\<exists>new. mem_log (ap_push p x s) path = new @ mem_log s path"
  by (cases "path = p") (auto simp: mem_log_def ap_push_def)

lemma interfere_grows: "\<exists>new. mem_log (ap_interfere s) path = new @ mem_log s path"
proof -
  have others: "mem_log (s\<lparr>ap_others := ws\<rparr>) = mem_log s" for ws by (simp add: mem_log_def fun_eq_iff)
  have "\<exists>new. mem_log (ap_push p x (s\<lparr>ap_others := ws\<rparr>)) path = new @ mem_log s path" for p x ws
    using push_grows [of p x "s\<lparr>ap_others := ws\<rparr>" path] unfolding others .
  then show ?thesis by (auto simp: ap_interfere_def others split: list.split option.split prod.split)
qed

lemma mem_client_grows: "\<exists>new. mem_log (snd (ac_request mem_client meth path body s)) path' = new @ mem_log s path'"
proof -
  obtain new where new: "mem_log (ap_interfere s) path' = new @ mem_log s path'" using interfere_grows by blast
  have "\<exists>n. mem_log (snd (ac_request mem_client meth path body s)) path' = n @ mem_log (ap_interfere s) path'"
    using push_grows
    by (auto simp: mem_client_def Let_def split: http_method.split list.split option.split)
  then show ?thesis using new by (metis append.assoc)
qed

lemma mem_client_ok: "api_ok mem_client mem_log"
  unfolding api_ok_def
proof (intro conjI allI impI)
  show "distinct (map fst (mem_log s path))" for s path by (simp add: mem_log_def version_log_distinct)
  show "\<exists>new. mem_log (snd (ac_request mem_client meth path body s)) path' = new @ mem_log s path'"
    for meth path body s path' by (rule mem_client_grows)
  show "\<exists>older. mem_log s' path = (rv, ingress_of obj) # older"
    if "ac_request mem_client GET path None s = (Some (status, Some obj), s') \<and> is_success status \<and> resource_version obj = Some rv"
    for path s status obj s' rv
    using that by (auto simp: mem_client_def Let_def mem_log_def split: list.splits)
  show "\<exists>newer rv' old older. mem_log s' path = newer @ (rv', ingress) # (rv, old) # older"
    if "ac_request mem_client PATCH (status_path path) (Some (ingress_patch rv ingress)) s = (Some (status, body), s') \<and> is_success status"
    for path rv ingress s status body s'
  proof -
    have strip: "take (length (status_path path) - length ''/status'') (status_path path) = path" by (simp add: status_path_def)
    have "ap_lists (ap_interfere s) path \<noteq> []"
      using that strip by (auto simp: mem_client_def Let_def is_success_def NOT_FOUND_def)
    then obtain x xs where lists: "ap_lists (ap_interfere s) path = x # xs" by (cases "ap_lists (ap_interfere s) path") auto
    then have "rv = version_name (length xs)" "s' = ap_push path ingress (ap_interfere s)"
      using that strip by (auto simp: mem_client_def Let_def is_success_def CONFLICT_def split: if_splits)
    then show ?thesis using lists by (intro exI [of _ "[] :: (string \<times> json list) list"]) (simp add: mem_log_def ap_push_def)
  qed
qed

end
