(* ===== verification/Ingress_Status.thy ===== *)
theory Ingress_Status
  imports Kube
begin

text \<open>
  \<open>controller/src/status.rs\<close>: this node's entries of a Service's \<open>status.loadBalancer.ingress\<close>, written by a
  read-modify-patch loop that every writer of the list shares.
\<close>

definition entry_ip :: "json \<Rightarrow> string option" where
  "entry_ip entry = as_str (json_at entry ''ip'')"

text \<open>The loop over \<open>desired_ips\<close>.\<close>

primrec add_missing :: "ip_addr list \<Rightarrow> json list \<times> bool \<Rightarrow> json list \<times> bool" where
  "add_missing [] acc = acc"
| "add_missing (d # ds) acc =
     (case acc of (merged, changed) \<Rightarrow>
      let ip = ip_to_string d
      in if list_ex (\<lambda>entry. entry_ip entry = Some ip) merged then add_missing ds (merged, changed)
         else add_missing ds (merged @ [JObj [(''ip'', JStr ip)]], True))"

definition merged_ingress :: "json list \<Rightarrow> ip_addr list \<Rightarrow> ip_addr list \<Rightarrow> json list option" where
  "merged_ingress existing own_ips desired_ips =
     (let is_own = (\<lambda>ip. list_ex (\<lambda>o'. ip_to_string o' = ip) own_ips);
          is_desired = (\<lambda>ip. list_ex (\<lambda>d. ip_to_string d = ip) desired_ips);
          merged = filter (\<lambda>entry. case entry_ip entry of Some ip \<Rightarrow> \<not> is_own ip \<or> is_desired ip | None \<Rightarrow> True) existing;
          changed = (length merged \<noteq> length existing)
      in case add_missing desired_ips (merged, changed) of
           (merged, changed) \<Rightarrow> if changed then Some merged else None)"

definition MAX_CONFLICT_RETRIES :: nat where "MAX_CONFLICT_RETRIES = 5"
definition CONFLICT_RETRY_BASE_DELAY :: nanos where "CONFLICT_RETRY_BASE_DELAY = from_millis 10"
definition CONFLICT_RETRY_MAX_DELAY :: nanos where "CONFLICT_RETRY_MAX_DELAY = from_millis 100"

definition conflict_retry_delay :: "nat \<Rightarrow> nanos" where
  "conflict_retry_delay attempt = min (CONFLICT_RETRY_BASE_DELAY * 2 ^ min attempt 8) CONFLICT_RETRY_MAX_DELAY"

datatype update_error =
    NoAnswer
  | ServiceGone string
  | BadStatus nat
  | Unparsable
  | MissingVersion
  | TooManyConflicts

text \<open>\<open>compute\<close> may keep a state of its own (the prune suspects), which is threaded through its calls. The delay
  before a retry has no effect on the state.\<close>

primrec update_loop ::
  "'s api_client \<Rightarrow> string \<Rightarrow> (json list \<Rightarrow> 'c \<Rightarrow> json list option \<times> 'c) \<Rightarrow> nat \<Rightarrow> 'c \<times> 's \<Rightarrow>
   update_error option \<times> 'c \<times> 's" where
  "update_loop A path compute 0 cs = (Some TooManyConflicts, cs)"
| "update_loop A path compute (Suc attempts) cs =
     (case cs of (c, s) \<Rightarrow>
      case ac_request A GET path None s of (got, s) \<Rightarrow>
      case got of
        None \<Rightarrow> (Some NoAnswer, c, s)
      | Some (status, body) \<Rightarrow>
          if status = NOT_FOUND then (Some (ServiceGone path), c, s)
          else if \<not> is_success status then (Some (BadStatus status), c, s)
          else case body of
            None \<Rightarrow> (Some Unparsable, c, s)
          | Some obj \<Rightarrow>
              (case resource_version obj of
                 None \<Rightarrow> (Some MissingVersion, c, s)
               | Some rv \<Rightarrow>
                   (case compute (ingress_of obj) c of
                      (None, c) \<Rightarrow> (None, c, s)
                    | (Some new_ingress, c) \<Rightarrow>
                        (case ac_request A PATCH (status_path path) (Some (ingress_patch rv new_ingress)) s of
                           (None, s) \<Rightarrow> (Some NoAnswer, c, s)
                         | (Some (status, _), s) \<Rightarrow>
                             if is_success status then (None, c, s)
                             else if status = CONFLICT then update_loop A path compute attempts (c, s)
                             else (Some (BadStatus status), c, s)))))"

definition update_ingress ::
  "'s api_client \<Rightarrow> string \<Rightarrow> string \<Rightarrow> (json list \<Rightarrow> 'c \<Rightarrow> json list option \<times> 'c) \<Rightarrow> 'c \<times> 's \<Rightarrow>
   update_error option \<times> 'c \<times> 's" where
  "update_ingress A namespace name compute cs =
     update_loop A (service_path namespace name) compute MAX_CONFLICT_RETRIES cs"

definition ensure_node_ingress ::
  "'s api_client \<Rightarrow> string \<Rightarrow> string \<Rightarrow> ip_addr list \<Rightarrow> ip_addr list \<Rightarrow> 's \<Rightarrow> update_error option \<times> 's" where
  "ensure_node_ingress A namespace name own_ips desired_ips s =
     (case update_ingress A namespace name (\<lambda>existing c. (merged_ingress existing own_ips desired_ips, c)) ((), s) of
        (r, _, s) \<Rightarrow> (r, s))"

section \<open>The loop as one atomic step\<close>

text \<open>What a successful run did: its last \<open>compute\<close>, started in \<open>c0\<close>, was given a version \<open>old\<close> of the list
  that was newest at some moment of the run, and it found nothing to do or its result replaced just that version.\<close>

definition settled ::
  "(json list \<Rightarrow> 'c \<Rightarrow> json list option \<times> 'c) \<Rightarrow> (string \<times> json list) list \<Rightarrow> (string \<times> json list) list \<Rightarrow> 'c \<Rightarrow> 'c \<Rightarrow> bool" where
  "settled compute before after c0 c' \<longleftrightarrow>
     (\<exists>newer rv old others. c' = snd (compute old c0)
        \<and> (case fst (compute old c0) of
             None \<Rightarrow> after = newer @ (rv, old) # others
           | Some new \<Rightarrow> \<exists>rv'. after = newer @ (rv', new) # (rv, old) # others)
        \<and> (\<exists>since. (rv, old) # others = since @ before))"

lemma settled_since:
  assumes "settled compute (added @ before) after c0 c'"
  shows "settled compute before after c0 c'"
proof -
  obtain newer rv old others since where *: "c' = snd (compute old c0)"
      "case fst (compute old c0) of None \<Rightarrow> after = newer @ (rv, old) # others
        | Some new \<Rightarrow> \<exists>rv'. after = newer @ (rv', new) # (rv, old) # others"
      "(rv, old) # others = since @ added @ before"
    using assms unfolding settled_def by blast
  have "\<exists>since. (rv, old) # others = since @ before" using *(3) by (intro exI [of _ "since @ added"]) simp
  then show ?thesis unfolding settled_def using *(1,2) by blast
qed

lemma update_loop_settled_from:
  assumes ok: "api_ok A log" and "update_loop A path compute n (c, s) = (None, c', s')"
    and R: "\<And>e c. R c (snd (compute e c))" "\<And>c. R c c" "\<And>c c' c''. R c c' \<Longrightarrow> R c' c'' \<Longrightarrow> R c c''"
  shows "\<exists>c0. settled compute (log s path) (log s' path) c0 c' \<and> R c c0"
  using assms(2)
proof (induction n arbitrary: c s)
  case (Suc n)
  obtain got s1 where get: "ac_request A GET path None s = (got, s1)" by (cases "ac_request A GET path None s")
  obtain status obj rv where got: "got = Some (status, Some obj)" "is_success status"
    and rv: "resource_version obj = Some rv"
    using Suc.prems by (auto simp: get split: option.splits if_splits)
  have nf: "status \<noteq> NOT_FOUND" using got(2) by (auto simp: is_success_def NOT_FOUND_def)
  obtain older where older: "log s1 path = (rv, ingress_of obj) # older"
    using api_get [OF ok get [unfolded got(1)] got(2) rv] by blast
  obtain since where since: "(rv, ingress_of obj) # older = since @ log s path"
    using api_grows [OF ok, of GET path None s path] older by (auto simp: get)
  obtain r c1 where comp: "compute (ingress_of obj) c = (r, c1)" by (cases "compute (ingress_of obj) c")
  show ?case
  proof (cases r)
    case None
    then have "s' = s1" "c' = c1" using Suc.prems by (simp_all add: get got rv nf comp)
    then have "settled compute (log s path) (log s' path) c c'"
      unfolding settled_def using older since comp None
      by (intro exI [of _ "[]"] exI [of _ rv] exI [of _ "ingress_of obj"] exI [of _ older]) auto
    then show ?thesis using R(2) by blast
  next
    case (Some new)
    obtain ans s2 where patch: "ac_request A PATCH (status_path path) (Some (ingress_patch rv new)) s1 = (ans, s2)"
      by (cases "ac_request A PATCH (status_path path) (Some (ingress_patch rv new)) s1")
    obtain st body where ans: "ans = Some (st, body)"
      using Suc.prems by (auto simp: get got rv nf comp Some patch split: option.splits)
    show ?thesis
    proof (cases "is_success st")
      case True
      then have "s' = s2" "c' = c1" using Suc.prems by (simp_all add: get got rv nf comp Some patch ans)
      moreover obtain newer rv' where "log s2 path = newer @ (rv', new) # (rv, ingress_of obj) # older"
        using api_patch [OF ok older patch [unfolded ans] True] by blast
      ultimately have "settled compute (log s path) (log s' path) c c'"
        unfolding settled_def using since comp Some
        by (intro exI [of _ newer] exI [of _ rv] exI [of _ "ingress_of obj"] exI [of _ older]) auto
      then show ?thesis using R(2) by blast
    next
      case False
      then have "update_loop A path compute n (c1, s2) = (None, c', s')"
        using Suc.prems by (simp add: get got rv nf comp Some patch ans split: if_splits)
      from Suc.IH [OF this] obtain c0 where c0: "settled compute (log s2 path) (log s' path) c0 c'" "R c1 c0" by blast
      have "R c c1" using R(1) [of c "ingress_of obj"] by (simp add: comp)
      note Rc0 = R(3) [OF this c0(2)]
      obtain added where "log s2 path = added @ log s1 path"
        using api_grows [OF ok, of PATCH "status_path path" "Some (ingress_patch rv new)" s1 path] by (auto simp: patch)
      then have "log s2 path = (added @ since) @ log s path" using older since by simp
      with c0(1) have "settled compute ((added @ since) @ log s path) (log s' path) c0 c'" by metis
      from settled_since [OF this] show ?thesis using Rc0 by blast
    qed
  qed
qed simp

lemma update_loop_settled:
  "api_ok A log \<Longrightarrow> update_loop A path compute n (c, s) = (None, c', s') \<Longrightarrow>
   \<exists>c0. settled compute (log s path) (log s' path) c0 c'"
  using update_loop_settled_from [of A log path compute n c s c' s' "\<lambda>_ _. True"] by blast

section \<open>Merging this node's entries\<close>

text \<open>The list this node wants: its own stale entries gone, its missing addresses appended.\<close>

definition own_entry :: "ip_addr list \<Rightarrow> json \<Rightarrow> bool" where
  "own_entry own_ips entry \<longleftrightarrow> (\<exists>ip. entry_ip entry = Some ip \<and> ip \<in> ip_to_string ` set own_ips)"

definition listed_ips :: "json list \<Rightarrow> string set" where
  "listed_ips entries = {ip. \<exists>entry \<in> set entries. entry_ip entry = Some ip}"

lemma listed_ips_append [simp]: "listed_ips (xs @ ys) = listed_ips xs \<union> listed_ips ys"
  by (auto simp: listed_ips_def)

lemma entry_ip_new [simp]: "entry_ip (JObj [(''ip'', JStr ip)]) = Some ip"
  by (simp add: entry_ip_def)

lemma add_missing_spec:
  "\<exists>new. fst (add_missing ds (merged, ch)) = merged @ new
    \<and> (\<forall>e \<in> set new. \<exists>d \<in> set ds. entry_ip e = Some (ip_to_string d))
    \<and> listed_ips (merged @ new) = listed_ips merged \<union> ip_to_string ` set ds
    \<and> (snd (add_missing ds (merged, ch)) \<longleftrightarrow> ch \<or> new \<noteq> [])"
proof (induction ds arbitrary: merged ch)
  case (Cons d ds)
  show ?case
  proof (cases "list_ex (\<lambda>entry. entry_ip entry = Some (ip_to_string d)) merged")
    case True
    then have "ip_to_string d \<in> listed_ips merged" by (auto simp: listed_ips_def list_ex_iff)
    moreover have "add_missing (d # ds) (merged, ch) = add_missing ds (merged, ch)" using True by simp
    ultimately show ?thesis using Cons.IH [of merged ch] by auto
  next
    case False
    let ?e = "JObj [(''ip'', JStr (ip_to_string d))]"
    have "add_missing (d # ds) (merged, ch) = add_missing ds (merged @ [?e], True)" using False by simp
    moreover obtain new where "fst (add_missing ds (merged @ [?e], True)) = (merged @ [?e]) @ new"
        "\<forall>e \<in> set new. \<exists>d \<in> set ds. entry_ip e = Some (ip_to_string d)"
        "listed_ips ((merged @ [?e]) @ new) = listed_ips (merged @ [?e]) \<union> ip_to_string ` set ds"
        "snd (add_missing ds (merged @ [?e], True))"
      using Cons.IH [of "merged @ [?e]" True] by auto
    ultimately show ?thesis
      by (intro exI [of _ "?e # new"]) (auto simp: listed_ips_def)
  qed
qed (simp add: listed_ips_def)

lemma filter_all_kept: "length (filter P xs) = length xs \<Longrightarrow> filter P xs = xs"
proof (induction xs)
  case (Cons x xs)
  then show ?case using length_filter_le [of P xs] by (cases "P x") simp_all
qed simp

lemma merged_ingress_spec:
  assumes "set desired_ips \<subseteq> set own_ips"
    and "result = (case merged_ingress existing own_ips desired_ips of None \<Rightarrow> existing | Some new \<Rightarrow> new)"
  shows "filter (\<lambda>e. \<not> own_entry own_ips e) result = filter (\<lambda>e. \<not> own_entry own_ips e) existing
    \<and> listed_ips result \<inter> ip_to_string ` set own_ips = ip_to_string ` set desired_ips"
proof -
  define keep where "keep = filter (\<lambda>entry. case entry_ip entry of
    Some ip \<Rightarrow> \<not> list_ex (\<lambda>o'. ip_to_string o' = ip) own_ips \<or> list_ex (\<lambda>d. ip_to_string d = ip) desired_ips | None \<Rightarrow> True) existing"
  obtain new where new: "fst (add_missing desired_ips (keep, length keep \<noteq> length existing)) = keep @ new"
      "\<forall>e \<in> set new. \<exists>d \<in> set desired_ips. entry_ip e = Some (ip_to_string d)"
      "listed_ips (keep @ new) = listed_ips keep \<union> ip_to_string ` set desired_ips"
      "snd (add_missing desired_ips (keep, length keep \<noteq> length existing)) \<longleftrightarrow> length keep \<noteq> length existing \<or> new \<noteq> []"
    using add_missing_spec [of desired_ips keep "length keep \<noteq> length existing"] by blast
  have full: "keep = existing" if "length keep = length existing"
    using that unfolding keep_def by (rule filter_all_kept)
  have res: "result = keep @ new"
    using new(1,4) full unfolding assms(2) merged_ingress_def Let_def keep_def [symmetric]
    by (cases "add_missing desired_ips (keep, length keep \<noteq> length existing)") auto
  have others: "filter (\<lambda>e. \<not> own_entry own_ips e) keep = filter (\<lambda>e. \<not> own_entry own_ips e) existing"
    unfolding keep_def filter_filter
    by (rule filter_cong) (auto simp: own_entry_def list_ex_iff split: option.splits)
  moreover have "filter (\<lambda>e. \<not> own_entry own_ips e) new = []"
    using new(2) assms(1) by (force simp: filter_empty_conv own_entry_def)
  moreover have "listed_ips keep \<inter> ip_to_string ` set own_ips \<subseteq> ip_to_string ` set desired_ips"
    by (auto simp: keep_def listed_ips_def list_ex_iff) (metis image_eqI)+
  ultimately show ?thesis using new(3) assms(1) by (auto simp: res)
qed

text \<open>\<open>result\<close> replaced, or is, the version \<open>old\<close> of the list, which was the newest at some moment since \<open>before\<close>.\<close>

definition atomic_update ::
  "(string \<times> json list) list \<Rightarrow> (string \<times> json list) list \<Rightarrow> json list \<Rightarrow> json list \<Rightarrow> bool" where
  "atomic_update before after old result \<longleftrightarrow>
     (\<exists>newer rv others since. (rv, old) # others = since @ before
        \<and> (result = old \<and> after = newer @ (rv, old) # others \<or> (\<exists>rv'. after = newer @ (rv', result) # (rv, old) # others)))"

lemma settled_atomic:
  assumes "settled compute before after c0 c'"
  obtains old where "atomic_update before after old (case fst (compute old c0) of None \<Rightarrow> old | Some new \<Rightarrow> new)"
    "c' = snd (compute old c0)"
proof -
  obtain newer rv old others since where *: "c' = snd (compute old c0)"
      "case fst (compute old c0) of None \<Rightarrow> after = newer @ (rv, old) # others
        | Some new \<Rightarrow> \<exists>rv'. after = newer @ (rv', new) # (rv, old) # others"
      "(rv, old) # others = since @ before"
    using assms unfolding settled_def by blast
  have "atomic_update before after old (case fst (compute old c0) of None \<Rightarrow> old | Some new \<Rightarrow> new)"
  proof (cases "fst (compute old c0)")
    case None
    then have "after = newer @ (rv, old) # others" using *(2) by simp
    then show ?thesis unfolding atomic_update_def None option.case using *(3) by blast
  next
    case (Some new)
    then have "\<exists>rv'. after = newer @ (rv', new) # (rv, old) # others" using *(2) by simp
    then show ?thesis unfolding atomic_update_def Some option.case using *(3) by blast
  qed
  then show ?thesis using that *(1) by blast
qed

text \<open>C18: when \<open>ensure_node_ingress\<close> succeeds, the list it settled on replaced (or is) a version that was the newest
  at some moment of the call: every entry of another node in that version is kept in its place, and of this node's
  own addresses exactly the desired ones are listed, whatever other writers did in between.\<close>

theorem ensure_ingress_clobber_free:
  assumes "api_ok A log" "set desired_ips \<subseteq> set own_ips"
    and "ensure_node_ingress A namespace name own_ips desired_ips s = (None, s')"
  shows "\<exists>old result. atomic_update (log s (service_path namespace name)) (log s' (service_path namespace name)) old result
    \<and> filter (\<lambda>e. \<not> own_entry own_ips e) result = filter (\<lambda>e. \<not> own_entry own_ips e) old
    \<and> listed_ips result \<inter> ip_to_string ` set own_ips = ip_to_string ` set desired_ips"
proof -
  let ?path = "service_path namespace name"
  let ?compute = "\<lambda>existing c :: unit. (merged_ingress existing own_ips desired_ips, c)"
  have "update_loop A ?path ?compute MAX_CONFLICT_RETRIES ((), s) = (None, (), s')"
    using assms(3) by (auto simp: ensure_node_ingress_def update_ingress_def split: prod.splits)
  from update_loop_settled [OF assms(1) this] obtain c0 where "settled ?compute (log s ?path) (log s' ?path) c0 ()" by blast
  then obtain old where "atomic_update (log s ?path) (log s' ?path) old
      (case merged_ingress old own_ips desired_ips of None \<Rightarrow> old | Some new \<Rightarrow> new)"
    by (rule settled_atomic) simp
  then show ?thesis using merged_ingress_spec [OF assms(2) refl, of old] by blast
qed

text \<open>Another node adds its entry between the read and the patch; the second attempt succeeds.\<close>

definition ex_api :: mem_api where
  "ex_api = \<lparr>ap_lists = (\<lambda>p. [[]]), ap_others = [None, Some (service_path ''ns'' ''svc'', [JObj [(''ip'', JStr ''10.0.0.9'')]])]\<rparr>"

lemma ex_api_run:
  "fst (ensure_node_ingress mem_client ''ns'' ''svc'' [V4 0x0a000001] [V4 0x0a000001] ex_api) = None"
  by code_simp

theorem ensure_ingress_clobber_free_witness:
  "\<exists>old result. atomic_update (mem_log ex_api (service_path ''ns'' ''svc''))
      (mem_log (snd (ensure_node_ingress mem_client ''ns'' ''svc'' [V4 0x0a000001] [V4 0x0a000001] ex_api)) (service_path ''ns'' ''svc''))
      old result
    \<and> filter (\<lambda>e. \<not> own_entry [V4 0x0a000001] e) result = filter (\<lambda>e. \<not> own_entry [V4 0x0a000001] e) old
    \<and> listed_ips result \<inter> ip_to_string ` set [V4 0x0a000001] = ip_to_string ` set [V4 0x0a000001]"
proof -
  have "ensure_node_ingress mem_client ''ns'' ''svc'' [V4 0x0a000001] [V4 0x0a000001] ex_api =
      (None, snd (ensure_node_ingress mem_client ''ns'' ''svc'' [V4 0x0a000001] [V4 0x0a000001] ex_api))"
    using ex_api_run by (metis prod.collapse)
  from ensure_ingress_clobber_free [OF mem_client_ok subset_refl this] show ?thesis .
qed

end
