(* ===== verification/Lease.thy ===== *)
theory Lease
  imports Ingress_Status "HOL-Library.AList"
begin

text \<open>
  \<open>controller/src/lease.rs\<close> and the prune loop of \<open>controller/src/main.rs\<close>: node Leases as this process has seen
  them change, which ingress addresses have no live Lease, and one pass of the loop that removes those
  unmatched on two consecutive passes.
\<close>

section \<open>Timing\<close>

definition LEASE_DURATION :: nanos where "LEASE_DURATION = from_secs 40"
definition LEASE_RENEW :: nanos where "LEASE_RENEW = from_secs 10"
definition PRUNE_JITTER_MAX :: nanos where "PRUNE_JITTER_MAX = from_secs 5"
definition PRUNE_INTERVAL_MAX :: nanos where "PRUNE_INTERVAL_MAX = LEASE_RENEW + PRUNE_JITTER_MAX"

definition max_prune_latency :: "bool \<Rightarrow> nanos" where
  "max_prune_latency graceful =
     (if graceful then 2 * PRUNE_INTERVAL_MAX else LEASE_DURATION + 3 * PRUNE_INTERVAL_MAX)"

section \<open>Listed Leases\<close>

definition NAME_PREFIX :: string where "NAME_PREFIX = ''beep-node-''"
definition IPS_ANNOTATION :: string where "IPS_ANNOTATION = ''beep.litehop.io/node-ips''"

definition lease_name :: "string \<Rightarrow> string" where "lease_name node = NAME_PREFIX @ node"

record listed_lease =
  ll_name :: string
  ll_renew_time :: string
  ll_ips :: "string list"

text \<open>\<open>str::split\<close> on one character.\<close>

primrec split_on :: "char \<Rightarrow> string \<Rightarrow> string list" where
  "split_on c [] = [[]]"
| "split_on c (x # xs) =
     (if x = c then [] # split_on c xs
      else case split_on c xs of [] \<Rightarrow> [[x]] | p # ps \<Rightarrow> (x # p) # ps)"

definition parse_lease :: "json \<Rightarrow> listed_lease option" where
  "parse_lease item =
     (case as_str (json_path item [''metadata'', ''name'']) of
        None \<Rightarrow> None
      | Some name \<Rightarrow>
     (case as_str (json_path item [''spec'', ''renewTime'']) of
        None \<Rightarrow> None
      | Some renew_time \<Rightarrow>
          let text = (case as_str (json_path item [''metadata'', ''annotations'', IPS_ANNOTATION]) of Some t \<Rightarrow> t | None \<Rightarrow> '''')
          in Some \<lparr>ll_name = name, ll_renew_time = renew_time, ll_ips = filter (\<lambda>s. s \<noteq> '''') (split_on (CHR '','') text)\<rparr>))"

definition parse_lease_list :: "json option \<Rightarrow> listed_lease list option" where
  "parse_lease_list body =
     map_option (\<lambda>list. List.map_filter parse_lease
       (case as_array (json_at list ''items'') of Some items \<Rightarrow> items | None \<Rightarrow> [])) body"

section \<open>Writing this node's Lease\<close>

text \<open>\<open>{:0w}\<close>.\<close>

definition pad_zeros :: "nat \<Rightarrow> int \<Rightarrow> string" where
  "pad_zeros w n =
     (let digits = print_base 10 (nat \<bar>n\<bar>); sign = (if n < 0 then ''-'' else [])
      in sign @ replicate (w - length sign - length digits) (CHR ''0'') @ digits)"

text \<open>Days since the epoch to year, month and day, on 64-bit integers far from their bounds.\<close>

definition civil_from_days :: "int \<Rightarrow> int \<times> int \<times> int" where
  "civil_from_days days =
     (let z = days + 719468;
          era = z div 146097;
          doe = z mod 146097;
          yoe = (doe - doe div 1460 + doe div 36524 - doe div 146096) div 365;
          doy = doe - (365 * yoe + yoe div 4 - yoe div 100);
          mp = (5 * doy + 2) div 153;
          day = doy - (153 * mp + 2) div 5 + 1;
          month = (if mp < 10 then mp + 3 else mp - 9);
          year = yoe + era * 400 + (if month \<le> 2 then 1 else 0)
      in (year, month, day))"

text \<open>\<open>t\<close> is the time since the epoch, \<open>0\<close> for a clock before it.\<close>

definition micro_time :: "nanos \<Rightarrow> string" where
  "micro_time t =
     (let secs = t div 1000000000;
          hour = secs mod 86400 div 3600;
          minute = secs mod 3600 div 60;
          second = secs mod 60
      in case civil_from_days (int (secs div 86400)) of (year, month, day) \<Rightarrow>
           pad_zeros 4 year @ ''-'' @ pad_zeros 2 month @ ''-'' @ pad_zeros 2 day @ ''T''
           @ pad_zeros 2 (int hour) @ '':'' @ pad_zeros 2 (int minute) @ '':'' @ pad_zeros 2 (int second) @ ''.''
           @ pad_zeros 6 (int (t mod 1000000000 div 1000)) @ ''Z'')"

definition lease_body :: "string \<Rightarrow> string \<Rightarrow> ip_addr list \<Rightarrow> string \<Rightarrow> json" where
  "lease_body namespace node ips renew_time =
     JObj [(''apiVersion'', JStr ''coordination.k8s.io/v1''),
           (''kind'', JStr ''Lease''),
           (''metadata'', JObj [(''name'', JStr (lease_name node)),
                                (''namespace'', JStr namespace),
                                (''labels'', JObj [(''app.kubernetes.io/component'', JStr ''node-lease'')]),
                                (''annotations'', JObj [(IPS_ANNOTATION, JStr (join_str '','' (map ip_to_string ips)))])]),
           (''spec'', JObj [(''holderIdentity'', JStr node),
                            (''leaseDurationSeconds'', JNum 40),
                            (''renewTime'', JStr renew_time)])]"

text \<open>\<open>body["metadata"]["resourceVersion"] = v\<close>.\<close>

definition set_resource_version :: "json \<Rightarrow> json \<Rightarrow> json" where
  "set_resource_version v body =
     (case body of
        JObj kvs \<Rightarrow>
          (case json_at body ''metadata'' of
             JObj meta \<Rightarrow> JObj (AList.update ''metadata'' (JObj (AList.update ''resourceVersion'' v meta)) kvs)
           | _ \<Rightarrow> body)
      | _ \<Rightarrow> body)"

definition leases_path :: "string \<Rightarrow> string" where
  "leases_path namespace = ''/apis/coordination.k8s.io/v1/namespaces/'' @ namespace @ ''/leases''"

definition renew_lease ::
  "'s api_client \<Rightarrow> nanos \<Rightarrow> string \<Rightarrow> string \<Rightarrow> ip_addr list \<Rightarrow> 's \<Rightarrow> update_error option \<times> 's" where
  "renew_lease A now namespace node ips s =
     (let collection = leases_path namespace;
          item = collection @ ''/'' @ lease_name node;
          body = lease_body namespace node ips (micro_time now)
      in case ac_request A GET item None s of
           (None, s) \<Rightarrow> (Some NoAnswer, s)
         | (Some (status, current), s) \<Rightarrow>
             if status = NOT_FOUND
             then (case ac_request A POST collection (Some body) s of
                     (None, s) \<Rightarrow> (Some NoAnswer, s)
                   | (Some (status, _), s) \<Rightarrow> (if is_success status then None else Some (BadStatus status), s))
             else if \<not> is_success status then (Some (BadStatus status), s)
             else case current of
               None \<Rightarrow> (Some Unparsable, s)
             | Some current \<Rightarrow>
                 (case ac_request A PUT item
                    (Some (set_resource_version (json_path current [''metadata'', ''resourceVersion'']) body)) s of
                    (None, s) \<Rightarrow> (Some NoAnswer, s)
                  | (Some (status, _), s) \<Rightarrow> (if is_success status then None else Some (BadStatus status), s)))"

text \<open>The time limit on the write is left to the environment: a client that gives no answer.\<close>

definition withdraw_lease :: "'s api_client \<Rightarrow> nanos \<Rightarrow> string \<Rightarrow> string \<Rightarrow> 's \<Rightarrow> update_error option \<times> 's" where
  "withdraw_lease A now namespace node s = renew_lease A now namespace node [] s"

definition list_leases ::
  "'s api_client \<Rightarrow> string \<Rightarrow> 's \<Rightarrow> (update_error + listed_lease list) \<times> 's" where
  "list_leases A namespace s =
     (case ac_request A GET (leases_path namespace @ ''?labelSelector=app.kubernetes.io%2Fcomponent%3Dnode-lease'') None s of
        (None, s) \<Rightarrow> (Inl NoAnswer, s)
      | (Some (status, body), s) \<Rightarrow>
          if \<not> is_success status then (Inl (BadStatus status), s)
          else case parse_lease_list body of None \<Rightarrow> (Inl Unparsable, s) | Some listed \<Rightarrow> (Inr listed, s))"

section \<open>Observed Leases\<close>

record observed_lease =
  ol_renew_time :: string
  ol_ips :: "string list"
  ol_changed_at :: nanos

definition lease_is_live :: "observed_lease \<Rightarrow> nanos \<Rightarrow> bool" where
  "lease_is_live l now \<longleftrightarrow> now - ol_changed_at l < LEASE_DURATION"

record lease_tracker =
  lt_started :: nanos
  lt_leases :: "(string \<times> observed_lease) list"

definition new_tracker :: "nanos \<Rightarrow> lease_tracker" where
  "new_tracker now = \<lparr>lt_started = now, lt_leases = []\<rparr>"

text \<open>The loop of \<open>observe\<close>: a name is taken out of \<open>previous\<close> as it is met.\<close>

primrec observe_loop ::
  "nanos \<Rightarrow> listed_lease list \<Rightarrow> (string \<times> observed_lease) list \<Rightarrow> (string \<times> observed_lease) list \<Rightarrow>
   (string \<times> observed_lease) list" where
  "observe_loop now [] previous leases = leases"
| "observe_loop now (lease # listed) previous leases =
     (let changed_at = (case map_of previous (ll_name lease) of
                          Some old \<Rightarrow> if ol_renew_time old = ll_renew_time lease then ol_changed_at old else now
                        | None \<Rightarrow> now)
      in observe_loop now listed (AList.delete (ll_name lease) previous)
           (AList.update (ll_name lease)
              \<lparr>ol_renew_time = ll_renew_time lease, ol_ips = ll_ips lease, ol_changed_at = changed_at\<rparr> leases))"

definition observe :: "listed_lease list \<Rightarrow> nanos \<Rightarrow> lease_tracker \<Rightarrow> lease_tracker" where
  "observe listed now tracker = tracker\<lparr>lt_leases := observe_loop now listed (lt_leases tracker) []\<rparr>"

definition tracker_is_live :: "lease_tracker \<Rightarrow> string \<Rightarrow> nanos \<Rightarrow> bool" where
  "tracker_is_live tracker name now =
     (case map_of (lt_leases tracker) name of None \<Rightarrow> False | Some l \<Rightarrow> lease_is_live l now)"

definition warmed_up :: "lease_tracker \<Rightarrow> nanos \<Rightarrow> bool" where
  "warmed_up tracker now \<longleftrightarrow> now - lt_started tracker \<ge> LEASE_DURATION"

definition may_prune :: "lease_tracker \<Rightarrow> string \<Rightarrow> nanos \<Rightarrow> bool" where
  "may_prune tracker own_lease now \<longleftrightarrow> warmed_up tracker now \<and> tracker_is_live tracker own_lease now"

section \<open>Pruning\<close>

definition is_live_ip :: "(string \<times> observed_lease) list \<Rightarrow> nanos \<Rightarrow> string \<Rightarrow> bool" where
  "is_live_ip leases now ip \<longleftrightarrow> list_ex (\<lambda>(_, l). lease_is_live l now \<and> ip \<in> set (ol_ips l)) leases"

definition pruned_ingress :: "json list \<Rightarrow> (string \<times> observed_lease) list \<Rightarrow> nanos \<Rightarrow> json list option" where
  "pruned_ingress existing leases now =
     (let kept = filter (\<lambda>entry. case entry_ip entry of None \<Rightarrow> True | Some ip \<Rightarrow> is_live_ip leases now ip) existing
      in if length kept \<noteq> length existing then Some kept else None)"

record prune_suspects =
  su_previous :: "string set"
  su_current :: "string set"

definition end_pass :: "prune_suspects \<Rightarrow> prune_suspects" where
  "end_pass s = \<lparr>su_previous = su_current s, su_current = {}\<rparr>"

definition reset_suspects :: "prune_suspects \<Rightarrow> prune_suspects" where
  "reset_suspects s = \<lparr>su_previous = {}, su_current = {}\<rparr>"

text \<open>The filter of \<open>confirmed_pruned_ingress\<close>, which records the suspects as it goes.\<close>

primrec prune_filter ::
  "(string \<times> observed_lease) list \<Rightarrow> nanos \<Rightarrow> json list \<Rightarrow> prune_suspects \<Rightarrow> json list \<times> prune_suspects" where
  "prune_filter leases now [] suspects = ([], suspects)"
| "prune_filter leases now (entry # entries) suspects =
     (case entry_ip entry of
        None \<Rightarrow> (case prune_filter leases now entries suspects of (kept, suspects) \<Rightarrow> (entry # kept, suspects))
      | Some ip \<Rightarrow>
          if is_live_ip leases now ip
          then (case prune_filter leases now entries suspects of (kept, suspects) \<Rightarrow> (entry # kept, suspects))
          else let suspects = suspects\<lparr>su_current := insert ip (su_current suspects)\<rparr>
               in case prune_filter leases now entries suspects of
                    (kept, suspects') \<Rightarrow> (if ip \<notin> su_previous suspects then entry # kept else kept, suspects'))"

definition confirmed_pruned_ingress ::
  "(string \<times> observed_lease) list \<Rightarrow> nanos \<Rightarrow> json list \<Rightarrow> prune_suspects \<Rightarrow> json list option \<times> prune_suspects" where
  "confirmed_pruned_ingress leases now existing suspects =
     (case prune_filter leases now existing suspects of
        (kept, suspects) \<Rightarrow> (if length kept \<noteq> length existing then Some kept else None, suspects))"

section \<open>One pass of the prune loop\<close>

text \<open>What the environment supplies for a pass: the listing and when it arrived, the time read after it, and the
  Services tracked then.\<close>

record prune_pass_input =
  pp_listed :: "listed_lease list option"
  pp_observed :: nanos
  pp_now :: nanos
  pp_keys :: "(string \<times> string) list"

record 's prune_state =
  pr_tracker :: lease_tracker
  pr_suspects :: prune_suspects
  pr_api :: 's

primrec prune_services ::
  "'s api_client \<Rightarrow> (string \<times> observed_lease) list \<Rightarrow> nanos \<Rightarrow> (string \<times> string) list \<Rightarrow> prune_suspects \<times> 's \<Rightarrow>
   ((string \<times> string) \<times> update_error option) list \<times> prune_suspects \<times> 's" where
  "prune_services A leases now [] cs = ([], cs)"
| "prune_services A leases now (key # keys) cs =
     (case update_ingress A (fst key) (snd key) (confirmed_pruned_ingress leases now) cs of (r, cs) \<Rightarrow>
      case prune_services A leases now keys cs of (rs, cs) \<Rightarrow> ((key, r) # rs, cs))"

text \<open>The body of \<open>run_prune_loop\<close>, with the results it logs.\<close>

definition prune_pass ::
  "'s api_client \<Rightarrow> string \<Rightarrow> prune_pass_input \<Rightarrow> 's prune_state \<Rightarrow>
   ((string \<times> string) \<times> update_error option) list \<times> 's prune_state" where
  "prune_pass A own_lease p st =
     (case pp_listed p of
        None \<Rightarrow> ([], st)
      | Some listed \<Rightarrow>
          let tracker = observe listed (pp_observed p) (pr_tracker st);
              st = st\<lparr>pr_tracker := tracker\<rparr>
          in if \<not> may_prune tracker own_lease (pp_now p)
             then ([], st\<lparr>pr_suspects := reset_suspects (pr_suspects st)\<rparr>)
             else case prune_services A (lt_leases tracker) (pp_now p) (pp_keys p) (pr_suspects st, pr_api st) of
                    (rs, suspects, api) \<Rightarrow> (rs, st\<lparr>pr_suspects := end_pass suspects, pr_api := api\<rparr>))"

primrec prune_run ::
  "'s api_client \<Rightarrow> string \<Rightarrow> prune_pass_input list \<Rightarrow> 's prune_state \<Rightarrow> 's prune_state" where
  "prune_run A own_lease [] st = st"
| "prune_run A own_lease (p # ps) st = prune_run A own_lease ps (snd (prune_pass A own_lease p st))"

end
