(* ===== verification/Lease_Props.thy ===== *)
theory Lease_Props
  imports Lease
begin

text \<open>
  Pruning by observation: the address of a node that keeps renewing its Lease is never removed, and that of a
  node that stopped leaves the ingress list within \<open>max_prune_latency\<close>.
\<close>

section \<open>Observing\<close>

definition listed_as :: "listed_lease list \<Rightarrow> string \<rightharpoonup> listed_lease" where
  "listed_as listed = map_of (map (\<lambda>l. (ll_name l, l)) listed)"

definition observed :: "nanos \<Rightarrow> observed_lease option \<Rightarrow> listed_lease \<Rightarrow> observed_lease" where
  "observed now old l =
     \<lparr>ol_renew_time = ll_renew_time l, ol_ips = ll_ips l,
      ol_changed_at = (case old of Some o' \<Rightarrow> if ol_renew_time o' = ll_renew_time l then ol_changed_at o' else now | None \<Rightarrow> now)\<rparr>"

lemma listed_as_simps [simp]:
  "listed_as [] n = None" "listed_as (l # ls) n = (if n = ll_name l then Some l else listed_as ls n)"
  by (simp_all add: listed_as_def)

lemma listed_as_mem: "listed_as listed n = Some l \<Longrightarrow> l \<in> set listed \<and> ll_name l = n"
  by (induction listed) (auto split: if_splits)

lemma listed_as_iff: "distinct (map ll_name listed) \<Longrightarrow> l \<in> set listed \<Longrightarrow> listed_as listed (ll_name l) = Some l"
  by (induction listed) (auto simp: image_iff)

lemma observe_loop_lookup:
  assumes "distinct (map ll_name listed)"
  shows "map_of (observe_loop now listed previous leases) n =
    (case listed_as listed n of Some l \<Rightarrow> Some (observed now (map_of previous n) l) | None \<Rightarrow> map_of leases n)"
  using assms
proof (induction listed arbitrary: previous leases)
  case (Cons l listed)
  have fresh: "listed_as listed (ll_name l) = None"
  proof (cases "listed_as listed (ll_name l)")
    case (Some l')
    then show ?thesis using listed_as_mem [OF Some] Cons.prems by (force simp: image_iff)
  qed
  show ?case
  proof (cases "n = ll_name l")
    case True
    then show ?thesis using Cons.IH Cons.prems fresh by (simp add: Let_def update_conv' observed_def)
  next
    case False
    then show ?thesis using Cons.IH Cons.prems by (simp add: Let_def update_conv' delete_conv' cong: option.case_cong)
  qed
qed simp

lemma observe_loop_distinct:
  "distinct (map fst leases) \<Longrightarrow> distinct (map fst (observe_loop now listed previous leases))"
  by (induction listed arbitrary: previous leases) (simp_all add: Let_def distinct_update)

lemma observe_lookup:
  "distinct (map ll_name listed) \<Longrightarrow> map_of (lt_leases (observe listed now tracker)) n =
    map_option (observed now (map_of (lt_leases tracker) n)) (listed_as listed n)"
  by (simp add: observe_def observe_loop_lookup split: option.split)

lemma observe_mem:
  assumes "distinct (map ll_name listed)"
  shows "(n, l) \<in> set (lt_leases (observe listed now tracker)) \<longleftrightarrow>
    (\<exists>ll \<in> set listed. ll_name ll = n \<and> l = observed now (map_of (lt_leases tracker) n) ll)"
proof -
  have "distinct (map fst (lt_leases (observe listed now tracker)))"
    by (simp add: observe_def observe_loop_distinct)
  then have "(n, l) \<in> set (lt_leases (observe listed now tracker)) \<longleftrightarrow>
      map_of (lt_leases (observe listed now tracker)) n = Some l"
    by simp
  then show ?thesis
    using assms listed_as_mem listed_as_iff [OF assms] by (force simp: observe_lookup)
qed

section \<open>What a pass keeps\<close>

lemma prune_filter_spec:
  "prune_filter leases now existing suspects =
   (filter (\<lambda>e. case entry_ip e of None \<Rightarrow> True | Some ip \<Rightarrow> is_live_ip leases now ip \<or> ip \<notin> su_previous suspects) existing,
    suspects\<lparr>su_current := su_current suspects \<union> {ip \<in> listed_ips existing. \<not> is_live_ip leases now ip}\<rparr>)"
proof (induction existing arbitrary: suspects)
  case (Cons e existing)
  have "listed_ips (e # existing) = (case entry_ip e of None \<Rightarrow> {} | Some ip \<Rightarrow> {ip}) \<union> listed_ips existing"
    by (auto simp: listed_ips_def split: option.split)
  then show ?case
    by (auto simp: Cons Let_def split: option.split intro!: arg_cong [where f = "\<lambda>S. suspects\<lparr>su_current := S\<rparr>"])
qed (simp add: listed_ips_def)

text \<open>What one \<open>compute\<close> does to the suspects and to the list.\<close>

definition grown :: "prune_suspects \<Rightarrow> prune_suspects \<Rightarrow> bool" where
  "grown c c' \<longleftrightarrow> su_previous c' = su_previous c \<and> su_current c \<subseteq> su_current c'"

lemma grown_refl [simp]: "grown c c" by (simp add: grown_def)

lemma grown_trans: "grown c c' \<Longrightarrow> grown c' c'' \<Longrightarrow> grown c c''"
  by (auto simp: grown_def)

lemma compute_grown: "grown c (snd (confirmed_pruned_ingress leases now existing c))"
  by (simp add: confirmed_pruned_ingress_def prune_filter_spec grown_def)

lemma compute_suspects:
  "ip \<in> listed_ips existing \<Longrightarrow> \<not> is_live_ip leases now ip \<Longrightarrow>
   ip \<in> su_current (snd (confirmed_pruned_ingress leases now existing c))"
  by (simp add: confirmed_pruned_ingress_def prune_filter_spec)

lemma compute_removes:
  assumes "ip \<in> su_previous c" "\<not> is_live_ip leases now ip"
  shows "ip \<notin> listed_ips (case fst (confirmed_pruned_ingress leases now existing c) of None \<Rightarrow> existing | Some new \<Rightarrow> new)"
proof -
  define kept where "kept = filter (\<lambda>e. case entry_ip e of None \<Rightarrow> True
    | Some ip \<Rightarrow> is_live_ip leases now ip \<or> ip \<notin> su_previous c) existing"
  have "ip \<notin> listed_ips kept" using assms by (auto simp: kept_def listed_ips_def)
  moreover have "length kept = length existing \<Longrightarrow> kept = existing" unfolding kept_def by (rule filter_all_kept)
  ultimately show ?thesis
    by (auto simp: confirmed_pruned_ingress_def prune_filter_spec kept_def [symmetric])
qed

lemma compute_keeps:
  assumes "is_live_ip leases now ip" "confirmed_pruned_ingress leases now existing c = (Some kept, c')"
  shows "filter (\<lambda>e. entry_ip e = Some ip) kept = filter (\<lambda>e. entry_ip e = Some ip) existing"
proof -
  have "kept = filter (\<lambda>e. case entry_ip e of None \<Rightarrow> True | Some ip \<Rightarrow> is_live_ip leases now ip \<or> ip \<notin> su_previous c) existing"
    using assms(2) by (auto simp: confirmed_pruned_ingress_def prune_filter_spec split: if_splits)
  then show ?thesis using assms(1) by (auto intro: filter_cong)
qed

section \<open>The ingress list over a pass\<close>

text \<open>\<open>xs\<close> was the newest version of a list at some moment after \<open>before\<close>.\<close>

definition held :: "(string \<times> json list) list \<Rightarrow> (string \<times> json list) list \<Rightarrow> json list \<Rightarrow> bool" where
  "held before after xs \<longleftrightarrow>
     (\<exists>newer rv others since. after = newer @ (rv, xs) # others \<and> (rv, xs) # others = since @ before)"

definition log_grows :: "(string \<times> json list) list \<Rightarrow> (string \<times> json list) list \<Rightarrow> bool" where
  "log_grows before after \<longleftrightarrow> (\<exists>new. after = new @ before)"

lemma log_grows_refl [simp]: "log_grows l l" by (simp add: log_grows_def)

lemma log_grows_trans: "log_grows a b \<Longrightarrow> log_grows b c \<Longrightarrow> log_grows a c"
  unfolding log_grows_def by (metis append.assoc)

lemma held_mono:
  assumes "held b a xs" "log_grows b0 b" "log_grows a a'"
  shows "held b0 a' xs"
proof -
  obtain newer rv others since where "a = newer @ (rv, xs) # others" "(rv, xs) # others = since @ b"
    using assms(1) by (auto simp: held_def)
  moreover obtain new old where "a' = new @ a" "b = old @ b0" using assms(2,3) by (auto simp: log_grows_def)
  ultimately have "a' = (new @ newer) @ (rv, xs) # others" "(rv, xs) # others = (since @ old) @ b0" by simp_all
  then show ?thesis unfolding held_def by blast
qed

lemma atomic_held: "atomic_update before after old result \<Longrightarrow> held before after result \<and> held before after old"
proof -
  assume "atomic_update before after old result"
  then obtain newer rv others since where s: "(rv, old) # others = since @ before"
    and w: "result = old \<and> after = newer @ (rv, old) # others \<or> (\<exists>rv'. after = newer @ (rv', result) # (rv, old) # others)"
    unfolding atomic_update_def by blast
  from w show ?thesis
  proof
    assume "result = old \<and> after = newer @ (rv, old) # others"
    then show ?thesis using s unfolding held_def by blast
  next
    assume "\<exists>rv'. after = newer @ (rv', result) # (rv, old) # others"
    then obtain rv' where a: "after = newer @ (rv', result) # (rv, old) # others" by blast
    then have "after = (newer @ [(rv', result)]) @ (rv, old) # others"
      and "(rv', result) # (rv, old) # others = ((rv', result) # since) @ before" using s by simp_all
    then show ?thesis using a s unfolding held_def by blast
  qed
qed

lemma update_loop_grows:
  assumes ok: "api_ok A log" and R: "\<And>e c. R c (snd (compute e c))" "\<And>c. R c c" "\<And>c c' c''. R c c' \<Longrightarrow> R c' c'' \<Longrightarrow> R c c''"
  shows "log_grows (log s path') (log (snd (snd (update_loop A path compute n (c, s)))) path')
    \<and> R c (fst (snd (update_loop A path compute n (c, s))))"
proof (induction n arbitrary: c s)
  case (Suc n)
  obtain got s1 where get: "ac_request A GET path None s = (got, s1)" by (cases "ac_request A GET path None s")
  have g1: "log_grows (log s path') (log s1 path')"
    using api_grows [OF ok, of GET path None s path'] by (simp add: get log_grows_def)
  show ?case
  proof (cases "\<exists>status obj rv new c1. got = Some (status, Some obj) \<and> status \<noteq> NOT_FOUND \<and> is_success status
      \<and> resource_version obj = Some rv \<and> compute (ingress_of obj) c = (Some new, c1)")
    case False
    then show ?thesis using g1 R(1) [of c] R(2) [of c]
      by (auto simp: get split: option.split prod.split) (metis snd_conv)
  next
    case True
    then obtain status obj rv new c1 where got: "got = Some (status, Some obj)" "status \<noteq> NOT_FOUND" "is_success status"
        "resource_version obj = Some rv" "compute (ingress_of obj) c = (Some new, c1)" by blast
    obtain ans s2 where patch: "ac_request A PATCH (status_path path) (Some (ingress_patch rv new)) s1 = (ans, s2)"
      by (cases "ac_request A PATCH (status_path path) (Some (ingress_patch rv new)) s1")
    have g2: "log_grows (log s path') (log s2 path')"
      using api_grows [OF ok, of PATCH "status_path path" "Some (ingress_patch rv new)" s1 path'] log_grows_trans [OF g1]
      by (simp add: patch log_grows_def)
    have c1: "R c c1" using R(1) [of c "ingress_of obj"] by (simp add: got(5))
    show ?thesis
      using g2 c1 log_grows_trans [OF g2] R(3) [OF c1] Suc.IH [of s2 c1]
      by (auto simp: get got patch split: option.split)
  qed
qed (simp add: R)

text \<open>The list that \<open>compute\<close> makes of \<open>existing\<close>.\<close>

definition pruned_to where
  "pruned_to leases now existing c =
     (case fst (confirmed_pruned_ingress leases now existing c) of None \<Rightarrow> existing | Some new \<Rightarrow> new)"

definition pruned_in_pass where
  "pruned_in_pass leases now before after c c' \<longleftrightarrow>
     (\<exists>c0 old. grown c c0 \<and> grown (snd (confirmed_pruned_ingress leases now old c0)) c'
        \<and> held before after old \<and> held before after (pruned_to leases now old c0))"

lemma pruned_in_pass_mono:
  "pruned_in_pass leases now b a c c' \<Longrightarrow> log_grows b0 b \<Longrightarrow> log_grows a a' \<Longrightarrow> grown c0 c \<Longrightarrow> grown c' c'' \<Longrightarrow>
   pruned_in_pass leases now b0 a' c0 c''"
  unfolding pruned_in_pass_def by (meson grown_trans held_mono)

text \<open>The state of the last \<open>compute\<close> of a successful run grew from the one the run started with.\<close>

lemma update_loop_pruned:
  assumes ok: "api_ok A log" and "update_loop A path (confirmed_pruned_ingress leases now) n (c, s) = (None, c', s')"
  shows "pruned_in_pass leases now (log s path) (log s' path) c c'"
proof -
  have "\<exists>c0. settled (confirmed_pruned_ingress leases now) (log s path) (log s' path) c0 c' \<and> grown c c0"
    by (rule update_loop_settled_from [OF ok assms(2)]) (auto intro: compute_grown grown_trans)
  then obtain c0 where st: "settled (confirmed_pruned_ingress leases now) (log s path) (log s' path) c0 c'" "grown c c0" by blast
  from st(1) obtain old where "atomic_update (log s path) (log s' path) old (pruned_to leases now old c0)"
      "c' = snd (confirmed_pruned_ingress leases now old c0)"
    unfolding pruned_to_def by (rule settled_atomic)
  then show ?thesis
    using atomic_held st(2) unfolding pruned_in_pass_def by (metis grown_refl)
qed

lemma update_ingress_effect:
  assumes ok: "api_ok A log" and u: "update_ingress A ns name (confirmed_pruned_ingress leases now) (c, s) = (r, c', s')"
  shows "(\<forall>path. log_grows (log s path) (log s' path)) \<and> grown c c'
    \<and> (r = None \<longrightarrow> pruned_in_pass leases now (log s (service_path ns name)) (log s' (service_path ns name)) c c')"
proof -
  let ?f = "confirmed_pruned_ingress leases now" and ?p = "service_path ns name"
  have run: "update_loop A ?p ?f MAX_CONFLICT_RETRIES (c, s) = (r, c', s')" using u by (simp add: update_ingress_def)
  have "log_grows (log s path) (log s' path) \<and> grown c c'" for path
    using update_loop_grows [OF ok, of grown ?f s path ?p MAX_CONFLICT_RETRIES c] compute_grown grown_trans
    by (simp add: run)
  moreover have "pruned_in_pass leases now (log s ?p) (log s' ?p) c c'" if "r = None"
    using update_loop_pruned [OF ok, of ?p leases now MAX_CONFLICT_RETRIES c s c' s'] run that by simp
  ultimately show ?thesis by blast
qed

lemma prune_services_effect:
  assumes ok: "api_ok A log" and "prune_services A leases now keys (c, s) = (rs, c', s')"
  shows "(\<forall>path. log_grows (log s path) (log s' path)) \<and> grown c c'
    \<and> (\<forall>ns name. ((ns, name), None) \<in> set rs \<longrightarrow>
        pruned_in_pass leases now (log s (service_path ns name)) (log s' (service_path ns name)) c c')"
  using assms(2)
proof (induction keys arbitrary: c s rs)
  case (Cons key keys)
  obtain ns0 name0 where key: "key = (ns0, name0)" by (cases key)
  obtain r c1 s1 where u: "update_ingress A ns0 name0 (confirmed_pruned_ingress leases now) (c, s) = (r, c1, s1)"
    by (metis prod_cases3)
  obtain rs1 where tl: "prune_services A leases now keys (c1, s1) = (rs1, c', s')" "rs = (key, r) # rs1"
    using Cons.prems by (auto simp: key u split: prod.splits)
  note ih = Cons.IH [OF tl(1)] and up = update_ingress_effect [OF ok u]
  have "pruned_in_pass leases now (log s (service_path ns name)) (log s' (service_path ns name)) c c'"
    if "((ns, name), None) \<in> set rs" for ns name
  proof (cases "((ns, name), None) \<in> set rs1")
    case True
    with ih have "pruned_in_pass leases now (log s1 (service_path ns name)) (log s' (service_path ns name)) c1 c'" by blast
    then show ?thesis using up by (elim pruned_in_pass_mono) simp_all
  next
    case False
    then have "ns = ns0" "name = name0" "r = None" using that by (auto simp: tl(2) key)
    with up have "pruned_in_pass leases now (log s (service_path ns name)) (log s1 (service_path ns name)) c c1" by blast
    then show ?thesis using ih by (elim pruned_in_pass_mono) simp_all
  qed
  moreover have "log_grows (log s path) (log s' path)" for path using ih up log_grows_trans by blast
  moreover have "grown c c'" using ih up grown_trans by blast
  ultimately show ?case by blast
qed simp

section \<open>Runs of passes\<close>

text \<open>A pass in which a Service was updated: the listing arrived, pruning was allowed, and the address of a dead node
  is noticed or removed.\<close>

lemma pass_prunes:
  assumes ok: "api_ok A log" and upd: "((ns, name), None) \<in> set (fst (prune_pass A own p st))"
  obtains listed where "pp_listed p = Some listed"
    "pr_tracker (snd (prune_pass A own p st)) = observe listed (pp_observed p) (pr_tracker st)"
    "\<not> is_live_ip (lt_leases (observe listed (pp_observed p) (pr_tracker st))) (pp_now p) ip \<longrightarrow>
      (\<exists>xs. held (log (pr_api st) (service_path ns name)) (log (pr_api (snd (prune_pass A own p st))) (service_path ns name)) xs
        \<and> ip \<notin> listed_ips xs)
      \<or> ip \<notin> su_previous (pr_suspects st) \<and> ip \<in> su_previous (pr_suspects (snd (prune_pass A own p st)))"
proof -
  obtain listed where l: "pp_listed p = Some listed" using upd by (auto simp: prune_pass_def split: option.splits)
  let ?t = "observe listed (pp_observed p) (pr_tracker st)" and ?path = "service_path ns name"
  obtain rs c' s' where run: "prune_services A (lt_leases ?t) (pp_now p) (pp_keys p) (pr_suspects st, pr_api st) = (rs, c', s')"
    by (metis prod_cases3)
  have mp: "may_prune ?t own (pp_now p)" using upd by (auto simp: prune_pass_def l Let_def split: if_splits)
  have out: "prune_pass A own p st = (rs, st\<lparr>pr_tracker := ?t, pr_suspects := end_pass c', pr_api := s'\<rparr>)"
    using mp run by (simp add: prune_pass_def l Let_def)
  have "pruned_in_pass (lt_leases ?t) (pp_now p) (log (pr_api st) ?path) (log s' ?path) (pr_suspects st) c'"
    using prune_services_effect [OF ok run] upd by (simp add: out)
  then obtain c0 old where c0: "grown (pr_suspects st) c0" "grown (snd (confirmed_pruned_ingress (lt_leases ?t) (pp_now p) old c0)) c'"
    and h: "held (log (pr_api st) ?path) (log s' ?path) old"
      "held (log (pr_api st) ?path) (log s' ?path) (pruned_to (lt_leases ?t) (pp_now p) old c0)"
    unfolding pruned_in_pass_def by blast
  have "(\<exists>xs. held (log (pr_api st) ?path) (log s' ?path) xs \<and> ip \<notin> listed_ips xs)
      \<or> ip \<notin> su_previous (pr_suspects st) \<and> ip \<in> su_current c'"
    if dead: "\<not> is_live_ip (lt_leases ?t) (pp_now p) ip"
  proof (cases "ip \<in> listed_ips old \<and> ip \<notin> su_previous (pr_suspects st)")
    case True
    then have "ip \<in> su_current c'" using compute_suspects [of ip old "lt_leases ?t" "pp_now p" c0] dead c0(2) by (auto simp: grown_def)
    then show ?thesis using True by blast
  next
    case False
    have "ip \<notin> listed_ips (pruned_to (lt_leases ?t) (pp_now p) old c0)" if "ip \<in> su_previous (pr_suspects st)"
      unfolding pruned_to_def using compute_removes [of ip c0] dead that c0(1) by (simp add: grown_def)
    then show ?thesis using False h by blast
  qed
  then show ?thesis using that [OF l] by (simp add: out end_pass_def)
qed

lemma prune_run_append: "prune_run A own (ps @ qs) st = prune_run A own qs (prune_run A own ps st)"
  by (induction ps arbitrary: st) simp_all

lemma prune_run_Suc:
  "i < length ps \<Longrightarrow> prune_run A own (take (Suc i) ps) st = snd (prune_pass A own (ps ! i) (prune_run A own (take i ps) st))"
  by (simp add: take_Suc_conv_app_nth prune_run_append)

lemma prune_pass_log:
  assumes "api_ok A log"
  shows "log_grows (log (pr_api st) path) (log (pr_api (snd (prune_pass A own p st))) path)"
proof -
  have svc: "log_grows (log s path) (log s' path)" if "prune_services A leases now keys (c, s) = (rs, c', s')"
    for leases now keys c s rs c' s'
    using prune_services_effect [OF assms that] by blast
  show ?thesis by (auto simp: prune_pass_def Let_def split: option.split prod.split dest: svc)
qed

lemma prune_run_log:
  assumes "api_ok A log"
  shows "log_grows (log (pr_api st) path) (log (pr_api (prune_run A own ps st)) path)"
proof (induction ps arbitrary: st)
  case (Cons p ps)
  from log_grows_trans [OF prune_pass_log [OF assms] Cons] show ?case by simp
qed simp

text \<open>The passes of a run: the listing of a Service succeeded in each, and no Lease that carries the address is renewed
  after the first.\<close>

definition dead_since_first :: "prune_pass_input list \<Rightarrow> string \<Rightarrow> bool" where
  "dead_since_first ps ip \<longleftrightarrow>
     (\<forall>i. Suc i < length ps \<longrightarrow> (\<forall>l \<in> set (the (pp_listed (ps ! Suc i))). ip \<in> set (ll_ips l) \<longrightarrow>
        l \<in> set (the (pp_listed (ps ! i)))))"

definition updated_each :: "'s api_client \<Rightarrow> string \<Rightarrow> prune_pass_input list \<Rightarrow> 's prune_state \<Rightarrow> string \<times> string \<Rightarrow> bool" where
  "updated_each A own ps st key \<longleftrightarrow>
     (\<forall>i < length ps. (key, None) \<in> set (fst (prune_pass A own (ps ! i) (prune_run A own (take i ps) st))))"

definition names_distinct :: "prune_pass_input list \<Rightarrow> bool" where
  "names_distinct ps \<longleftrightarrow> (\<forall>p \<in> set ps. \<forall>listed. pp_listed p = Some listed \<longrightarrow> distinct (map ll_name listed))"

text \<open>The clock of the loop: time does not run back, and two passes are at most \<open>PRUNE_INTERVAL_MAX\<close> apart.\<close>

definition paced :: "prune_pass_input list \<Rightarrow> bool" where
  "paced ps \<longleftrightarrow> (\<forall>p \<in> set ps. pp_observed p \<le> pp_now p)
     \<and> (\<forall>i. Suc i < length ps \<longrightarrow> pp_now (ps ! i) \<le> pp_now (ps ! Suc i)
          \<and> pp_now (ps ! Suc i) \<le> pp_now (ps ! i) + PRUNE_INTERVAL_MAX)"

lemma updated_pass:
  assumes ok: "api_ok A log" and upd: "updated_each A own ps st key" and dist: "names_distinct ps" and j: "j < length ps"
  shows "\<exists>listed. pp_listed (ps ! j) = Some listed \<and> distinct (map ll_name listed)
    \<and> pr_tracker (prune_run A own (take (Suc j) ps) st) =
      observe listed (pp_observed (ps ! j)) (pr_tracker (prune_run A own (take j ps) st))"
proof -
  let ?st = "prune_run A own (take j ps) st"
  have "((fst key, snd key), None) \<in> set (fst (prune_pass A own (ps ! j) ?st))" using upd j by (simp add: updated_each_def)
  then obtain listed where listed: "pp_listed (ps ! j) = Some listed"
      "pr_tracker (snd (prune_pass A own (ps ! j) ?st)) = observe listed (pp_observed (ps ! j)) (pr_tracker ?st)"
    by (rule pass_prunes [OF ok])
  have "distinct (map ll_name listed)" using dist j listed(1) nth_mem by (fastforce simp: names_distinct_def)
  then show ?thesis using listed prune_run_Suc [OF j] by metis
qed

lemma silent_lease_ages:
  assumes ok: "api_ok A log" and upd: "updated_each A own ps st key" and dist: "names_distinct ps" and dead: "dead_since_first ps ip"
    and start: "\<forall>(n, l) \<in> set (lt_leases (pr_tracker st)). ol_changed_at l \<le> pp_observed (ps ! 0)"
    and "i < length ps" "(n, l) \<in> set (lt_leases (pr_tracker (prune_run A own (take (Suc i) ps) st)))" "ip \<in> set (ol_ips l)"
  shows "ol_changed_at l \<le> pp_observed (ps ! 0)"
  using assms(6-8)
proof (induction i arbitrary: n l)
  case (0 n l)
  obtain listed where d: "distinct (map ll_name listed)"
    and tr: "pr_tracker (prune_run A own (take (Suc 0) ps) st) = observe listed (pp_observed (ps ! 0)) (pr_tracker st)"
    using updated_pass [OF ok upd dist 0(1)] by auto
  obtain ll where "l = observed (pp_observed (ps ! 0)) (map_of (lt_leases (pr_tracker st)) n) ll"
    using 0(2) unfolding tr observe_mem [OF d] by blast
  then show ?case using start by (auto simp: observed_def split: option.split dest!: map_of_SomeD)
next
  case (Suc i n l)
  let ?st = "\<lambda>j. prune_run A own (take j ps) st"
  have i: "i < length ps" using Suc.prems(1) by simp
  note pass = updated_pass [OF ok upd dist]
  obtain listed where listed: "pp_listed (ps ! Suc i) = Some listed" "distinct (map ll_name listed)"
      "pr_tracker (?st (Suc (Suc i))) = observe listed (pp_observed (ps ! Suc i)) (pr_tracker (?st (Suc i)))"
    using pass [OF Suc.prems(1)] by blast
  obtain before where before: "pp_listed (ps ! i) = Some before" "distinct (map ll_name before)"
      "pr_tracker (?st (Suc i)) = observe before (pp_observed (ps ! i)) (pr_tracker (?st i))"
    using pass [OF i] by blast
  obtain ll where ll: "ll \<in> set listed" "ll_name ll = n"
      "l = observed (pp_observed (ps ! Suc i)) (map_of (lt_leases (pr_tracker (?st (Suc i)))) n) ll"
    using Suc.prems(2) unfolding listed(3) observe_mem [OF listed(2)] by blast
  have "ip \<in> set (ll_ips ll)" using Suc.prems(3) by (simp add: ll(3) observed_def)
  then have mem: "ll \<in> set before"
    using dead Suc.prems(1) ll(1) listed(1) before(1) by (fastforce simp: dead_since_first_def)
  let ?l = "observed (pp_observed (ps ! i)) (map_of (lt_leases (pr_tracker (?st i))) n) ll"
  have look: "map_of (lt_leases (pr_tracker (?st (Suc i)))) n = Some ?l"
    using listed_as_iff [OF before(2) mem] ll(2) by (simp add: before(3) observe_lookup [OF before(2)])
  have "ol_changed_at ?l \<le> pp_observed (ps ! 0)"
  proof (rule Suc.IH [OF i, of n ?l])
    show "(n, ?l) \<in> set (lt_leases (pr_tracker (?st (Suc i))))" using look by (rule map_of_SomeD)
    show "ip \<in> set (ol_ips ?l)" using \<open>ip \<in> set (ll_ips ll)\<close> by (simp add: observed_def)
  qed
  moreover have "ol_changed_at l = ol_changed_at ?l" unfolding ll(3) look by (simp add: observed_def)
  ultimately show ?case by simp
qed

text \<open>One pass after the expiry: a version without the address is seen, or the address is a confirmed suspect for the
  next pass.\<close>

lemma expired_pass:
  assumes ok: "api_ok A log" and upd: "updated_each A own ps st (ns, name)" and dist: "names_distinct ps" and dead: "dead_since_first ps ip"
    and start: "\<forall>(n, l) \<in> set (lt_leases (pr_tracker st)). ol_changed_at l \<le> pp_observed (ps ! 0)"
    and i: "i < length ps" and late: "pp_observed (ps ! 0) + LEASE_DURATION \<le> pp_now (ps ! i)"
  shows "(\<exists>xs. held (log (pr_api st) (service_path ns name)) (log (pr_api (prune_run A own (take (Suc i) ps) st)) (service_path ns name)) xs
      \<and> ip \<notin> listed_ips xs)
    \<or> ip \<notin> su_previous (pr_suspects (prune_run A own (take i ps) st))
      \<and> ip \<in> su_previous (pr_suspects (prune_run A own (take (Suc i) ps) st))"
proof -
  let ?st = "prune_run A own (take i ps) st" and ?st' = "prune_run A own (take (Suc i) ps) st" and ?path = "service_path ns name"
  have "((ns, name), None) \<in> set (fst (prune_pass A own (ps ! i) ?st))" using upd i by (simp add: updated_each_def)
  then obtain listed where "pp_listed (ps ! i) = Some listed" and tr: "pr_tracker ?st' = observe listed (pp_observed (ps ! i)) (pr_tracker ?st)"
    and seen: "\<not> is_live_ip (lt_leases (observe listed (pp_observed (ps ! i)) (pr_tracker ?st))) (pp_now (ps ! i)) ip \<longrightarrow>
      (\<exists>xs. held (log (pr_api ?st) ?path) (log (pr_api ?st') ?path) xs \<and> ip \<notin> listed_ips xs)
      \<or> ip \<notin> su_previous (pr_suspects ?st) \<and> ip \<in> su_previous (pr_suspects ?st')"
    unfolding prune_run_Suc [OF i] by (rule pass_prunes [OF ok, where ip = ip])
  have "\<not> is_live_ip (lt_leases (pr_tracker ?st')) (pp_now (ps ! i)) ip"
  proof
    assume "is_live_ip (lt_leases (pr_tracker ?st')) (pp_now (ps ! i)) ip"
    then obtain n l where l: "(n, l) \<in> set (lt_leases (pr_tracker ?st'))" "ip \<in> set (ol_ips l)" "lease_is_live l (pp_now (ps ! i))"
      by (auto simp: is_live_ip_def list_ex_iff)
    have "ol_changed_at l \<le> pp_observed (ps ! 0)" by (rule silent_lease_ages [OF ok upd dist dead start i l(1,2)])
    then show False using l(3) late by (simp add: lease_is_live_def)
  qed
  with seen tr have "(\<exists>xs. held (log (pr_api ?st) ?path) (log (pr_api ?st') ?path) xs \<and> ip \<notin> listed_ips xs)
      \<or> ip \<notin> su_previous (pr_suspects ?st) \<and> ip \<in> su_previous (pr_suspects ?st')" by simp
  then show ?thesis using held_mono prune_run_log [OF ok] log_grows_refl by meson
qed

text \<open>The first pass after the expiry comes early enough, and another one follows.\<close>

lemma expiry_noticed:
  assumes "paced ps" "ps \<noteq> []" "pp_now (ps ! 0) \<le> t0 + PRUNE_INTERVAL_MAX" "t0 + max_prune_latency False \<le> pp_now (last ps)"
  obtains j where "Suc j < length ps" "pp_observed (ps ! 0) + LEASE_DURATION \<le> pp_now (ps ! j)"
    "pp_now (ps ! j) \<le> pp_now (ps ! Suc j)" "pp_now (ps ! Suc j) \<le> t0 + max_prune_latency False"
proof -
  let ?late = "\<lambda>j. j < length ps \<and> pp_observed (ps ! 0) + LEASE_DURATION \<le> pp_now (ps ! j)"
  have pos: "0 < PRUNE_INTERVAL_MAX" by (simp add: PRUNE_INTERVAL_MAX_def LEASE_RENEW_def from_secs_def)
  have lat: "max_prune_latency False = LEASE_DURATION + 3 * PRUNE_INTERVAL_MAX" by (simp add: max_prune_latency_def)
  have "ps ! 0 \<in> set ps" using assms(2) by (cases ps) auto
  then have o0: "pp_observed (ps ! 0) \<le> pp_now (ps ! 0)" using assms(1) by (simp add: paced_def)
  have last: "last ps = ps ! (length ps - 1)" using assms(2) by (rule last_conv_nth)
  then have "?late (length ps - 1)" using assms(2-4) o0 lat by (cases ps) auto
  define j where "j = (LEAST j. ?late j)"
  have j: "?late j" unfolding j_def by (rule LeastI) (rule \<open>?late (length ps - 1)\<close>)
  have up: "pp_now (ps ! j) \<le> t0 + LEASE_DURATION + 2 * PRUNE_INTERVAL_MAX"
  proof (cases j)
    case 0
    then show ?thesis using assms(3) by simp
  next
    case (Suc i)
    then have "\<not> ?late i" using not_less_Least [of i ?late] by (simp add: j_def)
    then have "pp_now (ps ! i) < pp_observed (ps ! 0) + LEASE_DURATION" using j Suc by simp
    moreover have "pp_now (ps ! Suc i) \<le> pp_now (ps ! i) + PRUNE_INTERVAL_MAX" using assms(1) j Suc by (simp add: paced_def)
    ultimately show ?thesis using o0 assms(3) Suc by simp
  qed
  have "j \<noteq> length ps - 1" using up assms(4) last lat pos by auto
  then have "Suc j < length ps" using j by linarith
  moreover from this have "pp_now (ps ! j) \<le> pp_now (ps ! Suc j)" "pp_now (ps ! Suc j) \<le> pp_now (ps ! j) + PRUNE_INTERVAL_MAX"
    using assms(1) by (simp_all add: paced_def)
  ultimately show ?thesis using that [of j] j up lat by simp
qed


section \<open>A node that dies\<close>

lemma updated_each_Cons [simp]:
  "updated_each A own [] st key"
  "updated_each A own (p # ps) st key \<longleftrightarrow>
     (key, None) \<in> set (fst (prune_pass A own p st)) \<and> updated_each A own ps (snd (prune_pass A own p st)) key"
  by (simp_all add: updated_each_def All_less_Suc2)

lemma dead_since_first_Cons [simp]:
  "dead_since_first [p] ip"
  "dead_since_first (p # q # ps) ip \<longleftrightarrow>
     (\<forall>l \<in> set (the (pp_listed q)). ip \<in> set (ll_ips l) \<longrightarrow> l \<in> set (the (pp_listed p))) \<and> dead_since_first (q # ps) ip"
  by (simp_all add: dead_since_first_def All_less_Suc2)

lemma paced_Cons [simp]:
  "paced [p] \<longleftrightarrow> pp_observed p \<le> pp_now p"
  "paced (p # q # ps) \<longleftrightarrow> pp_observed p \<le> pp_now p \<and> pp_now p \<le> pp_now q
     \<and> pp_now q \<le> pp_now p + PRUNE_INTERVAL_MAX \<and> paced (q # ps)"
  by (auto simp: paced_def All_less_Suc2)

text \<open>This node's Lease is renewed before every pass; the other node's is not.\<close>

definition ex_pass :: "nat \<Rightarrow> string \<Rightarrow> prune_pass_input" where
  "ex_pass t renewed =
     \<lparr>pp_listed = Some [\<lparr>ll_name = ''me'', ll_renew_time = renewed, ll_ips = []\<rparr>,
                       \<lparr>ll_name = ''dead'', ll_renew_time = ''r'', ll_ips = [''ip'']\<rparr>],
      pp_observed = from_secs t, pp_now = from_secs t, pp_keys = [(''n'', ''s'')]\<rparr>"

definition ex_passes :: "prune_pass_input list" where
  "ex_passes = [ex_pass 115 ''a'', ex_pass 130 ''b'', ex_pass 145 ''c'', ex_pass 160 ''d'', ex_pass 175 ''e'', ex_pass 190 ''f'']"

definition ex_prune :: "mem_api prune_state" where
  "ex_prune = \<lparr>pr_tracker = new_tracker 0, pr_suspects = \<lparr>su_previous = {}, su_current = {}\<rparr>,
     pr_api = \<lparr>ap_lists = (\<lambda>p. [[JObj [(''ip'', JStr ''ip'')]]]), ap_others = []\<rparr>\<rparr>"

lemma mem_get:
  "ap_others s = [] \<Longrightarrow> ac_request mem_client GET path None s =
   (case ap_lists s path of [] \<Rightarrow> (Some (NOT_FOUND, None), s)
    | x # xs \<Rightarrow> (Some (200, Some (ingress_patch (version_name (length xs)) x)), s))"
  by (simp add: mem_client_def ap_interfere_def)

lemma mem_patch:
  "ap_others s = [] \<Longrightarrow> ap_lists s path = x # xs \<Longrightarrow>
   ac_request mem_client PATCH (status_path path) (Some (ingress_patch (version_name (length xs)) y)) s =
   (Some (200, None), ap_push path y s)"
  by (simp add: mem_client_def ap_interfere_def status_path_def)

lemma mem_update:
  assumes "ap_others s = []" "ap_lists s (service_path ns name) = x # xs"
  shows "update_ingress mem_client ns name f (c, s) =
    (case f x c of (None, c') \<Rightarrow> (None, c', s) | (Some y, c') \<Rightarrow> (None, c', ap_push (service_path ns name) y s))"
proof -
  have retries: "MAX_CONFLICT_RETRIES = Suc 4" by (simp add: MAX_CONFLICT_RETRIES_def)
  show ?thesis
    unfolding update_ingress_def retries update_loop.simps
    using assms by (simp add: mem_get mem_patch is_success_def NOT_FOUND_def split: prod.split option.split)
qed

text \<open>The state after a pass at \<open>t\<close>: what is suspected, and the versions of the list.\<close>

definition ex_at :: "nat \<Rightarrow> string \<Rightarrow> string set \<Rightarrow> (string \<Rightarrow> json list list) \<Rightarrow> mem_api prune_state" where
  "ex_at t renewed suspected versions =
     \<lparr>pr_tracker = \<lparr>lt_started = 0, lt_leases =
        [(''me'', \<lparr>ol_renew_time = renewed, ol_ips = [], ol_changed_at = from_secs t\<rparr>),
         (''dead'', \<lparr>ol_renew_time = ''r'', ol_ips = [''ip''], ol_changed_at = from_secs 115\<rparr>)]\<rparr>,
      pr_suspects = \<lparr>su_previous = suspected, su_current = {}\<rparr>, pr_api = \<lparr>ap_lists = versions, ap_others = []\<rparr>\<rparr>"

abbreviation ex_entries :: "json list" where "ex_entries \<equiv> [JObj [(''ip'', JStr ''ip'')]]"

lemma ex_first: "prune_pass mem_client ''me'' (ex_pass 115 ''a'') ex_prune =
    ([((''n'', ''s''), None)], ex_at 115 ''a'' {} (\<lambda>p. [ex_entries]))"
  by (simp add: prune_pass_def ex_pass_def ex_prune_def new_tracker_def observe_def may_prune_def warmed_up_def tracker_is_live_def
    lease_is_live_def LEASE_DURATION_def from_secs_def mem_update confirmed_pruned_ingress_def is_live_ip_def entry_ip_def
    end_pass_def ex_at_def)

lemma ex_step:
  assumes "r' \<noteq> r" "115 \<le> t" "versions (service_path ''n'' ''s'') = ex_entries # xs"
  shows "prune_pass mem_client ''me'' (ex_pass t r') (ex_at t' r suspected versions) =
    ([((''n'', ''s''), None)],
     if t < 155 then ex_at t r' {} versions
     else if ''ip'' \<in> suspected then ex_at t r' {''ip''} (versions(service_path ''n'' ''s'' := [] # ex_entries # xs))
     else ex_at t r' {''ip''} versions)"
proof -
  let ?d = "\<lparr>ol_renew_time = ''r'', ol_ips = [''ip''], ol_changed_at = from_secs 115\<rparr>"
  have live: "lease_is_live ?d (from_secs t) \<longleftrightarrow> t < 155" using assms(2) by (auto simp: lease_is_live_def LEASE_DURATION_def from_secs_def)
  show ?thesis
    using assms live
    by (simp add: prune_pass_def ex_pass_def observe_def may_prune_def warmed_up_def tracker_is_live_def lease_is_live_def
      LEASE_DURATION_def from_secs_def mem_update confirmed_pruned_ingress_def is_live_ip_def entry_ip_def
      end_pass_def ex_at_def ap_push_def)
qed

lemma ex_gone:
  assumes "r' \<noteq> r" "115 \<le> t" "versions (service_path ''n'' ''s'') = [] # xs"
  shows "prune_pass mem_client ''me'' (ex_pass t r') (ex_at t' r suspected versions) =
    ([((''n'', ''s''), None)], ex_at t r' {} versions)"
  using assms
  by (simp add: prune_pass_def ex_pass_def observe_def may_prune_def warmed_up_def tracker_is_live_def lease_is_live_def
    LEASE_DURATION_def from_secs_def mem_update confirmed_pruned_ingress_def end_pass_def ex_at_def)

lemma ex_updated: "updated_each mem_client ''me'' ex_passes ex_prune (''n'', ''s'')"
  by (simp add: ex_passes_def ex_first ex_step ex_gone)


section \<open>A node that renews\<close>

lemma prune_pass_tracker:
  "pr_tracker (snd (prune_pass A own p st)) =
   (case pp_listed p of None \<Rightarrow> pr_tracker st | Some listed \<Rightarrow> observe listed (pp_observed p) (pr_tracker st))"
  by (simp add: prune_pass_def Let_def split: option.split prod.split)

text \<open>Where a tracked Lease comes from: \<open>changed_at\<close> is the time of a pass that listed just that renew time.\<close>

lemma tracked_lease_seen:
  assumes "names_distinct ps" "lt_leases (pr_tracker st) = []"
    and "(n, l) \<in> set (lt_leases (pr_tracker (prune_run A own ps st)))"
  shows "\<exists>q \<in> set ps. \<exists>qs. pp_listed q = Some qs \<and> ol_changed_at l = pp_observed q
    \<and> (\<exists>ll \<in> set qs. ll_name ll = n \<and> ll_renew_time ll = ol_renew_time l)"
  using assms
proof (induction ps arbitrary: n l rule: rev_induct)
  case (snoc p ps)
  have dist: "names_distinct ps" using snoc.prems(1) by (simp add: names_distinct_def)
  have IH: "\<exists>q \<in> set ps. \<exists>qs. pp_listed q = Some qs \<and> ol_changed_at l = pp_observed q
      \<and> (\<exists>ll \<in> set qs. ll_name ll = n \<and> ll_renew_time ll = ol_renew_time l)"
    if "(n, l) \<in> set (lt_leases (pr_tracker (prune_run A own ps st)))" for n l
    by (rule snoc.IH [OF dist snoc.prems(2) that])
  show ?case
  proof (cases "pp_listed p")
    case None
    then show ?thesis using IH snoc.prems(3) by (simp add: prune_run_append prune_pass_tracker)
  next
    case (Some listed)
    let ?old = "map_of (lt_leases (pr_tracker (prune_run A own ps st))) n"
    have d: "distinct (map ll_name listed)" using snoc.prems(1) Some by (simp add: names_distinct_def)
    obtain ll where ll: "ll \<in> set listed" "ll_name ll = n" "l = observed (pp_observed p) ?old ll"
      using snoc.prems(3) by (auto simp: prune_run_append prune_pass_tracker Some observe_mem [OF d])
    show ?thesis
    proof (cases "\<exists>o'. ?old = Some o' \<and> ol_renew_time o' = ll_renew_time ll")
      case True
      then obtain o' where o: "?old = Some o'" "ol_renew_time o' = ll_renew_time ll" by blast
      then have "ol_changed_at l = ol_changed_at o'" "ol_renew_time l = ol_renew_time o'" by (simp_all add: ll(3) observed_def)
      then show ?thesis using IH [OF map_of_SomeD [OF o(1)]] by auto
    next
      case False
      then have "ol_changed_at l = pp_observed p" "ol_renew_time l = ll_renew_time ll"
        by (auto simp: ll(3) observed_def split: option.split)
      then show ?thesis using ll(1,2) Some by (intro bexI [of _ p]) auto
    qed
  qed
qed simp

text \<open>C40: a controller does not remove the address of a node that renews. If the last listing carries the address in
  a Lease whose renew time the controller had not seen a full \<open>LEASE_DURATION\<close> ago, then whatever ingress list that
  pass reads, and whatever it suspects, the list it writes back keeps every entry with the address.\<close>

theorem renewing_node_kept:
  assumes "names_distinct (ps @ [p])" "lt_leases (pr_tracker st) = []"
    and "pp_listed p = Some listed" "ll \<in> set listed" "ip \<in> set (ll_ips ll)"
    and "pp_now p < pp_observed p + LEASE_DURATION"
    and "\<forall>q \<in> set ps. \<forall>qs. pp_listed q = Some qs \<and> pp_observed q + LEASE_DURATION \<le> pp_now p \<longrightarrow>
      (\<forall>l \<in> set qs. ll_name l = ll_name ll \<longrightarrow> ll_renew_time l \<noteq> ll_renew_time ll)"
    and "confirmed_pruned_ingress (lt_leases (pr_tracker (prune_run A own (ps @ [p]) st))) (pp_now p) existing c = (Some kept, c')"
  shows "filter (\<lambda>e. entry_ip e = Some ip) kept = filter (\<lambda>e. entry_ip e = Some ip) existing"
proof (rule compute_keeps [OF _ assms(8)])
  let ?old = "map_of (lt_leases (pr_tracker (prune_run A own ps st))) (ll_name ll)"
  let ?l = "observed (pp_observed p) ?old ll"
  have d: "distinct (map ll_name listed)" using assms(1,3) by (simp add: names_distinct_def)
  have mem: "(ll_name ll, ?l) \<in> set (lt_leases (pr_tracker (prune_run A own (ps @ [p]) st)))"
    using assms(4) by (auto simp: prune_run_append prune_pass_tracker assms(3) observe_mem [OF d])
  have renew: "ol_renew_time ?l = ll_renew_time ll" "ol_ips ?l = ll_ips ll" by (simp_all add: observed_def)
  obtain q qs l where q: "q \<in> set (ps @ [p])" "pp_listed q = Some qs" "ol_changed_at ?l = pp_observed q"
      "l \<in> set qs" "ll_name l = ll_name ll" "ll_renew_time l = ll_renew_time ll"
    using tracked_lease_seen [OF assms(1,2) mem] renew(1) by metis
  have "pp_now p < pp_observed q + LEASE_DURATION"
  proof (cases "q \<in> set ps")
    case True
    then show ?thesis using assms(7) q not_le by blast
  next
    case False
    then show ?thesis using q(1) assms(6) by simp
  qed
  moreover have "0 < LEASE_DURATION" by (simp add: LEASE_DURATION_def from_secs_def)
  ultimately have "lease_is_live ?l (pp_now p)" using q(3) by (simp add: lease_is_live_def)
  then show "is_live_ip (lt_leases (pr_tracker (prune_run A own (ps @ [p]) st))) (pp_now p) ip"
    using mem assms(5) renew(2) by (auto simp: is_live_ip_def list_ex_iff)
qed

text \<open>In the run above the other node is still kept 30 seconds after its last renewal.\<close>

theorem renewing_node_kept_witness:
  "filter (\<lambda>e. entry_ip e = Some ''ip'')
     (case fst (confirmed_pruned_ingress
        (lt_leases (pr_tracker (prune_run mem_client ''me'' [ex_pass 115 ''a'', ex_pass 130 ''b'', ex_pass 145 ''c''] ex_prune)))
        (from_secs 145) [JObj [(''ip'', JStr ''gone'')], JObj [(''ip'', JStr ''ip'')]]
        \<lparr>su_previous = {''ip'', ''gone''}, su_current = {}\<rparr>)
      of None \<Rightarrow> [] | Some kept \<Rightarrow> kept) = [JObj [(''ip'', JStr ''ip'')]]"
proof -
  let ?c = "\<lparr>su_previous = {''ip'', ''gone''}, su_current = {}\<rparr>" and ?es = "[JObj [(''ip'', JStr ''gone'')], JObj [(''ip'', JStr ''ip'')]]"
  let ?run = "prune_run mem_client ''me'' ([ex_pass 115 ''a'', ex_pass 130 ''b''] @ [ex_pass 145 ''c'']) ex_prune"
  have run: "?run = ex_at 145 ''c'' {} (\<lambda>p. [ex_entries])" by (simp add: ex_first ex_step)
  obtain kept c' where kept: "confirmed_pruned_ingress (lt_leases (pr_tracker ?run)) (pp_now (ex_pass 145 ''c'')) ?es ?c = (Some kept, c')"
    unfolding run
    by (simp add: confirmed_pruned_ingress_def ex_at_def ex_pass_def is_live_ip_def lease_is_live_def LEASE_DURATION_def from_secs_def entry_ip_def)
  have "filter (\<lambda>e. entry_ip e = Some ''ip'') kept = filter (\<lambda>e. entry_ip e = Some ''ip'') ?es"
    by (rule renewing_node_kept [OF _ _ _ _ _ _ _ kept, where ll = "\<lparr>ll_name = ''dead'', ll_renew_time = ''r'', ll_ips = [''ip'']\<rparr>"
        and listed = "[\<lparr>ll_name = ''me'', ll_renew_time = ''c'', ll_ips = []\<rparr>, \<lparr>ll_name = ''dead'', ll_renew_time = ''r'', ll_ips = [''ip'']\<rparr>]"])
       (simp_all add: names_distinct_def ex_pass_def ex_prune_def new_tracker_def LEASE_DURATION_def from_secs_def)
  then show ?thesis using kept by (simp add: ex_pass_def entry_ip_def)
qed

end
