(* ===== verification/Hash_Order.thy ===== *)
theory Hash_Order
  imports Beep_Prelude "HOL-Library.List_Lexorder"
begin

text \<open>
  \<open>std::collections::HashMap\<close> and \<open>HashSet\<close> are maps and sets here. A loop over one visits its elements in
  an order the standard library leaves open, so a definition that loops takes that order as an argument: a
  function from the set of keys to the list of them. \<open>enumerates\<close> is all that is known about it.
\<close>

definition enumerates :: "('a set \<Rightarrow> 'a list) \<Rightarrow> bool" where
  "enumerates it \<longleftrightarrow> (\<forall>S. finite S \<longrightarrow> set (it S) = S \<and> distinct (it S))"

text \<open>\<open>map.iter()\<close> and \<open>map.values()\<close>.\<close>

definition entries_of :: "('k set \<Rightarrow> 'k list) \<Rightarrow> ('k \<rightharpoonup> 'v) \<Rightarrow> ('k \<times> 'v) list" where
  "entries_of it m = map (\<lambda>k. (k, the (m k))) (it (dom m))"

definition values_of :: "('k set \<Rightarrow> 'k list) \<Rightarrow> ('k \<rightharpoonup> 'v) \<Rightarrow> 'v list" where
  "values_of it m = map snd (entries_of it m)"

lemma enumerates_set: "enumerates it \<Longrightarrow> finite S \<Longrightarrow> set (it S) = S"
  by (simp add: enumerates_def)

lemma enumerates_distinct: "enumerates it \<Longrightarrow> finite S \<Longrightarrow> distinct (it S)"
  by (simp add: enumerates_def)

lemma entries_of_iff:
  assumes "enumerates it" "finite (dom m)"
  shows "(k, v) \<in> set (entries_of it m) \<longleftrightarrow> m k = Some v"
  using assms by (force simp: entries_of_def enumerates_set)

lemma map_of_entries_of:
  assumes "enumerates it" "finite (dom m)"
  shows "map_of (entries_of it m) = m"
proof
  fix k
  have "map fst (entries_of it m) = it (dom m)" by (simp add: entries_of_def comp_def)
  then have "distinct (map fst (entries_of it m))" using assms by (simp add: enumerates_distinct)
  then have "map_of (entries_of it m) k = Some v \<longleftrightarrow> m k = Some v" for v
    using entries_of_iff [OF assms] by simp
  then show "map_of (entries_of it m) k = m k" by (metis option.exhaust)
qed

lemma values_of_iff:
  assumes "enumerates it" "finite (dom m)"
  shows "v \<in> set (values_of it m) \<longleftrightarrow> v \<in> ran m"
  using entries_of_iff [OF assms] by (force simp: values_of_def ran_def)

lemma entries_of_empty: "enumerates it \<Longrightarrow> entries_of it Map.empty = []"
  using enumerates_set [of it "{}"] by (simp add: entries_of_def)

text \<open>Keys visited in increasing order.\<close>

lemma enumerates_sorted: "enumerates (sorted_list_of_set :: 'a :: linorder set \<Rightarrow> 'a list)"
  by (simp add: enumerates_def)

text \<open>The same for keys that embed into an ordered type.\<close>

lemma enumerates_via:
  fixes enc :: "'a \<Rightarrow> 'b :: linorder"
  assumes "\<And>x. dec (enc x) = x"
  shows "enumerates (\<lambda>S. map dec (sorted_list_of_set (enc ` S)))"
  using assms by (auto simp: enumerates_def image_image distinct_map inj_on_def)

end
