(* ===== verification/Apply_Entries.thy ===== *)
theory Apply_Entries
  imports Conntrack_Sweep Reconcile Hash_Order
begin

text \<open>
  \<open>controller/src/apply.rs\<close>: one reconcile tick brings the pinned maps to the desired entries. The map handles
  are arguments (\<open>hash_map\<close>), as are the clock and the order in which hash sets are visited. The log lines
  are left out; the errors the tick returns are kept.
\<close>

section \<open>State\<close>

record ('m, 'e, 't, 'n, 'p, 'f) map_handles =
  h_front_meta :: "('m, lb_front_key, front_meta) hash_map"
  h_front_endpoints :: "('e, front_endpoint_key_rec, front_endpoint) hash_map"
  h_pod_targets :: "('t, ip16, u8) hash_map"
  h_node_allow :: "('n, ip16, u8) hash_map"
  h_fwd_pending :: "'p pending_handle"
  h_flow_table :: "'f flow_handle"

type_synonym backends = "ip16 \<rightharpoonup> string option"

record ('m, 'e, 't, 'n, 'p, 'f) pinned_maps =
  pm_front_meta :: 'm
  pm_front_endpoints :: 'e
  pm_front_capacity :: front_capacity
  pm_recent_swaps :: recent_swaps
  pm_pod_targets :: 't
  pm_node_allow :: 'n
  pm_fwd_pending :: 'p
  pm_flow_table :: 'f
  pm_fronts_ever_known :: bool
  pm_known_backends :: backends
  pm_orphans_swept :: bool

text \<open>The order in which a tick visits its hash sets.\<close>

record visit_order =
  vo_ips :: "ip16 set \<Rightarrow> ip16 list"
  vo_fronts :: "lb_front_key set \<Rightarrow> lb_front_key list"

text \<open>The pins \<open>PinnedMaps::open\<close> finds: each map or the error of opening it, and the two \<open>max_entries\<close>.\<close>

record ('m, 'e, 't, 'n, 'p, 'f) pins =
  pin_front_meta :: "map_error + 'm"
  pin_front_endpoints :: "map_error + 'e"
  pin_front_meta_max :: "map_error + u32"
  pin_front_endpoints_max :: "map_error + u32"
  pin_pod_targets :: "map_error + 't"
  pin_node_allow :: "map_error + 'n"
  pin_fwd_pending :: "map_error + 'p"
  pin_flow_table :: "map_error + 'f"

definition try_open :: "map_error + 'a \<Rightarrow> ('a \<Rightarrow> map_error + 'b) \<Rightarrow> map_error + 'b" where
  "try_open r k = (case r of Inl e \<Rightarrow> Inl e | Inr v \<Rightarrow> k v)"

definition open_pins ::
  "('m, 'e, 't, 'n, 'p, 'f) pins \<Rightarrow> map_error + ('m, 'e, 't, 'n, 'p, 'f) pinned_maps" where
  "open_pins d =
     try_open (pin_front_meta d) (\<lambda>front_meta.
     try_open (pin_front_endpoints d) (\<lambda>front_endpoints.
     try_open (pin_front_meta_max d) (\<lambda>meta_max.
     try_open (pin_front_endpoints_max d) (\<lambda>endpoints_max.
     try_open (pin_pod_targets d) (\<lambda>pod_targets.
     try_open (pin_node_allow d) (\<lambda>node_allow.
     try_open (pin_fwd_pending d) (\<lambda>fwd_pending.
     try_open (pin_flow_table d) (\<lambda>flow_table.
       Inr \<lparr>pm_front_meta = front_meta, pm_front_endpoints = front_endpoints,
            pm_front_capacity = \<lparr>fc_meta = meta_max, fc_endpoints = endpoints_max\<rparr>,
            pm_recent_swaps = [], pm_pod_targets = pod_targets, pm_node_allow = node_allow,
            pm_fwd_pending = fwd_pending, pm_flow_table = flow_table, pm_fronts_ever_known = False,
            pm_known_backends = Map.empty, pm_orphans_swept = False\<rparr>))))))))"

section \<open>Errors\<close>

definition capacity_hint :: "string \<Rightarrow> string" where
  "capacity_hint map_name =
     (let hint = (\<lambda>flags. ''if `'' @ map_name @ ''` is full (E2BIG), raise '' @ flags @
            ''; a changed cap recreates the pinned `'' @ map_name @ ''` on the next loader start'')
      in if map_name = ''NODE_ALLOW'' then hint ''`--node-allow-max-entries`''
         else if map_name = ''POD_TARGETS'' then hint ''`--pod-targets-max-entries`''
         else if map_name = ''FRONT_META'' then hint ''`--max-fronts`''
         else if map_name = ''FRONT_ENDPOINTS'' then hint ''`--max-fronts` or `--endpoints-per-front`''
         else '''')"

text \<open>What a tick returns when it fails: the context and the cause; a count of failed writes comes with the
  advice it ends in.\<close>

datatype apply_error =
    MapUnread string map_error
  | WritesFailed string nat string
  | SweepFailed sweep_error
  | OrphanWalkFailed map_error

definition front_failure_advice :: "failure_kind list \<Rightarrow> string" where
  "front_failure_advice kinds =
     (if Capacity \<in> set kinds
      then ''; '' @ capacity_hint ''FRONT_META'' @ '' / '' @ capacity_hint ''FRONT_ENDPOINTS'' else '''')"

definition report_front_failures :: "(lb_front_key \<times> front_failure) list \<Rightarrow> apply_error option" where
  "report_front_failures failures =
     (if failures \<noteq> []
      then Some (WritesFailed ''front'' (length failures) (front_failure_advice (map (ff_kind \<circ> snd) failures)))
      else None)"

section \<open>The decisions of a tick\<close>

definition reused_pod_ips :: "backends \<Rightarrow> backends \<Rightarrow> ip16 set" where
  "reused_pod_ips known desired =
     {ip \<in> dom desired. case (known ip, the (desired ip)) of (Some (Some old), Some new) \<Rightarrow> old \<noteq> new | _ \<Rightarrow> False}"

definition orphan_sweep_due :: "desired_entries \<Rightarrow> bool \<Rightarrow> bool" where
  "orphan_sweep_due desired already_swept \<longleftrightarrow>
     de_fronts_known desired \<and> \<not> already_swept \<and> dom (de_cluster_backends desired) \<noteq> {}"

definition split_orphan_walk ::
  "(map_error + ip16 set) option \<Rightarrow> ip16 set option \<times> map_error option" where
  "split_orphan_walk walk =
     (case walk of
        Some (Inr orphans) \<Rightarrow> (Some orphans, None)
      | Some (Inl e) \<Rightarrow> (None, Some e)
      | None \<Rightarrow> (None, None))"

definition orphans_swept_after :: "bool \<Rightarrow> ip16 set option \<Rightarrow> sweep_error option \<Rightarrow> bool" where
  "orphans_swept_after already swept sweep_error \<longleftrightarrow> already \<or> (swept \<noteq> None \<and> sweep_error = None)"

record tick_plan =
  tp_sweep_error :: "sweep_error option"
  tp_fronts :: "lb_front_key \<rightharpoonup> desired_front"
  tp_prune_fronts :: bool
  tp_pod_targets :: "ip16 set"
  tp_delete_rows :: "ip16 set"

text \<open>The rows to delete and the addresses to sweep, as \<open>plan_tick\<close> collects them.\<close>

definition tick_delete_rows :: "visit_order \<Rightarrow> desired_entries \<Rightarrow> ip16 list \<Rightarrow> ip16 set" where
  "tick_delete_rows vo desired installed =
     (if de_pod_targets_known desired
      then set (stale_pod_targets installed (vo_ips vo (de_pod_targets desired))) else {})"

definition tick_sweep ::
  "visit_order \<Rightarrow> desired_entries \<Rightarrow> ip16 list \<Rightarrow> backends \<Rightarrow> ip16 set option \<Rightarrow> ip16 set" where
  "tick_sweep vo desired installed known orphans =
     (case orphans of None \<Rightarrow> {} | Some ips \<Rightarrow> ips)
     \<union> (if de_pod_targets_known desired
        then tick_delete_rows vo desired installed
             \<union> {ip \<in> dom known. ip \<notin> dom (de_cluster_backends desired)}
             \<union> reused_pod_ips known (de_cluster_backends desired)
        else {})"

definition known_after :: "desired_entries \<Rightarrow> backends \<Rightarrow> ip16 set \<Rightarrow> bool \<Rightarrow> backends" where
  "known_after desired known pending failed =
     (if \<not> de_pod_targets_known desired then known
      else if failed then (known |` pending) ++ (de_cluster_backends desired |` (- pending))
      else de_cluster_backends desired)"

definition names_backend :: "desired_front \<Rightarrow> ip16 set \<Rightarrow> bool" where
  "names_backend front ips \<longleftrightarrow> list_ex (\<lambda>ep. pod_ip (fe_backend ep) \<in> ips) (df_endpoints front)"

definition fronts_without :: "(lb_front_key \<rightharpoonup> desired_front) \<Rightarrow> ip16 set \<Rightarrow> (lb_front_key \<rightharpoonup> desired_front)" where
  "fronts_without fronts pending =
     (\<lambda>key. case fronts key of
        None \<Rightarrow> None
      | Some front \<Rightarrow> if names_backend front pending then None else Some front)"

definition plan_tick ::
  "visit_order \<Rightarrow> desired_entries \<Rightarrow> ip16 list \<Rightarrow> ip16 set option \<Rightarrow>
   (ip16 set \<Rightarrow> 's \<Rightarrow> sweep_error option \<times> 's) \<Rightarrow> backends \<times> 's \<Rightarrow> tick_plan \<times> backends \<times> 's" where
  "plan_tick vo desired installed orphans evict st =
     (case st of (known, s) \<Rightarrow>
      let sweep = tick_sweep vo desired installed known orphans
      in case (if sweep = {} then (None, s) else evict sweep s) of (sweep_error, s) \<Rightarrow>
         let pending = (if sweep_error \<noteq> None then sweep else {});
             fronts = fronts_without (de_fronts desired) pending
         in (\<lparr>tp_sweep_error = sweep_error, tp_fronts = fronts,
              tp_prune_fronts = (card (dom fronts) = card (dom (de_fronts desired))),
              tp_pod_targets = de_pod_targets desired - pending,
              tp_delete_rows = (if sweep_error \<noteq> None then {} else tick_delete_rows vo desired installed)\<rparr>,
             known_after desired known pending (sweep_error \<noteq> None), s))"

definition node_allow_may_delete :: "bool \<Rightarrow> bool \<Rightarrow> bool" where
  "node_allow_may_delete fronts_known fronts_ever_known \<longleftrightarrow> fronts_known \<or> fronts_ever_known"

definition node_allow_stale_peers :: "ip16 list \<Rightarrow> ip16 list \<Rightarrow> bool \<Rightarrow> ip16 list" where
  "node_allow_stale_peers existing live may_delete =
     (if may_delete then stale_pod_targets existing live else [])"

section \<open>Writing the maps\<close>

text \<open>\<open>keys().collect::<Result<_, _>>()\<close>.\<close>

definition hm_keys :: "('m, 'k, 'v) hash_map \<Rightarrow> 'm \<Rightarrow> map_error + 'k list" where
  "hm_keys H m = (case hm_iter H m of Inl e \<Rightarrow> Inl e | Inr rows \<Rightarrow> Inr (map fst rows))"

text \<open>The two write loops \<open>apply_pod_targets\<close> and \<open>apply_node_allow\<close> share: deletes, then upserts.\<close>

definition sync_rows ::
  "('t, ip16, u8) hash_map \<Rightarrow> string \<Rightarrow> ip16 list \<Rightarrow> ip16 list \<Rightarrow> 't \<Rightarrow> apply_error option \<times> 't" where
  "sync_rows T name stale install t =
     (case count_failures (hm_remove T) stale t of (failed_deletes, t) \<Rightarrow>
      case count_failures (\<lambda>ip. hm_insert T ip 1) install t of (failed_upserts, t) \<Rightarrow>
      let failed = failed_deletes + failed_upserts
      in (if failed > 0 then Some (WritesFailed name failed (capacity_hint name)) else None, t))"

definition apply_pod_targets ::
  "visit_order \<Rightarrow> ('t, ip16, u8) hash_map \<Rightarrow> ip16 set \<Rightarrow> ip16 set \<Rightarrow> 't \<Rightarrow> apply_error option \<times> 't" where
  "apply_pod_targets vo T install delete_rows t =
     sync_rows T ''POD_TARGETS'' (vo_ips vo delete_rows) (vo_ips vo install) t"

definition apply_node_allow ::
  "visit_order \<Rightarrow> ('n, ip16, u8) hash_map \<Rightarrow> ip16 set \<Rightarrow> bool \<Rightarrow> 'n \<Rightarrow> apply_error option \<times> 'n" where
  "apply_node_allow vo N desired may_delete n =
     (let live = vo_ips vo desired
      in case (if may_delete then hm_keys N n else Inr []) of
           Inl e \<Rightarrow> (Some (MapUnread ''NODE_ALLOW'' e), n)
         | Inr existing \<Rightarrow> sync_rows N ''NODE_ALLOW'' (node_allow_stale_peers existing live may_delete) live n)"

text \<open>Two seconds, in nanoseconds.\<close>

definition PREVIOUS_GENERATION_GRACE :: nat where
  "PREVIOUS_GENERATION_GRACE = 2000000000"

definition apply_front_maps ::
  "visit_order \<Rightarrow> ('m, 'e, 't, 'n, 'p, 'f) map_handles \<Rightarrow> nat \<Rightarrow> (lb_front_key \<rightharpoonup> desired_front) \<Rightarrow> bool \<Rightarrow>
   ('m, 'e, 't, 'n, 'p, 'f) pinned_maps \<Rightarrow> apply_error option \<times> ('m, 'e, 't, 'n, 'p, 'f) pinned_maps" where
  "apply_front_maps vo H now fronts prune_absent s =
     (case apply_fronts (h_front_meta H) (h_front_endpoints H) (pm_front_capacity s)
             (entries_of (vo_fronts vo) fronts) prune_absent
             (held (pm_recent_swaps s) now PREVIOUS_GENERATION_GRACE) (pm_front_meta s, pm_front_endpoints s) of
        (r, ms, es) \<Rightarrow>
          let s = s\<lparr>pm_front_meta := ms, pm_front_endpoints := es\<rparr>
          in case r of
               Inl e \<Rightarrow> (Some (MapUnread ''FRONT_META/FRONT_ENDPOINTS'' e), s)
             | Inr applied \<Rightarrow>
                 (report_front_failures (fa_failures applied),
                  s\<lparr>pm_recent_swaps := record_swaps (pm_recent_swaps s) (fa_swapped applied) now PREVIOUS_GENERATION_GRACE\<rparr>))"

definition previous_generations_due :: "('m, 'e, 't, 'n, 'p, 'f) pinned_maps \<Rightarrow> nat \<Rightarrow> bool" where
  "previous_generations_due s now = expired (pm_recent_swaps s) now PREVIOUS_GENERATION_GRACE"

section \<open>The tick\<close>

text \<open>\<open>a?; b?; ..\<close> over results computed before: the first error is returned.\<close>

primrec first_error :: "'e option list \<Rightarrow> 'e option" where
  "first_error [] = None"
| "first_error (r # rs) = (case r of None \<Rightarrow> first_error rs | Some e \<Rightarrow> Some e)"

text \<open>What \<open>apply\<close> reads before it plans: the installed \<open>POD_TARGETS\<close> rows and the orphan walk.\<close>

definition installed_targets ::
  "('m, 'e, 't, 'n, 'p, 'f) map_handles \<Rightarrow> desired_entries \<Rightarrow> ('m, 'e, 't, 'n, 'p, 'f) pinned_maps \<Rightarrow>
   map_error + ip16 list" where
  "installed_targets H desired s =
     (if de_pod_targets_known desired then hm_keys (h_pod_targets H) (pm_pod_targets s) else Inr [])"

definition orphan_walk ::
  "('m, 'e, 't, 'n, 'p, 'f) map_handles \<Rightarrow> desired_entries \<Rightarrow> ('m, 'e, 't, 'n, 'p, 'f) pinned_maps \<Rightarrow>
   (map_error + ip16 set) option" where
  "orphan_walk H desired s =
     (if orphan_sweep_due desired (pm_orphans_swept s)
      then Some (orphaned_pin_backends (h_fwd_pending H) (h_flow_table H) (dom (de_cluster_backends desired))
                   (pm_fwd_pending s) (pm_flow_table s))
      else None)"

definition apply_tick ::
  "visit_order \<Rightarrow> ('m, 'e, 't, 'n, 'p, 'f) map_handles \<Rightarrow> nat \<Rightarrow> desired_entries \<Rightarrow>
   ('m, 'e, 't, 'n, 'p, 'f) pinned_maps \<Rightarrow> apply_error option \<times> ('m, 'e, 't, 'n, 'p, 'f) pinned_maps" where
  "apply_tick vo H now desired s =
     (let installed = installed_targets H desired s;
          walk = split_orphan_walk (orphan_walk H desired s)
      in case plan_tick vo desired (case installed of Inl _ \<Rightarrow> [] | Inr ks \<Rightarrow> ks) (fst walk)
                (evict_pod_flows (h_fwd_pending H) (h_flow_table H))
                (pm_known_backends s, pm_fwd_pending s, pm_flow_table s) of
        (plan, known, p, f) \<Rightarrow>
      let s = s\<lparr>pm_known_backends := known, pm_fwd_pending := p, pm_flow_table := f,
                pm_orphans_swept := orphans_swept_after (pm_orphans_swept s) (fst walk) (tp_sweep_error plan)\<rparr>;
          sweep_result = (case tp_sweep_error plan of
                            Some e \<Rightarrow> Some (SweepFailed e)
                          | None \<Rightarrow> map_option OrphanWalkFailed (snd walk))
      in case (if de_fronts_known desired then apply_front_maps vo H now (tp_fronts plan) (tp_prune_fronts plan) s
               else (None, s)) of
        (fronts_result, s) \<Rightarrow>
      let s = s\<lparr>pm_fronts_ever_known := node_allow_may_delete (de_fronts_known desired) (pm_fronts_ever_known s)\<rparr>
      in case apply_node_allow vo (h_node_allow H) (de_node_allow desired) (pm_fronts_ever_known s) (pm_node_allow s) of
        (node_allow_result, n) \<Rightarrow>
      let s = s\<lparr>pm_node_allow := n\<rparr>
      in case (case installed of
                 Inl e \<Rightarrow> (Some (MapUnread ''POD_TARGETS'' e), pm_pod_targets s)
               | Inr _ \<Rightarrow>
                   if de_pod_targets_known desired
                   then apply_pod_targets vo (h_pod_targets H) (tp_pod_targets plan) (tp_delete_rows plan) (pm_pod_targets s)
                   else (None, pm_pod_targets s)) of
        (pod_targets_result, t) \<Rightarrow>
      (first_error [fronts_result, node_allow_result, pod_targets_result, sweep_result],
       s\<lparr>pm_pod_targets := t\<rparr>))"

text \<open>\<open>PinnedMaps::sweep_idle_flows\<close>.\<close>

definition sweep_idle ::
  "('m, 'e, 't, 'n, 'p, 'f) map_handles \<Rightarrow> u8 \<Rightarrow> gc_parity \<Rightarrow> ('m, 'e, 't, 'n, 'p, 'f) pinned_maps \<Rightarrow>
   (sweep_error + nat \<times> nat) \<times> ('m, 'e, 't, 'n, 'p, 'f) pinned_maps" where
  "sweep_idle H proto parity s =
     (case sweep_idle_flows (h_flow_table H) proto parity (pm_flow_table s) of
        (r, f) \<Rightarrow> (r, s\<lparr>pm_flow_table := f\<rparr>))"

end
