(* ===== verification/Ip_Parse.thy ===== *)
theory Ip_Parse
  imports Ip_Addr
begin

text \<open>
  \<open>str::parse::<IpAddr>\<close> of the standard library, which the watch applies to the addresses of Nodes and
  endpoints. A reader takes the rest of the text and gives a value and what follows it; one that fails has
  consumed nothing.
\<close>

type_synonym 'a reader = "string \<Rightarrow> ('a \<times> string) option"

text \<open>\<open>char::to_digit\<close>.\<close>

definition to_digit :: "nat \<Rightarrow> char \<Rightarrow> nat option" where
  "to_digit radix c =
     (let n = (of_char c :: nat);
          d = (if 48 \<le> n \<and> n \<le> 57 then n - 48 else if 97 \<le> n \<and> n \<le> 122 then n - 87
               else if 65 \<le> n \<and> n \<le> 90 then n - 55 else radix)
      in if d < radix then Some d else None)"

definition is_digit :: "nat \<Rightarrow> char \<Rightarrow> bool" where
  "is_digit radix c \<longleftrightarrow> to_digit radix c \<noteq> None"

definition digits_value :: "nat \<Rightarrow> string \<Rightarrow> int" where
  "digits_value radix ds = fold (\<lambda>c v. v * int radix + int (the (to_digit radix c))) ds 0"

definition read_number :: "nat \<Rightarrow> nat \<Rightarrow> bool \<Rightarrow> int \<Rightarrow> int reader" where
  "read_number radix max_digits allow_zero_prefix max_value s =
     (let ds = takeWhile (is_digit radix) s
      in if length ds > max_digits \<or> ds = [] \<or> digits_value radix ds > max_value
            \<or> \<not> allow_zero_prefix \<and> hd ds = CHR ''0'' \<and> length ds > 1
         then None else Some (digits_value radix ds, dropWhile (is_digit radix) s))"

definition read_given_char :: "char \<Rightarrow> unit reader" where
  "read_given_char c s = (case s of [] \<Rightarrow> None | d # rest \<Rightarrow> if d = c then Some ((), rest) else None)"

definition read_separator :: "char \<Rightarrow> nat \<Rightarrow> 'a reader \<Rightarrow> 'a reader" where
  "read_separator sep index inner s =
     (if index > 0 then (case read_given_char sep s of None \<Rightarrow> None | Some (_, rest) \<Rightarrow> inner rest) else inner s)"

text \<open>\<open>n\<close> groups from group \<open>i\<close> on.\<close>

primrec read_octets :: "nat \<Rightarrow> nat \<Rightarrow> int list reader" where
  "read_octets 0 i s = Some ([], s)"
| "read_octets (Suc n) i s =
     (case read_separator (CHR ''.'') i (read_number 10 3 False 255) s of
        None \<Rightarrow> None
      | Some (octet, rest) \<Rightarrow>
     (case read_octets n (i + 1) rest of
        None \<Rightarrow> None
      | Some (octets, rest) \<Rightarrow> Some (octet # octets, rest)))"

definition base_value :: "int \<Rightarrow> int list \<Rightarrow> int" where
  "base_value b ds = fold (\<lambda>d v. v * b + d) ds 0"

definition read_ipv4_addr :: "int list reader" where
  "read_ipv4_addr s = read_octets 4 0 s"

text \<open>\<open>n\<close> is the number of groups that may still be read; the flag says that an embedded IPv4 address ended
  the groups.\<close>

primrec read_groups :: "nat \<Rightarrow> nat \<Rightarrow> string \<Rightarrow> (int list \<times> bool) \<times> string" where
  "read_groups 0 i s = (([], False), s)"
| "read_groups (Suc n) i s =
     (case (if n > 0 then read_separator (CHR '':'') i read_ipv4_addr s else None) of
        Some (octets, rest) \<Rightarrow> (([base_value 256 (take 2 octets), base_value 256 (drop 2 octets)], True), rest)
      | None \<Rightarrow>
     (case read_separator (CHR '':'') i (read_number 16 4 True 65535) s of
        None \<Rightarrow> (([], False), s)
      | Some (g, rest) \<Rightarrow> (case read_groups n (i + 1) rest of ((gs, v4), rest) \<Rightarrow> ((g # gs, v4), rest))))"

definition read_ipv6_addr :: "int list reader" where
  "read_ipv6_addr s =
     (let ((head, head_ipv4), rest) = read_groups 8 0 s
      in if length head = 8 then Some (head, rest)
        else if head_ipv4 then None
        else case read_given_char (CHR '':'') rest of
               None \<Rightarrow> None
             | Some (_, rest) \<Rightarrow>
            (case read_given_char (CHR '':'') rest of
               None \<Rightarrow> None
             | Some (_, rest) \<Rightarrow>
                 let ((tail, _), rest) = read_groups (7 - length head) 0 rest
                 in Some (head @ replicate (8 - length head - length tail) 0 @ tail, rest)))"

definition parse_ip :: "string \<Rightarrow> ip_addr option" where
  "parse_ip s =
     (case read_ipv4_addr s of
        Some (octets, rest) \<Rightarrow> if rest = [] then Some (V4 (of_int (base_value 256 octets))) else None
      | None \<Rightarrow>
     (case read_ipv6_addr s of
        Some (groups, rest) \<Rightarrow> if rest = [] then Some (V6 (of_int (base_value 65536 groups))) else None
      | None \<Rightarrow> None))"

end
