(* ===== verification/Watch.thy ===== *)
theory Watch
  imports Kube Ip_Parse Reconcile Hash_Order "HOL-Library.Char_ord"
begin

text \<open>
  \<open>controller/src/watch.rs\<close>: the controller's picture of the cluster. Watch events and complete LISTs of Services,
  EndpointSlices and Nodes are folded into a state, and \<open>desired\<close> turns the state into the entries the
  node's maps should hold. Hash maps are maps; the order in which a loop visits one is an argument.
\<close>

section \<open>Data\<close>

record service_key =
  sk_namespace :: string
  sk_name :: string

datatype family = FamilyV4 | FamilyV6

definition family_of :: "ip_addr \<Rightarrow> family" where
  "family_of ip = (if \<not> is_ipv4 ip then FamilyV6 else FamilyV4)"

record raw_service_port =
  rsp_name :: "string option"
  rsp_port :: u16
  rsp_protocol :: protocol

record raw_service =
  rs_ports :: "raw_service_port list"
  rs_ip_families :: "family list"
  rs_policy :: endpoint_policy
  rs_client_ip_affinity :: bool

definition fronts_family :: "raw_service \<Rightarrow> family \<Rightarrow> bool" where
  "fronts_family svc family \<longleftrightarrow> family \<in> set (rs_ip_families svc)"

record raw_slice_port =
  rlp_name :: "string option"
  rlp_port :: u16

record raw_endpoint =
  rep_pod_ip :: ip_addr
  rep_node_name :: "string option"
  rep_ready :: bool
  rep_terminating :: bool
  rep_serving :: bool
  rep_pod_uid :: "string option"

record raw_endpoint_slice =
  res_ports :: "raw_slice_port list"
  res_endpoints :: "raw_endpoint list"

record node_addrs =
  na_underlay :: "ip_addr list"
  na_fronts :: "ip_addr list"

definition addrs_contains :: "node_addrs \<Rightarrow> ip_addr \<Rightarrow> bool" where
  "addrs_contains a ip \<longleftrightarrow> ip \<in> set (na_underlay a) \<or> ip \<in> set (na_fronts a)"

record watch_state =
  ws_services :: "service_key \<rightharpoonup> raw_service"
  ws_slices :: "service_key \<rightharpoonup> (string \<rightharpoonup> raw_endpoint_slice)"
  ws_node_ips :: "string \<rightharpoonup> node_addrs"
  ws_node_names :: "string set"
  ws_nodes_listed :: bool
  ws_services_listed :: bool
  ws_slices_listed :: bool
  ws_warned :: "string set"

definition default_watch :: watch_state where
  "default_watch = \<lparr>ws_services = Map.empty, ws_slices = Map.empty, ws_node_ips = Map.empty, ws_node_names = {},
     ws_nodes_listed = False, ws_services_listed = False, ws_slices_listed = False, ws_warned = {}\<rparr>"

record watch_order =
  wo_services :: "service_key set \<Rightarrow> service_key list"
  wo_names :: "string set \<Rightarrow> string list"

definition newly_warned :: "string set \<Rightarrow> string set \<Rightarrow> string set \<times> string set" where
  "newly_warned warned current = (current - warned, current)"

section \<open>Reading objects\<close>

definition as_bool :: "json \<Rightarrow> bool option" where
  "as_bool v = (case v of JBool b \<Rightarrow> Some b | _ \<Rightarrow> None)"

text \<open>\<open>u16::try_from(v.as_u64()?).ok()?\<close>.\<close>

definition as_u16 :: "json \<Rightarrow> u16 option" where
  "as_u16 v = (case v of JNum n \<Rightarrow> if 0 \<le> n \<and> n < 65536 then Some (of_int n) else None | _ \<Rightarrow> None)"

datatype event_kind_t = Upsert | Delete

definition added :: "json \<Rightarrow> json" where
  "added obj = JObj [(''type'', JStr ''ADDED''), (''object'', obj)]"

definition event_kind :: "json \<Rightarrow> event_kind_t option" where
  "event_kind event =
     (case as_str (json_at event ''type'') of
        None \<Rightarrow> None
      | Some t \<Rightarrow> if t = ''ADDED'' \<or> t = ''MODIFIED'' then Some Upsert else if t = ''DELETED'' then Some Delete else None)"

definition metadata_name :: "json \<Rightarrow> string option" where
  "metadata_name obj = as_str (json_path obj [''metadata'', ''name''])"

definition key_of :: "string option \<Rightarrow> string option \<Rightarrow> service_key option" where
  "key_of namespace name =
     (case namespace of None \<Rightarrow> None | Some ns \<Rightarrow>
     (case name of None \<Rightarrow> None | Some n \<Rightarrow> Some \<lparr>sk_namespace = ns, sk_name = n\<rparr>))"

definition service_key_of :: "json \<Rightarrow> service_key option" where
  "service_key_of obj = key_of (as_str (json_path obj [''metadata'', ''namespace''])) (metadata_name obj)"

definition owning_service_key :: "json \<Rightarrow> service_key option" where
  "owning_service_key obj =
     key_of (as_str (json_path obj [''metadata'', ''namespace'']))
       (as_str (json_path obj [''metadata'', ''labels'', ''kubernetes.io/service-name'']))"

definition parse_protocol :: "string option \<Rightarrow> protocol option" where
  "parse_protocol s =
     (let p = (case s of None \<Rightarrow> ''TCP'' | Some p \<Rightarrow> p)
      in if p = ''TCP'' then Some Tcp else if p = ''UDP'' then Some Udp else None)"

definition parse_family :: "json \<Rightarrow> family option" where
  "parse_family f =
     (if as_str f = Some ''IPv4'' then Some FamilyV4 else if as_str f = Some ''IPv6'' then Some FamilyV6 else None)"

definition parse_ip_families :: "json \<Rightarrow> family list option" where
  "parse_ip_families obj =
     (case as_array (json_path obj [''spec'', ''ipFamilies'']) of
        None \<Rightarrow> None
      | Some fs \<Rightarrow>
          let families = List.map_filter parse_family fs
          in if families = [] then None else Some families)"

definition parse_service_port :: "json \<Rightarrow> raw_service_port option" where
  "parse_service_port p =
     (case as_u16 (json_at p ''port'') of None \<Rightarrow> None | Some port \<Rightarrow>
     (case parse_protocol (as_str (json_at p ''protocol'')) of None \<Rightarrow> None | Some protocol \<Rightarrow>
        Some \<lparr>rsp_name = as_str (json_at p ''name''), rsp_port = port, rsp_protocol = protocol\<rparr>))"

definition parse_service :: "json \<Rightarrow> raw_service option" where
  "parse_service obj =
     (let spec = json_at obj ''spec''
      in if as_str (json_at spec ''type'') \<noteq> Some ''LoadBalancer'' then None
         else case as_array (json_at spec ''ports'') of
           None \<Rightarrow> None
         | Some ports \<Rightarrow>
        (case parse_ip_families obj of
           None \<Rightarrow> None
         | Some ip_families \<Rightarrow>
             Some \<lparr>rs_ports = List.map_filter parse_service_port ports, rs_ip_families = ip_families,
                   rs_policy = policy_from_spec (as_str (json_at spec ''externalTrafficPolicy''))
                                 (as_str (json_at spec ''trafficDistribution'')),
                   rs_client_ip_affinity = client_ip_affinity (as_str (json_at spec ''sessionAffinity''))\<rparr>))"

definition parse_slice_port :: "json \<Rightarrow> raw_slice_port option" where
  "parse_slice_port p =
     (case as_u16 (json_at p ''port'') of
        None \<Rightarrow> None
      | Some port \<Rightarrow> Some \<lparr>rlp_name = as_str (json_at p ''name''), rlp_port = port\<rparr>)"

text \<open>\<open>addresses.as_array()?.first()?.as_str()?.parse().ok()?\<close>.\<close>

definition first_address :: "json \<Rightarrow> ip_addr option" where
  "first_address v =
     (case as_array v of
        Some (a # _) \<Rightarrow> (case as_str a of Some s \<Rightarrow> parse_ip s | None \<Rightarrow> None)
      | _ \<Rightarrow> None)"

definition parse_endpoint :: "json \<Rightarrow> raw_endpoint option" where
  "parse_endpoint e =
     (case first_address (json_at e ''addresses'') of
        None \<Rightarrow> None
      | Some ip \<Rightarrow>
          let conditions = json_at e ''conditions'';
              ready = (case as_bool (json_at conditions ''ready'') of Some b \<Rightarrow> b | None \<Rightarrow> True)
          in Some \<lparr>rep_pod_ip = ip, rep_node_name = as_str (json_at e ''nodeName''), rep_ready = ready,
                   rep_terminating = (case as_bool (json_at conditions ''terminating'') of Some b \<Rightarrow> b | None \<Rightarrow> False),
                   rep_serving = (case as_bool (json_at conditions ''serving'') of Some b \<Rightarrow> b | None \<Rightarrow> ready),
                   rep_pod_uid = as_str (json_path e [''targetRef'', ''uid''])\<rparr>)"

definition array_or_empty :: "json \<Rightarrow> json list" where
  "array_or_empty v = (case as_array v of Some xs \<Rightarrow> xs | None \<Rightarrow> [])"

definition parse_endpoint_slice :: "json \<Rightarrow> raw_endpoint_slice" where
  "parse_endpoint_slice obj =
     \<lparr>res_ports = List.map_filter parse_slice_port (array_or_empty (json_at obj ''ports'')),
      res_endpoints = List.map_filter parse_endpoint (array_or_empty (json_at obj ''endpoints''))\<rparr>"

definition parse_addresses_of_type :: "json list \<Rightarrow> string \<Rightarrow> ip_addr list" where
  "parse_addresses_of_type addresses ty =
     List.map_filter (\<lambda>a. if as_str (json_at a ''type'') = Some ty
         then (case as_str (json_at a ''address'') of Some s \<Rightarrow> parse_ip s | None \<Rightarrow> None) else None) addresses"

definition prefer_per_family :: "ip_addr list \<Rightarrow> ip_addr list \<Rightarrow> ip_addr list" where
  "prefer_per_family preferred fallback =
     preferred @ filter (\<lambda>fb. \<not> list_ex (\<lambda>p. is_ipv4 p = is_ipv4 fb) preferred) fallback"

definition parse_node_addrs :: "json \<Rightarrow> node_addrs" where
  "parse_node_addrs obj =
     (case as_array (json_path obj [''status'', ''addresses'']) of
        None \<Rightarrow> \<lparr>na_underlay = [], na_fronts = []\<rparr>
      | Some addresses \<Rightarrow>
          let internal = parse_addresses_of_type addresses ''InternalIP'';
              external = parse_addresses_of_type addresses ''ExternalIP''
          in \<lparr>na_underlay = prefer_per_family internal external, na_fronts = prefer_per_family external internal\<rparr>)"

definition family_label :: "ip_addr \<Rightarrow> string" where
  "family_label ip = (if \<not> is_ipv4 ip then ''IPv6'' else ''IPv4'')"

record underlay_pick =
  up_ip :: ip_addr
  up_shared_family :: bool

definition pick_underlay_ip :: "ip_addr list \<Rightarrow> ip_addr \<Rightarrow> underlay_pick option" where
  "pick_underlay_ip peer_ips local_node_ip =
     (case List.find (\<lambda>ip. is_ipv4 ip = is_ipv4 local_node_ip) peer_ips of
        Some ip \<Rightarrow> Some \<lparr>up_ip = ip, up_shared_family = True\<rparr>
      | None \<Rightarrow>
     (case peer_ips of [] \<Rightarrow> None | ip # _ \<Rightarrow> Some \<lparr>up_ip = ip, up_shared_family = False\<rparr>))"

definition stale_ingress_key :: "json \<Rightarrow> service_key option" where
  "stale_ingress_key event =
     (if event_kind event \<noteq> Some Upsert then None
      else
        let obj = json_at event ''object''
        in case as_str (json_path obj [''spec'', ''type'']) of
             None \<Rightarrow> None
           | Some service_type \<Rightarrow>
               if service_type \<noteq> ''LoadBalancer'' \<and> ingress_of obj \<noteq> [] then service_key_of obj else None)"

definition deleted_service_key :: "json \<Rightarrow> service_key option" where
  "deleted_service_key event =
     (if event_kind event = Some Delete then service_key_of (json_at event ''object'') else None)"

definition stale_ingress_keys :: "json list \<Rightarrow> service_key list" where
  "stale_ingress_keys items = List.map_filter (\<lambda>item. stale_ingress_key (added item)) items"

section \<open>Events\<close>

definition apply_service_event :: "json \<Rightarrow> watch_state \<Rightarrow> service_key option \<times> watch_state" where
  "apply_service_event event ws =
     (let obj = json_at event ''object''
      in case event_kind event of
           None \<Rightarrow> (None, ws)
         | Some kind \<Rightarrow>
        (case service_key_of obj of
           None \<Rightarrow> (None, ws)
         | Some key \<Rightarrow>
        (case kind of
           Delete \<Rightarrow> (None, ws\<lparr>ws_services := (ws_services ws)(key := None)\<rparr>)
         | Upsert \<Rightarrow>
        (case parse_service obj of
           Some raw \<Rightarrow> (Some key, ws\<lparr>ws_services := (ws_services ws)(key \<mapsto> raw)\<rparr>)
         | None \<Rightarrow> (None, ws\<lparr>ws_services := (ws_services ws)(key := None)\<rparr>)))))"

definition is_local_policy :: "watch_state \<Rightarrow> service_key \<Rightarrow> bool" where
  "is_local_policy ws key \<longleftrightarrow> (case ws_services ws key of Some svc \<Rightarrow> rs_policy svc = OnlyLocal | None \<Rightarrow> False)"

definition slices_of :: "watch_state \<Rightarrow> service_key \<Rightarrow> (string \<rightharpoonup> raw_endpoint_slice)" where
  "slices_of ws key = (case ws_slices ws key of Some m \<Rightarrow> m | None \<Rightarrow> Map.empty)"

definition apply_endpoint_slice_event :: "json \<Rightarrow> watch_state \<Rightarrow> service_key option \<times> watch_state" where
  "apply_endpoint_slice_event event ws =
     (let obj = json_at event ''object''
      in case event_kind event of
           None \<Rightarrow> (None, ws)
         | Some kind \<Rightarrow>
        (case owning_service_key obj of
           None \<Rightarrow> (None, ws)
         | Some owner \<Rightarrow>
        (case metadata_name obj of
           None \<Rightarrow> (None, ws)
         | Some slice_name \<Rightarrow>
             let slices = (case kind of
                   Delete \<Rightarrow>
                     (case ws_slices ws owner of
                        None \<Rightarrow> ws_slices ws
                      | Some m \<Rightarrow> (ws_slices ws)(owner \<mapsto> m(slice_name := None)))
                 | Upsert \<Rightarrow>
                     (ws_slices ws)(owner \<mapsto> (slices_of ws owner)(slice_name \<mapsto> parse_endpoint_slice obj)))
             in (if is_local_policy ws owner then Some owner else None, ws\<lparr>ws_slices := slices\<rparr>))))"

definition apply_node_event :: "json \<Rightarrow> watch_state \<Rightarrow> watch_state" where
  "apply_node_event event ws =
     (let obj = json_at event ''object''
      in case event_kind event of
           None \<Rightarrow> ws
         | Some kind \<Rightarrow>
        (case metadata_name obj of
           None \<Rightarrow> ws
         | Some name \<Rightarrow>
        (case kind of
           Delete \<Rightarrow> ws\<lparr>ws_node_ips := (ws_node_ips ws)(name := None), ws_node_names := ws_node_names ws - {name}\<rparr>
         | Upsert \<Rightarrow>
             let ws = ws\<lparr>ws_node_names := insert name (ws_node_names ws)\<rparr>;
                 addrs = parse_node_addrs obj
             in if na_underlay addrs \<noteq> [] then ws\<lparr>ws_node_ips := (ws_node_ips ws)(name \<mapsto> addrs)\<rparr> else ws)))"

section \<open>Addresses of this node\<close>

definition own_node_addrs :: "watch_order \<Rightarrow> watch_state \<Rightarrow> ip_addr \<Rightarrow> node_addrs option" where
  "own_node_addrs wo ws local_node_ip =
     List.find (\<lambda>a. addrs_contains a local_node_ip) (values_of (wo_names wo) (ws_node_ips ws))"

text \<open>The union of the two roles, underlay first.\<close>

definition union_addrs :: "node_addrs \<Rightarrow> ip_addr list" where
  "union_addrs a = fold (\<lambda>ip acc. if ip \<in> set acc then acc else acc @ [ip]) (na_fronts a) (na_underlay a)"

definition own_node_ips :: "watch_order \<Rightarrow> watch_state \<Rightarrow> ip_addr \<Rightarrow> ip_addr list" where
  "own_node_ips wo ws local_node_ip =
     (case own_node_addrs wo ws local_node_ip of Some a \<Rightarrow> union_addrs a | None \<Rightarrow> [local_node_ip])"

definition lease_ips :: "watch_order \<Rightarrow> watch_state \<Rightarrow> ip_addr \<Rightarrow> ip_addr list option" where
  "lease_ips wo ws local_node_ip = (if ws_nodes_listed ws then Some (own_node_ips wo ws local_node_ip) else None)"

definition fully_listed :: "watch_state \<Rightarrow> bool" where
  "fully_listed ws \<longleftrightarrow> ws_nodes_listed ws \<and> ws_services_listed ws \<and> ws_slices_listed ws"

definition ingress_decidable :: "watch_state \<Rightarrow> bool" where
  "ingress_decidable ws = fully_listed ws"

text \<open>The endpoints \<open>ips_to_publish\<close> looks at: where they run matters, not how they are reached.\<close>

definition publish_endpoint :: "watch_state \<Rightarrow> ip_addr \<Rightarrow> raw_endpoint \<Rightarrow> endpoint" where
  "publish_endpoint ws local_node_ip e =
     \<lparr>ep_pod_ip = rep_pod_ip e, ep_node_ip = local_node_ip,
      ep_node_addrs = (case Option.bind (rep_node_name e) (ws_node_ips ws) of
                         Some a \<Rightarrow> na_underlay a @ na_fronts a | None \<Rightarrow> []),
      ep_ready = rep_ready e, ep_terminating = rep_terminating e, ep_serving = rep_serving e,
      ep_ports = [], ep_pod_uid = None\<rparr>"

definition ips_to_publish :: "watch_order \<Rightarrow> watch_state \<Rightarrow> service_key \<Rightarrow> ip_addr \<Rightarrow> ip_addr list" where
  "ips_to_publish wo ws key local_node_ip =
     (case ws_services ws key of
        None \<Rightarrow> []
      | Some svc \<Rightarrow>
          let own = own_node_addrs wo ws local_node_ip;
              fronts = (case own of Some a \<Rightarrow> na_fronts a | None \<Rightarrow> [local_node_ip]);
              endpoints = map (publish_endpoint ws local_node_ip)
                (concat (map res_endpoints (values_of (wo_names wo) (slices_of ws key))))
          in filter (\<lambda>ip. fronts_family svc (family_of ip)
                \<and> (own = None \<or> publishes_ingress (rs_policy svc) endpoints local_node_ip (is_ipv4 ip))) fronts)"

definition service_keys :: "watch_order \<Rightarrow> watch_state \<Rightarrow> service_key list" where
  "service_keys wo ws = wo_services wo (dom (ws_services ws))"

definition local_policy_service_keys :: "watch_order \<Rightarrow> watch_state \<Rightarrow> service_key list" where
  "local_policy_service_keys wo ws =
     map fst (filter (\<lambda>(_, svc). rs_policy svc = OnlyLocal) (entries_of (wo_services wo) (ws_services ws)))"

end
