(* ===== verification/Watch_Desired.thy ===== *)
theory Watch_Desired
  imports Watch
begin

text \<open>
  The second half of \<open>WatchState\<close> (\<open>controller/src/watch.rs\<close>): complete LISTs replace the state, or are refused,
  and \<open>desired\<close> computes the entries of this node's maps from the state.
\<close>

section \<open>Relists\<close>

datatype relist_error =
    EmptyServiceList nat
  | NoTrackedSlices nat nat
  | OwnNodeMissing nat ip_addr nat

definition list_service_item :: "json \<Rightarrow> service_key list \<times> watch_state \<Rightarrow> service_key list \<times> watch_state" where
  "list_service_item item acc =
     (case acc of (keys, fresh) \<Rightarrow>
      case apply_service_event (added item) fresh of
        (Some key, fresh) \<Rightarrow> (keys @ [key], fresh)
      | (None, fresh) \<Rightarrow> (keys, fresh))"

definition replace_services :: "json list \<Rightarrow> watch_state \<Rightarrow> (relist_error + service_key list) \<times> watch_state" where
  "replace_services items ws =
     (if items = [] \<and> dom (ws_services ws) \<noteq> {} then (Inl (EmptyServiceList (card (dom (ws_services ws)))), ws)
      else case fold list_service_item items ([], default_watch) of
        (keys, fresh) \<Rightarrow> (Inr keys, ws\<lparr>ws_services := ws_services fresh, ws_services_listed := True\<rparr>))"

definition tracked_with_slices ::
  "watch_state \<Rightarrow> (service_key \<rightharpoonup> (string \<rightharpoonup> raw_endpoint_slice)) \<Rightarrow> service_key set" where
  "tracked_with_slices ws slices =
     {key \<in> dom slices. key \<in> dom (ws_services ws) \<and> dom (the (slices key)) \<noteq> {}}"

definition listed_slices :: "json list \<Rightarrow> watch_state" where
  "listed_slices items = fold (\<lambda>item fresh. snd (apply_endpoint_slice_event (added item) fresh)) items default_watch"

definition replace_endpoint_slices :: "json list \<Rightarrow> watch_state \<Rightarrow> relist_error option \<times> watch_state" where
  "replace_endpoint_slices items ws =
     (let fresh = listed_slices items;
          held = card (tracked_with_slices ws (ws_slices ws));
          listed = card (tracked_with_slices ws (ws_slices fresh))
      in if held > 0 \<and> listed = 0 then (Some (NoTrackedSlices (length items) held), ws)
         else (None, ws\<lparr>ws_slices := ws_slices fresh, ws_slices_listed := True\<rparr>))"

definition list_node_item :: "watch_state \<Rightarrow> json \<Rightarrow> watch_state \<Rightarrow> watch_state" where
  "list_node_item ws item fresh =
     (let fresh = apply_node_event (added item) fresh
      in case metadata_name item of
           None \<Rightarrow> fresh
         | Some name \<Rightarrow>
        (case ws_node_ips ws name of
           None \<Rightarrow> fresh
         | Some prev \<Rightarrow>
             if ws_node_ips fresh name = None then fresh\<lparr>ws_node_ips := (ws_node_ips fresh)(name \<mapsto> prev)\<rparr> else fresh))"

definition replace_nodes ::
  "watch_order \<Rightarrow> json list \<Rightarrow> ip_addr \<Rightarrow> watch_state \<Rightarrow> relist_error option \<times> watch_state" where
  "replace_nodes wo items local_node_ip ws =
     (let fresh = fold (list_node_item ws) items default_watch
      in if own_node_addrs wo fresh local_node_ip = None \<and> ws_node_names ws \<noteq> {}
         then (Some (OwnNodeMissing (length items) local_node_ip (card (ws_node_names ws))), ws)
         else (None, ws\<lparr>ws_node_ips := ws_node_ips fresh, ws_node_names := ws_node_names fresh,
                        ws_nodes_listed := True\<rparr>))"

section \<open>The desired entries\<close>

definition resolve_target_port :: "raw_service_port \<Rightarrow> raw_slice_port list \<Rightarrow> u16 option" where
  "resolve_target_port port slice_ports =
     (case rsp_name port of
        Some name \<Rightarrow> map_option rlp_port (List.find (\<lambda>sp. rlp_name sp = Some name) slice_ports)
      | None \<Rightarrow> if length slice_ports = 1 then Some (rlp_port (slice_ports ! 0)) else None)"

definition union_ports :: "raw_slice_port list \<Rightarrow> raw_slice_port list" where
  "union_ports ports = fold (\<lambda>p acc. if p \<in> set acc then acc else acc @ [p]) ports []"

definition service_ports :: "raw_service \<Rightarrow> raw_endpoint_slice list \<Rightarrow> service_port list" where
  "service_ports svc slices =
     (let slice_ports = union_ports (concat (map res_ports slices))
      in List.map_filter (\<lambda>p. map_option (\<lambda>target_port.
           \<lparr>sp_port = rsp_port p, sp_protocol = rsp_protocol p, sp_target_port = target_port\<rparr>)
           (resolve_target_port p slice_ports)) (rs_ports svc))"

text \<open>An endpoint with its node resolved; \<open>None\<close> while the node is not known.\<close>

definition resolve_endpoint :: "watch_state \<Rightarrow> node_context \<Rightarrow> raw_endpoint_slice \<Rightarrow> raw_endpoint \<Rightarrow> endpoint option" where
  "resolve_endpoint ws node sl e =
     (case Option.bind (rep_node_name e) (ws_node_ips ws) of
        None \<Rightarrow> None
      | Some peer \<Rightarrow>
     (case pick_underlay_ip (na_underlay peer) (nc_node_ip node) of
        None \<Rightarrow> None
      | Some pick \<Rightarrow>
          Some \<lparr>ep_pod_ip = rep_pod_ip e, ep_node_ip = up_ip pick, ep_node_addrs = na_underlay peer @ na_fronts peer,
                ep_ready = rep_ready e, ep_terminating = rep_terminating e, ep_serving = rep_serving e,
                ep_ports = map rlp_port (res_ports sl), ep_pod_uid = rep_pod_uid e\<rparr>))"

definition slice_view :: "watch_state \<Rightarrow> node_context \<Rightarrow> raw_endpoint_slice \<Rightarrow> endpoint_slice_view" where
  "slice_view ws node sl =
     \<lparr>sl_endpoints = List.map_filter (resolve_endpoint ws node sl) (res_endpoints sl)\<rparr>"

definition tracked_backends :: "watch_state \<Rightarrow> raw_endpoint_slice list \<Rightarrow> (ip_addr \<times> string option) list" where
  "tracked_backends ws slices =
     map (\<lambda>e. (rep_pod_ip e, rep_pod_uid e))
       (filter (\<lambda>e. case rep_node_name e of None \<Rightarrow> False | Some n \<Rightarrow> \<not> ws_nodes_listed ws \<or> n \<in> ws_node_names ws)
         (concat (map res_endpoints slices)))"

text \<open>\<open>entry(ip).or_default()\<close>, filled in where the uid is not known yet.\<close>

definition merge_backends :: "(ip16 \<rightharpoonup> string option) \<Rightarrow> (ip16 \<rightharpoonup> string option) \<Rightarrow> (ip16 \<rightharpoonup> string option)" where
  "merge_backends aggregate backends =
     (\<lambda>ip. case backends ip of
        None \<Rightarrow> aggregate ip
      | Some uid \<Rightarrow> (case aggregate ip of Some (Some u) \<Rightarrow> Some (Some u) | _ \<Rightarrow> Some uid))"

definition other_family_warning :: "service_key \<Rightarrow> ip_addr \<Rightarrow> service_port \<Rightarrow> string" where
  "other_family_warning key front_ip port =
     ''controller: WARN service '' @ sk_namespace key @ ''/'' @ sk_name key @ '' front '' @ ip_to_string front_ip @ '':''
     @ print_base 10 (unat (sp_port port)) @ '' has no ready '' @ family_label front_ip
     @ '' endpoint, only endpoints of the other family; the front silently drops new connections''"

text \<open>The loop over the fronts of one Service.\<close>

definition desired_front_ip ::
  "service_key \<Rightarrow> raw_service \<Rightarrow> service_port list \<Rightarrow> endpoint_slice_view list \<Rightarrow> node_context \<Rightarrow> ip_addr \<Rightarrow>
   desired_entries \<times> string set \<Rightarrow> desired_entries \<times> string set" where
  "desired_front_ip key svc ports slices node front_ip acc =
     (case acc of (aggregate, warnings) \<Rightarrow>
      let view = \<lparr>sv_front_ip = front_ip, sv_policy = rs_policy svc,
                  sv_client_ip_affinity = rs_client_ip_affinity svc, sv_ports = ports\<rparr>
      in (aggregate\<lparr>de_fronts := de_fronts aggregate ++ de_fronts (reconcile_service view slices node)\<rparr>,
          warnings \<union> set (map (other_family_warning key front_ip) (ports_without_same_family_endpoint view slices))))"

definition front_ips :: "watch_order \<Rightarrow> watch_state \<Rightarrow> ip_addr list" where
  "front_ips wo ws = concat (map na_fronts (values_of (wo_names wo) (ws_node_ips ws)))"

definition desired_service ::
  "watch_order \<Rightarrow> watch_state \<Rightarrow> node_context \<Rightarrow> service_key \<times> raw_service \<Rightarrow>
   desired_entries \<times> string set \<Rightarrow> desired_entries \<times> string set" where
  "desired_service wo ws node entry acc =
     (case entry of (key, svc) \<Rightarrow>
      case acc of (aggregate, warnings) \<Rightarrow>
      let raw = values_of (wo_names wo) (slices_of ws key);
          ports = service_ports svc raw;
          slices = map (slice_view ws node) raw;
          aggregate = aggregate\<lparr>
            de_pod_targets := de_pod_targets aggregate \<union> pod_targets_for_node slices node,
            de_cluster_backends := merge_backends (de_cluster_backends aggregate)
              (cluster_backends (tracked_backends ws raw)),
            de_rejected := de_rejected aggregate @ rejected_endpoints_for_node slices node\<rparr>
      in if \<not> fully_listed ws then (aggregate, warnings)
         else fold (desired_front_ip key svc ports slices node)
                (filter (\<lambda>ip. fronts_family svc (family_of ip)) (front_ips wo ws)) (aggregate, warnings))"

definition unlisted_warning :: "watch_state \<Rightarrow> string set" where
  "unlisted_warning ws =
     (if fully_listed ws then {}
      else {''controller: INFO initial LIST of ''
            @ join_str '', '' (map fst (filter (\<lambda>(_, listed). \<not> listed)
                [(''Services'', ws_services_listed ws), (''EndpointSlices'', ws_slices_listed ws),
                 (''Nodes'', ws_nodes_listed ws)]))
            @ '' has not completed; leaving FRONT_META, FRONT_ENDPOINTS and POD_TARGETS as the previous process left them''})"

text \<open>\<open>desired\<close> and the warnings of this pass.\<close>

definition desired_pass :: "watch_order \<Rightarrow> watch_state \<Rightarrow> node_context \<Rightarrow> desired_entries \<times> string set" where
  "desired_pass wo ws node =
     (let known = fully_listed ws;
          aggregate = default_entries\<lparr>de_fronts_known := known,
            de_pod_targets_known := known \<and> own_node_addrs wo ws (nc_node_ip node) \<noteq> None,
            de_node_allow := set (map tunnel_remote_v6
              (concat (map na_underlay (values_of (wo_names wo) (ws_node_ips ws)))))\<rparr>
      in fold (desired_service wo ws node) (entries_of (wo_services wo) (ws_services ws))
           (aggregate, unlisted_warning ws))"

definition desired :: "watch_order \<Rightarrow> watch_state \<Rightarrow> node_context \<Rightarrow> desired_entries" where
  "desired wo ws node = fst (desired_pass wo ws node)"

text \<open>The lines it logs, and the warnings it remembers.\<close>

definition warn_desired :: "watch_order \<Rightarrow> node_context \<Rightarrow> watch_state \<Rightarrow> string set \<times> watch_state" where
  "warn_desired wo node ws =
     (case newly_warned (ws_warned ws) (snd (desired_pass wo ws node)) of
        (fresh, warned) \<Rightarrow> (fresh, ws\<lparr>ws_warned := warned\<rparr>))"

end
