(* ===== verification/Controller.thy ===== *)
theory Controller
  imports Apply_Entries Watch_Desired Ingress_Status
begin

text \<open>
  The loops of \<open>controller/src/main.rs\<close> that react to the watches: reconciling the maps with a retry, and
  publishing this node's addresses in the status of each Service. A spawned publish is a job: it is queued by a
  handler and finishes in a later step, in any order. The controller runs on one thread, so a handler is one step; it
  reads the clock once.
\<close>

section \<open>Retrying a failed reconcile\<close>

definition RETRY_INITIAL :: nanos where "RETRY_INITIAL = from_secs 1"
definition RETRY_MAX :: nanos where "RETRY_MAX = from_secs 30"
definition RETRY_POLL :: nanos where "RETRY_POLL = from_secs 1"

record retry_backoff =
  rb_failures :: u32
  rb_retry_at :: "nanos option"

definition default_backoff :: retry_backoff where
  "default_backoff = \<lparr>rb_failures = 0, rb_retry_at = None\<rparr>"

text \<open>\<open>1u32.checked_shl(n).unwrap_or(u32::MAX)\<close>.\<close>

definition shifted_one :: "u32 \<Rightarrow> nat" where
  "shifted_one n = (if n < 32 then 2 ^ unat n else 2 ^ 32 - 1)"

definition backoff_record :: "bool \<Rightarrow> nanos \<Rightarrow> retry_backoff \<Rightarrow> retry_backoff" where
  "backoff_record succeeded now rb =
     (if succeeded then default_backoff
      else if (case rb_retry_at rb of Some at \<Rightarrow> now < at | None \<Rightarrow> False) then rb
      else \<lparr>rb_failures = (if rb_failures rb = - 1 then - 1 else rb_failures rb + 1),
            rb_retry_at = Some (now + min (RETRY_INITIAL * shifted_one (rb_failures rb)) RETRY_MAX)\<rparr>)"

definition backoff_due :: "retry_backoff \<Rightarrow> nanos \<Rightarrow> bool" where
  "backoff_due rb now \<longleftrightarrow> (case rb_retry_at rb of Some at \<Rightarrow> now \<ge> at | None \<Rightarrow> False)"

section \<open>Publishing\<close>

datatype ingress_work = Publish | Clear | Forget

datatype pending = Failed bool | DeferredClear

record publish_retry =
  pr_keys :: "service_key \<rightharpoonup> pending"
  pr_backoff :: retry_backoff

definition default_publish_retry :: publish_retry where
  "default_publish_retry = \<lparr>pr_keys = Map.empty, pr_backoff = default_backoff\<rparr>"

definition reset_if_no_failures :: "publish_retry \<Rightarrow> publish_retry" where
  "reset_if_no_failures pr =
     (if (\<exists>key c. pr_keys pr key = Some (Failed c)) then pr else pr\<lparr>pr_backoff := default_backoff\<rparr>)"

definition publish_record :: "service_key \<Rightarrow> bool \<Rightarrow> bool \<Rightarrow> nanos \<Rightarrow> publish_retry \<Rightarrow> publish_retry" where
  "publish_record key succeeded clear now pr =
     (if succeeded then reset_if_no_failures (pr\<lparr>pr_keys := (pr_keys pr)(key := None)\<rparr>)
      else pr\<lparr>pr_keys := (pr_keys pr)(key \<mapsto> Failed clear), pr_backoff := backoff_record False now (pr_backoff pr)\<rparr>)"

definition defer_clear :: "service_key \<Rightarrow> publish_retry \<Rightarrow> publish_retry" where
  "defer_clear key pr = reset_if_no_failures (pr\<lparr>pr_keys := (pr_keys pr)(key \<mapsto> DeferredClear)\<rparr>)"

definition take_due ::
  "watch_order \<Rightarrow> nanos \<Rightarrow> publish_retry \<Rightarrow> (service_key \<times> bool) list \<times> publish_retry" where
  "take_due wo now pr =
     (if \<not> backoff_due (pr_backoff pr) now then ([], pr)
      else (List.map_filter (\<lambda>(k, p). case p of Failed clear \<Rightarrow> Some (k, clear) | DeferredClear \<Rightarrow> None)
              (entries_of (wo_services wo) (pr_keys pr)),
            pr\<lparr>pr_backoff := (pr_backoff pr)\<lparr>rb_retry_at := None\<rparr>\<rparr>))"

definition pending_clears :: "watch_order \<Rightarrow> publish_retry \<Rightarrow> service_key list" where
  "pending_clears wo pr =
     map fst (filter (\<lambda>(_, p). p = Failed True \<or> p = DeferredClear) (entries_of (wo_services wo) (pr_keys pr)))"

definition retry_work :: "bool \<Rightarrow> bool \<Rightarrow> ingress_work" where
  "retry_work is_tracked clear = (if is_tracked then Publish else if clear then Clear else Forget)"

definition service_event_work :: "service_key option \<Rightarrow> json \<Rightarrow> (ingress_work \<times> service_key) list" where
  "service_event_work changed event =
     (case changed of Some key \<Rightarrow> [(Publish, key)] | None \<Rightarrow> [])
     @ (case stale_ingress_key event of Some key \<Rightarrow> [(Clear, key)] | None \<Rightarrow> [])
     @ (case deleted_service_key event of Some key \<Rightarrow> [(Forget, key)] | None \<Rightarrow> [])"

definition services_relist_work :: "service_key list \<Rightarrow> json list \<Rightarrow> (ingress_work \<times> service_key) list" where
  "services_relist_work keys items =
     map (\<lambda>key. (Publish, key)) keys @ map (\<lambda>key. (Clear, key)) (stale_ingress_keys items)"

definition own_node_ips_changed :: "ip_addr list \<Rightarrow> ip_addr list \<Rightarrow> bool" where
  "own_node_ips_changed before after \<longleftrightarrow> set before \<noteq> set after"

definition attempt_done :: "bool \<Rightarrow> update_error option \<Rightarrow> bool" where
  "attempt_done clear result =
     (case result of None \<Rightarrow> True | Some (ServiceGone _) \<Rightarrow> clear | Some _ \<Rightarrow> False)"

section \<open>The controller\<close>

text \<open>A publish in flight.\<close>

record publish_job =
  pj_key :: service_key
  pj_own_ips :: "ip_addr list"
  pj_desired_ips :: "ip_addr list"
  pj_clear :: bool

record ('m, 'e, 't, 'n, 'p, 'f) controller =
  ct_watch :: watch_state
  ct_maps :: "('m, 'e, 't, 'n, 'p, 'f) pinned_maps"
  ct_retry :: retry_backoff
  ct_pending :: publish_retry
  ct_jobs :: "publish_job list"
  ct_ready_file :: bool

record ('m, 'e, 't, 'n, 'p, 'f) controller_env =
  ce_watch_order :: watch_order
  ce_visit_order :: visit_order
  ce_handles :: "('m, 'e, 't, 'n, 'p, 'f) map_handles"
  ce_node :: node_context

definition start_controller :: "('m, 'e, 't, 'n, 'p, 'f) pinned_maps \<Rightarrow> ('m, 'e, 't, 'n, 'p, 'f) controller" where
  "start_controller maps =
     \<lparr>ct_watch = default_watch, ct_maps = maps, ct_retry = default_backoff, ct_pending = default_publish_retry,
      ct_jobs = [], ct_ready_file = False\<rparr>"

text \<open>\<open>apply_reconcile\<close> with \<open>reconcile_once\<close>.\<close>

definition apply_reconcile ::
  "('m, 'e, 't, 'n, 'p, 'f) controller_env \<Rightarrow> nanos \<Rightarrow> ('m, 'e, 't, 'n, 'p, 'f) controller \<Rightarrow>
   ('m, 'e, 't, 'n, 'p, 'f) controller" where
  "apply_reconcile C now ct =
     (let entries = desired (ce_watch_order C) (ct_watch ct) (ce_node C);
          ct = ct\<lparr>ct_watch := snd (warn_desired (ce_watch_order C) (ce_node C) (ct_watch ct))\<rparr>
      in case apply_tick (ce_visit_order C) (ce_handles C) now entries (ct_maps ct) of
           (result, maps) \<Rightarrow> ct\<lparr>ct_maps := maps, ct_retry := backoff_record (result = None) now (ct_retry ct)\<rparr>)"

definition publish_ingress ::
  "service_key \<Rightarrow> ip_addr list \<Rightarrow> ip_addr list \<Rightarrow> bool \<Rightarrow> ('m, 'e, 't, 'n, 'p, 'f) controller \<Rightarrow>
   ('m, 'e, 't, 'n, 'p, 'f) controller" where
  "publish_ingress key own_ips desired_ips clear ct =
     ct\<lparr>ct_jobs := ct_jobs ct @ [\<lparr>pj_key = key, pj_own_ips = own_ips, pj_desired_ips = desired_ips, pj_clear = clear\<rparr>]\<rparr>"

definition publish_ingress_for ::
  "('m, 'e, 't, 'n, 'p, 'f) controller_env \<Rightarrow> service_key \<Rightarrow> ('m, 'e, 't, 'n, 'p, 'f) controller \<Rightarrow>
   ('m, 'e, 't, 'n, 'p, 'f) controller" where
  "publish_ingress_for C key ct =
     (let ip = nc_node_ip (ce_node C)
      in if \<not> ingress_decidable (ct_watch ct) then ct
         else publish_ingress key (own_node_ips (ce_watch_order C) (ct_watch ct) ip)
                (ips_to_publish (ce_watch_order C) (ct_watch ct) key ip) False ct)"

definition ingress_clear_ips :: "watch_order \<Rightarrow> watch_state \<Rightarrow> ip_addr \<Rightarrow> ip_addr list option" where
  "ingress_clear_ips wo ws node_ip = (if ingress_decidable ws then Some (own_node_ips wo ws node_ip) else None)"

definition clear_ingress_for ::
  "('m, 'e, 't, 'n, 'p, 'f) controller_env \<Rightarrow> service_key \<Rightarrow> ('m, 'e, 't, 'n, 'p, 'f) controller \<Rightarrow>
   ('m, 'e, 't, 'n, 'p, 'f) controller" where
  "clear_ingress_for C key ct =
     (case ingress_clear_ips (ce_watch_order C) (ct_watch ct) (nc_node_ip (ce_node C)) of
        None \<Rightarrow> ct\<lparr>ct_pending := defer_clear key (ct_pending ct)\<rparr>
      | Some own_ips \<Rightarrow> publish_ingress key own_ips [] True ct)"

definition run_ingress_work ::
  "('m, 'e, 't, 'n, 'p, 'f) controller_env \<Rightarrow> nanos \<Rightarrow> ingress_work \<times> service_key \<Rightarrow> ('m, 'e, 't, 'n, 'p, 'f) controller \<Rightarrow>
   ('m, 'e, 't, 'n, 'p, 'f) controller" where
  "run_ingress_work C now item ct =
     (case item of (work, key) \<Rightarrow>
      case work of
        Publish \<Rightarrow> publish_ingress_for C key ct
      | Clear \<Rightarrow> clear_ingress_for C key ct
      | Forget \<Rightarrow> ct\<lparr>ct_pending := publish_record key True False now (ct_pending ct)\<rparr>)"

definition republish_if_own_ips_changed ::
  "('m, 'e, 't, 'n, 'p, 'f) controller_env \<Rightarrow> ip_addr list \<Rightarrow> ('m, 'e, 't, 'n, 'p, 'f) controller \<Rightarrow>
   ('m, 'e, 't, 'n, 'p, 'f) controller" where
  "republish_if_own_ips_changed C before ct =
     (let wo = ce_watch_order C;
          after = own_node_ips wo (ct_watch ct) (nc_node_ip (ce_node C));
          keys = (if own_node_ips_changed before after then service_keys wo (ct_watch ct)
                  else local_policy_service_keys wo (ct_watch ct))
      in fold (publish_ingress_for C) keys ct)"

text \<open>\<open>sync_ready_marker\<close> and \<open>after_list\<close>; \<open>written\<close> says whether the marker file could be written.\<close>

definition sync_ready_marker :: "bool \<Rightarrow> ('m, 'e, 't, 'n, 'p, 'f) controller \<Rightarrow> ('m, 'e, 't, 'n, 'p, 'f) controller" where
  "sync_ready_marker written ct =
     (if ingress_decidable (ct_watch ct) \<and> written then ct\<lparr>ct_ready_file := True\<rparr> else ct)"

definition after_list ::
  "('m, 'e, 't, 'n, 'p, 'f) controller_env \<Rightarrow> bool \<Rightarrow> bool \<Rightarrow> ('m, 'e, 't, 'n, 'p, 'f) controller \<Rightarrow>
   ('m, 'e, 't, 'n, 'p, 'f) controller" where
  "after_list C written was_ready ct =
     (let ct = sync_ready_marker written ct
      in if \<not> was_ready \<and> ingress_decidable (ct_watch ct)
         then let wo = ce_watch_order C;
                  keys = service_keys wo (ct_watch ct);
                  ct = fold (publish_ingress_for C) keys ct
              in fold (clear_ingress_for C) (filter (\<lambda>k. k \<notin> set keys) (pending_clears wo (ct_pending ct))) ct
         else ct)"

section \<open>The handlers\<close>

definition on_service ::
  "('m, 'e, 't, 'n, 'p, 'f) controller_env \<Rightarrow> nanos \<Rightarrow> json \<Rightarrow> ('m, 'e, 't, 'n, 'p, 'f) controller \<Rightarrow>
   ('m, 'e, 't, 'n, 'p, 'f) controller" where
  "on_service C now event ct =
     (case apply_service_event event (ct_watch ct) of (changed, ws) \<Rightarrow>
      fold (run_ingress_work C now) (service_event_work changed event)
        (apply_reconcile C now (ct\<lparr>ct_watch := ws\<rparr>)))"

definition on_services_relist ::
  "('m, 'e, 't, 'n, 'p, 'f) controller_env \<Rightarrow> bool \<Rightarrow> nanos \<Rightarrow> json list \<Rightarrow> ('m, 'e, 't, 'n, 'p, 'f) controller \<Rightarrow>
   bool \<times> ('m, 'e, 't, 'n, 'p, 'f) controller" where
  "on_services_relist C written now items ct =
     (let was_ready = ingress_decidable (ct_watch ct)
      in case replace_services items (ct_watch ct) of
           (Inl e, ws) \<Rightarrow> (False, ct\<lparr>ct_watch := ws\<rparr>)
         | (Inr keys, ws) \<Rightarrow>
             (True, after_list C written was_ready
                (fold (run_ingress_work C now) (services_relist_work keys items)
                   (apply_reconcile C now (ct\<lparr>ct_watch := ws\<rparr>)))))"

definition on_endpoint_slice ::
  "('m, 'e, 't, 'n, 'p, 'f) controller_env \<Rightarrow> nanos \<Rightarrow> json \<Rightarrow> ('m, 'e, 't, 'n, 'p, 'f) controller \<Rightarrow>
   ('m, 'e, 't, 'n, 'p, 'f) controller" where
  "on_endpoint_slice C now event ct =
     (case apply_endpoint_slice_event event (ct_watch ct) of (local_policy_key, ws) \<Rightarrow>
      let ct = apply_reconcile C now (ct\<lparr>ct_watch := ws\<rparr>)
      in case local_policy_key of Some key \<Rightarrow> publish_ingress_for C key ct | None \<Rightarrow> ct)"

definition on_endpoint_slices_relist ::
  "('m, 'e, 't, 'n, 'p, 'f) controller_env \<Rightarrow> bool \<Rightarrow> nanos \<Rightarrow> json list \<Rightarrow> ('m, 'e, 't, 'n, 'p, 'f) controller \<Rightarrow>
   bool \<times> ('m, 'e, 't, 'n, 'p, 'f) controller" where
  "on_endpoint_slices_relist C written now items ct =
     (let was_ready = ingress_decidable (ct_watch ct)
      in case replace_endpoint_slices items (ct_watch ct) of
           (Some e, ws) \<Rightarrow> (False, ct\<lparr>ct_watch := ws\<rparr>)
         | (None, ws) \<Rightarrow>
             let ct = apply_reconcile C now (ct\<lparr>ct_watch := ws\<rparr>);
                 keys = local_policy_service_keys (ce_watch_order C) (ct_watch ct)
             in (True, after_list C written was_ready (fold (publish_ingress_for C) keys ct)))"

definition on_node ::
  "('m, 'e, 't, 'n, 'p, 'f) controller_env \<Rightarrow> nanos \<Rightarrow> json \<Rightarrow> ('m, 'e, 't, 'n, 'p, 'f) controller \<Rightarrow>
   ('m, 'e, 't, 'n, 'p, 'f) controller" where
  "on_node C now event ct =
     (let before = own_node_ips (ce_watch_order C) (ct_watch ct) (nc_node_ip (ce_node C))
      in republish_if_own_ips_changed C before
           (apply_reconcile C now (ct\<lparr>ct_watch := apply_node_event event (ct_watch ct)\<rparr>)))"

definition on_nodes_relist ::
  "('m, 'e, 't, 'n, 'p, 'f) controller_env \<Rightarrow> bool \<Rightarrow> nanos \<Rightarrow> json list \<Rightarrow> ('m, 'e, 't, 'n, 'p, 'f) controller \<Rightarrow>
   bool \<times> ('m, 'e, 't, 'n, 'p, 'f) controller" where
  "on_nodes_relist C written now items ct =
     (let was_ready = ingress_decidable (ct_watch ct);
          before = own_node_ips (ce_watch_order C) (ct_watch ct) (nc_node_ip (ce_node C))
      in case replace_nodes (ce_watch_order C) items (nc_node_ip (ce_node C)) (ct_watch ct) of
           (Some e, ws) \<Rightarrow> (False, ct\<lparr>ct_watch := ws\<rparr>)
         | (None, ws) \<Rightarrow>
             (True, after_list C written was_ready
                (republish_if_own_ips_changed C before (apply_reconcile C now (ct\<lparr>ct_watch := ws\<rparr>)))))"

section \<open>The timers\<close>

text \<open>One turn of \<open>run_retry_loop\<close>: \<open>retry_tick\<close>, then \<open>follow_up_tick\<close>.\<close>

definition retry_loop_turn ::
  "('m, 'e, 't, 'n, 'p, 'f) controller_env \<Rightarrow> nanos \<Rightarrow> ('m, 'e, 't, 'n, 'p, 'f) controller \<Rightarrow>
   ('m, 'e, 't, 'n, 'p, 'f) controller" where
  "retry_loop_turn C now ct =
     (if backoff_due (ct_retry ct) now then apply_reconcile C now ct
      else if previous_generations_due (ct_maps ct) now then apply_reconcile C now ct
      else ct)"

definition publish_retry_turn ::
  "('m, 'e, 't, 'n, 'p, 'f) controller_env \<Rightarrow> nanos \<Rightarrow> ('m, 'e, 't, 'n, 'p, 'f) controller \<Rightarrow>
   ('m, 'e, 't, 'n, 'p, 'f) controller" where
  "publish_retry_turn C now ct =
     (case take_due (ce_watch_order C) now (ct_pending ct) of (due, pr) \<Rightarrow>
      let ct = ct\<lparr>ct_pending := pr\<rparr>;
          tracked = set (service_keys (ce_watch_order C) (ct_watch ct))
      in fold (\<lambda>(key, clear). run_ingress_work C now (retry_work (key \<in> tracked) clear, key)) due ct)"

text \<open>The end of a spawned publish: the \<open>n\<close>-th job in flight finishes with \<open>result\<close>.\<close>

definition finish_job ::
  "nanos \<Rightarrow> nat \<Rightarrow> update_error option \<Rightarrow> ('m, 'e, 't, 'n, 'p, 'f) controller \<Rightarrow> ('m, 'e, 't, 'n, 'p, 'f) controller" where
  "finish_job now n result ct =
     (if n < length (ct_jobs ct)
      then let job = ct_jobs ct ! n
           in ct\<lparr>ct_jobs := take n (ct_jobs ct) @ drop (Suc n) (ct_jobs ct),
                 ct_pending := publish_record (pj_key job) (attempt_done (pj_clear job) result) (pj_clear job) now (ct_pending ct)\<rparr>
      else ct)"

text \<open>What the job asks of the apiserver.\<close>

definition run_job :: "'s api_client \<Rightarrow> publish_job \<Rightarrow> 's \<Rightarrow> update_error option \<times> 's" where
  "run_job A job s =
     ensure_node_ingress A (sk_namespace (pj_key job)) (sk_name (pj_key job)) (pj_own_ips job) (pj_desired_ips job) s"

end
