(* ===== verification/Apply_Props.thy ===== *)
theory Apply_Props
  imports Apply_Entries Front_Swap_Props Conntrack_Props
begin

text \<open>
  What a reconcile tick does to the six maps, whichever of its calls fail: what converges, what is withheld
  while the conntrack rows of a departed or reused address could not be swept, and what is left alone until the
  cluster has been listed.
\<close>

definition handles_ok :: "('m, 'e, 't, 'n, 'p, 'f) map_handles \<Rightarrow> bool" where
  "handles_ok H \<longleftrightarrow> hash_map_ok (h_front_meta H) \<and> hash_map_ok (h_front_endpoints H) \<and> hash_map_ok (h_pod_targets H)
     \<and> hash_map_ok (h_node_allow H) \<and> hash_map_ok (h_fwd_pending H) \<and> hash_map_ok (h_flow_table H)"

definition order_ok :: "visit_order \<Rightarrow> bool" where
  "order_ok vo \<longleftrightarrow> enumerates (vo_ips vo) \<and> enumerates (vo_fronts vo)"

definition entries_finite :: "desired_entries \<Rightarrow> bool" where
  "entries_finite d \<longleftrightarrow> finite (dom (de_fronts d)) \<and> finite (de_pod_targets d) \<and> finite (de_node_allow d)"

section \<open>Syncing a set-shaped map\<close>

lemma count_failures_append:
  "count_failures call (xs @ ys) m =
   (fst (count_failures call xs m) + fst (count_failures call ys (snd (count_failures call xs m))),
    snd (count_failures call ys (snd (count_failures call xs m))))"
  by (induction xs arbitrary: m) (simp_all add: prod_eq_iff count_failures_Cons)

lemma sync_rows_frame:
  assumes "hash_map_ok T" "sync_rows T name stale install t = (r, t')" "k \<notin> set install"
  shows "hm_rows T t' k = hm_rows T t k \<or> k \<in> set stale \<and> hm_rows T t' k = None"
proof -
  note T = bpf_map.intro [OF assms(1)]
  let ?m = "snd (count_failures (hm_remove T) stale t)"
  have "hm_rows T t' k = hm_rows T ?m k"
    using assms(2) bpf_map.insert_all_frame [OF T assms(3), of 1 ?m]
    by (auto simp: sync_rows_def Let_def split: prod.splits)
  then show ?thesis
    using bpf_map.remove_all_frame [OF T, of k stale t] bpf_map.remove_all_shrinks [OF T, of stale t]
    by (cases "hm_rows T ?m k") (auto simp: map_le_def dom_def)
qed

lemma sync_rows_kept:
  assumes "hash_map_ok T" "sync_rows T name stale install t = (r, t')" "k \<notin> set stale" "hm_rows T t k \<noteq> None"
  shows "hm_rows T t' k \<noteq> None"
proof -
  note T = bpf_map.intro [OF assms(1)]
  let ?m = "snd (count_failures (hm_remove T) stale t)"
  have ins: "hm_rows T m k \<noteq> None \<Longrightarrow> hm_rows T (snd (count_failures (\<lambda>ip. hm_insert T ip 1) ks m)) k \<noteq> None" for m ks
    by (induction ks arbitrary: m) (simp_all add: count_failures_Cons bpf_map.insert_rows [OF T])
  have "hm_rows T ?m k \<noteq> None" using bpf_map.remove_all_frame [OF T assms(3), of t] assms(4) by simp
  from ins [OF this, of install] show ?thesis
    using assms(2) by (auto simp: sync_rows_def Let_def split: prod.splits)
qed

lemma sync_rows_ok:
  assumes "hash_map_ok T" "sync_rows T name stale install t = (None, t')"
  shows "k \<in> set install \<Longrightarrow> hm_rows T t' k = Some 1"
    and "k \<notin> set install \<Longrightarrow> k \<in> set stale \<Longrightarrow> hm_rows T t' k = None"
    and "k \<notin> set install \<Longrightarrow> k \<notin> set stale \<Longrightarrow> hm_rows T t' k = hm_rows T t k"
proof -
  note T = bpf_map.intro [OF assms(1)]
  let ?m = "snd (count_failures (hm_remove T) stale t)"
  have z: "fst (count_failures (hm_remove T) stale t) = 0" "fst (count_failures (\<lambda>ip. hm_insert T ip 1) install ?m) = 0"
    and t': "t' = snd (count_failures (\<lambda>ip. hm_insert T ip 1) install ?m)"
    using assms(2) by (auto simp: sync_rows_def Let_def split: prod.splits if_splits)
  show "k \<in> set install \<Longrightarrow> hm_rows T t' k = Some 1" unfolding t' by (rule bpf_map.insert_all_ok [OF T z(2)])
  have m: "k \<notin> set install \<Longrightarrow> hm_rows T t' k = hm_rows T ?m k" unfolding t' by (rule bpf_map.insert_all_frame [OF T])
  show "k \<notin> set install \<Longrightarrow> k \<in> set stale \<Longrightarrow> hm_rows T t' k = None"
    using m bpf_map.remove_all_ok [OF T z(1)] by (simp add: restrict_map_def)
  show "k \<notin> set install \<Longrightarrow> k \<notin> set stale \<Longrightarrow> hm_rows T t' k = hm_rows T t k"
    using m bpf_map.remove_all_frame [OF T] by simp
qed

lemma sync_rows_exact:
  assumes "hash_map_ok T" "sync_rows T name stale install t = (None, t')" "set stale = dom (hm_rows T t) - set install"
  shows "hm_rows T t' k \<noteq> None \<longleftrightarrow> k \<in> set install"
proof (cases "k \<in> set install")
  case True
  then show ?thesis using sync_rows_ok(1) [OF assms(1,2)] by simp
next
  case False
  then show ?thesis
    using sync_rows_ok(2,3) [OF assms(1,2) False] assms(3) by (cases "k \<in> set stale") auto
qed

section \<open>The parts of a tick\<close>

text \<open>The plan of a tick, with the known backends and the conntrack maps after its sweep.\<close>

definition planned_tick ::
  "visit_order \<Rightarrow> ('m, 'e, 't, 'n, 'p, 'f) map_handles \<Rightarrow> desired_entries \<Rightarrow> ('m, 'e, 't, 'n, 'p, 'f) pinned_maps \<Rightarrow>
   tick_plan \<times> backends \<times> 'p \<times> 'f" where
  "planned_tick vo H d s =
     plan_tick vo d (case installed_targets H d s of Inl _ \<Rightarrow> [] | Inr ks \<Rightarrow> ks)
       (fst (split_orphan_walk (orphan_walk H d s))) (evict_pod_flows (h_fwd_pending H) (h_flow_table H))
       (pm_known_backends s, pm_fwd_pending s, pm_flow_table s)"

text \<open>The addresses a tick sweeps.\<close>

definition swept_ips ::
  "visit_order \<Rightarrow> ('m, 'e, 't, 'n, 'p, 'f) map_handles \<Rightarrow> desired_entries \<Rightarrow> ('m, 'e, 't, 'n, 'p, 'f) pinned_maps \<Rightarrow> ip16 set" where
  "swept_ips vo H d s =
     tick_sweep vo d (case installed_targets H d s of Inl _ \<Rightarrow> [] | Inr ks \<Rightarrow> ks) (pm_known_backends s)
       (fst (split_orphan_walk (orphan_walk H d s)))"

lemma tick_fields:
  assumes "apply_tick vo H now d s = (r, s')" "planned_tick vo H d s = (plan, known, p, f)"
  shows "pm_fwd_pending s' = p" "pm_flow_table s' = f" "pm_known_backends s' = known"
    and "pm_fronts_ever_known s' \<longleftrightarrow> de_fronts_known d \<or> pm_fronts_ever_known s"
    and "pm_orphans_swept s' =
      orphans_swept_after (pm_orphans_swept s) (fst (split_orphan_walk (orphan_walk H d s))) (tp_sweep_error plan)"
    and "pm_node_allow s' = snd (apply_node_allow vo (h_node_allow H) (de_node_allow d)
      (de_fronts_known d \<or> pm_fronts_ever_known s) (pm_node_allow s))"
    and "(pm_front_meta s', pm_front_endpoints s') =
      (if de_fronts_known d
       then snd (apply_fronts (h_front_meta H) (h_front_endpoints H) (pm_front_capacity s)
         (entries_of (vo_fronts vo) (tp_fronts plan)) (tp_prune_fronts plan)
         (held (pm_recent_swaps s) now PREVIOUS_GENERATION_GRACE) (pm_front_meta s, pm_front_endpoints s))
       else (pm_front_meta s, pm_front_endpoints s))"
    and "pm_pod_targets s' =
      (if de_pod_targets_known d \<and> installed_targets H d s \<in> range Inr
       then snd (apply_pod_targets vo (h_pod_targets H) (tp_pod_targets plan) (tp_delete_rows plan) (pm_pod_targets s))
       else pm_pod_targets s)"
  using assms
  by (auto simp: apply_tick_def apply_front_maps_def planned_tick_def node_allow_may_delete_def Let_def
      split: prod.splits sum.splits if_splits)

lemma first_error_None [simp]: "first_error rs = None \<longleftrightarrow> (\<forall>r \<in> set rs. r = None)"
  by (induction rs) (auto split: option.split)

lemma tick_ok:
  assumes "apply_tick vo H now d s = (None, s')" "planned_tick vo H d s = (plan, known, p, f)"
  shows "tp_sweep_error plan = None" "snd (split_orphan_walk (orphan_walk H d s)) = None"
    and "installed_targets H d s \<in> range Inr"
    and "fst (apply_node_allow vo (h_node_allow H) (de_node_allow d)
      (de_fronts_known d \<or> pm_fronts_ever_known s) (pm_node_allow s)) = None"
    and "de_pod_targets_known d \<Longrightarrow>
      fst (apply_pod_targets vo (h_pod_targets H) (tp_pod_targets plan) (tp_delete_rows plan) (pm_pod_targets s)) = None"
    and "de_fronts_known d \<Longrightarrow> \<exists>applied. fa_failures applied = [] \<and>
      fst (apply_fronts (h_front_meta H) (h_front_endpoints H) (pm_front_capacity s)
         (entries_of (vo_fronts vo) (tp_fronts plan)) (tp_prune_fronts plan)
         (held (pm_recent_swaps s) now PREVIOUS_GENERATION_GRACE) (pm_front_meta s, pm_front_endpoints s)) = Inr applied"
  using assms
  by (auto simp: apply_tick_def apply_front_maps_def planned_tick_def node_allow_may_delete_def report_front_failures_def Let_def
      split: prod.splits sum.splits if_splits option.splits)

lemma planned_sweep:
  assumes "planned_tick vo H d s = (plan, known, p, f)"
  shows "evict_pod_flows (h_fwd_pending H) (h_flow_table H) (swept_ips vo H d s) (pm_fwd_pending s, pm_flow_table s)
      = (tp_sweep_error plan, (p, f))"
    and "known = known_after d (pm_known_backends s) (if tp_sweep_error plan \<noteq> None then swept_ips vo H d s else {})
      (tp_sweep_error plan \<noteq> None)"
    and "tp_fronts plan = fronts_without (de_fronts d) (if tp_sweep_error plan \<noteq> None then swept_ips vo H d s else {})"
    and "tp_prune_fronts plan \<longleftrightarrow> card (dom (tp_fronts plan)) = card (dom (de_fronts d))"
    and "tp_pod_targets plan = de_pod_targets d - (if tp_sweep_error plan \<noteq> None then swept_ips vo H d s else {})"
    and "tp_delete_rows plan = (if tp_sweep_error plan \<noteq> None then {}
      else tick_delete_rows vo d (case installed_targets H d s of Inl _ \<Rightarrow> [] | Inr ks \<Rightarrow> ks))"
  using assms
  by (auto simp: planned_tick_def plan_tick_def swept_ips_def evict_pod_flows_def [of _ _ "{}"] Let_def
      split: prod.splits if_splits)

lemma fronts_without_le: "fronts_without fronts ips \<subseteq>\<^sub>m fronts"
  by (auto simp: map_le_def fronts_without_def split: option.splits if_splits)

lemma fronts_without_none [simp]: "fronts_without fronts {} = fronts"
  by (auto simp: fronts_without_def names_backend_def list_ex_iff fun_eq_iff split: option.splits)

text \<open>A front held back turns pruning off.\<close>

lemma held_front_no_prune:
  assumes "finite (dom fronts)" "fronts k = Some front" "names_backend front ips"
  shows "card (dom (fronts_without fronts ips)) \<noteq> card (dom fronts)"
proof -
  have "k \<in> dom fronts" "k \<notin> dom (fronts_without fronts ips)" using assms(2,3) by (auto simp: fronts_without_def)
  then have "dom (fronts_without fronts ips) \<subset> dom fronts"
    using map_le_implies_dom_le [OF fronts_without_le] by blast
  from psubset_card_mono [OF assms(1) this] show ?thesis by simp
qed

lemma tick_delete_rows_iff:
  assumes "order_ok vo" "entries_finite d" "de_pod_targets_known d"
  shows "ip \<in> tick_delete_rows vo d installed \<longleftrightarrow> ip \<in> set installed \<and> ip \<notin> de_pod_targets d"
  using assms by (simp add: tick_delete_rows_def stale_pod_targets_def order_ok_def entries_finite_def enumerates_set)

section \<open>Withholding\<close>

text \<open>No conntrack row of the two maps belongs to the address.\<close>

definition no_rows_of ::
  "('m, 'e, 't, 'n, 'p, 'f) map_handles \<Rightarrow> ('m, 'e, 't, 'n, 'p, 'f) pinned_maps \<Rightarrow> ip16 \<Rightarrow> bool" where
  "no_rows_of H s ip \<longleftrightarrow>
     (\<forall>k v. hm_rows (h_fwd_pending H) (pm_fwd_pending s) k = Some v \<longrightarrow> pod_ip (fwd_backend v) \<noteq> ip)
     \<and> (\<forall>k v. hm_rows (h_flow_table H) (pm_flow_table s) k = Some v \<longrightarrow> flow_row_pod k v \<noteq> Some ip)"

definition front_tables_of ::
  "('m, 'e, 't, 'n, 'p, 'f) map_handles \<Rightarrow> ('m, 'e, 't, 'n, 'p, 'f) pinned_maps \<Rightarrow> front_tables" where
  "front_tables_of H s =
     (hm_rows (h_front_meta H) (pm_front_meta s), hm_rows (h_front_endpoints H) (pm_front_endpoints s))"

lemma swept_rows:
  assumes "handles_ok H" "apply_tick vo H now d s = (r, s')" "planned_tick vo H d s = (plan, known, p, f)"
    and "tp_sweep_error plan = None" "ip \<in> swept_ips vo H d s"
  shows "no_rows_of H s' ip"
  unfolding no_rows_of_def tick_fields(1,2) [OF assms(2,3)]
  using evict_rows(5,6) [OF _ _ planned_sweep(1) [OF assms(3)] assms(4)] assms(1,5)
  by (auto simp: handles_ok_def)

lemma withheld_front:
  assumes "handles_ok H" "order_ok vo" "entries_finite d" "apply_tick vo H now d s = (r, s')"
    and "planned_tick vo H d s = (plan, known, p, f)" "tp_sweep_error plan \<noteq> None"
    and "de_fronts d k = Some front" "names_backend front (swept_ips vo H d s)"
  shows "same_front k (front_tables_of H s) (front_tables_of H s')"
proof (cases "de_fronts_known d")
  case True
  let ?fronts = "fronts_without (de_fronts d) (swept_ips vo H d s)"
  note pl = planned_sweep [OF assms(5)]
  have fin: "finite (dom (de_fronts d))" using assms(3) by (simp add: entries_finite_def)
  have fronts: "tp_fronts plan = ?fronts" using pl(3) assms(6) by simp
  have prune: "\<not> tp_prune_fronts plan"
    using pl(4) held_front_no_prune [OF fin assms(7,8)] by (simp add: fronts)
  have "finite (dom ?fronts)" using fin fronts_without_le map_le_implies_dom_le finite_subset by metis
  then have "map_of (entries_of (vo_fronts vo) (tp_fronts plan)) k = None"
    using assms(2,7,8) by (simp add: fronts order_ok_def map_of_entries_of fronts_without_def)
  moreover obtain r' ms es where pass: "apply_fronts (h_front_meta H) (h_front_endpoints H) (pm_front_capacity s)
      (entries_of (vo_fronts vo) (tp_fronts plan)) False (held (pm_recent_swaps s) now PREVIOUS_GENERATION_GRACE)
      (pm_front_meta s, pm_front_endpoints s) = (r', ms, es)" by (metis prod.collapse)
  ultimately have "same_front k (front_tables_of H s) (hm_rows (h_front_meta H) ms, hm_rows (h_front_endpoints H) es)"
    using pass_frame [OF _ _ pass] assms(1) by (simp add: handles_ok_def front_tables_of_def)
  then show ?thesis
    using tick_fields(7) [OF assms(4,5)] True prune pass by (simp add: front_tables_of_def)
next
  case False
  then show ?thesis using tick_fields(7) [OF assms(4,5)] by (simp add: front_tables_of_def)
qed

lemma withheld_target:
  assumes "handles_ok H" "order_ok vo" "entries_finite d" "apply_tick vo H now d s = (r, s')"
    and "planned_tick vo H d s = (plan, known, p, f)" "tp_sweep_error plan \<noteq> None" "ip \<in> swept_ips vo H d s"
  shows "hm_rows (h_pod_targets H) (pm_pod_targets s') ip = hm_rows (h_pod_targets H) (pm_pod_targets s) ip"
proof -
  note pl = planned_sweep [OF assms(5)]
  have none: "tp_delete_rows plan = {}" "ip \<notin> tp_pod_targets plan" using pl(5,6) assms(6,7) by simp_all
  have lists: "set (vo_ips vo {}) = {}" "set (vo_ips vo (tp_pod_targets plan)) = tp_pod_targets plan"
    using assms(2,3) pl(5) by (auto simp: order_ok_def entries_finite_def enumerates_set)
  obtain r' t' where sync: "sync_rows (h_pod_targets H) ''POD_TARGETS'' (vo_ips vo {})
      (vo_ips vo (tp_pod_targets plan)) (pm_pod_targets s) = (r', t')" by (metis prod.collapse)
  have "hm_rows (h_pod_targets H) t' ip = hm_rows (h_pod_targets H) (pm_pod_targets s) ip"
    using sync_rows_frame [OF _ sync, of ip] assms(1) none(2) lists by (auto simp: handles_ok_def)
  then show ?thesis
    using tick_fields(8) [OF assms(4,5)] by (simp add: apply_pod_targets_def none(1) sync)
qed

section \<open>Departed and reused addresses\<close>

text \<open>The maps and the memory of the process show that the address has left or changed its owner: it has a
  \<open>POD_TARGETS\<close> row nobody wants, it was a backend and is none any more, or it is one under another pod uid.\<close>

definition departed ::
  "('m, 'e, 't, 'n, 'p, 'f) map_handles \<Rightarrow> desired_entries \<Rightarrow> ('m, 'e, 't, 'n, 'p, 'f) pinned_maps \<Rightarrow> ip16 \<Rightarrow> bool" where
  "departed H d s ip \<longleftrightarrow> de_pod_targets_known d \<and>
     (hm_rows (h_pod_targets H) (pm_pod_targets s) ip \<noteq> None \<and> ip \<notin> de_pod_targets d
      \<or> pm_known_backends s ip \<noteq> None \<and> de_cluster_backends d ip = None
      \<or> (\<exists>old new. pm_known_backends s ip = Some (Some old) \<and> de_cluster_backends d ip = Some (Some new) \<and> old \<noteq> new))"

lemma hm_keys_dom: "hash_map_ok H \<Longrightarrow> hm_keys H m = Inr ks \<Longrightarrow> set ks = dom (hm_rows H m)"
  using bpf_map.iter_keys [OF bpf_map.intro] by (fastforce simp: hm_keys_def split: sum.splits)

lemma reused_iff:
  "ip \<in> reused_pod_ips known desired \<longleftrightarrow>
   (\<exists>old new. known ip = Some (Some old) \<and> desired ip = Some (Some new) \<and> old \<noteq> new)"
  by (auto simp: reused_pod_ips_def split: option.splits)

lemma departed_swept:
  assumes "handles_ok H" "order_ok vo" "entries_finite d" "installed_targets H d s = Inr ks" "departed H d s ip"
  shows "ip \<in> swept_ips vo H d s"
proof -
  have k: "de_pod_targets_known d" using assms(5) by (simp add: departed_def)
  have "set ks = dom (hm_rows (h_pod_targets H) (pm_pod_targets s))"
    using assms(1,4) k by (simp add: handles_ok_def installed_targets_def hm_keys_dom)
  then show ?thesis
    using assms(4,5) k tick_delete_rows_iff [OF assms(2,3) k, of ip ks]
    by (auto simp: departed_def swept_ips_def tick_sweep_def reused_iff)
qed

lemma pending_known:
  assumes "apply_tick vo H now d s = (r, s')" "planned_tick vo H d s = (plan, known, p, f)"
    and "tp_sweep_error plan \<noteq> None" "ip \<in> swept_ips vo H d s"
  shows "pm_known_backends s' ip = pm_known_backends s ip"
  using tick_fields(3) [OF assms(1,2)] planned_sweep(2) [OF assms(2)] assms(3,4)
  by (auto simp: known_after_def map_add_def restrict_map_def split: option.split)

section \<open>Convergence\<close>

lemma pods_converge:
  assumes "handles_ok H" "order_ok vo" "entries_finite d" "de_pod_targets_known d" "installed_targets H d s = Inr ks"
    and rows: "rows = tick_delete_rows vo d ks"
    and "fst (apply_pod_targets vo (h_pod_targets H) (de_pod_targets d) rows (pm_pod_targets s)) = None"
    and t: "t = snd (apply_pod_targets vo (h_pod_targets H) (de_pod_targets d) rows (pm_pod_targets s))"
  shows "\<forall>ip. hm_rows (h_pod_targets H) t ip \<noteq> None \<longleftrightarrow> ip \<in> de_pod_targets d"
proof -
  let ?T = "h_pod_targets H"
  have T: "hash_map_ok ?T" using assms(1) by (simp add: handles_ok_def)
  have ks: "set ks = dom (hm_rows ?T (pm_pod_targets s))"
    using assms(4,5) T by (simp add: installed_targets_def hm_keys_dom)
  note mem = tick_delete_rows_iff [OF assms(2-4), of _ ks]
  have "finite rows" using finite_subset [of rows "set ks"] mem by (auto simp: rows)
  then have lists: "set (vo_ips vo rows) = rows" "set (vo_ips vo (de_pod_targets d)) = de_pod_targets d"
    using assms(2,3) by (simp_all add: order_ok_def entries_finite_def enumerates_set)
  have "sync_rows ?T ''POD_TARGETS'' (vo_ips vo rows) (vo_ips vo (de_pod_targets d)) (pm_pod_targets s) = (None, t)"
    using assms(7) t by (simp add: apply_pod_targets_def prod_eq_iff)
  moreover have "rows = dom (hm_rows ?T (pm_pod_targets s)) - de_pod_targets d" using mem ks by (auto simp: rows)
  ultimately show ?thesis using sync_rows_exact [OF T] lists by simp
qed

lemma peers_converge:
  assumes "handles_ok H" "order_ok vo" "entries_finite d"
    and "fst (apply_node_allow vo (h_node_allow H) (de_node_allow d) True n) = None"
  shows "\<forall>ip. hm_rows (h_node_allow H) (snd (apply_node_allow vo (h_node_allow H) (de_node_allow d) True n)) ip \<noteq> None
    \<longleftrightarrow> ip \<in> de_node_allow d"
proof -
  let ?N = "h_node_allow H" and ?live = "vo_ips vo (de_node_allow d)"
  have N: "hash_map_ok ?N" using assms(1) by (simp add: handles_ok_def)
  have live: "set ?live = de_node_allow d"
    using assms(2,3) by (simp add: order_ok_def entries_finite_def enumerates_set)
  obtain ks n' where ks: "hm_keys ?N n = Inr ks"
    and sync: "sync_rows ?N ''NODE_ALLOW'' (stale_pod_targets ks ?live) ?live n = (None, n')"
    using assms(4) by (auto simp: apply_node_allow_def node_allow_stale_peers_def Let_def prod_eq_iff split: sum.splits)
  have n': "snd (apply_node_allow vo ?N (de_node_allow d) True n) = n'"
    by (simp add: apply_node_allow_def node_allow_stale_peers_def Let_def ks sync)
  have "set (stale_pod_targets ks ?live) = dom (hm_rows ?N n) - set ?live"
    using hm_keys_dom [OF N ks] by (auto simp: stale_pod_targets_def)
  from sync_rows_exact [OF N sync this] show ?thesis by (simp add: n' live)
qed

lemma fronts_converge:
  assumes "handles_ok H" "order_ok vo" "entries_finite d" "de_fronts_known d" "fronts = de_fronts d" "prune"
    and "de_fronts_known d \<Longrightarrow> \<exists>applied. fa_failures applied = [] \<and>
      fst (apply_fronts (h_front_meta H) (h_front_endpoints H) cap (entries_of (vo_fronts vo) fronts) prune keep st) = Inr applied"
    and "(pm_front_meta s', pm_front_endpoints s') = (if de_fronts_known d
      then snd (apply_fronts (h_front_meta H) (h_front_endpoints H) cap (entries_of (vo_fronts vo) fronts) prune keep st) else st)"
  shows "\<forall>k. case de_fronts d k of
      Some front \<Rightarrow> length (df_endpoints front) < 2 ^ 16 \<longrightarrow>
        (\<exists>m. fst (front_tables_of H s') k = Some m \<and> fm_flags m = df_flags front
           \<and> (\<forall>h. ingress_steer m None None h k (snd (front_tables_of H s')) = desired_steer front h))
    | None \<Rightarrow> fst (front_tables_of H s') k = None
        \<and> (\<forall>ek. fek_front ek = k \<longrightarrow> snd (front_tables_of H s') ek = None)"
proof -
  let ?M = "h_front_meta H" and ?E = "h_front_endpoints H" and ?l = "entries_of (vo_fronts vo) (de_fronts d)"
  have ok: "hash_map_ok ?M" "hash_map_ok ?E" using assms(1) by (simp_all add: handles_ok_def)
  have l: "map_of ?l = de_fronts d" using assms(2,3) by (simp add: order_ok_def entries_finite_def map_of_entries_of)
  from assms(4-7) obtain applied where a: "fa_failures applied = []"
    "fst (apply_fronts ?M ?E cap ?l True keep st) = Inr applied" by auto
  with assms(4-6,8) have pass: "apply_fronts ?M ?E cap ?l True keep st = (Inr applied, (pm_front_meta s', pm_front_endpoints s'))"
    by (simp add: prod_eq_iff)
  show ?thesis
    using pass_serves [OF ok pass a(1)] pass_removes [OF ok pass a(1)]
    by (simp add: l front_tables_of_def split: option.split)
qed

section \<open>Before the cluster is listed\<close>

lemma unlisted_tick:
  assumes "handles_ok H" "order_ok vo" "apply_tick vo H now d s = (r, s')"
    and "\<not> de_fronts_known d" "\<not> de_pod_targets_known d" "\<not> pm_fronts_ever_known s"
  shows "pm_front_meta s' = pm_front_meta s" "pm_front_endpoints s' = pm_front_endpoints s"
    and "pm_pod_targets s' = pm_pod_targets s"
    and "pm_fwd_pending s' = pm_fwd_pending s" "pm_flow_table s' = pm_flow_table s"
    and "\<not> pm_fronts_ever_known s'" "pm_known_backends s' = pm_known_backends s"
    and "hm_rows (h_node_allow H) (pm_node_allow s) ip \<noteq> None \<Longrightarrow> hm_rows (h_node_allow H) (pm_node_allow s') ip \<noteq> None"
proof -
  obtain plan known p f where pl: "planned_tick vo H d s = (plan, known, p, f)" by (metis prod_cases4)
  note fields = tick_fields [OF assms(3) pl] and sw = planned_sweep [OF pl]
  have "swept_ips vo H d s = {}"
    using assms(4,5) by (simp add: swept_ips_def tick_sweep_def orphan_walk_def orphan_sweep_due_def split_orphan_walk_def)
  then show "pm_fwd_pending s' = pm_fwd_pending s" "pm_flow_table s' = pm_flow_table s"
    using sw(1) fields(1,2) by (simp_all add: evict_pod_flows_def)
  show "pm_front_meta s' = pm_front_meta s" "pm_front_endpoints s' = pm_front_endpoints s"
      "pm_pod_targets s' = pm_pod_targets s" "\<not> pm_fronts_ever_known s'" "pm_known_backends s' = pm_known_backends s"
    using fields(3,4,7,8) sw(2) assms(4-6) by (simp_all add: known_after_def)
  obtain r' n' where sync: "sync_rows (h_node_allow H) ''NODE_ALLOW'' [] (vo_ips vo (de_node_allow d)) (pm_node_allow s) = (r', n')"
    by (metis prod.collapse)
  have "pm_node_allow s' = n'"
    using fields(6) assms(4,6) by (simp add: apply_node_allow_def node_allow_stale_peers_def sync)
  then show "hm_rows (h_node_allow H) (pm_node_allow s) ip \<noteq> None \<Longrightarrow> hm_rows (h_node_allow H) (pm_node_allow s') ip \<noteq> None"
    using sync_rows_kept [OF _ sync] assms(1) by (simp add: handles_ok_def)
qed

section \<open>Instances\<close>

text \<open>Six bounded maps; keys are visited in increasing order.\<close>

type_synonym std_pins =
  "((lb_front_key, front_meta) std_map, (front_endpoint_key_rec, front_endpoint) std_map, (ip16, u8) std_map,
    (ip16, u8) std_map, (tcp_flow_key, forward_flow_value) std_map, (flow_key, flow_value) std_map) pinned_maps"

definition std_handles ::
  "((lb_front_key, front_meta) std_map, (front_endpoint_key_rec, front_endpoint) std_map, (ip16, u8) std_map,
    (ip16, u8) std_map, (tcp_flow_key, forward_flow_value) std_map, (flow_key, flow_value) std_map) map_handles" where
  "std_handles = \<lparr>h_front_meta = std_hash_map, h_front_endpoints = std_hash_map, h_pod_targets = std_hash_map,
     h_node_allow = std_hash_map, h_fwd_pending = std_hash_map, h_flow_table = std_hash_map\<rparr>"

definition front_tuple :: "lb_front_key \<Rightarrow> ip16 \<times> u16 \<times> u8 \<times> u8" where
  "front_tuple k = (lfk_front_ip k, lfk_front_port k, lfk_proto k, lfk_pad k)"

definition tuple_front :: "ip16 \<times> u16 \<times> u8 \<times> u8 \<Rightarrow> lb_front_key" where
  "tuple_front t = (case t of (ip, port, proto, pad) \<Rightarrow>
     \<lparr>lfk_front_ip = ip, lfk_front_port = port, lfk_proto = proto, lfk_pad = pad\<rparr>)"

definition std_order :: visit_order where
  "std_order = \<lparr>vo_ips = sorted_list_of_set, vo_fronts = \<lambda>S. map tuple_front (sorted_list_of_set (front_tuple ` S))\<rparr>"

lemma std_handles_ok: "handles_ok std_handles"
  by (simp add: handles_ok_def std_handles_def std_hash_map_ok)

lemma std_order_ok: "order_ok std_order"
  by (simp add: order_ok_def std_order_def enumerates_sorted)
    (rule enumerates_via, simp add: tuple_front_def front_tuple_def)

text \<open>A node that was told of address \<open>cs_pod 3\<close> before and is now told of \<open>cs_pod 4\<close> under a new uid.\<close>

definition ap_map :: "('k \<times> 'v) list \<Rightarrow> ('k, 'v) std_map" where
  "ap_map rows = \<lparr>sm_rows = rows, sm_max = 8, sm_faults = []\<rparr>"

definition ap_state :: std_pins where
  "ap_state = \<lparr>pm_front_meta = ap_map [], pm_front_endpoints = ap_map [],
     pm_front_capacity = \<lparr>fc_meta = 8, fc_endpoints = 8\<rparr>, pm_recent_swaps = [],
     pm_pod_targets = ap_map [(cs_pod 3, 1)], pm_node_allow = ap_map [(cs_pod 9, 1)],
     pm_fwd_pending = ap_map [], pm_flow_table = ap_map [], pm_fronts_ever_known = False,
     pm_known_backends = [cs_pod 4 \<mapsto> Some ''a''], pm_orphans_swept = True\<rparr>"

definition ap_desired :: desired_entries where
  "ap_desired = default_entries\<lparr>de_fronts := [sw_front \<mapsto> \<lparr>df_flags = 0, df_prefer_local = False, df_endpoints = []\<rparr>],
     de_pod_targets := {cs_pod 4}, de_cluster_backends := [cs_pod 4 \<mapsto> Some ''b''], de_node_allow := {cs_pod 8},
     de_fronts_known := True, de_pod_targets_known := True\<rparr>"

text \<open>The same node while no conntrack row can be deleted.\<close>

definition ap_stuck :: std_pins where
  "ap_stuck = ap_state\<lparr>pm_fwd_pending := cs_pending\<lparr>sm_faults := [Some OtherMapError]\<rparr>\<rparr>"

text \<open>The parts of the tick on \<open>ap_state\<close>.\<close>

lemma ap_parts:
  "installed_targets std_handles ap_desired ap_state = Inr [cs_pod 3]" "orphan_walk std_handles ap_desired ap_state = None"
  "evict_pod_flows std_hash_map std_hash_map D (ap_map [], ap_map []) = (None, ap_map [], ap_map [])"
  "tick_delete_rows std_order ap_desired [cs_pod 3] = {cs_pod 3}"
  "entries_of (vo_fronts std_order) (de_fronts ap_desired) = [(sw_front, \<lparr>df_flags = 0, df_prefer_local = False, df_endpoints = []\<rparr>)]"
  "vo_ips std_order {ip} = [ip]"
  by (simp_all add: installed_targets_def orphan_walk_def orphan_sweep_due_def evict_pod_flows_def tick_delete_rows_def
      stale_pod_targets_def stale_forward_entries_def stale_flow_table_keys_def entries_of_def std_order_def std_handles_def
      ap_desired_def ap_state_def ap_map_def hm_keys_def std_hash_map_def collect_map_def cs_pod_def tuple_front_def front_tuple_def)

lemma ap_writes:
  "sync_rows std_hash_map ''POD_TARGETS'' [cs_pod 3] [cs_pod 4] (ap_map [(cs_pod 3, 1)]) = (None, ap_map [(cs_pod 4, 1)])"
  "apply_node_allow std_order std_hash_map {cs_pod 8} True (ap_map [(cs_pod 9, 1)]) = (None, ap_map [(cs_pod 8, 1)])"
  "fst (apply_fronts std_hash_map std_hash_map \<lparr>fc_meta = 8, fc_endpoints = 8\<rparr>
     [(sw_front, \<lparr>df_flags = 0, df_prefer_local = False, df_endpoints = []\<rparr>)] True [] (ap_map [], ap_map [])) =
   Inr \<lparr>fa_failures = [], fa_swapped = [sw_front]\<rparr>"
  by code_simp+

lemma ap_tick_ok: "fst (apply_tick std_order std_handles 7 ap_desired ap_state) = None"
proof -
  have d: "de_fronts_known ap_desired" "de_pod_targets_known ap_desired" "de_pod_targets ap_desired = {cs_pod 4}"
    "de_node_allow ap_desired = {cs_pod 8}" by (simp_all add: ap_desired_def)
  have st: "pm_front_meta ap_state = ap_map []" "pm_front_endpoints ap_state = ap_map []"
    "pm_front_capacity ap_state = \<lparr>fc_meta = 8, fc_endpoints = 8\<rparr>" "pm_recent_swaps ap_state = []"
    "pm_pod_targets ap_state = ap_map [(cs_pod 3, 1)]" "pm_node_allow ap_state = ap_map [(cs_pod 9, 1)]"
    "pm_fwd_pending ap_state = ap_map []" "pm_flow_table ap_state = ap_map []" by (simp_all add: ap_state_def)
  have h: "h_front_meta std_handles = std_hash_map" "h_front_endpoints std_handles = std_hash_map"
    "h_pod_targets std_handles = std_hash_map" "h_node_allow std_handles = std_hash_map"
    "h_fwd_pending std_handles = std_hash_map" "h_flow_table std_handles = std_hash_map" by (simp_all add: std_handles_def)
  obtain ms es where "apply_fronts std_hash_map std_hash_map \<lparr>fc_meta = 8, fc_endpoints = 8\<rparr>
     [(sw_front, \<lparr>df_flags = 0, df_prefer_local = False, df_endpoints = []\<rparr>)] True [] (ap_map [], ap_map []) =
   (Inr \<lparr>fa_failures = [], fa_swapped = [sw_front]\<rparr>, ms, es)"
    using ap_writes(3) by (metis prod.collapse)
  then show ?thesis
    by (simp add: apply_tick_def plan_tick_def apply_front_maps_def apply_pod_targets_def ap_parts ap_writes(1,2) d st h
        split_orphan_walk_def node_allow_may_delete_def report_front_failures_def held_def Let_def)
qed

lemma ap_finite: "entries_finite ap_desired"
  by (simp add: entries_finite_def ap_desired_def)

section \<open>Properties\<close>

text \<open>C26. No new owner inherits the old flows of an address. After a tick that had to sweep an address
  (departed, reused or orphaned), either no conntrack row of it is left, or the tick reports an error and
  has installed nothing that names it: its \<open>POD_TARGETS\<close> row is as before, and so is every front that is to
  send flows there.\<close>

theorem unswept_ip_withheld:
  assumes "handles_ok H" "order_ok vo" "entries_finite d" "apply_tick vo H now d s = (r, s')"
    and "ip \<in> swept_ips vo H d s"
  shows "no_rows_of H s' ip
    \<or> r \<noteq> None
      \<and> hm_rows (h_pod_targets H) (pm_pod_targets s') ip = hm_rows (h_pod_targets H) (pm_pod_targets s) ip
      \<and> (\<forall>k front. de_fronts d k = Some front \<and> names_backend front {ip} \<longrightarrow>
           same_front k (front_tables_of H s) (front_tables_of H s'))"
proof -
  obtain plan known p f where pl: "planned_tick vo H d s = (plan, known, p, f)" by (metis prod_cases4)
  show ?thesis
  proof (cases "tp_sweep_error plan = None")
    case True
    then show ?thesis using swept_rows [OF assms(1,4) pl _ assms(5)] by simp
  next
    case False
    have "r \<noteq> None" using tick_ok(1) [OF _ pl, of now s'] assms(4) False by auto
    moreover have "names_backend front (swept_ips vo H d s)" if "names_backend front {ip}" for front
      using that assms(5) by (auto simp: names_backend_def list_ex_iff)
    ultimately show ?thesis
      using withheld_target [OF assms(1-4) pl False assms(5)] withheld_front [OF assms(1-4) pl False] by blast
  qed
qed

theorem unswept_ip_withheld_witness:
  "let s' = snd (apply_tick std_order std_handles 7 ap_desired ap_stuck)
   in no_rows_of std_handles s' (cs_pod 4)
      \<or> hm_rows std_hash_map (pm_pod_targets s') (cs_pod 4) = hm_rows std_hash_map (pm_pod_targets ap_stuck) (cs_pod 4)"
proof -
  have "cs_pod 4 \<in> swept_ips std_order std_handles ap_desired ap_stuck"
    by (simp add: swept_ips_def tick_sweep_def reused_iff ap_desired_def ap_stuck_def ap_state_def)
  from unswept_ip_withheld [OF std_handles_ok std_order_ok ap_finite _ this,
      of 7 "fst (apply_tick std_order std_handles 7 ap_desired ap_stuck)" "snd (apply_tick std_order std_handles 7 ap_desired ap_stuck)"]
  show ?thesis by (auto simp: Let_def std_handles_def)
qed

text \<open>C17. A sweep that failed is not forgotten: an address that has departed or was reused is swept, and unless
  its conntrack rows are gone afterwards, whatever made it departed for some desired state still does, and the
  orphan walk is still due.\<close>

theorem unswept_ip_remembered:
  assumes "handles_ok H" "order_ok vo" "entries_finite d" "apply_tick vo H now d s = (r, s')"
    and "installed_targets H d s = Inr ks" "departed H d s ip"
  shows "no_rows_of H s' ip
    \<or> (\<forall>d'. departed H d' s' ip \<longleftrightarrow> departed H d' s ip) \<and> pm_orphans_swept s' = pm_orphans_swept s"
proof -
  obtain plan known p f where pl: "planned_tick vo H d s = (plan, known, p, f)" by (metis prod_cases4)
  note ip = departed_swept [OF assms(1,2,3,5,6)]
  show ?thesis
  proof (cases "tp_sweep_error plan = None")
    case True
    then show ?thesis using swept_rows [OF assms(1,4) pl _ ip] by simp
  next
    case False
    show ?thesis
      using withheld_target [OF assms(1-4) pl False ip] pending_known [OF assms(4) pl False ip]
        tick_fields(5) [OF assms(4) pl] False
      by (simp add: departed_def orphans_swept_after_def)
  qed
qed

theorem unswept_ip_remembered_witness:
  "let s' = snd (apply_tick std_order std_handles 7 ap_desired ap_stuck)
   in no_rows_of std_handles s' (cs_pod 4) \<or> departed std_handles ap_desired s' (cs_pod 4) \<and> pm_orphans_swept s'"
proof -
  have "installed_targets std_handles ap_desired ap_stuck = Inr [cs_pod 3]"
    by (simp add: installed_targets_def std_handles_def ap_desired_def ap_stuck_def ap_state_def ap_map_def hm_keys_def
        std_hash_map_def collect_map_def)
  moreover have dep: "departed std_handles ap_desired ap_stuck (cs_pod 4)"
    by (simp add: departed_def ap_desired_def ap_stuck_def ap_state_def)
  moreover have "pm_orphans_swept ap_stuck" by (simp add: ap_stuck_def ap_state_def)
  ultimately show ?thesis
    using unswept_ip_remembered [OF std_handles_ok std_order_ok ap_finite,
        of 7 ap_stuck "fst (apply_tick std_order std_handles 7 ap_desired ap_stuck)" "snd (apply_tick std_order std_handles 7 ap_desired ap_stuck)"]
    by (auto simp: Let_def)
qed

text \<open>An address that was in doubt only because of its row or a pin is not added to the known backends when
  its sweep fails.\<close>

lemma failed_sweep_adds_nothing_known:
  assumes "apply_tick vo H now d s = (r, s')" "planned_tick vo H d s = (plan, known, p, f)"
    and "tp_sweep_error plan \<noteq> None" "ip \<in> swept_ips vo H d s" "pm_known_backends s ip = None"
  shows "pm_known_backends s' ip = None"
  using pending_known [OF assms(1-4)] assms(5) by simp

text \<open>C20. A tick that returns success has brought every map to the desired entries: \<open>POD_TARGETS\<close> and
  \<open>NODE_ALLOW\<close> hold exactly the wanted addresses, every desired front carries its flags and steers each new flow
  as its endpoint set says, no other front is left, no conntrack row belongs to a departed or reused address,
  and the known backends are the current ones.\<close>

theorem successful_tick_converges:
  assumes "handles_ok H" "order_ok vo" "entries_finite d" "apply_tick vo H now d s = (None, s')"
    and "de_fronts_known d" "de_pod_targets_known d"
  shows "(\<forall>ip. hm_rows (h_pod_targets H) (pm_pod_targets s') ip \<noteq> None \<longleftrightarrow> ip \<in> de_pod_targets d)
    \<and> (\<forall>ip. hm_rows (h_node_allow H) (pm_node_allow s') ip \<noteq> None \<longleftrightarrow> ip \<in> de_node_allow d)
    \<and> (\<forall>k. case de_fronts d k of
          Some front \<Rightarrow> length (df_endpoints front) < 2 ^ 16 \<longrightarrow>
            (\<exists>m. fst (front_tables_of H s') k = Some m \<and> fm_flags m = df_flags front
               \<and> (\<forall>h. ingress_steer m None None h k (snd (front_tables_of H s')) = desired_steer front h))
        | None \<Rightarrow> fst (front_tables_of H s') k = None
            \<and> (\<forall>ek. fek_front ek = k \<longrightarrow> snd (front_tables_of H s') ek = None))
    \<and> (\<forall>ip. departed H d s ip \<longrightarrow> no_rows_of H s' ip)
    \<and> pm_known_backends s' = de_cluster_backends d"
  (is "?pods \<and> ?peers \<and> ?fronts \<and> ?swept \<and> ?known")
proof -
  obtain plan known p f where pl: "planned_tick vo H d s = (plan, known, p, f)" by (metis prod_cases4)
  note ok = tick_ok [OF assms(4) pl] and sw = planned_sweep [OF pl] and fields = tick_fields [OF assms(4) pl]
  have plan: "tp_fronts plan = de_fronts d" "tp_prune_fronts plan" "tp_pod_targets plan = de_pod_targets d"
    using sw(3-5) ok(1) by simp_all
  from ok(3) obtain ks where ks: "installed_targets H d s = Inr ks" by blast
  have rows: "tp_delete_rows plan = tick_delete_rows vo d ks" using sw(6) ok(1) ks by simp
  have ?pods
    using pods_converge [OF assms(1-3,6) ks rows] ok(5) fields(8) assms(6) ks by (simp add: plan(3))
  moreover have ?peers
    using peers_converge [OF assms(1-3)] ok(4) fields(6) assms(5) by simp
  moreover have ?fronts using fronts_converge [OF assms(1-3,5) plan(1,2) ok(6) fields(7)] by simp
  moreover have ?swept using swept_rows [OF assms(1,4) pl ok(1)] departed_swept [OF assms(1-3) ks] by blast
  moreover have ?known using fields(3) sw(2) ok(1) assms(6) by (simp add: known_after_def)
  ultimately show ?thesis by blast
qed

theorem successful_tick_converges_witness:
  "let s' = snd (apply_tick std_order std_handles 7 ap_desired ap_state)
   in (\<forall>ip. hm_rows std_hash_map (pm_pod_targets s') ip \<noteq> None \<longleftrightarrow> ip \<in> {cs_pod 4})
      \<and> pm_known_backends s' = [cs_pod 4 \<mapsto> Some ''b'']"
proof -
  let ?t = "apply_tick std_order std_handles 7 ap_desired ap_state"
  have "?t = (None, snd ?t)" using ap_tick_ok by (metis prod.collapse)
  from successful_tick_converges [OF std_handles_ok std_order_ok ap_finite this] show ?thesis
    by (simp add: Let_def std_handles_def ap_desired_def)
qed

end
