(* ===== verification/Watch_Props.thy ===== *)
theory Watch_Props
  imports Watch_Desired
begin

text \<open>
  What holds of every state the watch can be in, what a relist leaves behind, and how the entries computed from
  a state relate to the Services, Nodes and addresses it holds.
\<close>

definition watch_order_ok :: "watch_order \<Rightarrow> bool" where
  "watch_order_ok wo \<longleftrightarrow> enumerates (wo_services wo) \<and> enumerates (wo_names wo)"

section \<open>Reachable states\<close>

datatype watch_input =
    ServiceEvent json | ServiceList "json list"
  | SliceEvent json | SliceList "json list"
  | NodeEvent json | NodeList "json list"

fun watch_step :: "watch_order \<Rightarrow> ip_addr \<Rightarrow> watch_input \<Rightarrow> watch_state \<Rightarrow> watch_state" where
  "watch_step wo ip (ServiceEvent e) ws = snd (apply_service_event e ws)"
| "watch_step wo ip (ServiceList items) ws = snd (replace_services items ws)"
| "watch_step wo ip (SliceEvent e) ws = snd (apply_endpoint_slice_event e ws)"
| "watch_step wo ip (SliceList items) ws = snd (replace_endpoint_slices items ws)"
| "watch_step wo ip (NodeEvent e) ws = apply_node_event e ws"
| "watch_step wo ip (NodeList items) ws = snd (replace_nodes wo items ip ws)"

inductive watch_reach :: "watch_order \<Rightarrow> ip_addr \<Rightarrow> watch_state \<Rightarrow> bool" for wo ip where
  start: "watch_reach wo ip default_watch"
| step: "watch_reach wo ip ws \<Longrightarrow> watch_reach wo ip (watch_step wo ip i ws)"
| warned: "watch_reach wo ip ws \<Longrightarrow> watch_reach wo ip (snd (warn_desired wo node ws))"

text \<open>The two address lists of a Node cover the same families, and at least one.\<close>

definition addrs_wf :: "node_addrs \<Rightarrow> bool" where
  "addrs_wf a \<longleftrightarrow> na_underlay a \<noteq> [] \<and> is_ipv4 ` set (na_underlay a) = is_ipv4 ` set (na_fronts a)"

definition services_wf :: "watch_state \<Rightarrow> bool" where
  "services_wf ws \<longleftrightarrow> finite (dom (ws_services ws)) \<and> (\<forall>svc \<in> ran (ws_services ws). rs_ip_families svc \<noteq> [])"

definition slices_wf :: "watch_state \<Rightarrow> bool" where
  "slices_wf ws \<longleftrightarrow> finite (dom (ws_slices ws)) \<and> (\<forall>key. finite (dom (slices_of ws key)))"

definition nodes_wf :: "watch_state \<Rightarrow> bool" where
  "nodes_wf ws \<longleftrightarrow> finite (ws_node_names ws) \<and> dom (ws_node_ips ws) \<subseteq> ws_node_names ws
     \<and> (\<forall>a \<in> ran (ws_node_ips ws). addrs_wf a)"

definition watch_wf :: "watch_state \<Rightarrow> bool" where
  "watch_wf ws \<longleftrightarrow> services_wf ws \<and> slices_wf ws \<and> nodes_wf ws"

lemmas watch_wf_defs = watch_wf_def services_wf_def slices_wf_def nodes_wf_def

lemma wf_cong:
  "ws_services ws' = ws_services ws \<Longrightarrow> services_wf ws' = services_wf ws"
  "ws_slices ws' = ws_slices ws \<Longrightarrow> slices_wf ws' = slices_wf ws"
  "ws_node_ips ws' = ws_node_ips ws \<Longrightarrow> ws_node_names ws' = ws_node_names ws \<Longrightarrow> nodes_wf ws' = nodes_wf ws"
  by (simp_all add: services_wf_def slices_wf_def slices_of_def nodes_wf_def)

lemma default_wf: "watch_wf default_watch"
  by (simp add: watch_wf_defs default_watch_def slices_of_def)

lemma ran_upd_subset: "ran (m(k \<mapsto> v)) \<subseteq> insert v (ran m)" "ran (m(k := None)) \<subseteq> ran m"
  by (auto simp: ran_def)

lemma parse_service_families: "parse_service obj = Some raw \<Longrightarrow> rs_ip_families raw \<noteq> []"
  by (auto simp: parse_service_def parse_ip_families_def Let_def split: if_splits option.splits)

lemma service_event_wf: "services_wf ws \<Longrightarrow> services_wf (snd (apply_service_event e ws))"
  using ran_upd_subset(1) [of "ws_services ws"] ran_upd_subset(2) [of "ws_services ws"] parse_service_families
  by (auto simp: services_wf_def apply_service_event_def Let_def split: option.splits event_kind_t.splits) blast+

lemma service_event_frame:
  "ws_slices (snd (apply_service_event e ws)) = ws_slices ws"
  "ws_node_ips (snd (apply_service_event e ws)) = ws_node_ips ws"
  "ws_node_names (snd (apply_service_event e ws)) = ws_node_names ws"
  by (auto simp: apply_service_event_def Let_def split: option.splits event_kind_t.splits)

lemma slice_event_wf: "slices_wf ws \<Longrightarrow> slices_wf (snd (apply_endpoint_slice_event e ws))"
proof -
  assume wf: "slices_wf ws"
  then have "finite (dom (slices_of ws k))" "\<And>m. ws_slices ws k = Some m \<Longrightarrow> finite (dom m)" for k
    by (auto simp: slices_wf_def slices_of_def dest: spec [of _ k])
  then show ?thesis using wf
    by (auto simp: slices_wf_def slices_of_def apply_endpoint_slice_event_def Let_def
        split: option.splits event_kind_t.splits)
qed

lemma slice_event_frame:
  "ws_services (snd (apply_endpoint_slice_event e ws)) = ws_services ws"
  "ws_node_ips (snd (apply_endpoint_slice_event e ws)) = ws_node_ips ws"
  "ws_node_names (snd (apply_endpoint_slice_event e ws)) = ws_node_names ws"
  by (auto simp: apply_endpoint_slice_event_def Let_def split: option.splits event_kind_t.splits)

lemma prefer_families: "is_ipv4 ` set (prefer_per_family xs ys) = is_ipv4 ` set xs \<union> is_ipv4 ` set ys"
  by (auto simp: prefer_per_family_def list_ex_iff image_iff)

lemma parse_node_wf: "na_underlay (parse_node_addrs obj) \<noteq> [] \<Longrightarrow> addrs_wf (parse_node_addrs obj)"
  by (auto simp: addrs_wf_def parse_node_addrs_def Let_def prefer_families split: option.splits)

lemma node_event_wf: "nodes_wf ws \<Longrightarrow> nodes_wf (apply_node_event e ws)"
  using ran_upd_subset(1) [of "ws_node_ips ws"] ran_upd_subset(2) [of "ws_node_ips ws"] parse_node_wf
  by (auto simp: nodes_wf_def apply_node_event_def Let_def split: option.splits event_kind_t.splits) blast+

lemma node_event_frame:
  "ws_services (apply_node_event e ws) = ws_services ws" "ws_slices (apply_node_event e ws) = ws_slices ws"
  by (auto simp: apply_node_event_def Let_def split: option.splits event_kind_t.splits)

section \<open>Replaying a list\<close>

lemma added_simps [simp]: "event_kind (added obj) = Some Upsert" "json_at (added obj) ''object'' = obj"
  by (simp_all add: event_kind_def added_def)

text \<open>The last item of a list that satisfies a test.\<close>

definition last_item :: "('a \<Rightarrow> bool) \<Rightarrow> 'a list \<Rightarrow> 'a option" where
  "last_item P xs = List.find P (rev xs)"

lemma last_item_simps [simp]: "last_item P [] = None" "last_item P (xs @ [x]) = (if P x then Some x else last_item P xs)"
  by (simp_all add: last_item_def)

lemma last_item_None: "last_item P xs = None \<longleftrightarrow> (\<forall>x \<in> set xs. \<not> P x)"
  by (auto simp: last_item_def find_None_iff)

lemma added_service:
  "ws_services (snd (apply_service_event (added item) ws)) key =
   (if service_key_of item = Some key then parse_service item else ws_services ws key)"
  by (auto simp: apply_service_event_def split: option.splits)

lemma snd_list_service_item: "snd (list_service_item item acc) = snd (apply_service_event (added item) (snd acc))"
  by (auto simp: list_service_item_def split: prod.splits option.splits)

lemma listed_service:
  "ws_services (snd (fold list_service_item items ([], default_watch))) key =
   Option.bind (last_item (\<lambda>i. service_key_of i = Some key) items) parse_service"
proof (induction items rule: rev_induct)
  case Nil then show ?case by (simp add: default_watch_def)
next
  case (snoc item items) then show ?case by (simp add: snd_list_service_item added_service)
qed

lemma listed_services_wf: "services_wf (snd (fold list_service_item items ([], default_watch)))"
proof (induction items rule: rev_induct)
  case Nil then show ?case using default_wf by (simp add: watch_wf_def)
next
  case (snoc item items) then show ?case by (simp add: snd_list_service_item service_event_wf)
qed

lemma added_slice:
  "slices_of (snd (apply_endpoint_slice_event (added item) ws)) key name =
   (if owning_service_key item = Some key \<and> metadata_name item = Some name
    then Some (parse_endpoint_slice item) else slices_of ws key name)"
  by (auto simp: apply_endpoint_slice_event_def slices_of_def Let_def split: option.splits)

lemma listed_slices_snoc:
  "listed_slices (items @ [item]) = snd (apply_endpoint_slice_event (added item) (listed_slices items))"
  by (simp add: listed_slices_def)

lemma listed_slice:
  "slices_of (listed_slices items) key name = map_option parse_endpoint_slice
     (last_item (\<lambda>i. owning_service_key i = Some key \<and> metadata_name i = Some name) items)"
proof (induction items rule: rev_induct)
  case Nil then show ?case by (simp add: listed_slices_def default_watch_def slices_of_def)
next
  case (snoc item items) then show ?case by (simp add: listed_slices_snoc added_slice)
qed

lemma listed_slices_wf: "slices_wf (listed_slices items)"
proof (induction items rule: rev_induct)
  case Nil then show ?case using default_wf by (simp add: watch_wf_def listed_slices_def)
next
  case (snoc item items) then show ?case by (simp add: listed_slices_snoc slice_event_wf)
qed

text \<open>A listed Node has the addresses of its last item that carries any, else those it had.\<close>

definition node_item :: "string \<Rightarrow> json \<Rightarrow> bool" where
  "node_item name item \<longleftrightarrow> metadata_name item = Some name"

definition listed_addrs :: "watch_state \<Rightarrow> json list \<Rightarrow> string \<Rightarrow> node_addrs option" where
  "listed_addrs ws items name =
     (case last_item (\<lambda>i. node_item name i \<and> na_underlay (parse_node_addrs i) \<noteq> []) items of
        Some i \<Rightarrow> Some (parse_node_addrs i)
      | None \<Rightarrow> if list_ex (node_item name) items then ws_node_ips ws name else None)"

lemma added_node:
  "ws_node_ips (apply_node_event (added item) ws) name =
   (if node_item name item \<and> na_underlay (parse_node_addrs item) \<noteq> [] then Some (parse_node_addrs item) else ws_node_ips ws name)"
  "ws_node_names (apply_node_event (added item) ws) = ws_node_names ws \<union> {n. node_item n item}"
  by (auto simp: apply_node_event_def node_item_def Let_def split: option.splits)

lemma list_node_item_ips:
  "ws_node_ips (list_node_item ws item fresh) name =
   (if node_item name item \<and> ws_node_ips (apply_node_event (added item) fresh) name = None then ws_node_ips ws name
    else ws_node_ips (apply_node_event (added item) fresh) name)"
  by (auto simp: list_node_item_def node_item_def Let_def split: option.splits)

lemma list_node_item_names:
  "ws_node_names (list_node_item ws item fresh) = ws_node_names fresh \<union> {n. node_item n item}"
  by (auto simp: list_node_item_def added_node(2) Let_def split: option.splits)

lemma listed_node:
  "ws_node_ips (fold (list_node_item ws) items default_watch) name = listed_addrs ws items name"
  "ws_node_names (fold (list_node_item ws) items default_watch) = {n. \<exists>i \<in> set items. node_item n i}"
proof (induction items rule: rev_induct)
  case Nil
  show "ws_node_ips (fold (list_node_item ws) [] default_watch) name = listed_addrs ws [] name"
    "ws_node_names (fold (list_node_item ws) [] default_watch) = {n. \<exists>i \<in> set []. node_item n i}"
    by (simp_all add: default_watch_def listed_addrs_def)
next
  case (snoc item items)
  show "ws_node_names (fold (list_node_item ws) (items @ [item]) default_watch) = {n. \<exists>i \<in> set (items @ [item]). node_item n i}"
    using snoc(2) by (auto simp: list_node_item_names)
  show "ws_node_ips (fold (list_node_item ws) (items @ [item]) default_watch) name = listed_addrs ws (items @ [item]) name"
    using snoc(1) by (auto simp: list_node_item_ips added_node(1) listed_addrs_def split: option.splits)
qed

lemma last_item_SomeD: "last_item P xs = Some x \<Longrightarrow> x \<in> set xs \<and> P x"
  by (metis last_item_def find_Some_iff nth_mem set_rev)

lemma listed_nodes_wf:
  assumes "nodes_wf ws"
  shows "nodes_wf (fold (list_node_item ws) items default_watch)"
proof -
  have prev: "ws_node_ips ws name = Some a \<Longrightarrow> addrs_wf a" for name a
    using assms by (auto simp: nodes_wf_def ran_def)
  have "finite {n. \<exists>i \<in> set items. node_item n i}"
    by (rule finite_subset [of _ "the ` metadata_name ` set items"]) (force simp: node_item_def image_iff)+
  moreover have "listed_addrs ws items name = Some a \<Longrightarrow> (\<exists>i \<in> set items. node_item name i) \<and> addrs_wf a" for name a
    using prev parse_node_wf by (auto simp: listed_addrs_def list_ex_iff dest!: last_item_SomeD split: option.splits if_splits)
  ultimately show ?thesis by (auto simp: nodes_wf_def listed_node ran_def dom_def)
qed

section \<open>The invariant\<close>

lemma step_wf:
  assumes "watch_wf ws"
  shows "watch_wf (watch_step wo ip i ws)"
proof (cases i)
  case (ServiceEvent e)
  then show ?thesis using assms service_event_wf wf_cong service_event_frame unfolding watch_wf_def by (metis watch_step.simps(1))
next
  case (SliceEvent e)
  then show ?thesis using assms slice_event_wf wf_cong slice_event_frame unfolding watch_wf_def by (metis watch_step.simps(3))
next
  case (NodeEvent e)
  then show ?thesis using assms node_event_wf wf_cong node_event_frame unfolding watch_wf_def by (metis watch_step.simps(5))
next
  case (ServiceList items)
  then show ?thesis using assms listed_services_wf [of items]
    by (auto simp: watch_wf_def replace_services_def services_wf_def slices_wf_def slices_of_def nodes_wf_def split: prod.splits)
next
  case (SliceList items)
  then show ?thesis using assms listed_slices_wf [of items]
    by (auto simp: watch_wf_def replace_endpoint_slices_def services_wf_def slices_wf_def slices_of_def nodes_wf_def Let_def)
next
  case (NodeList items)
  then show ?thesis using assms listed_nodes_wf [of ws items]
    by (auto simp: watch_wf_def replace_nodes_def services_wf_def slices_wf_def slices_of_def nodes_wf_def Let_def)
qed

lemma warned_wf: "watch_wf (snd (warn_desired wo node ws)) = watch_wf ws"
  by (simp add: warn_desired_def newly_warned_def watch_wf_defs slices_of_def)

lemma reach_wf: "watch_reach wo ip ws \<Longrightarrow> watch_wf ws"
  by (induction rule: watch_reach.induct) (simp_all add: default_wf step_wf warned_wf)

section \<open>The entries of a state\<close>

lemma reconcile_dom:
  "dom (de_fronts (reconcile_service svc slices node)) = front_key (sv_front_ip svc) ` set (sv_ports svc)"
proof -
  have "dom (fold (\<lambda>p m. m(f p \<mapsto> g p)) ps m) = dom m \<union> f ` set ps" 
    for ps and f :: "service_port \<Rightarrow> lb_front_key" and g :: "service_port \<Rightarrow> desired_front" and m
    by (induction ps arbitrary: m) auto
  then show ?thesis by (simp add: reconcile_service_def Let_def)
qed

lemma reconcile_front_of:
  assumes "de_fronts (reconcile_service svc slices node) k = Some d"
  shows "\<exists>port \<in> set (sv_ports svc). k = front_key (sv_front_ip svc) port \<and> d = reconcile_port svc (all_endpoints slices) node port"
proof -
  have "fold (\<lambda>p m. m(f p \<mapsto> g p)) ps m k = Some d \<Longrightarrow> (\<exists>p \<in> set ps. k = f p \<and> d = g p) \<or> m k = Some d"
    for ps m and f :: "service_port \<Rightarrow> lb_front_key" and g
    by (induction ps arbitrary: m) (fastforce split: if_splits)+
  then show ?thesis using assms by (fastforce simp: reconcile_service_def Let_def)
qed

text \<open>The Service as one of its fronts sees it.\<close>

definition view_of :: "watch_order \<Rightarrow> watch_state \<Rightarrow> service_key \<Rightarrow> raw_service \<Rightarrow> ip_addr \<Rightarrow> service_view" where
  "view_of wo ws key svc ip =
     \<lparr>sv_front_ip = ip, sv_policy = rs_policy svc, sv_client_ip_affinity = rs_client_ip_affinity svc,
      sv_ports = service_ports svc (values_of (wo_names wo) (slices_of ws key))\<rparr>"

definition views_of :: "watch_order \<Rightarrow> watch_state \<Rightarrow> node_context \<Rightarrow> service_key \<Rightarrow> endpoint_slice_view list" where
  "views_of wo ws node key = map (slice_view ws node) (values_of (wo_names wo) (slices_of ws key))"

text \<open>The fronts of one Service, later addresses over earlier ones.\<close>

definition service_fronts ::
  "watch_order \<Rightarrow> watch_state \<Rightarrow> node_context \<Rightarrow> service_key \<times> raw_service \<Rightarrow> (lb_front_key \<rightharpoonup> desired_front)" where
  "service_fronts wo ws node entry =
     (case entry of (key, svc) \<Rightarrow>
      if fully_listed ws
      then fold (\<lambda>ip m. m ++ de_fronts (reconcile_service (view_of wo ws key svc ip) (views_of wo ws node key) node))
             (filter (\<lambda>ip. fronts_family svc (family_of ip)) (front_ips wo ws)) Map.empty
      else Map.empty)"

lemma fold_map_add: "fold (\<lambda>x m. m ++ f x) xs m = m ++ fold (\<lambda>x m. m ++ f x) xs Map.empty"
proof (induction xs arbitrary: m)
  case (Cons x xs)
  show ?case using Cons [of "m ++ f x"] Cons [of "f x"] by simp
qed simp

lemma desired_front_ip_fst:
  "fst (desired_front_ip key svc (service_ports svc (values_of (wo_names wo) (slices_of ws key))) (views_of wo ws node key) node ip acc) =
   (fst acc)\<lparr>de_fronts := de_fronts (fst acc) ++ de_fronts (reconcile_service (view_of wo ws key svc ip) (views_of wo ws node key) node)\<rparr>"
  by (simp add: desired_front_ip_def view_of_def Let_def split: prod.split)

lemma desired_fronts_fold:
  "fst (fold (desired_front_ip key svc (service_ports svc (values_of (wo_names wo) (slices_of ws key))) (views_of wo ws node key) node) ips acc) =
   (fst acc)\<lparr>de_fronts := de_fronts (fst acc) ++
     fold (\<lambda>ip m. m ++ de_fronts (reconcile_service (view_of wo ws key svc ip) (views_of wo ws node key) node)) ips Map.empty\<rparr>"
proof (induction ips arbitrary: acc)
  case (Cons ip ips)
  let ?f = "\<lambda>ip. de_fronts (reconcile_service (view_of wo ws key svc ip) (views_of wo ws node key) node)"
  show ?case unfolding fold_simps Cons desired_front_ip_fst
    by (simp add: fold_map_add [of ?f ips "?f ip"])
qed simp

lemma desired_service_fst:
  "fst (desired_service wo ws node (key, svc) acc) =
   (let raw = values_of (wo_names wo) (slices_of ws key); slices = views_of wo ws node key
    in (fst acc)\<lparr>de_fronts := de_fronts (fst acc) ++ service_fronts wo ws node (key, svc),
         de_pod_targets := de_pod_targets (fst acc) \<union> pod_targets_for_node slices node,
         de_cluster_backends := merge_backends (de_cluster_backends (fst acc)) (cluster_backends (tracked_backends ws raw)),
         de_rejected := de_rejected (fst acc) @ rejected_endpoints_for_node slices node\<rparr>)"
  by (simp add: desired_service_def Let_def desired_fronts_fold [unfolded views_of_def] service_fronts_def views_of_def
      split: prod.split)

lemma desired_fold:
  "de_fronts (fst (fold (desired_service wo ws node) es acc)) =
     de_fronts (fst acc) ++ fold (\<lambda>e m. m ++ service_fronts wo ws node e) es Map.empty"
  "de_pod_targets (fst (fold (desired_service wo ws node) es acc)) =
     de_pod_targets (fst acc) \<union> (\<Union>(key, svc) \<in> set es. pod_targets_for_node (views_of wo ws node key) node)"
  "de_node_allow (fst (fold (desired_service wo ws node) es acc)) = de_node_allow (fst acc)"
  "de_fronts_known (fst (fold (desired_service wo ws node) es acc)) = de_fronts_known (fst acc)"
  "de_pod_targets_known (fst (fold (desired_service wo ws node) es acc)) = de_pod_targets_known (fst acc)"
proof (induction es arbitrary: acc)
  case (Cons e es)
  obtain key svc where e: "e = (key, svc)" by (cases e)
  { case 1 show ?case
      by (simp add: Cons e desired_service_fst Let_def fold_map_add [of "service_fronts wo ws node" es "service_fronts wo ws node (key, svc)"])
  next
    case 2 show ?case by (simp add: Cons e desired_service_fst Let_def Un_assoc)
  next
    case 3 show ?case by (simp add: Cons e desired_service_fst Let_def)
  next
    case 4 show ?case by (simp add: Cons e desired_service_fst Let_def)
  next
    case 5 show ?case by (simp add: Cons e desired_service_fst Let_def) }
qed simp_all

lemma desired_fields:
  "de_fronts (desired wo ws node) =
     fold (\<lambda>e m. m ++ service_fronts wo ws node e) (entries_of (wo_services wo) (ws_services ws)) Map.empty"
  "de_pod_targets (desired wo ws node) =
     (\<Union>(key, svc) \<in> set (entries_of (wo_services wo) (ws_services ws)). pod_targets_for_node (views_of wo ws node key) node)"
  "de_node_allow (desired wo ws node) =
     set (map tunnel_remote_v6 (concat (map na_underlay (values_of (wo_names wo) (ws_node_ips ws)))))"
  "de_fronts_known (desired wo ws node) = fully_listed ws"
  "de_pod_targets_known (desired wo ws node) \<longleftrightarrow> fully_listed ws \<and> own_node_addrs wo ws (nc_node_ip node) \<noteq> None"
  by (simp_all add: desired_def desired_pass_def desired_fold default_entries_def Let_def del: set_map)

lemma fold_map_add_dom: "dom (fold (\<lambda>x m. m ++ f x) xs m) = dom m \<union> (\<Union>x \<in> set xs. dom (f x))"
  by (induction xs arbitrary: m) auto

lemma fold_map_add_Some:
  "fold (\<lambda>x m. m ++ f x) xs m k = Some v \<Longrightarrow> m k = Some v \<or> (\<exists>x \<in> set xs. f x k = Some v)"
  by (induction xs arbitrary: m) (fastforce simp: map_add_Some_iff)+

lemma front_ips_iff:
  assumes "watch_order_ok wo" "nodes_wf ws"
  shows "ip \<in> set (front_ips wo ws) \<longleftrightarrow> (\<exists>name addrs. ws_node_ips ws name = Some addrs \<and> ip \<in> set (na_fronts addrs))"
proof -
  have "finite (dom (ws_node_ips ws))" using assms(2) finite_subset by (auto simp: nodes_wf_def)
  then have "a \<in> set (values_of (wo_names wo) (ws_node_ips ws)) \<longleftrightarrow> a \<in> ran (ws_node_ips ws)" for a
    using assms(1) by (simp add: watch_order_ok_def values_of_iff)
  then show ?thesis unfolding front_ips_def set_concat set_map ran_def by blast
qed

lemma service_fronts_dom:
  "dom (service_fronts wo ws node (key, svc)) =
   (if fully_listed ws
    then {front_key ip port | ip port. ip \<in> set (front_ips wo ws) \<and> fronts_family svc (family_of ip)
            \<and> port \<in> set (service_ports svc (values_of (wo_names wo) (slices_of ws key)))}
    else {})"
  by (auto simp: service_fronts_def fold_map_add_dom reconcile_dom view_of_def)

lemma service_fronts_Some:
  assumes "service_fronts wo ws node (key, svc) k = Some d"
  shows "\<exists>ip \<in> set (front_ips wo ws). fronts_family svc (family_of ip) \<and>
    (\<exists>port \<in> set (sv_ports (view_of wo ws key svc ip)). k = front_key ip port
       \<and> d = reconcile_port (view_of wo ws key svc ip) (all_endpoints (views_of wo ws node key)) node port)"
proof -
  from assms obtain ip where ip: "ip \<in> set (front_ips wo ws)" "fronts_family svc (family_of ip)"
    "de_fronts (reconcile_service (view_of wo ws key svc ip) (views_of wo ws node key) node) k = Some d"
    by (auto simp: service_fronts_def dest!: fold_map_add_Some split: if_splits)
  from reconcile_front_of [OF ip(3)] ip(1,2) show ?thesis by (auto simp: view_of_def)
qed

text \<open>Finitely many of everything.\<close>

lemma pod_targets_finite: "finite (pod_targets_for_node slices node)"
proof -
  have "finite A \<Longrightarrow> finite (fold (\<lambda>ep A. if P ep then insert (f ep) A else A) es A)"
    for es :: "endpoint list" and P and f :: "endpoint \<Rightarrow> ip16" and A
    by (induction es arbitrary: A) auto
  then show ?thesis by (simp add: pod_targets_for_node_def)
qed

lemma desired_finite:
  "finite (dom (de_fronts (desired wo ws node)))" "finite (de_pod_targets (desired wo ws node))"
  "finite (de_node_allow (desired wo ws node))"
proof -
  have "finite (dom (service_fronts wo ws node e))" for e
    by (cases e) (auto simp: service_fronts_def fold_map_add_dom reconcile_dom)
  then show "finite (dom (de_fronts (desired wo ws node)))" by (simp add: desired_fields fold_map_add_dom)
  show "finite (de_pod_targets (desired wo ws node))" by (auto simp: desired_fields pod_targets_finite split: prod.splits)
  show "finite (de_node_allow (desired wo ws node))" by (simp add: desired_fields del: set_map set_concat)
qed

section \<open>An example cluster\<close>

definition key_pair :: "service_key \<Rightarrow> string \<times> string" where
  "key_pair k = (sk_namespace k, sk_name k)"

definition pair_key :: "string \<times> string \<Rightarrow> service_key" where
  "pair_key p = \<lparr>sk_namespace = fst p, sk_name = snd p\<rparr>"

definition std_watch_order :: watch_order where
  "std_watch_order = \<lparr>wo_services = \<lambda>S. map pair_key (sorted_list_of_set (key_pair ` S)), wo_names = sorted_list_of_set\<rparr>"

lemma std_watch_order_ok: "watch_order_ok std_watch_order"
  by (simp add: watch_order_ok_def std_watch_order_def enumerates_sorted)
    (rule enumerates_via, simp add: key_pair_def pair_key_def)

text \<open>One node with both kinds of address and one Service with one pod on it.\<close>

definition wx_service :: json where
  "wx_service = JObj [(''metadata'', JObj [(''namespace'', JStr ''ns''), (''name'', JStr ''web'')]),
     (''spec'', JObj [(''type'', JStr ''LoadBalancer''), (''ipFamilies'', JArr [JStr ''IPv4'']),
        (''ports'', JArr [JObj [(''port'', JNum 80)]])])]"

definition wx_slice :: json where
  "wx_slice = JObj [(''metadata'', JObj [(''namespace'', JStr ''ns''), (''name'', JStr ''web-1''),
        (''labels'', JObj [(''kubernetes.io/service-name'', JStr ''web'')])]),
     (''ports'', JArr [JObj [(''port'', JNum 8080)]]),
     (''endpoints'', JArr [JObj [(''addresses'', JArr [JStr ''10.1.0.5'']), (''nodeName'', JStr ''n1'')]])]"

definition wx_node :: json where
  "wx_node = JObj [(''metadata'', JObj [(''name'', JStr ''n1'')]),
     (''status'', JObj [(''addresses'', JArr
        [JObj [(''type'', JStr ''InternalIP''), (''address'', JStr ''10.0.0.1'')],
         JObj [(''type'', JStr ''ExternalIP''), (''address'', JStr ''1.2.3.4'')]])])]"

definition wx_key :: service_key where "wx_key = \<lparr>sk_namespace = ''ns'', sk_name = ''web''\<rparr>"
definition wx_svc :: raw_service where
  "wx_svc = \<lparr>rs_ports = [\<lparr>rsp_name = None, rsp_port = 80, rsp_protocol = Tcp\<rparr>], rs_ip_families = [FamilyV4],
     rs_policy = Uniform, rs_client_ip_affinity = False\<rparr>"
definition wx_raw :: raw_endpoint_slice where
  "wx_raw = \<lparr>res_ports = [\<lparr>rlp_name = None, rlp_port = 8080\<rparr>],
     res_endpoints = [\<lparr>rep_pod_ip = V4 0x0a010005, rep_node_name = Some ''n1'', rep_ready = True, rep_terminating = False,
        rep_serving = True, rep_pod_uid = None\<rparr>]\<rparr>"
definition wx_addrs :: node_addrs where
  "wx_addrs = \<lparr>na_underlay = [V4 0x0a000001], na_fronts = [V4 0x01020304]\<rparr>"
definition wx_port :: service_port where
  "wx_port = \<lparr>sp_port = 80, sp_protocol = Tcp, sp_target_port = 8080\<rparr>"

text \<open>After the three lists.\<close>

definition wx_state :: watch_state where
  "wx_state = watch_step std_watch_order (V4 0x0a000001) (NodeList [wx_node])
     (watch_step std_watch_order (V4 0x0a000001) (SliceList [wx_slice])
       (watch_step std_watch_order (V4 0x0a000001) (ServiceList [wx_service]) default_watch))"

lemma wx_parsed:
  "service_key_of wx_service = Some wx_key" "parse_service wx_service = Some wx_svc"
  "owning_service_key wx_slice = Some wx_key" "metadata_name wx_slice = Some ''web-1''"
  "parse_endpoint_slice wx_slice = wx_raw" "metadata_name wx_node = Some ''n1''" "parse_node_addrs wx_node = wx_addrs"
  by code_simp+

lemma wx_fields:
  "ws_services wx_state = [wx_key \<mapsto> wx_svc]" "slices_of wx_state wx_key = [''web-1'' \<mapsto> wx_raw]"
  "ws_node_ips wx_state = [''n1'' \<mapsto> wx_addrs]" "fully_listed wx_state"
  by (simp_all add: wx_state_def replace_services_def replace_endpoint_slices_def replace_nodes_def list_service_item_def
      listed_slices_def list_node_item_def apply_service_event_def apply_endpoint_slice_event_def apply_node_event_def
      tracked_with_slices_def slices_of_def fully_listed_def wx_parsed default_watch_def Let_def)
    (simp_all add: wx_addrs_def)

lemma wx_reach: "watch_reach std_watch_order (V4 0x0a000001) wx_state"
  unfolding wx_state_def by (intro watch_reach.intros)

lemma wx_views:
  "own_node_addrs std_watch_order wx_state (V4 0x0a000001) = Some wx_addrs"
  "service_ports wx_svc (values_of (wo_names std_watch_order) (slices_of wx_state wx_key)) = [wx_port]"
  "ips_to_publish std_watch_order wx_state wx_key (V4 0x0a000001) = [V4 0x01020304]"
  by (simp_all add: own_node_addrs_def service_ports_def ips_to_publish_def values_of_def entries_of_def std_watch_order_def wx_fields
      addrs_contains_def union_ports_def resolve_target_port_def fronts_family_def family_of_def publishes_ingress_def
      wx_addrs_def wx_svc_def wx_raw_def wx_port_def List.map_filter_simps Let_def)

section \<open>Properties\<close>

lemma pick_underlay_None: "pick_underlay_ip ips ip = None \<longleftrightarrow> ips = []"
  by (auto simp: pick_underlay_ip_def find_None_iff split: option.splits list.splits)

lemma pick_underlay_family:
  "pick_underlay_ip ips ip = Some p \<Longrightarrow> up_ip p \<in> set ips \<and>
   (up_shared_family p \<longleftrightarrow> (\<exists>i \<in> set ips. is_ipv4 i = is_ipv4 ip)) \<and> (up_shared_family p \<longrightarrow> is_ipv4 (up_ip p) = is_ipv4 ip)"
  by (auto simp: pick_underlay_ip_def find_None_iff find_Some_iff split: option.splits list.splits dest: nth_mem)

text \<open>C19. Whatever the watch delivers, the state stays well formed: finitely many objects, every tracked Service
  names an address family, every Node with addresses is a known Node, and its tunnel and front addresses cover the
  same families, at least one. So an endpoint is left out of the desired entries only while its Node is not resolved,
  and its tunnel remote is an address of that Node, in this node's family if the Node has one.\<close>

theorem reachable_watch_state:
  assumes "watch_reach wo ip ws"
  shows "watch_wf ws \<and>
    (case resolve_endpoint ws node sl e of
       None \<Rightarrow> Option.bind (rep_node_name e) (ws_node_ips ws) = None
     | Some ep \<Rightarrow> \<exists>addrs. Option.bind (rep_node_name e) (ws_node_ips ws) = Some addrs
         \<and> ep_node_ip ep \<in> set (na_underlay addrs)
         \<and> ((\<exists>a \<in> set (na_underlay addrs). is_ipv4 a = is_ipv4 (nc_node_ip node)) \<longrightarrow>
             is_ipv4 (ep_node_ip ep) = is_ipv4 (nc_node_ip node)))"
proof -
  have wf: "watch_wf ws" by (rule reach_wf [OF assms])
  show ?thesis
  proof (cases "Option.bind (rep_node_name e) (ws_node_ips ws)")
    case None
    then show ?thesis using wf by (simp add: resolve_endpoint_def)
  next
    case (Some addrs)
    then have "na_underlay addrs \<noteq> []"
      using wf by (auto simp: watch_wf_def nodes_wf_def addrs_wf_def ran_def bind_eq_Some_conv)
    then obtain p where p: "pick_underlay_ip (na_underlay addrs) (nc_node_ip node) = Some p"
      using pick_underlay_None by (metis not_None_eq)
    from pick_underlay_family [OF p] show ?thesis using wf Some p by (simp add: resolve_endpoint_def)
  qed
qed

theorem reachable_watch_state_witness:
  "watch_wf wx_state \<and> resolve_endpoint wx_state \<lparr>nc_node_ip = V4 0x0a000001, nc_pod_cidr = \<lparr>pc_v4 = None, pc_v6 = None\<rparr>\<rparr>
     wx_raw (hd (res_endpoints wx_raw)) \<noteq> None"
  using reachable_watch_state [OF wx_reach, where sl = wx_raw and e = "hd (res_endpoints wx_raw)"
      and node = "\<lparr>nc_node_ip = V4 0x0a000001, nc_pod_cidr = \<lparr>pc_v4 = None, pc_v6 = None\<rparr>\<rparr>"]
  by (auto simp: wx_fields wx_raw_def split: option.splits)

lemma tracked_nonempty:
  assumes "slices_wf ws'"
  shows "card (tracked_with_slices ws (ws_slices ws')) = 0 \<longleftrightarrow>
    (\<forall>key name. key \<in> dom (ws_services ws) \<longrightarrow> slices_of ws' key name = None)"
proof -
  have "finite (tracked_with_slices ws (ws_slices ws'))"
    by (rule finite_subset [of _ "dom (ws_slices ws')"]) (use assms in \<open>auto simp: tracked_with_slices_def slices_wf_def\<close>)
  then have "card (tracked_with_slices ws (ws_slices ws')) = 0 \<longleftrightarrow> tracked_with_slices ws (ws_slices ws') = {}" by simp
  also have "\<dots> \<longleftrightarrow> (\<forall>key name. key \<in> dom (ws_services ws) \<longrightarrow> slices_of ws' key name = None)"
  proof -
    have "key \<in> tracked_with_slices ws (ws_slices ws') \<longleftrightarrow> key \<in> dom (ws_services ws) \<and> (\<exists>name. slices_of ws' key name \<noteq> None)" for key
      by (auto simp: tracked_with_slices_def slices_of_def split: option.splits)
    then show "tracked_with_slices ws (ws_slices ws') = {} \<longleftrightarrow>
        (\<forall>key name. key \<in> dom (ws_services ws) \<longrightarrow> slices_of ws' key name = None)"
      unfolding set_eq_iff by simp
  qed
  finally show ?thesis .
qed

lemma own_node_None:
  assumes "watch_order_ok wo" "finite (dom (ws_node_ips ws))"
  shows "own_node_addrs wo ws ip = None \<longleftrightarrow> (\<forall>name addrs. ws_node_ips ws name = Some addrs \<longrightarrow> \<not> addrs_contains addrs ip)"
proof -
  have "a \<in> set (values_of (wo_names wo) (ws_node_ips ws)) \<longleftrightarrow> a \<in> ran (ws_node_ips ws)" for a
    using assms by (simp add: watch_order_ok_def values_of_iff)
  then show ?thesis by (auto simp: own_node_addrs_def find_None_iff ran_def)
qed



text \<open>C24. The fronts a node programs are exactly the ports of the tracked Services on the front addresses of the known
  Nodes, in the families the Service asks for, once everything is listed; each is reconciled from one such
  Service. Before that there are none.\<close>

theorem desired_fronts_exact:
  assumes "watch_order_ok wo" "watch_wf ws"
  shows "case de_fronts (desired wo ws node) k of
      None \<Rightarrow> \<not> (fully_listed ws \<and> (\<exists>key svc name addrs ip port. ws_services ws key = Some svc
        \<and> ws_node_ips ws name = Some addrs \<and> ip \<in> set (na_fronts addrs) \<and> family_of ip \<in> set (rs_ip_families svc)
        \<and> port \<in> set (service_ports svc (values_of (wo_names wo) (slices_of ws key))) \<and> k = front_key ip port))
    | Some d \<Rightarrow> fully_listed ws \<and> (\<exists>key svc name addrs ip port. ws_services ws key = Some svc
        \<and> ws_node_ips ws name = Some addrs \<and> ip \<in> set (na_fronts addrs) \<and> family_of ip \<in> set (rs_ip_families svc)
        \<and> port \<in> set (service_ports svc (values_of (wo_names wo) (slices_of ws key))) \<and> k = front_key ip port
        \<and> d = reconcile_port (view_of wo ws key svc ip) (all_endpoints (views_of wo ws node key)) node port)"
proof -
  let ?es = "entries_of (wo_services wo) (ws_services ws)"
  have es: "(key, svc) \<in> set ?es \<longleftrightarrow> ws_services ws key = Some svc" for key svc
    using assms by (simp add: entries_of_iff watch_order_ok_def watch_wf_def services_wf_def)
  have fi: "ip \<in> set (front_ips wo ws) \<longleftrightarrow> (\<exists>name addrs. ws_node_ips ws name = Some addrs \<and> ip \<in> set (na_fronts addrs))" for ip
    using front_ips_iff [OF assms(1)] assms(2) by (simp add: watch_wf_def)
  show ?thesis
  proof (cases "de_fronts (desired wo ws node) k")
    case None
    then have "k \<notin> dom (service_fronts wo ws node (key, svc))" if "ws_services ws key = Some svc" for key svc
    proof -
      have "k \<notin> dom (fold (\<lambda>e m. m ++ service_fronts wo ws node e) ?es Map.empty)"
        using None unfolding desired_fields(1) by (simp add: domIff)
      then show ?thesis using that es [of key svc] unfolding fold_map_add_dom by blast
    qed
    then have "\<not> (\<exists>ip port. ip \<in> set (front_ips wo ws) \<and> fronts_family svc (family_of ip)
        \<and> port \<in> set (service_ports svc (values_of (wo_names wo) (slices_of ws key))) \<and> k = front_key ip port)"
      if "ws_services ws key = Some svc" "fully_listed ws" for key svc
      using that unfolding service_fronts_dom by auto
    then show ?thesis unfolding None option.case fi fronts_family_def by blast
  next
    case (Some d)
    then obtain key svc where e: "ws_services ws key = Some svc" "service_fronts wo ws node (key, svc) k = Some d"
      using es by (auto simp: desired_fields(1) dest!: fold_map_add_Some)
    moreover have "fully_listed ws" using e(2) by (auto simp: service_fronts_def split: if_splits)
    moreover obtain ip port where "ip \<in> set (front_ips wo ws)" "family_of ip \<in> set (rs_ip_families svc)"
      "port \<in> set (service_ports svc (values_of (wo_names wo) (slices_of ws key)))" "k = front_key ip port"
      "d = reconcile_port (view_of wo ws key svc ip) (all_endpoints (views_of wo ws node key)) node port"
      using service_fronts_Some [OF e(2)] by (auto simp: fronts_family_def view_of_def)
    ultimately show ?thesis unfolding Some option.case fi by blast
  qed
qed

definition wx_node_context :: node_context where
  "wx_node_context = \<lparr>nc_node_ip = V4 0x0a000001, nc_pod_cidr = \<lparr>pc_v4 = None, pc_v6 = None\<rparr>\<rparr>"

theorem desired_fronts_exact_witness:
  "de_fronts (desired std_watch_order wx_state wx_node_context) (front_key (V4 0x01020304) wx_port) \<noteq> None
   \<and> de_fronts (desired std_watch_order wx_state wx_node_context) (front_key (V4 0x0a000001) wx_port) = None"
proof -
  note exact = desired_fronts_exact [OF std_watch_order_ok reach_wf [OF wx_reach], where node = wx_node_context]
  have "wx_port \<in> set (service_ports wx_svc (values_of (wo_names std_watch_order) (slices_of wx_state wx_key)))"
    by (simp only: wx_views) simp
  moreover have "ws_services wx_state wx_key = Some wx_svc" "ws_node_ips wx_state ''n1'' = Some wx_addrs"
    "V4 0x01020304 \<in> set (na_fronts wx_addrs)" "family_of (V4 0x01020304) \<in> set (rs_ip_families wx_svc)" "fully_listed wx_state"
    by (simp_all add: wx_fields wx_addrs_def wx_svc_def family_of_def)
  ultimately have "\<exists>key svc name addrs ip port. ws_services wx_state key = Some svc \<and> ws_node_ips wx_state name = Some addrs
      \<and> ip \<in> set (na_fronts addrs) \<and> family_of ip \<in> set (rs_ip_families svc)
      \<and> port \<in> set (service_ports svc (values_of (wo_names std_watch_order) (slices_of wx_state key)))
      \<and> front_key (V4 0x01020304) wx_port = front_key ip port" "fully_listed wx_state"
    by blast+
  note listed = this
  have "de_fronts (desired std_watch_order wx_state wx_node_context) (front_key (V4 0x01020304) wx_port) \<noteq> None"
  proof
    assume None: "de_fronts (desired std_watch_order wx_state wx_node_context) (front_key (V4 0x01020304) wx_port) = None"
    show False using exact [where k = "front_key (V4 0x01020304) wx_port", unfolded None option.case] listed by blast
  qed
  moreover have "front_key (V4 0x0a000001) wx_port \<noteq> front_key (V4 0x01020304) port" for port
  proof -
    have "wire_ip_v6 (V4 0x0a000001) \<noteq> wire_ip_v6 (V4 0x01020304)" by code_simp
    then show ?thesis by (simp add: front_key_def)
  qed
  then have "de_fronts (desired std_watch_order wx_state wx_node_context) (front_key (V4 0x0a000001) wx_port) = None"
    using exact [where k = "front_key (V4 0x0a000001) wx_port"] by (auto simp: wx_fields wx_addrs_def split: option.splits if_splits)
  ultimately show ?thesis by blast
qed

lemma own_node_Some:
  assumes "watch_order_ok wo" "finite (dom (ws_node_ips ws))" "own_node_addrs wo ws ip = Some addrs"
  shows "\<exists>name. ws_node_ips ws name = Some addrs"
proof -
  have "addrs \<in> set (values_of (wo_names wo) (ws_node_ips ws))"
    using assms(3) by (auto simp: own_node_addrs_def find_Some_iff)
  then show ?thesis using assms by (simp add: watch_order_ok_def values_of_iff ran_def)
qed

lemma union_addrs_set: "set (union_addrs a) = set (na_underlay a) \<union> set (na_fronts a)"
proof -
  have "set (fold (\<lambda>ip acc. if ip \<in> set acc then acc else acc @ [ip]) xs acc) = set acc \<union> set xs"
    for xs acc :: "ip_addr list"
    by (induction xs arbitrary: acc) auto
  then show ?thesis by (simp add: union_addrs_def)
qed

lemma published_are_own: "set (ips_to_publish wo ws key ip) \<subseteq> set (own_node_ips wo ws ip)"
  by (auto simp: ips_to_publish_def own_node_ips_def union_addrs_set Let_def split: option.splits)

text \<open>C13. A node advertises only addresses it forwards for. Once ingress may be published and this node's own Node is
  resolved, each address it publishes for a Service is one of its own, which it can withdraw again, and every
  port of the Service that resolves has a front on that address.\<close>

theorem advertised_addresses_forward:
  assumes "watch_order_ok wo" "watch_wf ws" "ingress_decidable ws" "own_node_addrs wo ws (nc_node_ip node) \<noteq> None"
    and "ws_services ws key = Some svc" "ip \<in> set (ips_to_publish wo ws key (nc_node_ip node))"
    and "port \<in> set (service_ports svc (values_of (wo_names wo) (slices_of ws key)))"
  shows "ip \<in> set (own_node_ips wo ws (nc_node_ip node)) \<and> de_fronts (desired wo ws node) (front_key ip port) \<noteq> None"
proof
  show "ip \<in> set (own_node_ips wo ws (nc_node_ip node))" using assms(6) published_are_own by blast
  have fin: "finite (dom (ws_node_ips ws))" using assms(2) finite_subset by (auto simp: watch_wf_def nodes_wf_def)
  obtain addrs where a: "own_node_addrs wo ws (nc_node_ip node) = Some addrs" using assms(4) by blast
  from own_node_Some [OF assms(1) fin a] obtain name where "ws_node_ips ws name = Some addrs" ..
  moreover have ip: "ip \<in> set (na_fronts addrs)" "fronts_family svc (family_of ip)"
    using assms(5,6) a by (auto simp: ips_to_publish_def Let_def)
  ultimately have "ip \<in> set (front_ips wo ws)"
    using front_ips_iff [OF assms(1)] assms(2) by (auto simp: watch_wf_def)
  then have "front_key ip port \<in> dom (service_fronts wo ws node (key, svc))"
    using assms(3,7) ip(2) by (auto simp: service_fronts_dom ingress_decidable_def)
  moreover have "(key, svc) \<in> set (entries_of (wo_services wo) (ws_services ws))"
    using assms(1,2,5) by (simp add: entries_of_iff watch_order_ok_def watch_wf_def services_wf_def)
  ultimately have "front_key ip port \<in> dom (de_fronts (desired wo ws node))"
    unfolding desired_fields(1) fold_map_add_dom by blast
  then show "de_fronts (desired wo ws node) (front_key ip port) \<noteq> None" by (simp add: domIff)
qed

theorem advertised_addresses_forward_witness:
  "de_fronts (desired std_watch_order wx_state wx_node_context) (front_key (V4 0x01020304) wx_port) \<noteq> None"
proof -
  have "own_node_addrs std_watch_order wx_state (nc_node_ip wx_node_context) \<noteq> None" "ingress_decidable wx_state"
    "V4 0x01020304 \<in> set (ips_to_publish std_watch_order wx_state wx_key (nc_node_ip wx_node_context))"
    by (simp_all add: wx_node_context_def wx_views wx_fields ingress_decidable_def)
  from advertised_addresses_forward [OF std_watch_order_ok reach_wf [OF wx_reach] this(2,1) _ this(3), of wx_svc wx_port]
  show ?thesis using wx_fields(1) wx_views(2) by simp
qed

text \<open>Without its own Node, a node that has listed everything still publishes the address it was started with, and
  has no front on it.\<close>

definition wx_lost :: watch_state where
  "wx_lost = watch_step std_watch_order (V4 0x0a000001) (NodeEvent (JObj [(''type'', JStr ''DELETED''), (''object'', wx_node)])) wx_state"

theorem lost_node_still_advertises:
  "ingress_decidable wx_lost \<and> ips_to_publish std_watch_order wx_lost wx_key (V4 0x0a000001) = [V4 0x0a000001]
   \<and> de_fronts (desired std_watch_order wx_lost wx_node_context) = Map.empty"
proof -
  have ev: "event_kind (JObj [(''type'', JStr ''DELETED''), (''object'', wx_node)]) = Some Delete" by code_simp
  have f: "ws_services wx_lost = [wx_key \<mapsto> wx_svc]" "ws_node_ips wx_lost = Map.empty" "fully_listed wx_lost"
    using wx_fields by (simp_all add: wx_lost_def apply_node_event_def ev wx_parsed fully_listed_def)
  have "dom (de_fronts (desired std_watch_order wx_lost wx_node_context)) = {}"
    by (auto simp: desired_fields fold_map_add_dom service_fronts_dom front_ips_def values_of_def entries_of_def f std_watch_order_def
        split: if_splits)
  then show ?thesis
    by (simp add: ips_to_publish_def own_node_addrs_def values_of_def entries_of_def std_watch_order_def f wx_svc_def
        fronts_family_def family_of_def ingress_decidable_def)
qed

end
