(* ===== verification/Controller_Props.thy ===== *)
theory Controller_Props
  imports Controller Apply_Props Watch_Props
begin

text \<open>
  The controller as a whole: every interleaving of watch events, lists, timers and finished publishes from a start on
  the maps a previous process left behind.
\<close>

section \<open>Steps\<close>

datatype controller_input =
    OnService json | OnServices bool "json list"
  | OnSlice json | OnSlices bool "json list"
  | OnNode json | OnNodes bool "json list"
  | RetryTurn | PublishTurn
  | JobDone nat "update_error option"

fun controller_step ::
  "('m, 'e, 't, 'n, 'p, 'f) controller_env \<Rightarrow> nanos \<Rightarrow> controller_input \<Rightarrow> ('m, 'e, 't, 'n, 'p, 'f) controller \<Rightarrow>
   ('m, 'e, 't, 'n, 'p, 'f) controller" where
  "controller_step C now (OnService e) ct = on_service C now e ct"
| "controller_step C now (OnServices w items) ct = snd (on_services_relist C w now items ct)"
| "controller_step C now (OnSlice e) ct = on_endpoint_slice C now e ct"
| "controller_step C now (OnSlices w items) ct = snd (on_endpoint_slices_relist C w now items ct)"
| "controller_step C now (OnNode e) ct = on_node C now e ct"
| "controller_step C now (OnNodes w items) ct = snd (on_nodes_relist C w now items ct)"
| "controller_step C now RetryTurn ct = retry_loop_turn C now ct"
| "controller_step C now PublishTurn ct = publish_retry_turn C now ct"
| "controller_step C now (JobDone n r) ct = finish_job now n r ct"

inductive controller_reach ::
  "('m, 'e, 't, 'n, 'p, 'f) controller_env \<Rightarrow> ('m, 'e, 't, 'n, 'p, 'f) pinned_maps \<Rightarrow>
   ('m, 'e, 't, 'n, 'p, 'f) controller \<Rightarrow> bool" for C maps where
  start: "controller_reach C maps (start_controller maps)"
| step: "controller_reach C maps ct \<Longrightarrow> controller_reach C maps (controller_step C now i ct)"

definition env_ok :: "('m, 'e, 't, 'n, 'p, 'f) controller_env \<Rightarrow> bool" where
  "env_ok C \<longleftrightarrow> watch_order_ok (ce_watch_order C) \<and> order_ok (ce_visit_order C) \<and> handles_ok (ce_handles C)"

section \<open>What publishing leaves alone\<close>

lemma publish_frame [simp]:
  "ct_watch (publish_ingress key own des clear ct) = ct_watch ct" "ct_maps (publish_ingress key own des clear ct) = ct_maps ct"
  "ct_pending (publish_ingress key own des clear ct) = ct_pending ct"
  by (simp_all add: publish_ingress_def)

lemma publish_for_frame [simp]:
  "ct_watch (publish_ingress_for C key ct) = ct_watch ct" "ct_maps (publish_ingress_for C key ct) = ct_maps ct"
  "ct_pending (publish_ingress_for C key ct) = ct_pending ct"
  by (simp_all add: publish_ingress_for_def Let_def)

lemma clear_for_frame [simp]:
  "ct_watch (clear_ingress_for C key ct) = ct_watch ct" "ct_maps (clear_ingress_for C key ct) = ct_maps ct"
  by (simp_all add: clear_ingress_for_def split: option.split)

lemma work_frame [simp]:
  "ct_watch (run_ingress_work C now item ct) = ct_watch ct" "ct_maps (run_ingress_work C now item ct) = ct_maps ct"
  by (simp_all add: run_ingress_work_def split: prod.split ingress_work.split)

lemma fold_frame:
  assumes "\<And>x ct. g (f x ct) = g ct"
  shows "g (fold f xs ct) = g ct"
  using assms by (induction xs arbitrary: ct) auto

lemma fold_publish_frame [simp]:
  "ct_watch (fold (publish_ingress_for C) keys ct) = ct_watch ct" "ct_maps (fold (publish_ingress_for C) keys ct) = ct_maps ct"
  "ct_pending (fold (publish_ingress_for C) keys ct) = ct_pending ct"
  by (simp_all add: fold_frame)

lemma fold_clear_frame [simp]:
  "ct_watch (fold (clear_ingress_for C) keys ct) = ct_watch ct" "ct_maps (fold (clear_ingress_for C) keys ct) = ct_maps ct"
  by (simp_all add: fold_frame)

lemma fold_work_frame [simp]:
  "ct_watch (fold (run_ingress_work C now) items ct) = ct_watch ct" "ct_maps (fold (run_ingress_work C now) items ct) = ct_maps ct"
  by (simp_all add: fold_frame)

lemma republish_frame [simp]:
  "ct_watch (republish_if_own_ips_changed C before ct) = ct_watch ct" "ct_maps (republish_if_own_ips_changed C before ct) = ct_maps ct"
  by (simp_all add: republish_if_own_ips_changed_def Let_def)

lemma after_list_frame [simp]:
  "ct_watch (after_list C w was ct) = ct_watch ct" "ct_maps (after_list C w was ct) = ct_maps ct"
  by (simp_all add: after_list_def sync_ready_marker_def Let_def)

lemma reconcile_frame [simp]:
  "ct_watch (apply_reconcile C now ct) = snd (warn_desired (ce_watch_order C) (ce_node C) (ct_watch ct))"
  "ct_pending (apply_reconcile C now ct) = ct_pending ct" "ct_jobs (apply_reconcile C now ct) = ct_jobs ct"
  "ct_maps (apply_reconcile C now ct) = snd (apply_tick (ce_visit_order C) (ce_handles C) now
     (desired (ce_watch_order C) (ct_watch ct) (ce_node C)) (ct_maps ct))"
  by (simp_all add: apply_reconcile_def Let_def split: prod.split)

section \<open>The watch and the maps\<close>

lemma refused_unchanged:
  "replace_services items ws = (Inl e, ws') \<Longrightarrow> ws' = ws" "replace_endpoint_slices items ws = (Some e', ws') \<Longrightarrow> ws' = ws"
  "replace_nodes wo items ip ws = (Some e', ws') \<Longrightarrow> ws' = ws"
  by (auto simp: replace_services_def replace_endpoint_slices_def replace_nodes_def Let_def split: if_splits prod.splits)

text \<open>A step leaves the watch and the maps alone, or updates the watch and reconciles once.\<close>

lemma step_core:
  obtains (idle) "ct_watch (controller_step C now i ct) = ct_watch ct" "ct_maps (controller_step C now i ct) = ct_maps ct"
  | (reconciled) ws where "ws = ct_watch ct \<or> (\<exists>j. ws = watch_step (ce_watch_order C) (nc_node_ip (ce_node C)) j (ct_watch ct))"
      "ct_watch (controller_step C now i ct) = snd (warn_desired (ce_watch_order C) (ce_node C) ws)"
      "ct_maps (controller_step C now i ct) = snd (apply_tick (ce_visit_order C) (ce_handles C) now
         (desired (ce_watch_order C) ws (ce_node C)) (ct_maps ct))"
proof (cases i)
  case (OnService e)
  then show ?thesis using reconciled [OF disjI2, OF exI [of _ "ServiceEvent e"], OF refl]
    by (auto simp: on_service_def split: prod.splits)
next
  case (OnSlice e)
  then show ?thesis using reconciled [OF disjI2, OF exI [of _ "SliceEvent e"], OF refl]
    by (auto simp: on_endpoint_slice_def Let_def split: prod.splits option.splits)
next
  case (OnNode e)
  then show ?thesis using reconciled [OF disjI2, OF exI [of _ "NodeEvent e"], OF refl]
    by (auto simp: on_node_def Let_def)
next
  case (OnServices w items)
  obtain r ws where r: "replace_services items (ct_watch ct) = (r, ws)" by (metis prod.collapse)
  show ?thesis
  proof (cases r)
    case (Inl e)
    then show ?thesis using idle refused_unchanged(1) r by (simp add: OnServices on_services_relist_def)
  next
    case (Inr keys)
    show ?thesis
      by (rule reconciled [OF disjI2, OF exI [of _ "ServiceList items"], OF refl])
        (simp_all add: OnServices on_services_relist_def r Inr)
  qed
next
  case (OnSlices w items)
  obtain r ws where r: "replace_endpoint_slices items (ct_watch ct) = (r, ws)" by (metis prod.collapse)
  show ?thesis
  proof (cases r)
    case (Some e)
    then show ?thesis using idle refused_unchanged(2) r by (simp add: OnSlices on_endpoint_slices_relist_def)
  next
    case None
    show ?thesis
      by (rule reconciled [OF disjI2, OF exI [of _ "SliceList items"], OF refl])
        (simp_all add: OnSlices on_endpoint_slices_relist_def r None Let_def)
  qed
next
  case (OnNodes w items)
  obtain r ws where r: "replace_nodes (ce_watch_order C) items (nc_node_ip (ce_node C)) (ct_watch ct) = (r, ws)" by (metis prod.collapse)
  show ?thesis
  proof (cases r)
    case (Some e)
    then show ?thesis using idle refused_unchanged(3) r by (simp add: OnNodes on_nodes_relist_def Let_def)
  next
    case None
    show ?thesis
      by (rule reconciled [OF disjI2, OF exI [of _ "NodeList items"], OF refl])
        (simp_all add: OnNodes on_nodes_relist_def r None Let_def)
  qed
next
  case RetryTurn
  then show ?thesis using idle reconciled [of "ct_watch ct"]
    by (cases "backoff_due (ct_retry ct) now \<or> previous_generations_due (ct_maps ct) now") (auto simp: retry_loop_turn_def)
next
  case PublishTurn
  then show ?thesis using idle
    by (auto simp: publish_retry_turn_def Let_def fold_frame split: prod.splits)
next
  case (JobDone n r)
  then show ?thesis using idle by (auto simp: finish_job_def Let_def split: if_splits)
qed

lemma warned_fields:
  "fully_listed (snd (warn_desired wo node ws)) = fully_listed ws" "ws_services (snd (warn_desired wo node ws)) = ws_services ws"
  by (simp_all add: warn_desired_def newly_warned_def fully_listed_def)

lemma event_keeps_listed:
  "fully_listed (snd (apply_service_event e ws)) = fully_listed ws"
  "fully_listed (snd (apply_endpoint_slice_event e ws)) = fully_listed ws"
  "fully_listed (apply_node_event e ws) = fully_listed ws"
  by (auto simp: fully_listed_def apply_service_event_def apply_endpoint_slice_event_def apply_node_event_def Let_def
      split: option.splits event_kind_t.splits)

lemma step_keeps_listed: "fully_listed ws \<Longrightarrow> fully_listed (watch_step wo ip i ws)"
proof (cases i)
  case (ServiceList items)
  then show "fully_listed ws \<Longrightarrow> ?thesis" by (auto simp: replace_services_def fully_listed_def split: prod.split)
next
  case (SliceList items)
  then show "fully_listed ws \<Longrightarrow> ?thesis" by (auto simp: replace_endpoint_slices_def fully_listed_def Let_def)
next
  case (NodeList items)
  then show "fully_listed ws \<Longrightarrow> ?thesis" by (auto simp: replace_nodes_def fully_listed_def Let_def)
qed (simp_all add: event_keeps_listed)

lemma reach_watch: "controller_reach C maps ct \<Longrightarrow> watch_reach (ce_watch_order C) (nc_node_ip (ce_node C)) (ct_watch ct)"
proof (induction rule: controller_reach.induct)
  case start then show ?case by (simp add: start_controller_def watch_reach.start)
next
  case (step ct now i)
  show ?case
  proof (cases rule: step_core [of C now i ct])
    case idle with step.IH show ?thesis by simp
  next
    case (reconciled ws)
    then have "watch_reach (ce_watch_order C) (nc_node_ip (ce_node C)) ws" using step.IH by (auto intro: watch_reach.step)
    then show ?thesis unfolding reconciled(2) by (rule watch_reach.warned)
  qed
qed

text \<open>What a controller that has not listed everything may have done to the maps it found.\<close>

definition maps_left_alone ::
  "('m, 'e, 't, 'n, 'p, 'f) map_handles \<Rightarrow> ('m, 'e, 't, 'n, 'p, 'f) pinned_maps \<Rightarrow> ('m, 'e, 't, 'n, 'p, 'f) pinned_maps \<Rightarrow> bool" where
  "maps_left_alone H m m' \<longleftrightarrow>
     pm_front_meta m' = pm_front_meta m \<and> pm_front_endpoints m' = pm_front_endpoints m
     \<and> pm_pod_targets m' = pm_pod_targets m \<and> pm_fwd_pending m' = pm_fwd_pending m \<and> pm_flow_table m' = pm_flow_table m
     \<and> (\<forall>ip. hm_rows (h_node_allow H) (pm_node_allow m) ip \<noteq> None \<longrightarrow> hm_rows (h_node_allow H) (pm_node_allow m') ip \<noteq> None)"

lemma unlisted_reach:
  assumes "env_ok C" "\<not> pm_fronts_ever_known maps"
  shows "controller_reach C maps ct \<Longrightarrow>
    fully_listed (ct_watch ct) \<or> maps_left_alone (ce_handles C) maps (ct_maps ct) \<and> \<not> pm_fronts_ever_known (ct_maps ct)"
proof (induction rule: controller_reach.induct)
  case start then show ?case using assms(2) by (simp add: start_controller_def maps_left_alone_def)
next
  case (step ct now i)
  show ?case
  proof (cases rule: step_core [of C now i ct])
    case idle with step.IH show ?thesis by simp
  next
    case (reconciled ws)
    let ?d = "desired (ce_watch_order C) ws (ce_node C)"
    show ?thesis
    proof (cases "fully_listed ws")
      case True
      then show ?thesis by (simp add: reconciled(2) warned_fields)
    next
      case False
      then have "\<not> fully_listed (ct_watch ct)" using reconciled(1) step_keeps_listed by blast
      with step.IH have ih: "maps_left_alone (ce_handles C) maps (ct_maps ct)" "\<not> pm_fronts_ever_known (ct_maps ct)" by blast+
      obtain r s' where t: "apply_tick (ce_visit_order C) (ce_handles C) now ?d (ct_maps ct) = (r, s')" by (metis prod.collapse)
      have ok: "handles_ok (ce_handles C)" "order_ok (ce_visit_order C)" using assms(1) by (simp_all add: env_ok_def)
      note tick = unlisted_tick [OF ok t _ _ ih(2), unfolded desired_fields(4,5)]
      show ?thesis
        using ih(1) tick False by (simp add: reconciled(3) t maps_left_alone_def)
    qed
  qed
qed

section \<open>Publishes in flight\<close>

definition job_for :: "('m, 'e, 't, 'n, 'p, 'f) controller \<Rightarrow> service_key \<Rightarrow> bool" where
  "job_for ct key \<longleftrightarrow> (\<exists>job \<in> set (ct_jobs ct). pj_key job = key)"

text \<open>Why a pending key will be looked at again: a job for it is in flight, the retry deadline is armed, or a clear
  waits for the lists.\<close>

definition attended :: "('m, 'e, 't, 'n, 'p, 'f) controller \<Rightarrow> service_key \<Rightarrow> pending \<Rightarrow> bool" where
  "attended ct key p \<longleftrightarrow> job_for ct key \<or>
     (case p of Failed _ \<Rightarrow> rb_retry_at (pr_backoff (ct_pending ct)) \<noteq> None | DeferredClear \<Rightarrow> \<not> ingress_decidable (ct_watch ct))"

text \<open>All pending keys outside \<open>X\<close> are attended.\<close>

definition publish_inv :: "service_key set \<Rightarrow> ('m, 'e, 't, 'n, 'p, 'f) controller \<Rightarrow> bool" where
  "publish_inv X ct \<longleftrightarrow>
     finite (dom (pr_keys (ct_pending ct)))
     \<and> (ct_jobs ct \<noteq> [] \<or> (\<exists>key c. pr_keys (ct_pending ct) key = Some (Failed c)) \<longrightarrow> ingress_decidable (ct_watch ct))
     \<and> (\<forall>key p. pr_keys (ct_pending ct) key = Some p \<and> key \<notin> X \<longrightarrow> attended ct key p)"

lemma publish_invD:
  assumes "publish_inv X ct"
  shows "finite (dom (pr_keys (ct_pending ct)))" "ct_jobs ct \<noteq> [] \<Longrightarrow> ingress_decidable (ct_watch ct)"
    "pr_keys (ct_pending ct) key = Some (Failed c) \<Longrightarrow> ingress_decidable (ct_watch ct)"
    "pr_keys (ct_pending ct) key = Some p \<Longrightarrow> key \<notin> X \<Longrightarrow> attended ct key p"
  using assms unfolding publish_inv_def by blast+

lemma publish_inv_job:
  assumes "publish_inv X ct" "ingress_decidable (ct_watch ct)"
  shows "publish_inv (X - {key}) (publish_ingress key own des clear ct)"
  using assms unfolding publish_inv_def
  by (auto simp: publish_ingress_def attended_def job_for_def split: pending.splits)

lemma publish_inv_mono: "publish_inv X ct \<Longrightarrow> X \<subseteq> Y \<Longrightarrow> publish_inv Y ct"
  unfolding publish_inv_def by blast

lemma publish_for_inv:
  assumes "publish_inv X ct" "ingress_decidable (ct_watch ct) \<or> key \<notin> X"
  shows "publish_inv (X - {key}) (publish_ingress_for C key ct)"
  using assms publish_inv_job [OF assms(1)] by (auto simp: publish_ingress_for_def Let_def)

lemma reset_keys [simp]: "pr_keys (reset_if_no_failures pr) = pr_keys pr"
  by (simp add: reset_if_no_failures_def)

lemma reset_backoff: "pr_keys pr key = Some (Failed c) \<Longrightarrow> pr_backoff (reset_if_no_failures pr) = pr_backoff pr"
  by (auto simp: reset_if_no_failures_def)

lemma recorded_keys [simp]: "pr_keys (publish_record key True clear now pr) = (pr_keys pr)(key := None)"
  by (simp add: publish_record_def)

lemma run_work_simps [simp]:
  "run_ingress_work C now (Publish, key) = publish_ingress_for C key" "run_ingress_work C now (Clear, key) = clear_ingress_for C key"
  by (simp_all add: run_ingress_work_def fun_eq_iff)

lemma clear_for_inv:
  assumes "publish_inv X ct"
  shows "publish_inv (X - {key}) (clear_ingress_for C key ct)"
proof (cases "ingress_decidable (ct_watch ct)")
  case True
  then show ?thesis using publish_inv_job [OF assms] by (simp add: clear_ingress_for_def ingress_clear_ips_def)
next
  case False
  then have "pr_keys (ct_pending ct) k \<noteq> Some (Failed c)" for k c using publish_invD(3) [OF assms] by blast
  then show ?thesis using False publish_invD(1,2,4) [OF assms]
    by (auto simp: clear_ingress_for_def ingress_clear_ips_def publish_inv_def defer_clear_def attended_def job_for_def
        split: pending.splits if_splits)
qed

text \<open>A success removes the key; what it leaves stays attended if no other job was taken away.\<close>

lemma record_ok_inv:
  assumes inv: "publish_inv X ct"
    and jobs: "\<And>k. k \<noteq> key \<Longrightarrow> job_for ct k \<Longrightarrow> \<exists>job \<in> set jobs. pj_key job = k" "jobs \<noteq> [] \<Longrightarrow> ct_jobs ct \<noteq> []"
  shows "publish_inv (X - {key}) (ct\<lparr>ct_jobs := jobs, ct_pending := publish_record key True clear now (ct_pending ct)\<rparr>)"
    (is "publish_inv _ ?ct")
proof -
  note keys = recorded_keys
  have "attended ?ct k p" if k: "pr_keys (ct_pending ?ct) k = Some p" "k \<notin> X - {key}" for k p
  proof -
    have k': "k \<noteq> key" "pr_keys (ct_pending ct) k = Some p" "k \<notin> X" using k by (auto simp: keys split: if_splits)
    have att: "attended ct k p" using publish_invD(4) [OF inv k'(2,3)] .
    have "rb_retry_at (pr_backoff (ct_pending ?ct)) = rb_retry_at (pr_backoff (ct_pending ct))" if "p = Failed c" for c
      using k' that reset_backoff [of "ct_pending ct\<lparr>pr_keys := (pr_keys (ct_pending ct))(key := None)\<rparr>" k c]
      by (simp add: publish_record_def)
    then show ?thesis using att jobs(1) [OF k'(1)] by (auto simp: attended_def job_for_def split: pending.splits)
  qed
  moreover have "ingress_decidable (ct_watch ct)"
    if "jobs \<noteq> [] \<or> (\<exists>k c. pr_keys (ct_pending ?ct) k = Some (Failed c))"
    using that jobs(2) publish_invD(2,3) [OF inv] by (auto simp: keys split: if_splits)
  ultimately show ?thesis using publish_invD(1) [OF inv] unfolding publish_inv_def by (auto simp: keys)
qed

lemma work_inv:
  assumes "publish_inv X ct" "ingress_decidable (ct_watch ct) \<or> key \<notin> X"
  shows "publish_inv (X - {key}) (run_ingress_work C now (work, key) ct)"
proof (cases work)
  case Publish then show ?thesis using publish_for_inv [OF assms] by (simp add: run_ingress_work_def)
next
  case Clear then show ?thesis using clear_for_inv [OF assms(1)] by (simp add: run_ingress_work_def)
next
  case Forget
  then show ?thesis
    using record_ok_inv [OF assms(1), where jobs = "ct_jobs ct" and clear = False] by (simp add: run_ingress_work_def job_for_def)
qed

lemma fold_work_inv:
  assumes "publish_inv X ct" "ingress_decidable (ct_watch ct) \<or> X = {}"
  shows "publish_inv (X - set (map snd items)) (fold (run_ingress_work C now) items ct)"
  using assms
proof (induction items arbitrary: X ct)
  case (Cons item items)
  obtain work key where item: "item = (work, key)" by (cases item)
  have "publish_inv (X - {key}) (run_ingress_work C now item ct)" using work_inv [OF Cons.prems(1)] Cons.prems(2) item by auto
  from Cons.IH [OF this] Cons.prems(2) have "publish_inv (X - {key} - set (map snd items)) (fold (run_ingress_work C now) (item # items) ct)"
    by auto
  then show ?case by (simp add: item Diff_insert2 [symmetric])
qed simp

lemma fold_publish_inv:
  assumes "publish_inv X ct" "ingress_decidable (ct_watch ct) \<or> X = {}"
  shows "publish_inv (X - set keys) (fold (publish_ingress_for C) keys ct)"
  using fold_work_inv [OF assms, of "map (Pair Publish) keys" C 0] by (simp add: fold_map comp_def)

lemma fold_clear_inv:
  assumes "publish_inv X ct" "ingress_decidable (ct_watch ct) \<or> X = {}"
  shows "publish_inv (X - set keys) (fold (clear_ingress_for C) keys ct)"
  using fold_work_inv [OF assms, of "map (Pair Clear) keys" C 0] by (simp add: fold_map comp_def)

definition deferred :: "('m, 'e, 't, 'n, 'p, 'f) controller \<Rightarrow> service_key set" where
  "deferred ct = {key. pr_keys (ct_pending ct) key = Some DeferredClear}"

lemma ready_file_inv: "publish_inv X (ct\<lparr>ct_ready_file := b\<rparr>) = publish_inv X ct"
proof -
  have "attended (ct\<lparr>ct_ready_file := b\<rparr>) key p = attended ct key p" for key p
    by (cases p) (simp_all add: attended_def job_for_def)
  then show ?thesis by (simp add: publish_inv_def)
qed

lemma after_list_inv:
  assumes "watch_order_ok (ce_watch_order C)" "publish_inv X ct" "X \<subseteq> deferred ct"
    and "was_ready \<or> \<not> ingress_decidable (ct_watch ct) \<Longrightarrow> X = {}"
  shows "publish_inv {} (after_list C w was_ready ct)"
proof -
  let ?ct = "sync_ready_marker w ct"
  have marker: "publish_inv X ?ct" "ct_watch ?ct = ct_watch ct" "ct_pending ?ct = ct_pending ct"
    using assms(2) by (simp_all add: sync_ready_marker_def ready_file_inv)
  show ?thesis
  proof (cases "\<not> was_ready \<and> ingress_decidable (ct_watch ct)")
    case False
    then show ?thesis using assms(4) marker by (auto simp: after_list_def Let_def)
  next
    case True
    let ?keys = "service_keys (ce_watch_order C) (ct_watch ct)"
    let ?clears = "filter (\<lambda>k. k \<notin> set ?keys) (pending_clears (ce_watch_order C) (ct_pending ct))"
    have pub: "publish_inv (X - set ?keys) (fold (publish_ingress_for C) ?keys ?ct)"
      using fold_publish_inv [OF marker(1)] True by (simp add: marker)
    have "k \<in> set ?clears" if "k \<in> X - set ?keys" for k
    proof -
      have "pr_keys (ct_pending ct) k = Some DeferredClear" using that assms(3) by (auto simp: deferred_def)
      then have "(k, DeferredClear) \<in> set (entries_of (wo_services (ce_watch_order C)) (pr_keys (ct_pending ct)))"
        using assms(1) publish_invD(1) [OF assms(2)] by (simp add: watch_order_ok_def entries_of_iff)
      then show ?thesis using that by (force simp: pending_clears_def)
    qed
    then have "X - set ?keys - set ?clears = {}" by blast
    then have "publish_inv {} (fold (clear_ingress_for C) ?clears (fold (publish_ingress_for C) ?keys ?ct))"
      using fold_clear_inv [OF pub, of ?clears C] True by (simp only: fold_publish_frame marker simp_thms)
    then show ?thesis using True by (simp add: after_list_def marker Let_def)
  qed
qed

lemma update_inv:
  assumes "publish_inv {} ct" "fully_listed (ct_watch ct) \<Longrightarrow> fully_listed ws"
  shows "publish_inv (if fully_listed ws \<and> \<not> fully_listed (ct_watch ct) then deferred ct else {})
    (apply_reconcile C now (ct\<lparr>ct_watch := ws\<rparr>))"
  using assms unfolding publish_inv_def
  by (auto simp: attended_def job_for_def deferred_def ingress_decidable_def warned_fields split: pending.splits)

lemma event_inv:
  assumes "publish_inv {} ct" "fully_listed ws = fully_listed (ct_watch ct)"
  shows "publish_inv {} (apply_reconcile C now (ct\<lparr>ct_watch := ws\<rparr>))"
  using update_inv [OF assms(1), of ws C now] assms(2) by simp

lemma relist_inv:
  assumes "watch_order_ok (ce_watch_order C)" "publish_inv {} ct" "fully_listed (ct_watch ct) \<Longrightarrow> fully_listed ws"
    and "\<forall>(work, key) \<in> set items. work \<noteq> Forget"
  shows "publish_inv {} (after_list C w (ingress_decidable (ct_watch ct))
    (fold (run_ingress_work C now) items (apply_reconcile C now (ct\<lparr>ct_watch := ws\<rparr>))))"
proof -
  let ?X = "if fully_listed ws \<and> \<not> fully_listed (ct_watch ct) then deferred ct else {}"
  let ?ct = "apply_reconcile C now (ct\<lparr>ct_watch := ws\<rparr>)"
  have dec: "ingress_decidable (ct_watch ?ct) = fully_listed ws" by (simp add: ingress_decidable_def warned_fields)
  have inv: "publish_inv (?X - set (map snd items)) (fold (run_ingress_work C now) items ?ct)"
    by (rule fold_work_inv [OF update_inv [OF assms(2,3)]]) (use dec in auto)
  have keep: "ct_pending (run_ingress_work C now (work, key) c) = ct_pending c"
    if "work \<noteq> Forget" "ingress_decidable (ct_watch c)" for work key c
    using that by (cases work) (simp_all add: clear_ingress_for_def ingress_clear_ips_def)
  have pending: "ct_pending (fold (run_ingress_work C now) items c) = ct_pending c" if "ingress_decidable (ct_watch c)" for c
    using that assms(4)
  proof (induction items arbitrary: c)
    case (Cons item items)
    then show ?case by (cases item) (simp add: keep)
  qed simp
  have "?X - set (map snd items) \<subseteq> deferred (fold (run_ingress_work C now) items ?ct)"
  proof (cases "fully_listed ws")
    case True
    then have "ct_pending (fold (run_ingress_work C now) items ?ct) = ct_pending ct"
      using pending [of ?ct, unfolded dec] by simp
    then show ?thesis by (auto simp: deferred_def)
  qed simp
  then show ?thesis
    by (rule after_list_inv [OF assms(1) inv]) (auto simp: ingress_decidable_def warned_fields)
qed

lemma publish_turn_inv:
  assumes "watch_order_ok (ce_watch_order C)" "publish_inv {} ct"
  shows "publish_inv {} (publish_retry_turn C now ct)"
proof (cases "backoff_due (pr_backoff (ct_pending ct)) now")
  case False
  then show ?thesis using assms(2) by (simp add: publish_retry_turn_def take_due_def)
next
  case True
  let ?keys = "pr_keys (ct_pending ct)" and ?X = "{k. \<exists>c. pr_keys (ct_pending ct) k = Some (Failed c)}"
  obtain due pr where td: "take_due (ce_watch_order C) now (ct_pending ct) = (due, pr)" by (metis prod.collapse)
  have pr: "pr = (ct_pending ct)\<lparr>pr_backoff := (pr_backoff (ct_pending ct))\<lparr>rb_retry_at := None\<rparr>\<rparr>"
    and due: "due = List.map_filter (\<lambda>(k, p). case p of Failed clear \<Rightarrow> Some (k, clear) | DeferredClear \<Rightarrow> None)
      (entries_of (wo_services (ce_watch_order C)) ?keys)"
    using td True by (simp_all add: take_due_def)
  let ?ct = "ct\<lparr>ct_pending := pr\<rparr>"
  have inv: "publish_inv ?X ?ct"
    using assms(2) unfolding publish_inv_def by (auto simp: pr attended_def job_for_def split: pending.splits)
  have "k \<in> fst ` set due" if "k \<in> ?X" for k
  proof -
    from that obtain c where "(k, Failed c) \<in> set (entries_of (wo_services (ce_watch_order C)) ?keys)"
      using assms(1) publish_invD(1) [OF assms(2)] by (auto simp: watch_order_ok_def entries_of_iff)
    then have "(k, c) \<in> set due" unfolding due in_set_map_filter by force
    then show ?thesis by force
  qed
  then have cover: "?X - fst ` set due = {}" by blast
  let ?f = "\<lambda>(key, clear). (retry_work (key \<in> set (service_keys (ce_watch_order C) (ct_watch ct))) clear, key)"
  have dec: "ingress_decidable (ct_watch ?ct) \<or> ?X = {}" using publish_invD(3) [OF assms(2)] by auto
  have eq: "publish_retry_turn C now ct = fold (run_ingress_work C now) (map ?f due) ?ct"
    by (simp add: publish_retry_turn_def td fold_map comp_def case_prod_unfold Let_def)
  have "set (map snd (map ?f due)) = fst ` set due" by (force simp: image_iff)
  then have "?X - set (map snd (map ?f due)) = {}" using cover by (simp only:)
  with fold_work_inv [OF inv dec, of "map ?f due" C now] show ?thesis unfolding eq by (simp only:)
qed

lemma in_set_without: "x \<in> set xs \<Longrightarrow> n < length xs \<Longrightarrow> x = xs ! n \<or> x \<in> set (take n xs @ drop (Suc n) xs)"
  using id_take_nth_drop [of n xs] by (metis Un_iff insert_iff list.set(2) set_append)

lemma finish_job_inv:
  assumes "publish_inv {} ct"
  shows "publish_inv {} (finish_job now n r ct)"
proof (cases "n < length (ct_jobs ct)")
  case False then show ?thesis using assms by (simp add: finish_job_def)
next
  case True
  let ?job = "ct_jobs ct ! n" and ?jobs = "take n (ct_jobs ct) @ drop (Suc n) (ct_jobs ct)"
  have others: "\<exists>job \<in> set ?jobs. pj_key job = k" if "k \<noteq> pj_key ?job" "job_for ct k" for k
    using that in_set_without [OF _ True] by (auto simp: job_for_def)
  show ?thesis
  proof (cases "attempt_done (pj_clear ?job) r")
    case finished: True
    have "publish_inv ({} - {pj_key ?job})
        (ct\<lparr>ct_jobs := ?jobs, ct_pending := publish_record (pj_key ?job) True (pj_clear ?job) now (ct_pending ct)\<rparr>)"
      by (rule record_ok_inv [OF assms others]) (use True in auto)
    then show ?thesis using True finished by (simp add: finish_job_def Let_def)
  next
    case failed: False
    have dec: "ingress_decidable (ct_watch ct)" using True by (intro publish_invD(2) [OF assms]) auto
    have armed: "rb_retry_at (backoff_record False now rb) \<noteq> None" for rb
      by (auto simp: backoff_record_def split: option.splits)
    have "attended (finish_job now n r ct) k p" if "pr_keys (ct_pending (finish_job now n r ct)) k = Some p" for k p
    proof (cases p)
      case (Failed c)
      then show ?thesis using True failed armed by (simp add: attended_def finish_job_def Let_def publish_record_def)
    next
      case DeferredClear
      then have k: "k \<noteq> pj_key ?job" "pr_keys (ct_pending ct) k = Some DeferredClear"
        using that True failed by (auto simp: finish_job_def Let_def publish_record_def split: if_splits)
      then have "job_for ct k" using publish_invD(4) [OF assms k(2)] dec by (auto simp: attended_def)
      from others [OF k(1) this] show ?thesis using True by (simp add: attended_def job_for_def finish_job_def Let_def)
    qed
    then show ?thesis
      using publish_invD(1) [OF assms] dec True failed unfolding publish_inv_def
      by (simp add: finish_job_def Let_def publish_record_def)
  qed
qed

lemma reach_publish_inv:
  assumes "env_ok C"
  shows "controller_reach C maps ct \<Longrightarrow> publish_inv {} ct"
proof (induction rule: controller_reach.induct)
  case start
  then show ?case by (simp add: publish_inv_def start_controller_def default_publish_retry_def)
next
  case (step ct now i)
  have wo: "watch_order_ok (ce_watch_order C)" using assms by (simp add: env_ok_def)
  note inv = step.IH
  show ?case
  proof (cases i)
    case (OnService e)
    have "publish_inv {} (apply_reconcile C now (ct\<lparr>ct_watch := snd (apply_service_event e (ct_watch ct))\<rparr>))"
      by (rule event_inv [OF inv event_keeps_listed(1)])
    from fold_work_inv [OF this, of "service_event_work (fst (apply_service_event e (ct_watch ct))) e" C now] show ?thesis
      by (simp add: OnService on_service_def case_prod_unfold)
  next
    case (OnSlice e)
    have ev: "publish_inv {} (apply_reconcile C now (ct\<lparr>ct_watch := snd (apply_endpoint_slice_event e (ct_watch ct))\<rparr>))"
      by (rule event_inv [OF inv event_keeps_listed(2)])
    show ?thesis using ev publish_for_inv [OF ev] by (auto simp: OnSlice on_endpoint_slice_def Let_def split: prod.split option.split)
  next
    case (OnNode e)
    have "publish_inv {} (apply_reconcile C now (ct\<lparr>ct_watch := apply_node_event e (ct_watch ct)\<rparr>))"
      by (rule event_inv [OF inv event_keeps_listed(3)])
    from fold_publish_inv [OF this, of _ C] show ?thesis by (simp add: OnNode on_node_def republish_if_own_ips_changed_def Let_def)
  next
    case (OnServices w items)
    obtain r ws where r: "replace_services items (ct_watch ct) = (r, ws)" by (metis prod.collapse)
    show ?thesis
    proof (cases r)
      case (Inl e)
      then have "ws = ct_watch ct" using refused_unchanged(1) r by simp
      then show ?thesis using inv r Inl by (simp add: OnServices on_services_relist_def)
    next
      case (Inr keys)
      have "publish_inv {} (after_list C w (ingress_decidable (ct_watch ct))
          (fold (run_ingress_work C now) (services_relist_work keys items) (apply_reconcile C now (ct\<lparr>ct_watch := ws\<rparr>))))"
        by (rule relist_inv [OF wo inv])
          (use step_keeps_listed [of "ct_watch ct" "ce_watch_order C" "nc_node_ip (ce_node C)" "ServiceList items"] r
            in \<open>auto simp: services_relist_work_def\<close>)
      then show ?thesis by (simp add: OnServices on_services_relist_def r Inr)
    qed
  next
    case (OnSlices w items)
    obtain r ws where r: "replace_endpoint_slices items (ct_watch ct) = (r, ws)" by (metis prod.collapse)
    show ?thesis
    proof (cases r)
      case (Some e)
      then have "ws = ct_watch ct" using refused_unchanged(2) r by simp
      then show ?thesis using inv r Some by (simp add: OnSlices on_endpoint_slices_relist_def)
    next
      case None
      have "publish_inv {} (after_list C w (ingress_decidable (ct_watch ct))
          (fold (run_ingress_work C now) (map (Pair Publish) keys) (apply_reconcile C now (ct\<lparr>ct_watch := ws\<rparr>))))" for keys
        by (rule relist_inv [OF wo inv])
          (use step_keeps_listed [of "ct_watch ct" "ce_watch_order C" "nc_node_ip (ce_node C)" "SliceList items"] r in auto)
      then show ?thesis by (simp add: OnSlices on_endpoint_slices_relist_def r None fold_map comp_def Let_def)
    qed
  next
    case (OnNodes w items)
    obtain r ws where r: "replace_nodes (ce_watch_order C) items (nc_node_ip (ce_node C)) (ct_watch ct) = (r, ws)"
      by (metis prod.collapse)
    show ?thesis
    proof (cases r)
      case (Some e)
      then have "ws = ct_watch ct" using refused_unchanged(3) r by simp
      then show ?thesis using inv r Some by (simp add: OnNodes on_nodes_relist_def Let_def)
    next
      case None
      have "publish_inv {} (after_list C w (ingress_decidable (ct_watch ct))
          (fold (run_ingress_work C now) (map (Pair Publish) keys) (apply_reconcile C now (ct\<lparr>ct_watch := ws\<rparr>))))" for keys
        by (rule relist_inv [OF wo inv])
          (use step_keeps_listed [of "ct_watch ct" "ce_watch_order C" "nc_node_ip (ce_node C)" "NodeList items"] r in auto)
      then show ?thesis
        by (simp add: OnNodes on_nodes_relist_def republish_if_own_ips_changed_def r None fold_map comp_def Let_def)
    qed
  next
    case RetryTurn
    have "publish_inv {} (apply_reconcile C now (ct\<lparr>ct_watch := ct_watch ct\<rparr>))" by (rule event_inv [OF inv refl])
    then show ?thesis using inv by (simp add: RetryTurn retry_loop_turn_def)
  next
    case PublishTurn
    then show ?thesis using publish_turn_inv [OF wo inv] by simp
  next
    case (JobDone n r)
    then show ?thesis using finish_job_inv [OF inv] by simp
  qed
qed

section \<open>The controller's guarantees\<close>

lemma turn_disarms:
  assumes "backoff_due (pr_backoff (ct_pending ct)) now"
  shows "rb_retry_at (pr_backoff (ct_pending (publish_retry_turn C now ct))) = None"
proof -
  have work: "rb_retry_at (pr_backoff (ct_pending (run_ingress_work C now item c))) = None"
    if "rb_retry_at (pr_backoff (ct_pending c)) = None" for item c
    using that by (cases item, cases "fst item")
      (auto simp: run_ingress_work_def clear_ingress_for_def defer_clear_def publish_record_def reset_if_no_failures_def
        default_backoff_def split: option.split)
  have "rb_retry_at (pr_backoff (ct_pending (fold (run_ingress_work C now) items c))) = None"
    if "rb_retry_at (pr_backoff (ct_pending c)) = None" for items c
    using that by (induction items arbitrary: c) (auto simp: work)
  from this [of "ct\<lparr>ct_pending := snd (take_due (ce_watch_order C) now (ct_pending ct))\<rparr>" "map (\<lambda>(key, clear).
      (retry_work (key \<in> set (service_keys (ce_watch_order C) (ct_watch ct))) clear, key))
      (fst (take_due (ce_watch_order C) now (ct_pending ct)))"]
  show ?thesis using assms
    by (simp add: publish_retry_turn_def case_prod_unfold fold_map comp_def Let_def take_due_def)
qed


text \<open>A node, and a Service that stopped being a load balancer before the node was told of everything.\<close>

definition wx_env :: "(_, _, _, _, _, _) controller_env" where
  "wx_env = \<lparr>ce_watch_order = std_watch_order, ce_visit_order = std_order, ce_handles = std_handles, ce_node = wx_node_context\<rparr>"

definition wx_stale :: json where
  "wx_stale = JObj [(''type'', JStr ''MODIFIED''), (''object'', JObj
     [(''metadata'', JObj [(''namespace'', JStr ''ns''), (''name'', JStr ''web'')]),
      (''spec'', JObj [(''type'', JStr ''ClusterIP'')]),
      (''status'', JObj [(''loadBalancer'', JObj [(''ingress'', JArr [JObj [(''ip'', JStr ''1.2.3.4'')]])])])])]"

lemma fresh_unlisted: "\<not> fully_listed default_watch"
  by (simp add: fully_listed_def default_watch_def)

lemma wx_env_ok: "env_ok wx_env"
  by (simp add: env_ok_def wx_env_def std_watch_order_ok std_order_ok std_handles_ok)



definition wx_pins :: "(_, _, _, _, _, _) pins" where
  "wx_pins = \<lparr>pin_front_meta = Inr (ap_map []), pin_front_endpoints = Inr (ap_map []), pin_front_meta_max = Inr 8,
     pin_front_endpoints_max = Inr 8, pin_pod_targets = Inr (ap_map [(cs_pod 3, 1)]), pin_node_allow = Inr (ap_map [(cs_pod 9, 1)]),
     pin_fwd_pending = Inr (ap_map []), pin_flow_table = Inr (ap_map [])\<rparr>"


end
