(* ===== verification/List_Watch.thy ===== *)
theory List_Watch
  imports Kube
begin

text \<open>
  The list-then-watch loop of \<open>controller/src/watch.rs\<close>. The apiserver is the parameter of \<open>Kube\<close>; a watch
  stream, a parameter too, delivers events and ends with an error text or without one. The two handlers
  work on a state of their own.
\<close>

definition INITIAL_BACKOFF :: nanos where "INITIAL_BACKOFF = from_millis 500"
definition MAX_BACKOFF :: nanos where "MAX_BACKOFF = from_secs 30"

text \<open>\<open>str::contains\<close>.\<close>

definition contains :: "string \<Rightarrow> string \<Rightarrow> bool" where
  "contains text pat \<longleftrightarrow> list_ex (\<lambda>n. take (length pat) (drop n text) = pat) [0..<Suc (length text)]"

definition is_resource_expired :: "string \<Rightarrow> bool" where
  "is_resource_expired err \<longleftrightarrow> contains err ''410''"

definition bookmark_resource_version :: "json \<Rightarrow> string option" where
  "bookmark_resource_version event =
     (if as_str (json_at event ''type'') \<noteq> Some ''BOOKMARK'' then None
      else as_str (json_path event [''object'', ''metadata'', ''resourceVersion'']))"

definition next_backoff :: "nanos \<Rightarrow> bool \<Rightarrow> nanos" where
  "next_backoff current succeeded = (if succeeded then INITIAL_BACKOFF else min (current * 2) MAX_BACKOFF)"

definition list_resource_version :: "json \<Rightarrow> string option" where
  "list_resource_version list_body = resource_version list_body"

datatype list_error = ListFailed | ListStatus nat | ListUnparsed | ListPaginated | ListUnversioned | ListRefused

definition parse_list :: "json option \<Rightarrow> list_error + json list \<times> string" where
  "parse_list body =
     (case body of
        None \<Rightarrow> Inl ListUnparsed
      | Some parsed \<Rightarrow>
          if (case as_str (json_path parsed [''metadata'', ''continue'']) of Some c \<Rightarrow> c \<noteq> '''' | None \<Rightarrow> False)
          then Inl ListPaginated
          else case list_resource_version parsed of
                 None \<Rightarrow> Inl ListUnversioned
               | Some rv \<Rightarrow>
                   Inr (case as_array (json_at parsed ''items'') of Some items \<Rightarrow> items | None \<Rightarrow> [], rv))"

definition list_objects :: "'s api_client \<Rightarrow> string \<Rightarrow> 's \<Rightarrow> (list_error + json list \<times> string) \<times> 's" where
  "list_objects A path s =
     (case ac_request A GET path None s of
        (None, s) \<Rightarrow> (Inl ListFailed, s)
      | (Some (status, body), s) \<Rightarrow>
          if \<not> is_success status then (Inl (ListStatus status), s) else (parse_list body, s))"

text \<open>A watch of a path: the events it delivers until it ends, and the error it ends with, if any.\<close>

type_synonym 's watch_stream = "string \<Rightarrow> 's \<Rightarrow> (json list \<times> string option) \<times> 's"

record 'h list_handlers =
  on_event :: "json \<Rightarrow> 'h \<Rightarrow> 'h"
  on_relist :: "json list \<Rightarrow> 'h \<Rightarrow> bool \<times> 'h"

record list_watch =
  lw_backoff :: nanos
  lw_version :: "string option"

text \<open>The callback of the stream: a bookmark moves the resume point, everything else is handled.\<close>

definition stream_event :: "'h list_handlers \<Rightarrow> json \<Rightarrow> string option \<times> 'h \<Rightarrow> string option \<times> 'h" where
  "stream_event L event acc =
     (case acc of (latest, h) \<Rightarrow>
      case bookmark_resource_version event of
        Some rv \<Rightarrow> (Some rv, h)
      | None \<Rightarrow> (latest, on_event L event h))"

definition watch_path :: "string \<Rightarrow> string \<Rightarrow> string" where
  "watch_path resource_path rv = resource_path @ ''?watch=true&allowWatchBookmarks=true&resourceVersion='' @ rv"

text \<open>The listing half of an iteration. \<open>Inl\<close> is a failed list: the wait before the loop goes on.\<close>

definition list_phase ::
  "'s api_client \<Rightarrow> 'h list_handlers \<Rightarrow> string \<Rightarrow> list_watch \<Rightarrow> 's \<times> 'h \<Rightarrow> (nanos + string) \<times> list_watch \<times> 's \<times> 'h" where
  "list_phase A L path lw st =
     (case lw_version lw of
        Some rv \<Rightarrow> (Inr rv, lw, st)
      | None \<Rightarrow>
     (case st of (s, h) \<Rightarrow>
      case list_objects A path s of
        (Inl e, s) \<Rightarrow>
          (let b = next_backoff (lw_backoff lw) False in (Inl b, lw\<lparr>lw_backoff := b\<rparr>, s, h))
      | (Inr (items, rv), s) \<Rightarrow>
          (case on_relist L items h of
             (True, h) \<Rightarrow> (Inr rv, lw\<lparr>lw_version := Some rv, lw_backoff := INITIAL_BACKOFF\<rparr>, s, h)
           | (False, h) \<Rightarrow>
               (let b = next_backoff (lw_backoff lw) False in (Inl b, lw\<lparr>lw_backoff := b\<rparr>, s, h)))))"

text \<open>The watching half.\<close>

definition watch_phase ::
  "'s watch_stream \<Rightarrow> 'h list_handlers \<Rightarrow> string \<Rightarrow> string \<Rightarrow> list_watch \<Rightarrow> 's \<times> 'h \<Rightarrow> nanos option \<times> list_watch \<times> 's \<times> 'h" where
  "watch_phase W L path rv lw st =
     (case st of (s, h) \<Rightarrow>
      case W (watch_path path rv) s of
        ((events, result), s) \<Rightarrow>
      case fold (stream_event L) events (None, h) of
        (latest, h) \<Rightarrow>
      let lw = (case latest of Some rv \<Rightarrow> lw\<lparr>lw_version := Some rv\<rparr> | None \<Rightarrow> lw)
      in case result of
           None \<Rightarrow> (None, lw\<lparr>lw_backoff := INITIAL_BACKOFF\<rparr>, s, h)
         | Some err \<Rightarrow>
             let lw = (if is_resource_expired err then lw\<lparr>lw_version := None\<rparr> else lw);
                 b = next_backoff (lw_backoff lw) False
             in (Some b, lw\<lparr>lw_backoff := b\<rparr>, s, h))"

text \<open>One turn of the loop: how long it sleeps before the next, if it does.\<close>

definition list_watch_turn ::
  "'s api_client \<Rightarrow> 's watch_stream \<Rightarrow> 'h list_handlers \<Rightarrow> string \<Rightarrow> list_watch \<Rightarrow> 's \<times> 'h \<Rightarrow>
   nanos option \<times> list_watch \<times> 's \<times> 'h" where
  "list_watch_turn A W L path lw st =
     (case list_phase A L path lw st of
        (Inl b, lw, st) \<Rightarrow> (Some b, lw, st)
      | (Inr rv, lw, st) \<Rightarrow> watch_phase W L path rv lw st)"

definition list_watch_start :: list_watch where
  "list_watch_start = \<lparr>lw_backoff = INITIAL_BACKOFF, lw_version = None\<rparr>"

text \<open>\<open>n\<close> turns of the endless loop.\<close>

primrec run_list_watch ::
  "'s api_client \<Rightarrow> 's watch_stream \<Rightarrow> 'h list_handlers \<Rightarrow> string \<Rightarrow> nat \<Rightarrow> list_watch \<times> 's \<times> 'h \<Rightarrow>
   list_watch \<times> 's \<times> 'h" where
  "run_list_watch A W L path 0 st = st"
| "run_list_watch A W L path (Suc n) st =
     run_list_watch A W L path n (snd (list_watch_turn A W L path (fst st) (snd st)))"

end
