(* ===== verification/Std_Text.thy ===== *)
theory Std_Text
  imports Ip_Parse "HOL-Library.Sublist"
begin

text \<open>
  What the loader and the seed use of the standard library's strings. A \<open>str\<close> is the list of its UTF-8 bytes.
\<close>

section \<open>UTF-8\<close>

definition between :: "nat \<Rightarrow> nat \<Rightarrow> nat \<Rightarrow> bool" where
  "between lo hi n \<longleftrightarrow> lo \<le> n \<and> n \<le> hi"

text \<open>How many bytes the first encoded character takes; 0 if there is none that is valid.\<close>

definition utf8_width :: "nat list \<Rightarrow> nat" where
  "utf8_width bs =
     (let at = (\<lambda>i. if i < length bs then bs ! i else 0);
          cont = (\<lambda>i. between 0x80 0xBF (at i))
      in if bs = [] then 0
         else if at 0 < 0x80 then 1
         else if between 0xC2 0xDF (at 0) \<and> cont 1 then 2
         else if (at 0 = 0xE0 \<and> between 0xA0 0xBF (at 1) \<or> between 0xE1 0xEC (at 0) \<and> cont 1
                  \<or> at 0 = 0xED \<and> between 0x80 0x9F (at 1) \<or> between 0xEE 0xEF (at 0) \<and> cont 1) \<and> cont 2 then 3
         else if (at 0 = 0xF0 \<and> between 0x90 0xBF (at 1) \<or> between 0xF1 0xF3 (at 0) \<and> cont 1
                  \<or> at 0 = 0xF4 \<and> between 0x80 0x8F (at 1)) \<and> cont 2 \<and> cont 3 then 4
         else 0)"

function utf8_valid :: "nat list \<Rightarrow> bool" where
  "utf8_valid bs =
     (if bs = [] then True
      else let w = utf8_width bs in if w = 0 then False else utf8_valid (drop w bs))"
  by pat_completeness auto
termination
  by (relation "measure length") auto

declare utf8_valid.simps [simp del]

text \<open>\<open>String::from_utf8\<close>.\<close>

definition from_utf8 :: "string \<Rightarrow> string option" where
  "from_utf8 raw = (if utf8_valid (map of_char raw) then Some raw else None)"

lemma utf8_valid_ascii: "\<forall>b \<in> set bs. b < 0x80 \<Longrightarrow> utf8_valid bs"
proof (induction bs)
  case Nil then show ?case by (simp add: utf8_valid.simps)
next
  case (Cons b bs)
  then have "utf8_width (b # bs) = 1" by (simp add: utf8_width_def)
  then show ?case using Cons by (subst utf8_valid.simps) simp
qed

section \<open>Trimming\<close>

text \<open>The encoded characters \<open>char::is_whitespace\<close> holds for.\<close>

definition whitespace :: "string list" where
  "whitespace = map (map char_of)
     ([[0x20 :: nat], [0xC2, 0x85], [0xC2, 0xA0], [0xE1, 0x9A, 0x80], [0xE2, 0x80, 0xA8], [0xE2, 0x80, 0xA9], [0xE2, 0x80, 0xAF],
       [0xE2, 0x81, 0x9F], [0xE3, 0x80, 0x80]]
      @ map (\<lambda>n. [n]) [0x09..<0x0E] @ map (\<lambda>n. [0xE2, 0x80, n]) [0x80..<0x8B])"

function trim_start :: "string \<Rightarrow> string" where
  "trim_start s =
     (case List.find (\<lambda>w. prefix w s) whitespace of
        Some w \<Rightarrow> if w = [] then s else trim_start (drop (length w) s)
      | None \<Rightarrow> s)"
  by pat_completeness auto
termination
proof (relation "measure length", goal_cases)
  case (2 s w)
  then have "prefix w s" by (auto simp: find_Some_iff)
  with 2 show ?case by (auto simp: prefix_def)
qed simp

declare trim_start.simps [simp del]

function trim_end :: "string \<Rightarrow> string" where
  "trim_end s =
     (case List.find (\<lambda>w. suffix w s) whitespace of
        Some w \<Rightarrow> if w = [] then s else trim_end (take (length s - length w) s)
      | None \<Rightarrow> s)"
  by pat_completeness auto
termination
proof (relation "measure length", goal_cases)
  case (2 s w)
  then have "suffix w s" by (auto simp: find_Some_iff)
  with 2 show ?case by (auto simp: suffix_def)
qed simp

declare trim_end.simps [simp del]

definition trim :: "string \<Rightarrow> string" where
  "trim s = trim_end (trim_start s)"

lemma trim_none:
  assumes "\<And>w. w \<in> set whitespace \<Longrightarrow> \<not> prefix w s \<and> \<not> suffix w s"
  shows "trim s = s"
proof -
  have "List.find (\<lambda>w. prefix w s) whitespace = None" "List.find (\<lambda>w. suffix w s) whitespace = None"
    using assms by (auto simp: find_None_iff)
  then show ?thesis by (simp add: trim_def trim_start.simps [of s] trim_end.simps [of s])
qed

section \<open>Numbers\<close>

text \<open>\<open>from_str_radix\<close> of an unsigned integer type: \<open>None\<close> for no digits, an invalid one, or a value out of range.\<close>

definition from_str_radix :: "nat \<Rightarrow> nat \<Rightarrow> string \<Rightarrow> nat option" where
  "from_str_radix limit radix s =
     (let ds = (case s of [] \<Rightarrow> [] | c # cs \<Rightarrow> if c = CHR ''+'' then cs else s);
          v = nat (digits_value radix ds)
      in if ds = [] \<or> \<not> list_all (is_digit radix) ds \<or> v \<ge> limit then None else Some v)"

lemma digits_value_snoc: "digits_value radix (ds @ [c]) = digits_value radix ds * int radix + int (the (to_digit radix c))"
  by (simp add: digits_value_def)

lemma to_digit_char:
  assumes "d < radix" "radix \<le> 16"
  shows "to_digit radix (digit_char d) = Some d"
proof (cases "d < 10")
  case True
  then show ?thesis using assms by (simp add: to_digit_def digit_char_def Let_def)
next
  case False
  then show ?thesis using assms by (simp add: to_digit_def digit_char_def Let_def)
qed

lemma print_base_digits:
  assumes "2 \<le> b" "b \<le> 16"
  shows "digits_value b (print_base b n) = int n \<and> list_all (is_digit b) (print_base b n) \<and> print_base b n \<noteq> []"
proof (induction n rule: less_induct)
  case (less n)
  show ?case
  proof (cases "n < b")
    case True
    then show ?thesis using assms
      by (simp add: print_base.simps [of b n] digits_value_def is_digit_def to_digit_char)
  next
    case False
    then have "n div b < n" "n mod b < b" using assms by (simp_all add: div_less_dividend)
    then show ?thesis using less [of "n div b"] False assms
      by (simp add: print_base.simps [of b n] digits_value_snoc is_digit_def to_digit_char)
        (metis div_mult_mod_eq of_nat_add of_nat_mult)
  qed
qed

lemma digits_value_zeros: "digits_value radix (replicate k (CHR ''0'') @ ds) = digits_value radix ds" if "0 < radix"
  using that by (induction k) (simp_all add: digits_value_def to_digit_def)

end
