(* ===== verification/Interfaces.thy ===== *)
theory Interfaces
  imports Std_Text Conntrack_Sweep
begin

text \<open>
  What \<open>src/lib.rs\<close> does to a node before the classifiers run: interface names and indexes, the \<open>CONFIG\<close> and
  \<open>UPLINK_CONFIG\<close> rows, attaching the programs, and the checks on the kernel and the map sizes. The file system and
  the commands run are parameters; \<open>fs path\<close> is what reading a file gives.
\<close>

type_synonym file_system = "string \<Rightarrow> string option"

datatype start_error =
    Unreadable string | Unparsed string | ZeroIfindex
  | UnsupportedArphrd string u16 string | TooManyUplinks nat u32 | MapWrite map_error
  | CommandFailed "string list" | FileWrite string | FileRemove string
  | LinkFailed string | ProgramFailed string

section \<open>Names\<close>

definition IFNAME_MAX_BYTES :: nat where "IFNAME_MAX_BYTES = 15"

datatype iface_name_error = EmptyName | NameTooLong nat | NameHasSlash | NameHasSeparator | NameNotValid

definition is_ascii_whitespace :: "char \<Rightarrow> bool" where
  "is_ascii_whitespace c \<longleftrightarrow> (of_char c :: nat) \<in> set [0x20, 0x09, 0x0A, 0x0C, 0x0D]"

definition parse_iface_name :: "string \<Rightarrow> iface_name_error + string" where
  "parse_iface_name name =
     (if name = [] then Inl EmptyName
      else if length name > IFNAME_MAX_BYTES then Inl (NameTooLong (length name))
      else if list_ex (\<lambda>c. c = CHR ''/'') name then Inl NameHasSlash
      else if list_ex (\<lambda>c. is_ascii_whitespace c \<or> c = CHR '':'') name then Inl NameHasSeparator
      else if name = ''.'' \<or> name = ''..'' then Inl NameNotValid
      else Inr name)"

section \<open>Reading sysfs\<close>

definition net_path :: "string \<Rightarrow> string \<Rightarrow> string" where
  "net_path name leaf = ''/sys/class/net/'' @ name @ ''/'' @ leaf"

definition iface_arphrd_type :: "file_system \<Rightarrow> string \<Rightarrow> start_error + u16" where
  "iface_arphrd_type fs name =
     (let path = net_path name ''type''
      in case fs path of
           None \<Rightarrow> Inl (Unreadable path)
         | Some raw \<Rightarrow>
             (case from_str_radix (2 ^ 16) 10 (trim raw) of None \<Rightarrow> Inl (Unparsed path) | Some n \<Rightarrow> Inr (of_nat n)))"

definition parse_ifindex :: "string \<Rightarrow> start_error + u32" where
  "parse_ifindex raw =
     (case from_str_radix (2 ^ 32) 10 (trim raw) of
        None \<Rightarrow> Inl (Unparsed raw)
      | Some n \<Rightarrow> if n = 0 then Inl ZeroIfindex else Inr (of_nat n))"

definition iface_index :: "file_system \<Rightarrow> string \<Rightarrow> start_error + u32" where
  "iface_index fs name =
     (let path = net_path name ''ifindex''
      in case fs path of None \<Rightarrow> Inl (Unreadable path) | Some raw \<Rightarrow> parse_ifindex raw)"

section \<open>Preparing the node\<close>

text \<open>\<open>run\<close> runs a command and says whether it exited with success.\<close>

definition run_checked :: "(string list \<Rightarrow> 's \<Rightarrow> bool \<times> 's) \<Rightarrow> string list \<Rightarrow> 's \<Rightarrow> start_error option \<times> 's" where
  "run_checked run cmd s = (case run cmd s of (succeeded, s) \<Rightarrow> (if succeeded then None else Some (CommandFailed cmd), s))"

definition ensure_geneve_iface ::
  "(string list \<Rightarrow> 's \<Rightarrow> bool \<times> 's) \<Rightarrow> ('s \<Rightarrow> file_system) \<Rightarrow> string \<Rightarrow> 's \<Rightarrow> start_error option \<times> 's" where
  "ensure_geneve_iface run fs iface s =
     (case (case iface_index (fs s) iface of
              Inr _ \<Rightarrow> (None, s)
            | Inl _ \<Rightarrow> run_checked run [''ip'', ''link'', ''add'', iface, ''type'', ''geneve'', ''external''] s) of
        (Some e, s) \<Rightarrow> (Some e, s)
      | (None, s) \<Rightarrow> run_checked run [''ip'', ''link'', ''set'', iface, ''up''] s)"

definition RP_FILTER_DROPIN :: string where "RP_FILTER_DROPIN = ''/etc/sysctl.d/60-beep.conf''"

definition rp_filter_dropin_body :: "string \<Rightarrow> string" where
  "rp_filter_dropin_body iface = ''net.ipv4.conf.'' @ iface @ ''.rp_filter = 0'' @ [CHR 0x0A]"

text \<open>The files \<open>disable_rp_filter\<close> writes, in order, up to the first that fails.\<close>

definition rp_filter_writes :: "string \<Rightarrow> (string \<times> string) list" where
  "rp_filter_writes iface =
     (RP_FILTER_DROPIN, rp_filter_dropin_body iface)
     # map (\<lambda>dev. (''/proc/sys/net/ipv4/conf/'' @ dev @ ''/rp_filter'', ''0'')) [''all'', iface]"

primrec write_files :: "(string \<Rightarrow> string \<Rightarrow> 's \<Rightarrow> bool \<times> 's) \<Rightarrow> (string \<times> string) list \<Rightarrow> 's \<Rightarrow> start_error option \<times> 's" where
  "write_files put [] s = (None, s)"
| "write_files put (w # ws) s =
     (case put (fst w) (snd w) s of
        (True, s) \<Rightarrow> write_files put ws s
      | (False, s) \<Rightarrow> (Some (FileWrite (fst w)), s))"

definition disable_rp_filter :: "(string \<Rightarrow> string \<Rightarrow> 's \<Rightarrow> bool \<times> 's) \<Rightarrow> string \<Rightarrow> 's \<Rightarrow> start_error option \<times> 's" where
  "disable_rp_filter put iface s = write_files put (rp_filter_writes iface) s"

section \<open>CONFIG\<close>

definition config_keeping_parity :: "config \<Rightarrow> u32 \<Rightarrow> u64 \<Rightarrow> config" where
  "config_keeping_parity existing geneve_ifindex flow_hash_seed =
     \<lparr>cfg_geneve_ifindex = geneve_ifindex, cfg_udp_parity = cfg_udp_parity existing,
      cfg_tcp_parity = cfg_tcp_parity existing, cfg_pad = [0, 0], cfg_flow_hash_seed = flow_hash_seed\<rparr>"

definition populate_config ::
  "file_system \<Rightarrow> 'c config_handle \<Rightarrow> string \<Rightarrow> u64 \<Rightarrow> 'c \<Rightarrow> start_error option \<times> 'c" where
  "populate_config fs C geneve_iface flow_hash_seed c =
     (case iface_index fs geneve_iface of
        Inl e \<Rightarrow> (Some e, c)
      | Inr geneve_ifindex \<Rightarrow>
     (case ca_get C c of
        Inl e \<Rightarrow> (Some (MapWrite e), c)
      | Inr existing \<Rightarrow>
          (case ca_set C (config_keeping_parity existing geneve_ifindex flow_hash_seed) c of
             (r, c) \<Rightarrow> (map_option MapWrite r, c))))"

section \<open>Uplinks\<close>

definition arphrd_name :: "u16 \<Rightarrow> string" where
  "arphrd_name arphrd =
     (case map_of [(1 :: u16, ''ETHER''), (6, ''IEEE802''), (32, ''INFINIBAND''), (512, ''PPP''), (519, ''RAWIP''),
             (768, ''TUNNEL''), (769, ''TUNNEL6''), (776, ''SIT''), (778, ''IPGRE''), (823, ''IP6GRE''), (0xFFFE, ''NONE'')] arphrd of
        Some name \<Rightarrow> name
      | None \<Rightarrow> ''unknown'')"

definition uplink_l2_hlen_or_err :: "string \<Rightarrow> u16 \<Rightarrow> start_error + u32" where
  "uplink_l2_hlen_or_err iface arphrd =
     (case uplink_l2_header_len arphrd of
        Some n \<Rightarrow> Inr n
      | None \<Rightarrow> Inl (UnsupportedArphrd iface arphrd (arphrd_name arphrd)))"

definition check_uplink_count :: "nat \<Rightarrow> u32 \<Rightarrow> start_error option" where
  "check_uplink_count count capacity = (if count > unat capacity then Some (TooManyUplinks count capacity) else None)"

text \<open>What is resolved of one uplink.\<close>

definition resolve_uplink :: "file_system \<Rightarrow> string \<Rightarrow> start_error + u32 \<times> uplink_config" where
  "resolve_uplink fs iface =
     (case iface_index fs iface of
        Inl e \<Rightarrow> Inl e
      | Inr ifindex \<Rightarrow>
     (case iface_arphrd_type fs iface of
        Inl e \<Rightarrow> Inl e
      | Inr arphrd \<Rightarrow>
     (case uplink_l2_hlen_or_err iface arphrd of
        Inl e \<Rightarrow> Inl e
      | Inr n \<Rightarrow> Inr (ifindex, \<lparr>l2_hlen = n\<rparr>))))"

primrec insert_uplinks ::
  "file_system \<Rightarrow> ('u, u32, uplink_config) hash_map \<Rightarrow> string list \<Rightarrow> 'u \<Rightarrow> (start_error + u32 list) \<times> 'u" where
  "insert_uplinks fs U [] u = (Inr [], u)"
| "insert_uplinks fs U (iface # ifaces) u =
     (case resolve_uplink fs iface of
        Inl e \<Rightarrow> (Inl e, u)
      | Inr (ifindex, row) \<Rightarrow>
     (case hm_insert U ifindex row u of
        (Some e, u) \<Rightarrow> (Inl (MapWrite e), u)
      | (None, u) \<Rightarrow>
     (case insert_uplinks fs U ifaces u of
        (Inl e, u) \<Rightarrow> (Inl e, u)
      | (Inr configured, u) \<Rightarrow> (Inr (ifindex # configured), u))))"

definition stale_uplink_ifindexes :: "u32 list \<Rightarrow> u32 list \<Rightarrow> u32 list" where
  "stale_uplink_ifindexes existing configured = stale_pod_targets existing configured"

text \<open>\<open>for k in keys { map.remove(k)? }\<close>.\<close>

primrec remove_all :: "('m, 'k, 'v) hash_map \<Rightarrow> 'k list \<Rightarrow> 'm \<Rightarrow> map_error option \<times> 'm" where
  "remove_all H [] m = (None, m)"
| "remove_all H (k # ks) m =
     (case hm_remove H k m of (Some e, m) \<Rightarrow> (Some e, m) | (None, m) \<Rightarrow> remove_all H ks m)"

text \<open>\<open>capacity\<close> is the size of the map in the compiled object.\<close>

definition populate_uplink_config ::
  "file_system \<Rightarrow> ('u, u32, uplink_config) hash_map \<Rightarrow> u32 \<Rightarrow> string list \<Rightarrow> 'u \<Rightarrow> start_error option \<times> 'u" where
  "populate_uplink_config fs U capacity uplink_ifaces u =
     (case check_uplink_count (length uplink_ifaces) capacity of
        Some e \<Rightarrow> (Some e, u)
      | None \<Rightarrow>
     (case insert_uplinks fs U uplink_ifaces u of
        (Inl e, u) \<Rightarrow> (Some e, u)
      | (Inr configured, u) \<Rightarrow>
     (case hm_iter U u of
        Inl e \<Rightarrow> (Some (MapWrite e), u)
      | Inr rows \<Rightarrow>
          (case remove_all U (stale_uplink_ifindexes (map fst rows) configured) u of
             (r, u) \<Rightarrow> (map_option MapWrite r, u)))))"

section \<open>Sizes and versions\<close>

definition MAP_NAMES :: "string list" where
  "MAP_NAMES = [''CONFIG'', ''UPLINK_CONFIG'', ''FRONT_META'', ''FRONT_ENDPOINTS'', ''FRONT_MISSES'', ''POD_TARGETS'',
     ''NODE_ALLOW'', ''FWD_PENDING'', ''FLOW_TABLE'']"

definition LEGACY_MAP_PINS :: "string list" where
  "LEGACY_MAP_PINS = [''LB_FRONT_MAP'', ''TARGET_PORTS'', ''REJECT_BUCKET'']"

datatype remove_result = Removed | NotFound | RemoveFailed

primrec remove_pins ::
  "(string \<Rightarrow> 's \<Rightarrow> remove_result \<times> 's) \<Rightarrow> string \<Rightarrow> string list \<Rightarrow> 's \<Rightarrow> (start_error + string list) \<times> 's" where
  "remove_pins remove_file pin_dir [] s = (Inr [], s)"
| "remove_pins remove_file pin_dir (name # names) s =
     (let path = pin_dir @ ''/'' @ name
      in case remove_file path s of
           (RemoveFailed, s) \<Rightarrow> (Inl (FileRemove path), s)
         | (result, s) \<Rightarrow>
             (case remove_pins remove_file pin_dir names s of
                (Inl e, s) \<Rightarrow> (Inl e, s)
              | (Inr removed, s) \<Rightarrow> (Inr (if result = Removed then name # removed else removed), s)))"

definition remove_legacy_map_pins ::
  "(string \<Rightarrow> 's \<Rightarrow> remove_result \<times> 's) \<Rightarrow> string \<Rightarrow> 's \<Rightarrow> (start_error + string list) \<times> 's" where
  "remove_legacy_map_pins remove_file pin_dir s = remove_pins remove_file pin_dir LEGACY_MAP_PINS s"

definition checked_mul :: "u32 \<Rightarrow> u32 \<Rightarrow> u32 option" where
  "checked_mul a b = (if unat a * unat b < 2 ^ 32 then Some (a * b) else None)"

datatype size_error = ZeroSize | SizeOverflow

definition front_map_max_entries :: "u32 \<Rightarrow> u32 \<Rightarrow> size_error + u32 \<times> u32" where
  "front_map_max_entries max_fronts endpoints_per_front =
     (if max_fronts = 0 \<or> endpoints_per_front = 0 then Inl ZeroSize
      else case Option.bind (checked_mul max_fronts endpoints_per_front) (\<lambda>rows. checked_mul rows 2) of
             None \<Rightarrow> Inl SizeOverflow
           | Some rows \<Rightarrow> Inr (max_fronts, rows))"

definition MIN_KERNEL :: "nat \<times> nat" where "MIN_KERNEL = (6, 6)"

datatype kernel_error = KernelUnparsed | KernelTooOld

text \<open>The first two parts of \<open>splitn(3, '.')\<close>, each cut to its leading digits.\<close>

definition release_parts :: "string \<Rightarrow> string option \<times> string option" where
  "release_parts release =
     (let rest = dropWhile (\<lambda>c. c \<noteq> CHR ''.'') release;
          digits = (\<lambda>part. takeWhile (is_digit 10) (takeWhile (\<lambda>c. c \<noteq> CHR ''.'') part))
      in (Some (digits release), if rest = [] then None else Some (digits (tl rest))))"

definition check_kernel_release :: "string \<Rightarrow> kernel_error option" where
  "check_kernel_release release =
     (case release_parts (trim release) of (first, second) \<Rightarrow>
      let parse = (\<lambda>s. Option.bind s (from_str_radix (2 ^ 32) 10))
      in case (parse first, parse second) of
           (Some major, Some minor) \<Rightarrow>
             if major < fst MIN_KERNEL \<or> major = fst MIN_KERNEL \<and> minor < snd MIN_KERNEL then Some KernelTooOld else None
         | _ \<Rightarrow> Some KernelUnparsed)"

definition require_supported_kernel :: "file_system \<Rightarrow> (start_error + kernel_error) option" where
  "require_supported_kernel fs =
     (case fs ''/proc/sys/kernel/osrelease'' of
        None \<Rightarrow> Some (Inl (Unreadable ''/proc/sys/kernel/osrelease''))
      | Some release \<Rightarrow> map_option Inr (check_kernel_release release))"

end
