(* ===== verification/Attach.thy ===== *)
theory Attach
  imports Interfaces
begin

text \<open>
  \<open>attach_and_pin\<close> of \<open>src/lib.rs\<close>: each hook's program is put on every interface it serves, by swapping the program of
  a link pinned by an earlier run or by a new link. aya's programs and links are a parameter (record \<open>link_ops\<close>);
  \<open>link_ops_ok\<close> is what its documentation says of them, over a view of the pinned links and of what runs where.
\<close>

section \<open>Links\<close>

datatype attach_type = Ingress | Egress
datatype 'l pin_lookup = FoundLink 'l | NoPin | PinUnusable

record ('s, 'g, 'l) link_ops =
  lo_load :: "string \<Rightarrow> 's \<Rightarrow> 'g option \<times> 's"
  lo_from_pin :: "string \<Rightarrow> 's \<Rightarrow> 'l pin_lookup \<times> 's"
  lo_update :: "'g \<Rightarrow> 'l \<Rightarrow> 's \<Rightarrow> map_error option \<times> 's"
  lo_remove_file :: "string \<Rightarrow> 's \<Rightarrow> bool \<times> 's"
  lo_attach :: "'g \<Rightarrow> string \<Rightarrow> attach_type \<Rightarrow> 's \<Rightarrow> 'l option \<times> 's"
  lo_pin_link :: "'l \<Rightarrow> string \<Rightarrow> 's \<Rightarrow> bool \<times> 's"
  lo_pin_program :: "'g \<Rightarrow> string \<Rightarrow> 's \<Rightarrow> bool \<times> 's"

definition is_severed_link :: "map_error \<Rightarrow> bool" where
  "is_severed_link e \<longleftrightarrow> e = SyscallError (Some 67)"

definition link_pin_path :: "string \<Rightarrow> string \<Rightarrow> string \<Rightarrow> string" where
  "link_pin_path pin_dir name iface = pin_dir @ ''/'' @ name @ ''-'' @ iface @ ''-link''"

text \<open>The link of a pin left by an earlier run: \<open>Inr True\<close> says that a new one has to be made.\<close>

definition reuse_link ::
  "('s, 'g, 'l) link_ops \<Rightarrow> 'g \<Rightarrow> string \<Rightarrow> 's \<Rightarrow> (start_error + bool) \<times> 's" where
  "reuse_link L g path s =
     (case lo_from_pin L path s of
        (NoPin, s) \<Rightarrow> (Inr True, s)
      | (PinUnusable, s) \<Rightarrow> (Inl (LinkFailed path), s)
      | (FoundLink l, s) \<Rightarrow>
     (case lo_update L g l s of
        (None, s) \<Rightarrow> (Inr False, s)
      | (Some e, s) \<Rightarrow>
          if is_severed_link e
          then (case lo_remove_file L path s of
                  (True, s) \<Rightarrow> (Inr True, s)
                | (False, s) \<Rightarrow> (Inl (FileRemove path), s))
          else (Inl (LinkFailed path), s)))"

definition fresh_link ::
  "('s, 'g, 'l) link_ops \<Rightarrow> 'g \<Rightarrow> string \<Rightarrow> attach_type \<Rightarrow> string \<Rightarrow> 's \<Rightarrow> start_error option \<times> 's" where
  "fresh_link L g iface attach path s =
     (if CHR 0x00 \<in> set iface then (Some (LinkFailed path), s)
      else case lo_attach L g iface attach s of
             (None, s) \<Rightarrow> (Some (LinkFailed path), s)
           | (Some l, s) \<Rightarrow>
               (case lo_pin_link L l path s of
                  (True, s) \<Rightarrow> (None, s)
                | (False, s) \<Rightarrow> (Some (LinkFailed path), s)))"

definition attach_iface ::
  "('s, 'g, 'l) link_ops \<Rightarrow> 'g \<Rightarrow> string \<Rightarrow> string \<Rightarrow> attach_type \<Rightarrow> string \<Rightarrow> 's \<Rightarrow> start_error option \<times> 's" where
  "attach_iface L g name iface attach pin_dir s =
     (let path = link_pin_path pin_dir name iface
      in case reuse_link L g path s of
           (Inl e, s) \<Rightarrow> (Some e, s)
         | (Inr False, s) \<Rightarrow> (None, s)
         | (Inr True, s) \<Rightarrow> fresh_link L g iface attach path s)"

primrec attach_ifaces ::
  "('s, 'g, 'l) link_ops \<Rightarrow> 'g \<Rightarrow> string \<Rightarrow> string list \<Rightarrow> attach_type \<Rightarrow> string \<Rightarrow> 's \<Rightarrow> start_error option \<times> 's" where
  "attach_ifaces L g name [] attach pin_dir s = (None, s)"
| "attach_ifaces L g name (iface # ifaces) attach pin_dir s =
     (case attach_iface L g name iface attach pin_dir s of
        (Some e, s) \<Rightarrow> (Some e, s)
      | (None, s) \<Rightarrow> attach_ifaces L g name ifaces attach pin_dir s)"

definition attach_and_pin ::
  "('s, 'g, 'l) link_ops \<Rightarrow> string \<Rightarrow> string list \<Rightarrow> attach_type \<Rightarrow> string \<Rightarrow> 's \<Rightarrow> start_error option \<times> 's" where
  "attach_and_pin L name ifaces attach pin_dir s =
     (case lo_load L name s of
        (None, s) \<Rightarrow> (Some (ProgramFailed name), s)
      | (Some g, s) \<Rightarrow>
     (case attach_ifaces L g name ifaces attach pin_dir s of
        (Some e, s) \<Rightarrow> (Some e, s)
      | (None, s) \<Rightarrow>
          let path = pin_dir @ ''/'' @ name @ ''-prog''
          in case lo_remove_file L path s of (_, s) \<Rightarrow>
             case lo_pin_program L g path s of
               (True, s) \<Rightarrow> (None, s)
             | (False, s) \<Rightarrow> (Some (ProgramFailed name), s)))"

text \<open>The three hooks of a node and the loop over them (\<open>main\<close> of both binaries).\<close>

definition hooks :: "string list \<Rightarrow> string \<Rightarrow> (string \<times> string list \<times> attach_type) list" where
  "hooks uplink_ifaces geneve_iface =
     [(''uplink_ingress'', uplink_ifaces, Ingress), (''geneve_ingress'', [geneve_iface], Ingress),
      (''uplink_egress_return'', uplink_ifaces, Egress)]"

primrec attach_hooks ::
  "('s, 'g, 'l) link_ops \<Rightarrow> string \<Rightarrow> (string \<times> string list \<times> attach_type) list \<Rightarrow> 's \<Rightarrow> start_error option \<times> 's" where
  "attach_hooks L pin_dir [] s = (None, s)"
| "attach_hooks L pin_dir (h # hs) s =
     (case h of (name, ifaces, attach) \<Rightarrow>
      case attach_and_pin L name ifaces attach pin_dir s of
        (Some e, s) \<Rightarrow> (Some e, s)
      | (None, s) \<Rightarrow> attach_hooks L pin_dir hs s)"

section \<open>What aya promises\<close>

text \<open>\<open>lv_loaded\<close>: the program this process loaded under a name. \<open>lv_pins\<close>: the link behind each pin file. \<open>lv_live\<close>: the interface and direction a link is attached to and the
  program it runs there; a link whose device is gone, or that nothing holds, runs nowhere.\<close>

record ('s, 'g, 'l) link_view =
  lv_loaded :: "'s \<Rightarrow> string \<Rightarrow> 'g option"
  lv_pins :: "'s \<Rightarrow> string \<Rightarrow> 'l option"
  lv_live :: "'s \<Rightarrow> 'l \<Rightarrow> (string \<times> attach_type \<times> 'g) option"

definition same_view :: "('s, 'g, 'l) link_view \<Rightarrow> 's \<Rightarrow> 's \<Rightarrow> bool" where
  "same_view V s s' \<longleftrightarrow> lv_loaded V s' = lv_loaded V s \<and> lv_pins V s' = lv_pins V s \<and> lv_live V s' = lv_live V s"

definition load_contract :: "('s, 'g, 'l) link_ops \<Rightarrow> ('s, 'g, 'l) link_view \<Rightarrow> bool" where
  "load_contract L V \<longleftrightarrow> (\<forall>name s.
     case lo_load L name s of (r, s') \<Rightarrow>
       lv_pins V s' = lv_pins V s \<and> lv_live V s' = lv_live V s
       \<and> lv_loaded V s' = (case r of Some g \<Rightarrow> (lv_loaded V s)(name \<mapsto> g) | None \<Rightarrow> lv_loaded V s))"

definition from_pin_contract :: "('s, 'g, 'l) link_ops \<Rightarrow> ('s, 'g, 'l) link_view \<Rightarrow> bool" where
  "from_pin_contract L V \<longleftrightarrow> (\<forall>path s.
     case lo_from_pin L path s of (r, s') \<Rightarrow>
       same_view V s s' \<and> (case r of FoundLink l \<Rightarrow> lv_pins V s path = Some l | NoPin \<Rightarrow> lv_pins V s path = None | PinUnusable \<Rightarrow> True))"

text \<open>A swap acts on the link it is given, where that link is attached.\<close>

definition update_contract :: "('s, 'g, 'l) link_ops \<Rightarrow> ('s, 'g, 'l) link_view \<Rightarrow> bool" where
  "update_contract L V \<longleftrightarrow> (\<forall>g l s.
     case lo_update L g l s of (r, s') \<Rightarrow>
       lv_loaded V s' = lv_loaded V s \<and> lv_pins V s' = lv_pins V s
       \<and> (case r of
            None \<Rightarrow> \<exists>iface dir old. lv_live V s l = Some (iface, dir, old) \<and> lv_live V s' = (lv_live V s)(l \<mapsto> (iface, dir, g))
          | Some e \<Rightarrow> lv_live V s' = lv_live V s \<and> (is_severed_link e \<longrightarrow> lv_live V s l = None)))"

text \<open>Removing a pin file releases the link behind it, if there is one.\<close>

definition remove_file_contract :: "('s, 'g, 'l) link_ops \<Rightarrow> ('s, 'g, 'l) link_view \<Rightarrow> bool" where
  "remove_file_contract L V \<longleftrightarrow> (\<forall>path s.
     case lo_remove_file L path s of (r, s') \<Rightarrow>
       lv_loaded V s' = lv_loaded V s \<and> lv_pins V s' = (if r then (lv_pins V s)(path := None) else lv_pins V s)
       \<and> (\<forall>l. lv_live V s' l = lv_live V s l \<or> r \<and> lv_pins V s path = Some l \<and> lv_live V s' l = None))"

definition attach_contract :: "('s, 'g, 'l) link_ops \<Rightarrow> ('s, 'g, 'l) link_view \<Rightarrow> bool" where
  "attach_contract L V \<longleftrightarrow> (\<forall>g iface dir s.
     case lo_attach L g iface dir s of (r, s') \<Rightarrow>
       lv_loaded V s' = lv_loaded V s \<and> lv_pins V s' = lv_pins V s
       \<and> (case r of
            None \<Rightarrow> lv_live V s' = lv_live V s
          | Some l \<Rightarrow> lv_live V s l = None \<and> (\<forall>path. lv_pins V s path \<noteq> Some l)
              \<and> lv_live V s' = (lv_live V s)(l \<mapsto> (iface, dir, g))))"

text \<open>A link that is not pinned is dropped with the process's handle, and detached.\<close>

definition pin_link_contract :: "('s, 'g, 'l) link_ops \<Rightarrow> ('s, 'g, 'l) link_view \<Rightarrow> bool" where
  "pin_link_contract L V \<longleftrightarrow> (\<forall>l path s.
     case lo_pin_link L l path s of (r, s') \<Rightarrow>
       lv_loaded V s' = lv_loaded V s \<and> lv_pins V s' = (if r then (lv_pins V s)(path \<mapsto> l) else lv_pins V s)
       \<and> lv_live V s' = (if r then lv_live V s else (lv_live V s)(l := None)))"

definition link_ops_ok :: "('s, 'g, 'l) link_ops \<Rightarrow> ('s, 'g, 'l) link_view \<Rightarrow> bool" where
  "link_ops_ok L V \<longleftrightarrow> load_contract L V \<and> from_pin_contract L V \<and> update_contract L V \<and> remove_file_contract L V
     \<and> attach_contract L V \<and> pin_link_contract L V
     \<and> (\<forall>g path s. same_view V s (snd (lo_pin_program L g path s)))"

section \<open>The interface\<close>

locale link_provider =
  fixes L :: "('s, 'g, 'l) link_ops" and V :: "('s, 'g, 'l) link_view"
  assumes links_ok: "link_ops_ok L V"
begin

lemma contracts:
  "load_contract L V" "from_pin_contract L V" "update_contract L V" "remove_file_contract L V" "attach_contract L V"
  "pin_link_contract L V"
  using links_ok unfolding link_ops_ok_def by blast+

lemma load_view:
  assumes "lo_load L name s = (r, s')"
  shows "lv_pins V s' = lv_pins V s" "lv_live V s' = lv_live V s"
    "lv_loaded V s' = (case r of Some g \<Rightarrow> (lv_loaded V s)(name \<mapsto> g) | None \<Rightarrow> lv_loaded V s)"
  using contracts(1) [unfolded load_contract_def, rule_format, where name = name and s = s] by (simp_all add: assms)

lemma from_pin_view:
  assumes "lo_from_pin L path s = (r, s')"
  shows "same_view V s s'" "r = FoundLink l \<Longrightarrow> lv_pins V s path = Some l" "r = NoPin \<Longrightarrow> lv_pins V s path = None"
  using contracts(2) [unfolded from_pin_contract_def, rule_format, where path = path and s = s] by (simp_all add: assms)

lemma update_view:
  assumes "lo_update L g l s = (r, s')"
  shows "lv_loaded V s' = lv_loaded V s" "lv_pins V s' = lv_pins V s"
    "r = Some e \<Longrightarrow> lv_live V s' = lv_live V s" "r = Some e \<Longrightarrow> is_severed_link e \<Longrightarrow> lv_live V s l = None"
    "r = None \<Longrightarrow> \<exists>iface dir old. lv_live V s l = Some (iface, dir, old) \<and> lv_live V s' = (lv_live V s)(l \<mapsto> (iface, dir, g))"
  using contracts(3) [unfolded update_contract_def, rule_format, where g = g and l = l and s = s] by (simp_all add: assms)

lemma remove_file_view:
  assumes "lo_remove_file L path s = (r, s')"
  shows "lv_loaded V s' = lv_loaded V s" "lv_pins V s' = (if r then (lv_pins V s)(path := None) else lv_pins V s)"
    "lv_live V s' l = lv_live V s l \<or> r \<and> lv_pins V s path = Some l \<and> lv_live V s' l = None"
  using contracts(4) [unfolded remove_file_contract_def, rule_format, where path = path and s = s] by (simp_all add: assms)

lemma attach_view:
  assumes "lo_attach L g iface dir s = (r, s')"
  shows "lv_loaded V s' = lv_loaded V s" "lv_pins V s' = lv_pins V s" "r = None \<Longrightarrow> lv_live V s' = lv_live V s"
    "r = Some l \<Longrightarrow> lv_live V s l = None \<and> lv_pins V s path \<noteq> Some l \<and> lv_live V s' = (lv_live V s)(l \<mapsto> (iface, dir, g))"
  using contracts(5) [unfolded attach_contract_def, rule_format, where g = g and iface = iface and dir = dir and s = s] by (simp_all add: assms)

lemma pin_link_view:
  assumes "lo_pin_link L l path s = (r, s')"
  shows "lv_loaded V s' = lv_loaded V s" "lv_pins V s' = (if r then (lv_pins V s)(path \<mapsto> l) else lv_pins V s)"
    "lv_live V s' = (if r then lv_live V s else (lv_live V s)(l := None))"
  using contracts(6) [unfolded pin_link_contract_def, rule_format, where l = l and path = path and s = s] by (simp_all add: assms)

lemma pin_program_view: "lo_pin_program L g path s = (r, s') \<Longrightarrow> same_view V s s'"
  using links_ok unfolding link_ops_ok_def by (metis snd_conv)

end

end
