(* ===== verification/Attach_Props.thy ===== *)
theory Attach_Props
  imports Attach
begin

text \<open>
  A restarting loader swaps the programs of the links it finds and attaches what is missing, without a moment in which
  a served interface has no hook.
\<close>

section \<open>Names of pins\<close>

definition hooks_ok :: "(string \<times> string list \<times> attach_type) list \<Rightarrow> bool" where
  "hooks_ok hs \<longleftrightarrow> distinct (map fst hs) \<and> (\<forall>h \<in> set hs. CHR ''-'' \<notin> set (fst h))"

lemma hooks_are_ok: "hooks_ok (hooks uplinks geneve)"
  by (simp add: hooks_ok_def hooks_def)

lemma hook_unique: "hooks_ok hs \<Longrightarrow> (n, i, d) \<in> set hs \<Longrightarrow> (n, i', d') \<in> set hs \<Longrightarrow> d = d'"
  unfolding hooks_ok_def by (metis Pair_inject eq_key_imp_eq_value)

lemma split_at_dash:
  assumes "xs @ CHR ''-'' # ys = xs' @ CHR ''-'' # ys'" "CHR ''-'' \<notin> set xs" "CHR ''-'' \<notin> set xs'"
  shows "xs = xs' \<and> ys = ys'"
  using assms
proof (induction xs arbitrary: xs')
  case Nil
  then show ?case by (cases xs') auto
next
  case (Cons x xs)
  then show ?case by (cases xs') auto
qed

lemma pin_path_inject:
  assumes "CHR ''-'' \<notin> set n" "CHR ''-'' \<notin> set n'"
  shows "link_pin_path pd n i = link_pin_path pd n' i' \<longleftrightarrow> n = n' \<and> i = i'"
proof
  assume "link_pin_path pd n i = link_pin_path pd n' i'"
  then have "n @ CHR ''-'' # i = n' @ CHR ''-'' # i'" by (simp add: link_pin_path_def)
  from split_at_dash [OF this assms] show "n = n' \<and> i = i'" .
qed simp

lemma pin_path_suffix: "suffix ''-link'' (link_pin_path pd n i)"
  by (auto simp: link_pin_path_def suffix_def)

section \<open>Attachments\<close>

definition slots_wf ::
  "('s, 'g, 'l) link_view \<Rightarrow> string \<Rightarrow> (string \<times> string list \<times> attach_type) list \<Rightarrow> 's \<Rightarrow> bool" where
  "slots_wf V pd hs s \<longleftrightarrow>
     (\<forall>p l. lv_pins V s p = Some l \<longrightarrow> suffix ''-link'' p)
     \<and> (\<forall>p p' l. lv_pins V s p = Some l \<and> lv_pins V s p' = Some l \<longrightarrow> p = p')
     \<and> (\<forall>n ifs d iface l i d' g. (n, ifs, d) \<in> set hs \<and> lv_pins V s (link_pin_path pd n iface) = Some l
          \<and> lv_live V s l = Some (i, d', g) \<longrightarrow> i = iface \<and> d' = d)"

text \<open>No link behind a pin is detached or replaced; a new link is pinned, where no live one was.\<close>

definition keeps_attached :: "('s, 'g, 'l) link_view \<Rightarrow> 's \<Rightarrow> 's \<Rightarrow> bool" where
  "keeps_attached V s s' \<longleftrightarrow>
     (\<forall>p l i d g. lv_pins V s p = Some l \<and> lv_live V s l = Some (i, d, g) \<longrightarrow>
        lv_pins V s' p = Some l \<and> (\<exists>g'. lv_live V s' l = Some (i, d, g')))
     \<and> (\<forall>l. lv_live V s l = None \<and> lv_live V s' l \<noteq> None \<longrightarrow>
          (\<exists>p. lv_pins V s' p = Some l \<and> (\<forall>l'. lv_pins V s p = Some l' \<longrightarrow> lv_live V s l' = None)))"

definition serving :: "('s, 'g, 'l) link_view \<Rightarrow> string \<Rightarrow> string \<Rightarrow> string \<Rightarrow> attach_type \<Rightarrow> 's \<Rightarrow> bool" where
  "serving V pd n iface d s \<longleftrightarrow>
     (\<exists>l g. lv_pins V s (link_pin_path pd n iface) = Some l \<and> lv_live V s l = Some (iface, d, g) \<and> lv_loaded V s n = Some g)"

text \<open>Only the pins of \<open>P\<close> and the links behind them are touched.\<close>

definition untouched :: "('s, 'g, 'l) link_view \<Rightarrow> string set \<Rightarrow> 's \<Rightarrow> 's \<Rightarrow> bool" where
  "untouched V P s s' \<longleftrightarrow>
     (\<forall>p. p \<notin> P \<longrightarrow> lv_pins V s' p = lv_pins V s p \<and> (\<forall>l. lv_pins V s p = Some l \<longrightarrow> lv_live V s' l = lv_live V s l))"

lemma keeps_attached_refl: "lv_pins V s' = lv_pins V s \<Longrightarrow> lv_live V s' = lv_live V s \<Longrightarrow> keeps_attached V s s'"
  by (auto simp: keeps_attached_def)

lemma keeps_attached_trans:
  assumes "keeps_attached V s s'" "keeps_attached V s' s''"
  shows "keeps_attached V s s''"
proof -
  have old: "lv_pins V s'' p = Some l \<and> (\<exists>g'. lv_live V s'' l = Some (i, d, g'))"
    if "lv_pins V s p = Some l" "lv_live V s l = Some (i, d, g)" for p l i d g
    using that assms unfolding keeps_attached_def by blast
  have new: "\<exists>p. lv_pins V s'' p = Some l \<and> (\<forall>l'. lv_pins V s p = Some l' \<longrightarrow> lv_live V s l' = None)"
    if l: "lv_live V s l = None" "lv_live V s'' l \<noteq> None" for l
  proof (cases "lv_live V s' l")
    case None
    then obtain p where p: "lv_pins V s'' p = Some l" "\<And>l'. lv_pins V s' p = Some l' \<Longrightarrow> lv_live V s' l' = None"
      using l(2) assms(2) unfolding keeps_attached_def by blast
    have "lv_live V s l' = None" if "lv_pins V s p = Some l'" for l'
    proof (cases "lv_live V s l'")
      case (Some x)
      obtain i d g where "x = (i, d, g)" by (cases x)
      then show ?thesis using assms(1) that Some p(2) unfolding keeps_attached_def by fastforce
    qed
    then show ?thesis using p(1) by blast
  next
    case (Some x)
    obtain i d g where x: "x = (i, d, g)" by (cases x)
    obtain p where p: "lv_pins V s' p = Some l" "\<And>l'. lv_pins V s p = Some l' \<Longrightarrow> lv_live V s l' = None"
      using l(1) Some assms(1) unfolding keeps_attached_def by blast
    then have "lv_pins V s'' p = Some l" using assms(2) Some x unfolding keeps_attached_def by blast
    then show ?thesis using p(2) by blast
  qed
  from old new show ?thesis unfolding keeps_attached_def by blast
qed

lemma untouched_trans: "untouched V P s s' \<Longrightarrow> untouched V Q s' s'' \<Longrightarrow> untouched V (P \<union> Q) s s''"
  by (auto simp: untouched_def)

lemma serving_untouched:
  assumes "serving V pd n iface d s" "untouched V P s s'" "link_pin_path pd n iface \<notin> P" "lv_loaded V s' n = lv_loaded V s n"
  shows "serving V pd n iface d s'"
  using assms unfolding serving_def untouched_def by fastforce

text \<open>What a call that touches the pin \<open>path\<close> only does to the view.\<close>

definition step_ok ::
  "('s, 'g, 'l) link_view \<Rightarrow> string \<Rightarrow> (string \<times> string list \<times> attach_type) list \<Rightarrow> string set \<Rightarrow> 's \<Rightarrow> 's \<Rightarrow> bool" where
  "step_ok V pd hs P s s' \<longleftrightarrow> untouched V P s s' \<and> keeps_attached V s s' \<and> slots_wf V pd hs s'"

lemma step_ok_view:
  "slots_wf V pd hs s \<Longrightarrow> lv_pins V s' = lv_pins V s \<Longrightarrow> lv_live V s' = lv_live V s \<Longrightarrow> step_ok V pd hs P s s'"
  unfolding step_ok_def untouched_def slots_wf_def by (simp only: keeps_attached_refl simp_thms)

lemma step_ok_trans:
  assumes "step_ok V pd hs P s s'" "step_ok V pd hs Q s' s''"
  shows "step_ok V pd hs (P \<union> Q) s s''"
proof -
  have "untouched V (P \<union> Q) s s''" "keeps_attached V s s''"
    using assms untouched_trans [of V P s s' Q s''] keeps_attached_trans [of V s s' s''] by (simp_all add: step_ok_def)
  then show ?thesis using assms(2) by (simp add: step_ok_def)
qed

lemma slots_wf_mono:
  assumes wf: "slots_wf V pd hs s" and pins: "\<And>p l. lv_pins V s' p = Some l \<Longrightarrow> lv_pins V s p = Some l"
    and live: "\<And>l i d g. lv_live V s' l = Some (i, d, g) \<Longrightarrow> \<exists>g'. lv_live V s l = Some (i, d, g')"
  shows "slots_wf V pd hs s'"
  unfolding slots_wf_def
proof (intro conjI allI impI; (elim conjE)?)
  fix p l assume "lv_pins V s' p = Some l"
  then show "suffix ''-link'' p" using wf pins unfolding slots_wf_def by blast
next
  fix p p' l assume "lv_pins V s' p = Some l" "lv_pins V s' p' = Some l"
  then show "p = p'" using wf pins unfolding slots_wf_def by blast
next
  fix n ifs d iface l i d' g
  assume h: "(n, ifs, d) \<in> set hs" "lv_pins V s' (link_pin_path pd n iface) = Some l" "lv_live V s' l = Some (i, d', g)"
  from pins [OF h(2)] live [OF h(3)] h(1) show "i = iface" "d' = d" using wf unfolding slots_wf_def by blast+
qed

lemma step_swap:
  assumes wf: "slots_wf V pd hs s" and l: "lv_pins V s path = Some l" "lv_live V s l = Some (i, d, old)"
    and s': "lv_pins V s' = lv_pins V s" "lv_live V s' = (lv_live V s)(l \<mapsto> (i, d, g))"
  shows "step_ok V pd hs {path} s s'"
proof -
  have "l' \<noteq> l" if "p \<noteq> path" "lv_pins V s p = Some l'" for p l' using wf l(1) that unfolding slots_wf_def by blast
  then have "untouched V {path} s s'" unfolding untouched_def s' by simp
  moreover have "keeps_attached V s s'" using l s' unfolding keeps_attached_def by auto
  moreover have "slots_wf V pd hs s'" by (rule slots_wf_mono [OF wf]) (use l(2) s' in \<open>auto split: if_splits\<close>)
  ultimately show ?thesis by (simp add: step_ok_def)
qed

lemma step_unpin:
  assumes wf: "slots_wf V pd hs s" and dead: "\<And>l. lv_pins V s path = Some l \<Longrightarrow> lv_live V s l = None"
    and s': "lv_pins V s' = (lv_pins V s)(path := None)" "lv_live V s' = lv_live V s"
  shows "step_ok V pd hs {path} s s'"
proof -
  have "untouched V {path} s s'" using s' by (simp add: untouched_def)
  moreover have "keeps_attached V s s'" using dead unfolding keeps_attached_def s' by auto
  moreover have "slots_wf V pd hs s'" by (rule slots_wf_mono [OF wf]) (use s' in \<open>auto split: if_splits\<close>)
  ultimately show ?thesis by (simp add: step_ok_def)
qed

lemma step_new:
  assumes wf: "slots_wf V pd hs s" and h: "hooks_ok hs" "(n, ifs, d) \<in> set hs" and path: "path = link_pin_path pd n iface"
    and l: "lv_pins V s path = None" "lv_live V s l = None" "\<And>p. lv_pins V s p \<noteq> Some l"
    and s': "lv_pins V s' = (lv_pins V s)(path \<mapsto> l)" "lv_live V s' = (lv_live V s)(l \<mapsto> (iface, d, g))"
  shows "step_ok V pd hs {path} s s'"
proof -
  have "untouched V {path} s s'" using l(3) s' unfolding untouched_def by auto
  moreover have "keeps_attached V s s'"
    unfolding keeps_attached_def s'
  proof (intro conjI allI impI)
    fix p l' i d0 g0 assume p: "lv_pins V s p = Some l' \<and> lv_live V s l' = Some (i, d0, g0)"
    then have "p \<noteq> path" "l' \<noteq> l" using l by auto
    then show "((lv_pins V s)(path \<mapsto> l)) p = Some l'" "\<exists>g'. ((lv_live V s)(l \<mapsto> (iface, d, g))) l' = Some (i, d0, g')" using p by auto
  next
    fix l' assume "lv_live V s l' = None \<and> ((lv_live V s)(l \<mapsto> (iface, d, g))) l' \<noteq> None"
    then have "l' = l" by (auto split: if_splits)
    then show "\<exists>p. ((lv_pins V s)(path \<mapsto> l)) p = Some l' \<and> (\<forall>l''. lv_pins V s p = Some l'' \<longrightarrow> lv_live V s l'' = None)"
      using l(1) by (intro exI [of _ path]) simp
  qed
  moreover have "slots_wf V pd hs s'"
    unfolding slots_wf_def
  proof (intro conjI allI impI; (elim conjE)?)
    fix p l' assume "lv_pins V s' p = Some l'"
    then show "suffix ''-link'' p"
      using wf path pin_path_suffix [of pd n iface] unfolding slots_wf_def s' by (cases "p = path") auto
  next
    fix p p' l' assume "lv_pins V s' p = Some l'" "lv_pins V s' p' = Some l'"
    then show "p = p'" using wf l(3) unfolding slots_wf_def s' by (cases "p = path"; cases "p' = path") auto
  next
    fix n' ifs' d1 iface' l' i d' g'
    assume n': "(n', ifs', d1) \<in> set hs" and p: "lv_pins V s' (link_pin_path pd n' iface') = Some l'"
      and live: "lv_live V s' l' = Some (i, d', g')"
    have dash: "CHR ''-'' \<notin> set n" "CHR ''-'' \<notin> set n'" using h n' by (auto simp: hooks_ok_def)
    show "i = iface'" "d' = d1"
    proof -
      have "i = iface' \<and> d' = d1"
      proof (cases "n' = n \<and> iface' = iface")
        case True
        then have "l' = l" using p s'(1) path by simp
        then show ?thesis using live s'(2) True hook_unique [OF h(1)] h(2) n' by auto
      next
        case False
        then have "link_pin_path pd n' iface' \<noteq> path"
          using pin_path_inject [OF dash, of pd iface iface'] unfolding path by metis
        then have "lv_pins V s (link_pin_path pd n' iface') = Some l'" using p s'(1) by simp
        moreover from this have "lv_live V s l' = Some (i, d', g')" using live s'(2) l(3) by (auto split: if_splits)
        ultimately show ?thesis using wf n' unfolding slots_wf_def by blast
      qed
      then show "i = iface'" "d' = d1" by blast+
    qed
  qed
  ultimately show ?thesis by (simp add: step_ok_def)
qed

context link_provider
begin

lemma reuse_link_effect:
  assumes wf: "slots_wf V pd hs s" and "reuse_link L g path s = (r, s')"
  shows "step_ok V pd hs {path} s s' \<and> lv_loaded V s' = lv_loaded V s
    \<and> (r = Inr False \<longrightarrow> (\<exists>l i d. lv_pins V s' path = Some l \<and> lv_live V s' l = Some (i, d, g)))
    \<and> (r = Inr True \<longrightarrow> lv_pins V s' path = None)"
proof -
  obtain x s1 where x: "lo_from_pin L path s = (x, s1)" by (metis prod.collapse)
  note v1 = from_pin_view [OF x, unfolded same_view_def]
  have wf1: "slots_wf V pd hs s1" using wf v1(1) by (simp add: slots_wf_def)
  show ?thesis
  proof (cases x)
    case (FoundLink l)
    obtain y s2 where y: "lo_update L g l s1 = (y, s2)" by (metis prod.collapse)
    note v2 = update_view [OF y]
    have l: "lv_pins V s1 path = Some l" using v1(1,2) FoundLink by simp
    show ?thesis
    proof (cases y)
      case None
      then obtain i d old where u: "lv_live V s1 l = Some (i, d, old)" "lv_live V s2 = (lv_live V s1)(l \<mapsto> (i, d, g))"
        using v2(5) by blast
      have "step_ok V pd hs {path} s1 s2" by (rule step_swap [OF wf1 l u(1) v2(2) u(2)])
      then have "step_ok V pd hs {path} s s2"
        using step_ok_trans [OF step_ok_view [OF wf, of s1 "{path}"], of "{path}" s2] v1(1) by simp
      moreover have "s' = s2" "r = Inr False" using assms(2) by (simp_all add: reuse_link_def x FoundLink y None)
      ultimately show ?thesis using v1(1) v2(1,2) l u by simp
    next
      case (Some e)
      have eq2: "lv_pins V s2 = lv_pins V s" "lv_live V s2 = lv_live V s" "lv_loaded V s2 = lv_loaded V s"
        using v1(1) v2(1-3) Some by simp_all
      show ?thesis
      proof (cases "is_severed_link e")
        case False
        then have "s' = s2" "r = Inl (LinkFailed path)" using assms(2) by (simp_all add: reuse_link_def x FoundLink y Some)
        then show ?thesis using eq2 step_ok_view [OF wf] by simp
      next
        case True
        obtain z s3 where z: "lo_remove_file L path s2 = (z, s3)" by (metis prod.collapse)
        note v3 = remove_file_view [OF z]
        have dead: "lv_live V s l' = None" if "lv_pins V s path = Some l'" for l'
          using that l v1(1) v2(4) Some True eq2 by simp
        have live: "lv_live V s3 = lv_live V s"
        proof
          show "lv_live V s3 l' = lv_live V s l'" for l' using v3(3) [of l'] dead [of l'] eq2 by auto
        qed
        show ?thesis
        proof (cases z)
          case True
          have "s' = s3" "r = Inr True" using assms(2) True \<open>is_severed_link e\<close> by (simp_all add: reuse_link_def x FoundLink y Some z)
          moreover have "lv_pins V s3 = (lv_pins V s)(path := None)" using v3(2) True eq2 by simp
          ultimately show ?thesis using step_unpin [OF wf dead, of path s3] live v3(1) eq2 by simp
        next
          case False
          have "s' = s3" "r = Inl (FileRemove path)" using assms(2) False \<open>is_severed_link e\<close>
            by (simp_all add: reuse_link_def x FoundLink y Some z)
          then show ?thesis using step_ok_view [OF wf _ live] v3(1,2) False eq2 by simp
        qed
      qed
    qed
  next
    case NoPin
    then show ?thesis using assms v1 step_ok_view [OF wf] by (auto simp: reuse_link_def x)
  next
    case PinUnusable
    then show ?thesis using assms v1 step_ok_view [OF wf] by (auto simp: reuse_link_def x)
  qed
qed

lemma fresh_link_effect:
  assumes wf: "slots_wf V pd hs s" and h: "hooks_ok hs" "(n, ifs, d) \<in> set hs" and path: "path = link_pin_path pd n iface"
    and free: "lv_pins V s path = None" and "fresh_link L g iface d path s = (r, s')"
  shows "step_ok V pd hs {path} s s' \<and> lv_loaded V s' = lv_loaded V s
    \<and> (r = None \<longrightarrow> (\<exists>l. lv_pins V s' path = Some l \<and> lv_live V s' l = Some (iface, d, g)))"
proof (cases "CHR 0x00 \<in> set iface")
  case True
  then show ?thesis using assms(6) step_ok_view [OF wf] by (auto simp: fresh_link_def)
next
  case False
  obtain x s1 where x: "lo_attach L g iface d s = (x, s1)" by (metis prod.collapse)
  note v1 = attach_view [OF x]
  show ?thesis
  proof (cases x)
    case None
    then have "s' = s1" "r = Some (LinkFailed path)" using assms(6) False by (simp_all add: fresh_link_def x)
    then show ?thesis using v1(1-3) None step_ok_view [OF wf] by simp
  next
    case (Some l)
    note l = v1(4) [OF Some]
    obtain y s2 where y: "lo_pin_link L l path s1 = (y, s2)" by (metis prod.collapse)
    note v2 = pin_link_view [OF y]
    have s': "s' = s2" "r = (if y then None else Some (LinkFailed path))"
      using assms(6) False by (auto simp: fresh_link_def x Some y split: bool.splits)
    show ?thesis
    proof (cases y)
      case True
      have "step_ok V pd hs {path} s s2"
        by (rule step_new [OF wf h path free]) (use l v1(2) v2 True in auto)
      then show ?thesis using s' True l v1(1) v2 by simp
    next
      case False
      have "lv_live V s2 = lv_live V s" using v2(3) False l by (auto simp: fun_eq_iff)
      then show ?thesis using s' False v1(1,2) v2(1,2) step_ok_view [OF wf] by simp
    qed
  qed
qed

lemma attach_iface_effect:
  assumes wf: "slots_wf V pd hs s" and h: "hooks_ok hs" "(n, ifs, d) \<in> set hs"
    and "attach_iface L g n iface d pd s = (r, s')"
  shows "step_ok V pd hs {link_pin_path pd n iface} s s' \<and> lv_loaded V s' = lv_loaded V s
    \<and> (r = None \<longrightarrow> (\<exists>l. lv_pins V s' (link_pin_path pd n iface) = Some l \<and> lv_live V s' l = Some (iface, d, g)))"
proof -
  let ?path = "link_pin_path pd n iface"
  obtain x s1 where x: "reuse_link L g ?path s = (x, s1)" by (metis prod.collapse)
  note e1 = reuse_link_effect [OF wf x]
  then have wf1: "slots_wf V pd hs s1" by (simp add: step_ok_def)
  show ?thesis
  proof (cases x)
    case (Inl e)
    then show ?thesis using assms(4) e1 by (auto simp: attach_iface_def x Let_def)
  next
    case (Inr b)
    show ?thesis
    proof (cases b)
      case False
      then have s': "s' = s1" "r = None" using assms(4) Inr by (simp_all add: attach_iface_def x Let_def)
      obtain l i d' where l: "lv_pins V s1 ?path = Some l" "lv_live V s1 l = Some (i, d', g)" using e1 Inr False by blast
      then have "i = iface" "d' = d" using wf1 h(2) unfolding slots_wf_def by blast+
      then show ?thesis using e1 l s' by simp
    next
      case True
      have free: "lv_pins V s1 ?path = None" using e1 Inr True by simp
      have f: "fresh_link L g iface d ?path s1 = (r, s')" using assms(4) Inr True by (simp add: attach_iface_def x Let_def)
      note e2 = fresh_link_effect [OF wf1 h refl free f]
      then show ?thesis using e1 step_ok_trans [of V pd hs "{?path}" s s1 "{?path}" s'] by simp
    qed
  qed
qed

lemma attach_ifaces_effect:
  assumes "hooks_ok hs" "(n, ifs, d) \<in> set hs"
  shows "slots_wf V pd hs s \<Longrightarrow> attach_ifaces L g n ifaces d pd s = (r, s') \<Longrightarrow>
    step_ok V pd hs (link_pin_path pd n ` set ifaces) s s' \<and> lv_loaded V s' = lv_loaded V s
    \<and> (r = None \<longrightarrow> (\<forall>iface \<in> set ifaces. \<exists>l. lv_pins V s' (link_pin_path pd n iface) = Some l \<and> lv_live V s' l = Some (iface, d, g)))"
proof (induction ifaces arbitrary: s)
  case Nil
  then show ?case using step_ok_view [OF Nil(1)] by simp
next
  case (Cons iface ifaces)
  obtain x s1 where x: "attach_iface L g n iface d pd s = (x, s1)" by (metis prod.collapse)
  note e1 = attach_iface_effect [OF Cons.prems(1) assms x]
  show ?case
  proof (cases x)
    case (Some e)
    then have "s' = s1" "r = Some e" using Cons.prems(2) by (simp_all add: x)
    moreover have "step_ok V pd hs (link_pin_path pd n ` set (iface # ifaces)) s s1"
      using e1 by (auto simp: step_ok_def untouched_def)
    ultimately show ?thesis using e1 by simp
  next
    case None
    have wf1: "slots_wf V pd hs s1" using e1 by (simp add: step_ok_def)
    have "attach_ifaces L g n ifaces d pd s1 = (r, s')" using Cons.prems(2) None by (simp add: x)
    note e2 = Cons.IH [OF wf1 this]
    have dash: "CHR ''-'' \<notin> set n" using assms by (auto simp: hooks_ok_def)
    have "\<exists>l. lv_pins V s' (link_pin_path pd n iface) = Some l \<and> lv_live V s' l = Some (iface, d, g)"
      if "iface \<notin> set ifaces" "r = None"
    proof -
      have "link_pin_path pd n iface \<notin> link_pin_path pd n ` set ifaces" using that(1) pin_path_inject [OF dash dash] by auto
      then show ?thesis using e1 e2 None by (auto simp: step_ok_def untouched_def)
    qed
    then show ?thesis
      using e1 e2 step_ok_trans [of V pd hs "{link_pin_path pd n iface}" s s1 "link_pin_path pd n ` set ifaces" s'] by auto
  qed
qed

lemma attach_and_pin_effect:
  assumes "hooks_ok hs" "(n, ifs, d) \<in> set hs" "slots_wf V pd hs s" "attach_and_pin L n ifs d pd s = (r, s')"
  shows "step_ok V pd hs (link_pin_path pd n ` set ifs) s s' \<and> (\<forall>n'. n' \<noteq> n \<longrightarrow> lv_loaded V s' n' = lv_loaded V s n')
    \<and> (r = None \<longrightarrow> (\<forall>iface \<in> set ifs. serving V pd n iface d s'))"
proof -
  let ?P = "link_pin_path pd n ` set ifs" and ?prog = "pd @ ''/'' @ n @ ''-prog''"
  obtain x s1 where x: "lo_load L n s = (x, s1)" by (metis prod.collapse)
  note v1 = load_view [OF x]
  have st1: "step_ok V pd hs {} s s1" using step_ok_view [OF assms(3) v1(1,2)] .
  show ?thesis
  proof (cases x)
    case None
    then show ?thesis using assms(4) v1 st1 by (auto simp: attach_and_pin_def x step_ok_def untouched_def)
  next
    case (Some g)
    obtain y s2 where y: "attach_ifaces L g n ifs d pd s1 = (y, s2)" by (metis prod.collapse)
    have wf1: "slots_wf V pd hs s1" using st1 by (simp add: step_ok_def)
    note e2 = attach_ifaces_effect [OF assms(1,2) wf1 y]
    have st2: "step_ok V pd hs ?P s s2" using step_ok_trans [OF st1, of ?P s2] e2 by simp
    have load2: "lv_loaded V s2 = (lv_loaded V s)(n \<mapsto> g)" using e2 v1(3) Some by simp
    show ?thesis
    proof (cases y)
      case (Some e)
      then show ?thesis using assms(4) st2 load2 \<open>x = Some g\<close> by (auto simp: attach_and_pin_def x y)
    next
      case None
      obtain z s3 where z: "lo_remove_file L ?prog s2 = (z, s3)" by (metis prod.collapse)
      obtain w s4 where w: "lo_pin_program L g ?prog s3 = (w, s4)" by (metis prod.collapse)
      have "\<not> suffix ''-link'' ?prog" by (simp add: suffix_def)
      then have no: "lv_pins V s2 ?prog = None" using st2 unfolding step_ok_def slots_wf_def by (metis option.exhaust)
      note v3 = remove_file_view [OF z] and v4 = pin_program_view [OF w, unfolded same_view_def]
      have view: "lv_pins V s4 = lv_pins V s2" "lv_live V s4 = lv_live V s2" "lv_loaded V s4 = lv_loaded V s2"
        using v3 v4 no by (auto simp: fun_eq_iff)
      have s': "s' = s4" using assms(4) \<open>x = Some g\<close> None by (cases w) (auto simp: attach_and_pin_def x y z [simplified] w [simplified])
      have wf2: "slots_wf V pd hs s2" using st2 by (simp add: step_ok_def)
      have "step_ok V pd hs ?P s s4" using step_ok_trans [OF st2 step_ok_view [OF wf2 view(1,2), of "{}"]] by simp
      moreover have "serving V pd n iface d s4" if mem: "iface \<in> set ifs" for iface
      proof -
        obtain l where "lv_pins V s2 (link_pin_path pd n iface) = Some l" "lv_live V s2 l = Some (iface, d, g)"
          using e2 [THEN conjunct2, THEN conjunct2, rule_format, OF None mem] by (elim exE conjE)
        then show ?thesis unfolding serving_def view load2 by (intro exI [of _ l] exI [of _ g]) simp
      qed
      ultimately show ?thesis using s' view load2 by simp
    qed
  qed
qed

lemma attach_hooks_effect:
  assumes "hooks_ok hs0"
  shows "set hs \<subseteq> set hs0 \<Longrightarrow> distinct (map fst hs) \<Longrightarrow> slots_wf V pd hs0 s \<Longrightarrow> attach_hooks L pd hs s = (r, s') \<Longrightarrow>
    step_ok V pd hs0 {link_pin_path pd n iface | n iface. n \<in> fst ` set hs} s s'
    \<and> (\<forall>n. n \<notin> fst ` set hs \<longrightarrow> lv_loaded V s' n = lv_loaded V s n)
    \<and> (r = None \<longrightarrow> (\<forall>(n, ifs, d) \<in> set hs. \<forall>iface \<in> set ifs. serving V pd n iface d s'))"
proof (induction hs arbitrary: s)
  case Nil
  then show ?case using step_ok_view [OF Nil(3)] by auto
next
  case (Cons h hs)
  obtain n ifs d where h: "h = (n, ifs, d)" by (cases h)
  let ?P = "link_pin_path pd n ` set ifs" and ?Q = "{link_pin_path pd n iface | n iface. n \<in> fst ` set hs}"
  let ?R = "{link_pin_path pd n iface | n iface. n \<in> fst ` set (h # hs)}"
  obtain x s1 where x: "attach_and_pin L n ifs d pd s = (x, s1)" by (metis prod.collapse)
  have mem: "(n, ifs, d) \<in> set hs0" using Cons.prems(1) h by simp
  note e1 = attach_and_pin_effect [OF assms mem Cons.prems(3) x]
  have sub: "step_ok V pd hs0 ?R s t" if "step_ok V pd hs0 X s t" "X \<subseteq> ?P \<union> ?Q" for X t
    using that h unfolding step_ok_def untouched_def by (fastforce simp: image_iff)
  show ?case
  proof (cases x)
    case (Some e)
    then have "s' = s1" "r = Some e" using Cons.prems(4) by (simp_all add: h x)
    then show ?thesis using e1 sub [of ?P s1] by (simp add: h)
  next
    case None
    have run: "attach_hooks L pd hs s1 = (r, s')" using Cons.prems(4) None by (simp add: h x)
    have wf1: "slots_wf V pd hs0 s1" using e1 by (simp add: step_ok_def)
    note e2 = Cons.IH [OF _ _ wf1 run]
    have e2: "step_ok V pd hs0 ?Q s1 s'" "\<And>n'. n' \<notin> fst ` set hs \<Longrightarrow> lv_loaded V s' n' = lv_loaded V s1 n'"
      "r = None \<Longrightarrow> \<forall>(n, ifs, d) \<in> set hs. \<forall>iface \<in> set ifs. serving V pd n iface d s'"
      using e2 Cons.prems(1,2) by auto
    have other: "n \<notin> fst ` set hs" using Cons.prems(2) h by simp
    have dash: "CHR ''-'' \<notin> set n'" if "n' \<in> fst ` set (h # hs)" for n'
      using that Cons.prems(1) assms unfolding hooks_ok_def by (metis (no_types, lifting) image_iff subsetD)
    have "serving V pd n iface d s'" if "iface \<in> set ifs" for iface
    proof (rule serving_untouched)
      show "serving V pd n iface d s1" using e1 None that by blast
      show "untouched V ?Q s1 s'" using e2(1) by (simp add: step_ok_def)
      show "link_pin_path pd n iface \<notin> ?Q"
      proof
        assume "link_pin_path pd n iface \<in> ?Q"
        then obtain n' i' where n': "n' \<in> fst ` set hs" "link_pin_path pd n iface = link_pin_path pd n' i'" by blast
        moreover have "CHR ''-'' \<notin> set n" "CHR ''-'' \<notin> set n'" using dash [of n] dash [of n'] n'(1) h by simp_all
        ultimately show False using other pin_path_inject by metis
      qed
      show "lv_loaded V s' n = lv_loaded V s1 n" using e2(2) other by blast
    qed
    moreover have "step_ok V pd hs0 ?R s s'" using sub [OF step_ok_trans [of V pd hs0 ?P s s1 ?Q s']] e1 e2(1) by blast
    ultimately show ?thesis using e1 e2 h by auto
  qed
qed

end

section \<open>Links in memory\<close>

record mem_links =
  ml_loaded :: "string \<Rightarrow> nat option"
  ml_pins :: "(string \<times> nat) list"
  ml_live :: "nat \<Rightarrow> (string \<times> attach_type \<times> nat) option"
  ml_next :: nat
  ml_version :: nat

definition mem_link_ops :: "(mem_links, nat, nat) link_ops" where
  "mem_link_ops = \<lparr>
     lo_load = (\<lambda>name s. (Some (ml_version s), s\<lparr>ml_loaded := (ml_loaded s)(name \<mapsto> ml_version s)\<rparr>)),
     lo_from_pin = (\<lambda>path s. (case map_of (ml_pins s) path of Some l \<Rightarrow> FoundLink l | None \<Rightarrow> NoPin, s)),
     lo_update = (\<lambda>g l s. case ml_live s l of
        Some (iface, dir, _) \<Rightarrow> (None, s\<lparr>ml_live := (ml_live s)(l \<mapsto> (iface, dir, g))\<rparr>)
      | None \<Rightarrow> (Some (SyscallError (Some 67)), s)),
     lo_remove_file = (\<lambda>path s. case map_of (ml_pins s) path of
        Some l \<Rightarrow> (True, s\<lparr>ml_pins := filter (\<lambda>e. fst e \<noteq> path) (ml_pins s), ml_live := (ml_live s)(l := None)\<rparr>)
      | None \<Rightarrow> (False, s)),
     lo_attach = (\<lambda>g iface dir s.
        if ml_live s (ml_next s) = None \<and> ml_next s \<notin> snd ` set (ml_pins s)
        then (Some (ml_next s), s\<lparr>ml_live := (ml_live s)(ml_next s \<mapsto> (iface, dir, g)), ml_next := Suc (ml_next s)\<rparr>)
        else (None, s)),
     lo_pin_link = (\<lambda>l path s. (True, s\<lparr>ml_pins := (path, l) # ml_pins s\<rparr>)),
     lo_pin_program = (\<lambda>g path s. (True, s))\<rparr>"

definition mem_link_view :: "(mem_links, nat, nat) link_view" where
  "mem_link_view = \<lparr>lv_loaded = ml_loaded, lv_pins = (\<lambda>s. map_of (ml_pins s)), lv_live = ml_live\<rparr>"

lemma map_of_without: "map_of (filter (\<lambda>e. fst e \<noteq> k) xs) = (map_of xs)(k := None)"
  by (induction xs) (auto simp: fun_eq_iff)

lemma map_of_fresh: "v \<notin> snd ` set xs \<Longrightarrow> map_of xs k \<noteq> Some v"
  by (force dest: map_of_SomeD simp: image_iff)

interpretation mem: link_provider mem_link_ops mem_link_view
proof unfold_locales
  have "load_contract mem_link_ops mem_link_view" "from_pin_contract mem_link_ops mem_link_view"
    "update_contract mem_link_ops mem_link_view"
    by (auto simp: load_contract_def from_pin_contract_def update_contract_def mem_link_ops_def mem_link_view_def same_view_def
        is_severed_link_def split: option.splits)
  moreover have "remove_file_contract mem_link_ops mem_link_view" "attach_contract mem_link_ops mem_link_view"
    "pin_link_contract mem_link_ops mem_link_view"
    by (auto simp: remove_file_contract_def attach_contract_def pin_link_contract_def mem_link_ops_def mem_link_view_def
        map_of_without map_of_fresh split: option.splits)
  ultimately show "link_ops_ok mem_link_ops mem_link_view"
    by (simp add: link_ops_ok_def mem_link_ops_def mem_link_view_def same_view_def)
qed

section \<open>Restarts\<close>

text \<open>
  C22. A restart never takes a hook off an interface. Starting the loader over the links a previous run pinned, whatever
  call fails on the way, leaves every link that was attached attached where it was and behind the same pin, and any new
  link is pinned where no attached one was. If the start succeeds, every interface runs the freshly loaded program of
  each of its hooks.
\<close>

theorem restart_keeps_hooks:
  assumes "link_ops_ok L V" "slots_wf V pd (hooks uplinks geneve) s"
    and "attach_hooks L pd (hooks uplinks geneve) s = (r, s')"
  shows "keeps_attached V s s' \<and> slots_wf V pd (hooks uplinks geneve) s'
    \<and> (r = None \<longrightarrow> (\<forall>(name, ifaces, dir) \<in> set (hooks uplinks geneve). \<forall>iface \<in> set ifaces.
         \<exists>l g. lv_pins V s' (link_pin_path pd name iface) = Some l \<and> lv_live V s' l = Some (iface, dir, g)
           \<and> lv_loaded V s' name = Some g))"
  using link_provider.attach_hooks_effect [OF link_provider.intro [OF assms(1)] hooks_are_ok subset_refl _ assms(2,3)] hooks_are_ok
  by (simp add: hooks_ok_def step_ok_def serving_def)

text \<open>One uplink served by a link of an earlier version, the other hooks missing.\<close>

definition ml_before :: mem_links where
  "ml_before = \<lparr>ml_loaded = Map.empty, ml_pins = [(link_pin_path ''/p'' ''uplink_ingress'' ''eth0'', 0)],
     ml_live = [0 \<mapsto> (''eth0'', Ingress, 1)], ml_next = 1, ml_version = 2\<rparr>"

lemma ml_before_wf: "slots_wf mem_link_view ''/p'' (hooks [''eth0''] ''geneve0'') ml_before"
proof -
  let ?p = "link_pin_path ''/p'' ''uplink_ingress'' ''eth0''"
  have slot: "link_pin_path ''/p'' n i = ?p \<longleftrightarrow> n = ''uplink_ingress'' \<and> i = ''eth0''" if "(n, ifs, d) \<in> set (hooks [''eth0''] ''geneve0'')"
    for n ifs d i
  proof (rule pin_path_inject)
    show "CHR ''-'' \<notin> set n" using that hooks_are_ok unfolding hooks_ok_def by fastforce
  qed simp
  have view: "lv_pins mem_link_view ml_before = [?p \<mapsto> 0]" "lv_live mem_link_view ml_before = [0 \<mapsto> (''eth0'', Ingress, 1)]"
    by (simp_all add: mem_link_view_def ml_before_def)
  have dir: "d = Ingress" if "(''uplink_ingress'', ifs, d) \<in> set (hooks [''eth0''] ''geneve0'')" for ifs d
    using that by (simp add: hooks_def)
  show ?thesis
    unfolding slots_wf_def view
  proof (intro conjI allI impI; (elim conjE)?)
    fix p l assume "[?p \<mapsto> 0] p = Some l"
    then show "suffix ''-link'' p" using pin_path_suffix by (auto split: if_splits)
  next
    fix p p' l assume "[?p \<mapsto> 0] p = Some l" "[?p \<mapsto> 0] p' = Some l"
    then show "p = p'" by (auto split: if_splits)
  next
    fix n ifs d iface l i d' g
    assume h: "(n, ifs, d) \<in> set (hooks [''eth0''] ''geneve0'')" and p: "[?p \<mapsto> 0] (link_pin_path ''/p'' n iface) = Some l"
      and l: "[0 \<mapsto> (''eth0'', Ingress, 1)] l = Some (i, d', g)"
    have n: "n = ''uplink_ingress''" "iface = ''eth0''" using p slot [OF h, of iface] by (auto split: if_splits)
    then show "i = iface" "d' = d" using l dir h by (auto split: if_splits)
  qed
qed

theorem restart_keeps_hooks_witness:
  "let s' = snd (attach_hooks mem_link_ops ''/p'' (hooks [''eth0''] ''geneve0'') ml_before)
   in map_of (ml_pins s') (link_pin_path ''/p'' ''uplink_ingress'' ''eth0'') = Some 0
      \<and> (\<exists>g. ml_live s' 0 = Some (''eth0'', Ingress, g))"
proof -
  let ?t = "attach_hooks mem_link_ops ''/p'' (hooks [''eth0''] ''geneve0'') ml_before"
  have "keeps_attached mem_link_view ml_before (snd ?t)"
    using restart_keeps_hooks [OF mem.links_ok ml_before_wf, of "fst ?t" "snd ?t"] by simp
  then show ?thesis
    unfolding keeps_attached_def mem_link_view_def by (force simp: ml_before_def Let_def)
qed

end
