(* ===== verification/Seed.thy ===== *)
theory Seed
  imports Kube Std_Text Conntrack_Sweep
begin

text \<open>
  \<open>controller/src/seed.rs\<close>: the flow-hash seed all nodes share, kept in one Secret that the first controller creates
  and every other reads. The base64 decoder is a parameter; the apiserver is the parameter of \<open>Kube\<close>.
\<close>

section \<open>The Secret\<close>

definition SEED_SECRET_NAME :: string where "SEED_SECRET_NAME = ''servicelb-flow-hash-seed''"
definition SEED_KEY :: string where "SEED_KEY = ''seed''"

datatype create_outcome_t = Created | ReadExisting | CreateFailed

definition create_outcome :: "nat \<Rightarrow> create_outcome_t" where
  "create_outcome status =
     (if is_success status then Created else if status = CONFLICT then ReadExisting else CreateFailed)"

text \<open>\<open>{seed:016x}\<close>.\<close>

definition hex16 :: "u64 \<Rightarrow> string" where
  "hex16 seed = (let ds = print_base 16 (unat seed) in replicate (16 - length ds) (CHR ''0'') @ ds)"

definition secret_body :: "string \<Rightarrow> u64 \<Rightarrow> json" where
  "secret_body namespace seed =
     JObj [(''apiVersion'', JStr ''v1''), (''kind'', JStr ''Secret''),
           (''metadata'', JObj [(''name'', JStr SEED_SECRET_NAME), (''namespace'', JStr namespace)]),
           (''type'', JStr ''Opaque''), (''stringData'', JObj [(SEED_KEY, JStr (hex16 seed))])]"

datatype seed_error =
    RequestFailed | SecretUnparsed | SecretNoSeed | SeedNotBase64 | SeedNotUtf8 | SeedNotHex
  | GetStatus nat | CreateStatus nat | SecretVanished | NoRandomness

definition parse_seed_secret :: "(string \<Rightarrow> string option) \<Rightarrow> json option \<Rightarrow> seed_error + u64" where
  "parse_seed_secret b64 body =
     (case body of
        None \<Rightarrow> Inl SecretUnparsed
      | Some obj \<Rightarrow>
     (case as_str (json_path obj [''data'', SEED_KEY]) of
        None \<Rightarrow> Inl SecretNoSeed
      | Some encoded \<Rightarrow>
     (case b64 encoded of
        None \<Rightarrow> Inl SeedNotBase64
      | Some raw \<Rightarrow>
     (case from_utf8 raw of
        None \<Rightarrow> Inl SeedNotUtf8
      | Some hex \<Rightarrow>
     (case from_str_radix (2 ^ 64) 16 (trim hex) of
        None \<Rightarrow> Inl SeedNotHex
      | Some n \<Rightarrow> Inr (of_nat n))))))"

section \<open>What to do about it\<close>

datatype observed = Stored u64 | Absent
datatype seed_action_t = Keep | Adopt u64 | Recreate

definition seed_action :: "u64 \<Rightarrow> observed \<Rightarrow> seed_action_t" where
  "seed_action current obs =
     (case obs of
        Stored stored \<Rightarrow> if stored = current then Keep else Adopt stored
      | Absent \<Rightarrow> Recreate)"

definition action_log :: "seed_action_t \<Rightarrow> string option" where
  "action_log action =
     (case action of
        Keep \<Rightarrow> None
      | Adopt _ \<Rightarrow> Some (''controller: WARN flow-hash seed Secret changed; adopting the stored value '' @
          ''(new flows re-home, pin-steered flows keep their backend)'')
      | Recreate \<Rightarrow> Some ''controller: WARN flow-hash seed Secret is missing; recreating it (first creator wins)'')"

definition observe_secret :: "(string \<Rightarrow> string option) \<Rightarrow> nat \<Rightarrow> json option \<Rightarrow> seed_error + observed" where
  "observe_secret b64 status body =
     (if status = NOT_FOUND then Inr Absent
      else if is_success status
      then (case parse_seed_secret b64 body of Inl e \<Rightarrow> Inl e | Inr seed \<Rightarrow> Inr (Stored seed))
      else Inl (GetStatus status))"

section \<open>Requests\<close>

definition secrets_path :: "string \<Rightarrow> string" where
  "secrets_path namespace = ''/api/v1/namespaces/'' @ namespace @ ''/secrets''"

definition secret_path :: "string \<Rightarrow> string" where
  "secret_path namespace = secrets_path namespace @ ''/'' @ SEED_SECRET_NAME"

definition read_seed ::
  "'s api_client \<Rightarrow> (string \<Rightarrow> string option) \<Rightarrow> string \<Rightarrow> 's \<Rightarrow> (seed_error + observed) \<times> 's" where
  "read_seed A b64 namespace s =
     (case ac_request A GET (secret_path namespace) None s of
        (None, s) \<Rightarrow> (Inl RequestFailed, s)
      | (Some (status, body), s) \<Rightarrow> (observe_secret b64 status body, s))"

definition create_or_read ::
  "'s api_client \<Rightarrow> (string \<Rightarrow> string option) \<Rightarrow> string \<Rightarrow> u64 \<Rightarrow> 's \<Rightarrow> (seed_error + u64) \<times> 's" where
  "create_or_read A b64 namespace candidate s =
     (case ac_request A POST (secrets_path namespace) (Some (secret_body namespace candidate)) s of
        (None, s) \<Rightarrow> (Inl RequestFailed, s)
      | (Some (status, _), s) \<Rightarrow>
     (case create_outcome status of
        Created \<Rightarrow> (Inr candidate, s)
      | CreateFailed \<Rightarrow> (Inl (CreateStatus status), s)
      | ReadExisting \<Rightarrow>
     (case read_seed A b64 namespace s of
        (Inl e, s) \<Rightarrow> (Inl e, s)
      | (Inr (Stored seed), s) \<Rightarrow> (Inr seed, s)
      | (Inr Absent, s) \<Rightarrow> (Inl SecretVanished, s))))"

text \<open>\<open>random\<close> is what \<open>random_seed\<close> read from the OS.\<close>

definition load_or_create_seed ::
  "'s api_client \<Rightarrow> (string \<Rightarrow> string option) \<Rightarrow> string \<Rightarrow> u64 option \<Rightarrow> 's \<Rightarrow> (seed_error + u64) \<times> 's" where
  "load_or_create_seed A b64 namespace random s =
     (case random of
        None \<Rightarrow> (Inl NoRandomness, s)
      | Some candidate \<Rightarrow> create_or_read A b64 namespace candidate s)"

section \<open>The pass of a running controller\<close>

text \<open>The three closures of \<open>seed_tick\<close> work on the apiserver and on \<open>CONFIG\<close>.\<close>

definition adopt_seed :: "u64 \<Rightarrow> seed_action_t \<Rightarrow> (u64 \<Rightarrow> 'c \<Rightarrow> map_error option \<times> 'c) \<Rightarrow> 'c \<Rightarrow> u64 \<times> 'c" where
  "adopt_seed current action config_write c =
     (case action of
        Adopt seed \<Rightarrow>
          (case config_write seed c of
             (None, c) \<Rightarrow> (seed, c)
           | (Some _, c) \<Rightarrow> (current, c))
      | _ \<Rightarrow> (current, c))"

definition seed_tick ::
  "u64 \<Rightarrow> ('s \<Rightarrow> (seed_error + observed) \<times> 's) \<Rightarrow> (u64 \<Rightarrow> 's \<Rightarrow> (seed_error + u64) \<times> 's) \<Rightarrow>
   (u64 \<Rightarrow> 'c \<Rightarrow> map_error option \<times> 'c) \<Rightarrow> 's \<times> 'c \<Rightarrow> u64 \<times> 's \<times> 'c" where
  "seed_tick current fetch create config_write st =
     (case st of (s, c) \<Rightarrow>
      case fetch s of
        (Inl _, s) \<Rightarrow> (current, s, c)
      | (Inr obs, s) \<Rightarrow>
     (case seed_action current obs of
        Recreate \<Rightarrow>
          (case create current s of
             (Inl _, s) \<Rightarrow> (current, s, c)
           | (Inr stored, s) \<Rightarrow>
               case adopt_seed current (seed_action current (Stored stored)) config_write c of (cur, c) \<Rightarrow> (cur, s, c))
      | action \<Rightarrow> (case adopt_seed current action config_write c of (cur, c) \<Rightarrow> (cur, s, c))))"

definition converge_seed ::
  "'s api_client \<Rightarrow> (string \<Rightarrow> string option) \<Rightarrow> 'c config_handle \<Rightarrow> string \<Rightarrow> u64 \<Rightarrow> 's \<times> 'c \<Rightarrow> u64 \<times> 's \<times> 'c" where
  "converge_seed A b64 C namespace current st =
     seed_tick current (read_seed A b64 namespace) (create_or_read A b64 namespace) (write_config_seed C) st"

text \<open>\<open>n\<close> turns of \<open>run_seed_loop\<close>.\<close>

primrec run_seed_loop ::
  "'s api_client \<Rightarrow> (string \<Rightarrow> string option) \<Rightarrow> 'c config_handle \<Rightarrow> string \<Rightarrow> nat \<Rightarrow> u64 \<times> 's \<times> 'c \<Rightarrow> u64 \<times> 's \<times> 'c" where
  "run_seed_loop A b64 C namespace 0 st = st"
| "run_seed_loop A b64 C namespace (Suc n) st =
     run_seed_loop A b64 C namespace n (converge_seed A b64 C namespace (fst st) (snd st))"

section \<open>Printing and parsing\<close>

lemma hex16_chars: "c \<in> set (hex16 seed) \<Longrightarrow> is_digit 16 c"
proof -
  assume c: "c \<in> set (hex16 seed)"
  have "is_digit 16 (CHR ''0'')" by code_simp
  moreover have "\<forall>c \<in> set (print_base 16 (unat seed)). is_digit 16 c"
    using print_base_digits [of 16 "unat seed"] by (simp add: list_all_iff)
  ultimately show ?thesis using c by (auto simp: hex16_def Let_def)
qed

lemma hex_digit_code: "is_digit 16 c \<Longrightarrow> 48 \<le> (of_char c :: nat) \<and> (of_char c :: nat) \<le> 102"
  by (simp add: is_digit_def to_digit_def Let_def split: if_splits)

lemma whitespace_ends:
  assumes "w \<in> set whitespace"
  shows "w \<noteq> [] \<and> \<not> is_digit 16 (hd w) \<and> \<not> is_digit 16 (last w)"
proof -
  have "list_all (\<lambda>w. w \<noteq> [] \<and> \<not> is_digit 16 (hd w) \<and> \<not> is_digit 16 (last w)) whitespace" by code_simp
  then show ?thesis using assms by (simp add: list_all_iff)
qed

lemma trim_hex: "\<forall>c \<in> set s. is_digit 16 c \<Longrightarrow> trim s = s"
proof (rule trim_none)
  fix w assume s: "\<forall>c \<in> set s. is_digit 16 c" and w: "w \<in> set whitespace"
  have "hd w \<in> set s" if "prefix w s" using that whitespace_ends [OF w] by (auto simp: prefix_def)
  moreover have "last w \<in> set s" if "suffix w s" using that whitespace_ends [OF w] by (auto simp: suffix_def)
  ultimately show "\<not> prefix w s \<and> \<not> suffix w s" using s whitespace_ends [OF w] by blast
qed

lemma hex16_parses: "from_str_radix (2 ^ 64) 16 (hex16 seed) = Some (unat seed)"
proof -
  note ds = print_base_digits [of 16 "unat seed"]
  obtain c cs where h: "hex16 seed = c # cs" using ds by (cases "hex16 seed") (auto simp: hex16_def Let_def)
  have "is_digit 16 c" using hex16_chars [of c seed] h by simp
  then have c: "c \<noteq> CHR ''+''" by (auto simp: is_digit_def to_digit_def Let_def)
  have v: "digits_value 16 (hex16 seed) = int (unat seed)"
    using ds by (simp add: hex16_def Let_def digits_value_zeros)
  have "list_all (is_digit 16) (hex16 seed)" using hex16_chars by (simp add: list_all_iff)
  then show ?thesis using v unsigned_less [of seed, where 'a = nat]
    by (simp add: from_str_radix_def h c Let_def)
qed

text \<open>What an apiserver keeps of \<open>stringData\<close> reads back as the seed.\<close>

lemma stored_seed_parses:
  assumes "as_str (json_path obj [''data'', SEED_KEY]) = Some e" "b64 e = Some (hex16 seed)"
  shows "parse_seed_secret b64 (Some obj) = Inr seed"
proof -
  have "\<forall>b \<in> set (map of_char (hex16 seed)). (b :: nat) < 0x80"
    using hex16_chars hex_digit_code by fastforce
  then have "from_utf8 (hex16 seed) = Some (hex16 seed)" by (simp add: from_utf8_def utf8_valid_ascii)
  moreover have "trim (hex16 seed) = hex16 seed" using hex16_chars by (simp add: trim_hex)
  ultimately show ?thesis using assms hex16_parses [of seed] by (simp add: parse_seed_secret_def)
qed

end
