(* ===== verification/Seed_Props.thy ===== *)
theory Seed_Props
  imports Seed Interfaces
begin

text \<open>
  All nodes hash with the seed of one Secret. The contract of the apiserver is stated over the history of that Secret,
  newest version first, \<open>None\<close> where it does not exist; other clients may act around every request.
\<close>

section \<open>The contract\<close>

type_synonym 's secret_log = "'s \<Rightarrow> json option list"

text \<open>The versions the Secret had between two states.\<close>

definition during :: "json option list \<Rightarrow> json option list \<Rightarrow> json option set" where
  "during h h' = set (take (Suc (length h' - length h)) h')"

text \<open>A read answers a version the Secret had during the request. A create succeeds only where there was none, and what
  is stored decodes to the text sent in \<open>stringData\<close>.\<close>

definition seed_api_ok :: "'s api_client \<Rightarrow> (string \<Rightarrow> string option) \<Rightarrow> string \<Rightarrow> 's secret_log \<Rightarrow> bool" where
  "seed_api_ok A b64 namespace log \<longleftrightarrow>
     (\<forall>s. log s \<noteq> [])
     \<and> (\<forall>meth path body s. \<exists>new. log (snd (ac_request A meth path body s)) = new @ log s)
     \<and> (\<forall>s status body s'. ac_request A GET (secret_path namespace) None s = (Some (status, body), s') \<longrightarrow>
          (is_success status \<and> body \<noteq> None \<longrightarrow> body \<in> during (log s) (log s'))
          \<and> (status = NOT_FOUND \<longrightarrow> None \<in> during (log s) (log s')))
     \<and> (\<forall>seed s status body s'.
          ac_request A POST (secrets_path namespace) (Some (secret_body namespace seed)) s = (Some (status, body), s') \<and> is_success status \<longrightarrow>
          (\<exists>newer obj between e. log s' = newer @ Some obj # between @ log s \<and> hd (between @ log s) = None
             \<and> as_str (json_path obj [''data'', SEED_KEY]) = Some e
             \<and> b64 e = as_str (json_path (secret_body namespace seed) [''stringData'', SEED_KEY])))"

text \<open>The seeds the Secret has held.\<close>

definition seeds_held :: "(string \<Rightarrow> string option) \<Rightarrow> json option list \<Rightarrow> u64 set" where
  "seeds_held b64 h = {v. \<exists>obj. Some obj \<in> set h \<and> parse_seed_secret b64 (Some obj) = Inr v}"

text \<open>A node: it starts by loading the seed into \<open>CONFIG\<close>, other clients act, the sweep rewrites the parity, and its
  own passes run.\<close>

inductive seed_life ::
  "'s api_client \<Rightarrow> (string \<Rightarrow> string option) \<Rightarrow> 'c config_handle \<Rightarrow> string \<Rightarrow> 's secret_log \<Rightarrow> 's \<Rightarrow> 'c \<Rightarrow> u64 \<Rightarrow> bool"
  for A b64 C namespace log where
  start: "load_or_create_seed A b64 namespace random s0 = (Inr seed, s) \<Longrightarrow> populate_config fs C iface seed c0 = (None, c) \<Longrightarrow>
    seed_life A b64 C namespace log s c seed"
| others: "seed_life A b64 C namespace log s c seed \<Longrightarrow> log s' = new @ log s \<Longrightarrow> seed_life A b64 C namespace log s' c seed"
| parity: "seed_life A b64 C namespace log s c seed \<Longrightarrow>
    seed_life A b64 C namespace log s (snd (write_config_parity C proto b c)) seed"
| pass: "seed_life A b64 C namespace log s c seed \<Longrightarrow> converge_seed A b64 C namespace seed (s, c) = (seed', s', c') \<Longrightarrow>
    seed_life A b64 C namespace log s' c' seed'"

section \<open>One node\<close>

lemma during_subset: "during h h' \<subseteq> set h'"
  by (auto simp: during_def dest: in_set_takeD)

lemma seeds_held_mono: "seeds_held b64 h \<subseteq> seeds_held b64 (new @ h)"
  by (auto simp: seeds_held_def)

lemma write_seed_slot:
  assumes "config_handle_ok C" "write_config_seed C v c = (r, c')"
  shows "r = None \<Longrightarrow> cfg_flow_hash_seed (ca_slot C c') = v" "r = Some e \<Longrightarrow> ca_slot C c' = ca_slot C c"
proof -
  have set: "ca_slot C (snd (ca_set C x c)) = (if fst (ca_set C x c) = None then x else ca_slot C c)" for x
    using assms(1) unfolding config_handle_ok_def by blast
  have "(r = None \<longrightarrow> cfg_flow_hash_seed (ca_slot C c') = v) \<and> (r = Some e \<longrightarrow> ca_slot C c' = ca_slot C c)"
  proof (cases "ca_get C c")
    case (Inr x)
    then have "ca_set C (x\<lparr>cfg_flow_hash_seed := v\<rparr>) c = (r, c')" using assms(2) by (simp add: write_config_seed_def)
    then show ?thesis using set [of "x\<lparr>cfg_flow_hash_seed := v\<rparr>"] by simp
  qed (use assms(2) in \<open>auto simp: write_config_seed_def\<close>)
  then show "r = None \<Longrightarrow> cfg_flow_hash_seed (ca_slot C c') = v" "r = Some e \<Longrightarrow> ca_slot C c' = ca_slot C c" by blast+
qed

lemma adopt_config:
  assumes "config_handle_ok C" "cfg_flow_hash_seed (ca_slot C c) = seed" "adopt_seed seed action (write_config_seed C) c = (seed', c')"
  shows "cfg_flow_hash_seed (ca_slot C c') = seed' \<and> (seed' = seed \<or> action = Adopt seed')
    \<and> (action = Adopt v \<and> fst (write_config_seed C v c) = None \<longrightarrow> seed' = v)"
proof (cases action)
  case (Adopt w)
  obtain r c1 where w: "write_config_seed C w c = (r, c1)" by (metis prod.collapse)
  show ?thesis using assms Adopt w write_seed_slot [OF assms(1) w] by (cases r) (auto simp: adopt_seed_def)
qed (use assms in \<open>simp_all add: adopt_seed_def\<close>)

locale seed_store =
  fixes A :: "'s api_client" and b64 :: "string \<Rightarrow> string option" and namespace :: string and log :: "'s secret_log"
  assumes store_ok: "seed_api_ok A b64 namespace log"
begin

lemma log_grows: "\<exists>new. log (snd (ac_request A meth path body s)) = new @ log s"
  using store_ok unfolding seed_api_ok_def by blast

lemma read_held:
  assumes "read_seed A b64 namespace s = (Inr obs, s')"
  shows "case obs of Absent \<Rightarrow> None \<in> during (log s) (log s')
    | Stored v \<Rightarrow> \<exists>obj. Some obj \<in> during (log s) (log s') \<and> parse_seed_secret b64 (Some obj) = Inr v"
proof -
  obtain r s1 where r: "ac_request A GET (secret_path namespace) None s = (r, s1)" by (metis prod.collapse)
  then obtain status body where sb: "r = Some (status, body)" using assms by (cases r) (auto simp: read_seed_def)
  have o: "observe_secret b64 status body = Inr obs" "s' = s1" using assms by (simp_all add: read_seed_def r sb)
  have get: "is_success status \<and> body \<noteq> None \<longrightarrow> body \<in> during (log s) (log s1)" "status = NOT_FOUND \<longrightarrow> None \<in> during (log s) (log s1)"
    using store_ok r sb unfolding seed_api_ok_def by blast+
  show ?thesis
  proof (cases obs)
    case Absent
    then have "status = NOT_FOUND" using o(1) by (auto simp: observe_secret_def split: if_splits sum.splits)
    then show ?thesis using get Absent o(2) by simp
  next
    case (Stored v)
    then have p: "is_success status" "parse_seed_secret b64 body = Inr v"
      using o(1) by (auto simp: observe_secret_def split: if_splits sum.splits)
    then obtain obj where "body = Some obj" by (cases body) (auto simp: parse_seed_secret_def)
    then show ?thesis using get(1) p Stored o(2) by auto
  qed
qed

lemma read_grows: "\<exists>new. log (snd (read_seed A b64 namespace s)) = new @ log s"
  using log_grows [of GET "secret_path namespace" None s] by (auto simp: read_seed_def split: prod.split option.split)

lemma create_grows: "\<exists>new. log (snd (create_or_read A b64 namespace v s)) = new @ log s"
proof -
  obtain r s1 where r: "ac_request A POST (secrets_path namespace) (Some (secret_body namespace v)) s = (r, s1)" by (metis prod.collapse)
  obtain new1 where g1: "log s1 = new1 @ log s" using log_grows [of POST _ _ s] r by (metis snd_conv)
  obtain new2 where g2: "log (snd (read_seed A b64 namespace s1)) = new2 @ log s1" using read_grows by blast
  have "snd (create_or_read A b64 namespace v s) \<in> {s1, snd (read_seed A b64 namespace s1)}"
    by (auto simp: create_or_read_def r split: option.split prod.split create_outcome_t.split sum.split observed.split)
  then show ?thesis using g1 g2 by (metis append.assoc insertE singletonD)
qed

lemma create_held:
  assumes "create_or_read A b64 namespace v s = (Inr w, s')"
  shows "w \<in> seeds_held b64 (log s')"
proof -
  obtain r s1 where r: "ac_request A POST (secrets_path namespace) (Some (secret_body namespace v)) s = (r, s1)" by (metis prod.collapse)
  then obtain status body where sb: "r = Some (status, body)" using assms by (cases r) (auto simp: create_or_read_def)
  show ?thesis
  proof (cases "create_outcome status")
    case Created
    then have ok: "is_success status" "w = v" "s' = s1"
      using assms by (auto simp: create_or_read_def r sb create_outcome_def split: if_splits)
    obtain newer obj between e where "log s1 = newer @ Some obj # between @ log s" "as_str (json_path obj [''data'', SEED_KEY]) = Some e"
      "b64 e = as_str (json_path (secret_body namespace v) [''stringData'', SEED_KEY])"
      using store_ok r sb ok(1) unfolding seed_api_ok_def by blast
    moreover have "as_str (json_path (secret_body namespace v) [''stringData'', SEED_KEY]) = Some (hex16 v)"
      by (simp add: secret_body_def)
    ultimately show ?thesis using stored_seed_parses [of obj e b64 v] ok by (auto simp: seeds_held_def)
  next
    case ReadExisting
    then have rd: "read_seed A b64 namespace s1 = (Inr (Stored w), s')"
      using assms by (auto simp: create_or_read_def r sb split: prod.splits sum.splits observed.splits)
    from read_held [OF rd] show ?thesis using during_subset by (fastforce simp: seeds_held_def)
  next
    case CreateFailed
    then show ?thesis using assms by (simp add: create_or_read_def r sb)
  qed
qed

lemma converge_effect:
  assumes C: "config_handle_ok C" "cfg_flow_hash_seed (ca_slot C c) = seed"
    and run: "converge_seed A b64 C namespace seed (s, c) = (seed', s', c')"
  shows "\<exists>new. log s' = new @ log s" "cfg_flow_hash_seed (ca_slot C c') = seed'" "seed' = seed \<or> seed' \<in> seeds_held b64 (log s')"
    "log s' = log s \<Longrightarrow> hd (log s) = Some obj \<Longrightarrow> parse_seed_secret b64 (Some obj) = Inr v \<Longrightarrow> fst (read_seed A b64 namespace s) = Inr obs \<Longrightarrow>
      fst (write_config_seed C v c) = None \<Longrightarrow> seed' = v"
proof -
  obtain x s1 where x: "read_seed A b64 namespace s = (x, s1)" by (metis prod.collapse)
  obtain new1 where g1: "log s1 = new1 @ log s" using read_grows [of s] x by auto
  have all: "(\<exists>new. log s' = new @ log s) \<and> cfg_flow_hash_seed (ca_slot C c') = seed' \<and> (seed' = seed \<or> seed' \<in> seeds_held b64 (log s'))
    \<and> (log s' = log s \<and> hd (log s) = Some obj \<and> parse_seed_secret b64 (Some obj) = Inr v \<and> x = Inr obs
         \<and> fst (write_config_seed C v c) = None \<longrightarrow> seed' = v)"
  proof (cases x)
    case (Inl e)
    then have "seed' = seed" "s' = s1" "c' = c" using run by (simp_all add: converge_seed_def seed_tick_def x)
    then show ?thesis using C g1 Inl by simp
  next
    case (Inr o')
    note held = read_held [OF x [unfolded Inr]]
    show ?thesis
    proof (cases o')
      case (Stored w)
      obtain sd c1 where a: "adopt_seed seed (seed_action seed (Stored w)) (write_config_seed C) c = (sd, c1)" by (metis prod.collapse)
      have s': "seed' = sd" "s' = s1" "c' = c1"
        using run a by (auto simp: converge_seed_def seed_tick_def x Inr Stored seed_action_def split: if_splits)
      have w: "w \<in> seeds_held b64 (log s1)" using held Stored during_subset by (fastforce simp: seeds_held_def)
      note ad = adopt_config [OF C a, THEN conjunct1] adopt_config [OF C a, THEN conjunct2, THEN conjunct1]
        adopt_config [OF C a, THEN conjunct2, THEN conjunct2, rule_format, OF conjI]
      have "seed' = seed \<or> seed' = w" using ad(2) s' by (auto simp: seed_action_def split: if_splits)
      moreover have "seed' = v" if st: "log s' = log s" "hd (log s) = Some obj" "parse_seed_secret b64 (Some obj) = Inr v"
        "fst (write_config_seed C v c) = None"
      proof -
        have "log s \<noteq> []" using store_ok unfolding seed_api_ok_def by blast
        then have "during (log s) (log s1) = {Some obj}" using st(1,2) s' by (cases "log s") (simp_all add: during_def)
        then have "w = v" using held Stored st(3) by auto
        then show ?thesis using ad(3) [of v] ad(2) st(4) s' by (auto simp: seed_action_def split: if_splits)
      qed
      ultimately show ?thesis using g1 ad(1) w s' Inr by auto
    next
      case Absent
      obtain y s2 where y: "create_or_read A b64 namespace seed s1 = (y, s2)" by (metis prod.collapse)
      obtain new2 where g2: "log s2 = new2 @ log s1" using create_grows [of seed s1] y by auto
      have s2: "s' = s2" using run by (auto simp: converge_seed_def seed_tick_def x Inr Absent y seed_action_def split: sum.splits prod.splits)
      have unstable: "hd (log s) \<noteq> Some obj" if "log s' = log s"
      proof -
        have "log s1 = log s" using that g1 g2 s2 by simp
        moreover have "log s \<noteq> []" using store_ok unfolding seed_api_ok_def by blast
        ultimately show ?thesis using held Absent by (cases "log s") (simp_all add: during_def)
      qed
      show ?thesis
      proof (cases y)
        case (Inl e)
        then have "seed' = seed" "c' = c" using run by (simp_all add: converge_seed_def seed_tick_def x Inr Absent y seed_action_def)
        then show ?thesis using C g1 g2 s2 unstable by auto
      next
        case (Inr w)
        obtain sd c1 where a: "adopt_seed seed (seed_action seed (Stored w)) (write_config_seed C) c = (sd, c1)" by (metis prod.collapse)
        have s': "seed' = sd" "c' = c1"
          using run by (simp_all add: converge_seed_def seed_tick_def x \<open>x = Inr o'\<close> Absent y Inr a seed_action_def [of seed Absent])
        note ad = adopt_config [OF C a, THEN conjunct1] adopt_config [OF C a, THEN conjunct2, THEN conjunct1]
        adopt_config [OF C a, THEN conjunct2, THEN conjunct2, rule_format, OF conjI]
        have "seed' = seed \<or> seed' = w" using ad(2) s' by (auto simp: seed_action_def split: if_splits)
        moreover have "w \<in> seeds_held b64 (log s2)" using create_held [OF y [unfolded Inr]] .
        ultimately show ?thesis using ad(1) g1 g2 s2 s' unstable by auto
      qed
    qed
  qed
  then show "\<exists>new. log s' = new @ log s" "cfg_flow_hash_seed (ca_slot C c') = seed'" "seed' = seed \<or> seed' \<in> seeds_held b64 (log s')"
    "log s' = log s \<Longrightarrow> hd (log s) = Some obj \<Longrightarrow> parse_seed_secret b64 (Some obj) = Inr v \<Longrightarrow> fst (read_seed A b64 namespace s) = Inr obs \<Longrightarrow>
      fst (write_config_seed C v c) = None \<Longrightarrow> seed' = v"
    by (auto simp: x)
qed

lemma life_seed:
  assumes "config_handle_ok C"
  shows "seed_life A b64 C namespace log s c seed \<Longrightarrow> cfg_flow_hash_seed (ca_slot C c) = seed \<and> seed \<in> seeds_held b64 (log s)"
proof (induction rule: seed_life.induct)
  case (start random s0 seed s fs iface c0 c)
  then obtain v where "create_or_read A b64 namespace v s0 = (Inr seed, s)"
    by (cases random) (auto simp: load_or_create_seed_def)
  moreover have "cfg_flow_hash_seed (ca_slot C c) = seed"
  proof -
    obtain i existing where "ca_get C c0 = Inr existing" "ca_set C (config_keeping_parity existing i seed) c0 = (None, c)"
      using start(2) by (auto simp: populate_config_def split: sum.splits prod.splits)
    then show ?thesis using assms unfolding config_handle_ok_def by (metis config.select_convs(5) config_keeping_parity_def fst_conv snd_conv)
  qed
  ultimately show ?case using create_held by blast
next
  case (others s c seed s' new)
  then show ?case using seeds_held_mono [of b64 "log s" new] by auto
next
  case (parity s c seed proto b)
  then show ?case using assms
    by (auto simp: write_config_parity_def config_handle_ok_def Let_def split: sum.splits)
next
  case (pass s c seed seed' s' c')
  note e = converge_effect [OF assms _ pass(2)]
  then show ?case using pass(3) seeds_held_mono [of b64 "log s"] by (metis in_mono)
qed

end

section \<open>A Secret in memory\<close>

text \<open>The state is the history itself. The data is kept as sent, so the decoder is the identity.\<close>

definition mem_secret :: "string \<Rightarrow> json option list api_client" where
  "mem_secret namespace = \<lparr>ac_request = (\<lambda>meth path body h.
     case meth of
       GET \<Rightarrow>
         if path = secret_path namespace \<and> h \<noteq> []
         then (case hd h of Some obj \<Rightarrow> (Some (200, Some obj), h) | None \<Rightarrow> (Some (NOT_FOUND, None), h))
         else (None, h)
     | POST \<Rightarrow>
         (case body of
            Some obj \<Rightarrow>
              if path = secrets_path namespace \<and> h \<noteq> [] \<and> hd h = None
              then (Some (201, None), Some (JObj [(''data'', JObj [(SEED_KEY, json_path obj [''stringData'', SEED_KEY])])]) # h)
              else (Some (CONFLICT, None), h)
          | None \<Rightarrow> (None, h))
     | _ \<Rightarrow> (None, h))\<rparr>"

text \<open>An empty history stands for an absent Secret.\<close>

definition mem_secret_log :: "json option list secret_log" where
  "mem_secret_log h = (if h = [] then [None] else h)"

interpretation mem_seed: seed_store "mem_secret ns" Some ns mem_secret_log for ns
proof unfold_locales
  show "seed_api_ok (mem_secret ns) Some ns mem_secret_log"
    unfolding seed_api_ok_def
  proof (intro conjI allI impI)
    show "mem_secret_log h \<noteq> []" for h by (simp add: mem_secret_log_def)
  next
    fix meth path body h
    show "\<exists>new. mem_secret_log (snd (ac_request (mem_secret ns) meth path body h)) = new @ mem_secret_log h"
      by (auto simp: mem_secret_def mem_secret_log_def split: http_method.splits option.splits)
  next
    fix h status body h'
    assume "ac_request (mem_secret ns) GET (secret_path ns) None h = (Some (status, body), h')"
      and "is_success status \<and> body \<noteq> None"
    then show "body \<in> during (mem_secret_log h) (mem_secret_log h')"
      by (cases h) (auto simp: mem_secret_def mem_secret_log_def during_def split: option.splits if_splits)
  next
    fix h status body h'
    assume "ac_request (mem_secret ns) GET (secret_path ns) None h = (Some (status, body), h')" "status = NOT_FOUND"
    then show "None \<in> during (mem_secret_log h) (mem_secret_log h')"
      by (cases h) (auto simp: mem_secret_def mem_secret_log_def during_def NOT_FOUND_def split: option.splits if_splits)
  next
    fix seed h status body h'
    assume a: "ac_request (mem_secret ns) POST (secrets_path ns) (Some (secret_body ns seed)) h = (Some (status, body), h') \<and> is_success status"
    let ?obj = "JObj [(''data'', JObj [(SEED_KEY, json_path (secret_body ns seed) [''stringData'', SEED_KEY])])]"
    have "h \<noteq> []" "hd h = None" "h' = Some ?obj # h"
      using a by (auto simp: mem_secret_def is_success_def CONFLICT_def split: if_splits)
    then show "\<exists>newer obj between e. mem_secret_log h' = newer @ Some obj # between @ mem_secret_log h \<and> hd (between @ mem_secret_log h) = None
       \<and> as_str (json_path obj [''data'', SEED_KEY]) = Some e
       \<and> Some e = as_str (json_path (secret_body ns seed) [''stringData'', SEED_KEY])"
      by (intro exI [of _ "[]"] exI [of _ ?obj] exI [of _ "[]"] exI [of _ "hex16 seed"]) (simp add: mem_secret_log_def secret_body_def)
  qed
qed

section \<open>The cluster\<close>

text \<open>
  C21. Every node hashes with a seed the cluster's Secret has held, never with one of its own making. As long as the
  Secret has only ever held one value, whatever the nodes' starts and passes raced with, any two nodes hash alike. And
  when the Secret has been changed, a pass that can read it, with no change meanwhile, moves the node to its value.
\<close>

theorem nodes_share_the_seed:
  assumes "config_handle_ok C" "seed_api_ok A b64 namespace log"
    and "seed_life A b64 C namespace log s c1 seed1" "seed_life A b64 C namespace log s c2 seed2"
  shows "cfg_flow_hash_seed (ca_slot C c1) \<in> seeds_held b64 (log s)
    \<and> (card (seeds_held b64 (log s)) = 1 \<longrightarrow> cfg_flow_hash_seed (ca_slot C c1) = cfg_flow_hash_seed (ca_slot C c2))
    \<and> (\<forall>seed' s' c' obj v obs. converge_seed A b64 C namespace seed1 (s, c1) = (seed', s', c')
         \<and> log s' = log s \<and> hd (log s) = Some obj \<and> parse_seed_secret b64 (Some obj) = Inr v
         \<and> fst (read_seed A b64 namespace s) = Inr obs \<and> fst (write_config_seed C v c1) = None \<longrightarrow>
         cfg_flow_hash_seed (ca_slot C c') = v)"
proof -
  have st: "seed_store A b64 namespace log" using assms(2) by (rule seed_store.intro)
  note l1 = seed_store.life_seed [OF st assms(1,3)] and l2 = seed_store.life_seed [OF st assms(1,4)]
  have "seed1 = seed2" if "card (seeds_held b64 (log s)) = 1"
    using that l1 l2 by (metis card_1_singletonE singletonD)
  moreover note e = seed_store.converge_effect [OF st assms(1) l1 [THEN conjunct1]]
  ultimately show ?thesis using l1 l2 e(2,4) by metis
qed

text \<open>Two nodes start on a cluster without the Secret.\<close>

definition sx_config :: "config config_handle" where
  "sx_config = \<lparr>ca_slot = \<lambda>c. c, ca_get = Inr, ca_set = \<lambda>v c. (None, v)\<rparr>"

definition sx_node :: "u64 \<Rightarrow> config" where
  "sx_node seed = \<lparr>cfg_geneve_ifindex = 3, cfg_udp_parity = 0, cfg_tcp_parity = 0, cfg_pad = [0, 0], cfg_flow_hash_seed = seed\<rparr>"

theorem nodes_share_the_seed_witness:
  "\<exists>h. seed_life (mem_secret ''kube'') Some sx_config ''kube'' mem_secret_log h (sx_node 7) 7
     \<and> cfg_flow_hash_seed (ca_slot sx_config (sx_node 7)) \<in> seeds_held Some (mem_secret_log h)"
proof -
  let ?obj = "JObj [(''data'', JObj [(SEED_KEY, JStr (hex16 7))])]" and ?fs = "\<lambda>_. Some ''3''"
  have "load_or_create_seed (mem_secret ''kube'') Some ''kube'' (Some 7) [None] = (Inr 7, [Some ?obj, None])"
    by (simp add: load_or_create_seed_def create_or_read_def mem_secret_def create_outcome_def is_success_def secret_body_def)
  moreover have "iface_index ?fs ''geneve0'' = Inr 3"
    by (simp add: iface_index_def parse_ifindex_def trim_hex is_digit_def to_digit_def from_str_radix_def digits_value_def Let_def)
  then have "populate_config ?fs sx_config ''geneve0'' 7 (sx_node 0) = (None, sx_node 7)"
    by (simp add: populate_config_def sx_config_def config_keeping_parity_def sx_node_def)
  ultimately have life: "seed_life (mem_secret ''kube'') Some sx_config ''kube'' mem_secret_log [Some ?obj, None] (sx_node 7) 7"
    by (rule seed_life.start)
  have "config_handle_ok sx_config" by (simp add: config_handle_ok_def sx_config_def)
  from nodes_share_the_seed [OF this mem_seed.store_ok life life] life show ?thesis by blast
qed

end
