(* ===== verification/Fixture.thy ===== *)
theory Fixture
  imports Interfaces Apply_Entries
begin

text \<open>
  The fixture mode of the loader (\<open>src/lib.rs\<close> and \<open>src/main.rs\<close>): reading the \<open>--fixture\<close> and CIDR arguments, the
  checks before anything is loaded, writing the fronts, pods and the one peer of a fixture set, and the \<open>evict-pod\<close>
  command. The CIDR types of the binary are those of the controller, modelled in \<open>Ip_Addr\<close>. Text is the bytes of
  the argument; the separators are ASCII.
\<close>

section \<open>Arguments\<close>

datatype proto = Tcp | Udp

definition proto_as_ip_proto :: "proto \<Rightarrow> u8" where
  "proto_as_ip_proto p = (case p of Tcp \<Rightarrow> IPPROTO_TCP | Udp \<Rightarrow> IPPROTO_UDP)"

record fixture =
  fx_front_ip :: ip_addr
  fx_front_port :: u16
  fx_proto :: proto
  fx_backend_node_ip :: ip_addr
  fx_pod_ip :: ip_addr
  fx_target_port :: u16
  fx_client_ip_affinity :: bool

text \<open>\<open>split_once\<close> of the standard library: the text before and after the first \<open>c\<close>.\<close>

definition split_once :: "char \<Rightarrow> string \<Rightarrow> (string \<times> string) option" where
  "split_once c s =
     (case dropWhile (\<lambda>x. x \<noteq> c) s of [] \<Rightarrow> None | _ # after \<Rightarrow> Some (takeWhile (\<lambda>x. x \<noteq> c) s, after))"

text \<open>The body of the loop: one field of \<open>rest\<close> and the remainder.\<close>

definition next_field :: "string \<Rightarrow> string \<times> string" where
  "next_field rest =
     (if prefix ''['' rest
      then (case split_once (CHR '']'') (tl rest) of
              Some (field, after) \<Rightarrow> (field, if prefix '':'' after then tl after else after)
            | None \<Rightarrow> (rest, []))
      else (case split_once (CHR '':'') rest of Some (field, after) \<Rightarrow> (field, after) | None \<Rightarrow> (rest, [])))"

partial_function (option) split_loop :: "string \<Rightarrow> string list \<Rightarrow> string list option" where
  "split_loop rest parts =
     (if rest = [] then Some parts
      else case next_field rest of (field, remainder) \<Rightarrow> split_loop remainder (parts @ [field]))"

definition split_fixture_fields :: "string \<Rightarrow> string list option" where
  "split_fixture_fields s = split_loop s []"

datatype fixture_error = WrongFields | BadField string string | BadProto string

definition parse_field :: "string \<Rightarrow> (string \<Rightarrow> 'a option) \<Rightarrow> string \<Rightarrow> fixture_error + 'a" where
  "parse_field name parse s = (case parse s of None \<Rightarrow> Inl (BadField name s) | Some v \<Rightarrow> Inr v)"

definition parse_u16 :: "string \<Rightarrow> u16 option" where
  "parse_u16 s = map_option of_nat (from_str_radix (2 ^ 16) 10 s)"

definition parse_proto :: "string \<Rightarrow> fixture_error + proto" where
  "parse_proto s = (if s = ''tcp'' then Inr Tcp else if s = ''udp'' then Inr Udp else Inl (BadProto s))"

definition bind_result :: "'e + 'a \<Rightarrow> ('a \<Rightarrow> 'e + 'b) \<Rightarrow> 'e + 'b" where
  "bind_result r k = (case r of Inl e \<Rightarrow> Inl e | Inr v \<Rightarrow> k v)"

text \<open>The slice pattern of \<open>parse_fixture\<close>: the six fields and whether \<open>affinity\<close> follows them.\<close>

definition fixture_parts :: "string list \<Rightarrow> (string list \<times> bool) option" where
  "fixture_parts parts =
     (if length parts = 6 then Some (parts, False)
      else if length parts = 7 \<and> parts ! 6 = ''affinity'' then Some (take 6 parts, True)
      else None)"

definition fixture_of_parts :: "string list \<Rightarrow> bool \<Rightarrow> fixture_error + fixture" where
  "fixture_of_parts p affine =
     bind_result (parse_field ''front_ip'' parse_ip (p ! 0)) (\<lambda>front_ip.
     bind_result (parse_field ''front_port'' parse_u16 (p ! 1)) (\<lambda>front_port.
     bind_result (parse_proto (p ! 2)) (\<lambda>proto.
     bind_result (parse_field ''backend_node_ip'' parse_ip (p ! 3)) (\<lambda>backend_node_ip.
     bind_result (parse_field ''pod_ip'' parse_ip (p ! 4)) (\<lambda>pod_ip.
     bind_result (parse_field ''target_port'' parse_u16 (p ! 5)) (\<lambda>target_port.
       Inr \<lparr>fx_front_ip = front_ip, fx_front_port = front_port, fx_proto = proto,
            fx_backend_node_ip = backend_node_ip, fx_pod_ip = pod_ip, fx_target_port = target_port,
            fx_client_ip_affinity = affine\<rparr>))))))"

text \<open>\<open>None\<close> would be a parse that does not end.\<close>

definition parse_fixture :: "string \<Rightarrow> (fixture_error + fixture) option" where
  "parse_fixture s =
     map_option (\<lambda>parts. case fixture_parts parts of
                   None \<Rightarrow> Inl WrongFields
                 | Some (p, affinity) \<Rightarrow> fixture_of_parts p affinity) (split_fixture_fields s)"

section \<open>CIDR arguments\<close>

datatype cidr_error = NoSlash string | BadNetwork string | BadPrefixLen string | PrefixLenTooLarge u8

definition parse_ipv4 :: "string \<Rightarrow> u32 option" where
  "parse_ipv4 s =
     (case read_ipv4_addr s of
        Some (octets, rest) \<Rightarrow> if rest = [] then Some (of_int (base_value 256 octets)) else None
      | None \<Rightarrow> None)"

definition parse_ipv6 :: "string \<Rightarrow> u128 option" where
  "parse_ipv6 s =
     (case read_ipv6_addr s of
        Some (groups, rest) \<Rightarrow> if rest = [] then Some (of_int (base_value 65536 groups)) else None
      | None \<Rightarrow> None)"

definition parse_prefix_len :: "string \<Rightarrow> u8 \<Rightarrow> cidr_error + u8" where
  "parse_prefix_len s most =
     (case from_str_radix (2 ^ 8) 10 s of
        None \<Rightarrow> Inl (BadPrefixLen s)
      | Some n \<Rightarrow> let prefix_len = of_nat n in if prefix_len > most then Inl (PrefixLenTooLarge prefix_len) else Inr prefix_len)"

definition parse_ipv4_cidr :: "string \<Rightarrow> cidr_error + ipv4_cidr" where
  "parse_ipv4_cidr s =
     (case split_once (CHR ''/'') s of
        None \<Rightarrow> Inl (NoSlash s)
      | Some (network_text, prefix_text) \<Rightarrow>
     (case parse_ipv4 network_text of
        None \<Rightarrow> Inl (BadNetwork network_text)
      | Some network \<Rightarrow> bind_result (parse_prefix_len prefix_text 32) (\<lambda>n. Inr (ipv4_cidr_new network n))))"

definition parse_ip_cidr :: "string \<Rightarrow> cidr_error + ip_cidr" where
  "parse_ip_cidr s =
     (case split_once (CHR ''/'') s of
        None \<Rightarrow> Inl (NoSlash s)
      | Some (network_text, prefix_text) \<Rightarrow>
     (case parse_ipv6 network_text of
        Some network \<Rightarrow> bind_result (parse_prefix_len prefix_text 128) (\<lambda>n. Inr (CidrV6 (ipv6_cidr_new network n)))
      | None \<Rightarrow> bind_result (parse_ipv4_cidr s) (\<lambda>c. Inr (CidrV4 c))))"

section \<open>Checks before the load\<close>

datatype argument_error =
    FrontInPodCidr ip_addr ip_cidr | FrontInServiceCidr ip_addr ip_cidr | NoPinDir
  | BadSizes size_error | BadKernel "start_error + kernel_error"

definition inside_cidr :: "ip_addr \<Rightarrow> ip_cidr \<Rightarrow> bool" where
  "inside_cidr front cidr =
     (case (front, cidr) of
        (V4 front, CidrV4 cidr) \<Rightarrow> ipv4_cidr_contains cidr front
      | (V6 front, CidrV6 cidr) \<Rightarrow> ipv6_cidr_contains cidr front
      | _ \<Rightarrow> False)"

definition front_outside_pod_cidr :: "ip_addr \<Rightarrow> ip_cidr \<Rightarrow> argument_error option" where
  "front_outside_pod_cidr front pod_cidr = (if inside_cidr front pod_cidr then Some (FrontInPodCidr front pod_cidr) else None)"

definition front_outside_service_cidr :: "ip_addr \<Rightarrow> ip_cidr \<Rightarrow> argument_error option" where
  "front_outside_service_cidr front service_cidr =
     (if inside_cidr front service_cidr then Some (FrontInServiceCidr front service_cidr) else None)"

definition require_explicit_pin_dir :: "string option \<Rightarrow> argument_error + string" where
  "require_explicit_pin_dir pin_dir = (case pin_dir of None \<Rightarrow> Inl NoPinDir | Some dir \<Rightarrow> Inr dir)"

primrec check_fronts :: "ip_cidr \<Rightarrow> ip_cidr option \<Rightarrow> fixture list \<Rightarrow> argument_error option" where
  "check_fronts pod_cidr service_cidr [] = None"
| "check_fronts pod_cidr service_cidr (fixture # fixtures) =
     (case front_outside_pod_cidr (fx_front_ip fixture) pod_cidr of
        Some e \<Rightarrow> Some e
      | None \<Rightarrow>
     (case Option.bind service_cidr (front_outside_service_cidr (fx_front_ip fixture)) of
        Some e \<Rightarrow> Some e
      | None \<Rightarrow> check_fronts pod_cidr service_cidr fixtures))"

text \<open>What \<open>main\<close> settles before it creates the pin directory: the sizes of the two front maps and the directory.\<close>

definition start_checks ::
  "file_system \<Rightarrow> u32 \<Rightarrow> u32 \<Rightarrow> string option \<Rightarrow> ip_cidr \<Rightarrow> ip_cidr option \<Rightarrow> fixture list \<Rightarrow>
   argument_error + ((u32 \<times> u32) \<times> string)" where
  "start_checks fs max_fronts endpoints_per_front pin_dir pod_cidr service_cidr fixtures =
     (case front_map_max_entries max_fronts endpoints_per_front of
        Inl e \<Rightarrow> Inl (BadSizes e)
      | Inr sizes \<Rightarrow>
     (case require_supported_kernel fs of
        Some e \<Rightarrow> Inl (BadKernel e)
      | None \<Rightarrow>
          bind_result (require_explicit_pin_dir pin_dir) (\<lambda>dir.
            case check_fronts pod_cidr service_cidr fixtures of Some e \<Rightarrow> Inl e | None \<Rightarrow> Inr (sizes, dir))))"

section \<open>Populating the maps\<close>

definition local_pod_ips :: "fixture list \<Rightarrow> ip_addr \<Rightarrow> ip16 list" where
  "local_pod_ips fixtures node_ip =
     map (\<lambda>f. wire_ip_v6 (fx_pod_ip f)) (filter (\<lambda>f. fx_backend_node_ip f = node_ip) fixtures)"

definition fixture_key :: "fixture \<Rightarrow> lb_front_key" where
  "fixture_key f =
     \<lparr>lfk_front_ip = wire_ip_v6 (fx_front_ip f), lfk_front_port = wire_port (fx_front_port f),
      lfk_proto = proto_as_ip_proto (fx_proto f), lfk_pad = 0\<rparr>"

definition fixture_endpoint :: "fixture \<Rightarrow> front_endpoint" where
  "fixture_endpoint f =
     \<lparr>fe_backend = \<lparr>backend_node_ip = tunnel_remote_v6 (fx_backend_node_ip f), pod_ip = wire_ip_v6 (fx_pod_ip f)\<rparr>,
      fe_target_port = wire_port (fx_target_port f), fe_flags = 0, fe_pad = [0, 0, 0, 0]\<rparr>"

text \<open>The step of the fold: the entry of the front, made if absent, takes the flag and the endpoint.\<close>

definition add_fixture :: "fixture \<Rightarrow> (lb_front_key \<rightharpoonup> desired_front) \<Rightarrow> (lb_front_key \<rightharpoonup> desired_front)" where
  "add_fixture f fronts =
     (let flags = (if fx_client_ip_affinity f then FRONT_FLAG_CLIENT_IP_AFFINITY else 0);
          front = (case fronts (fixture_key f) of
                     Some front \<Rightarrow> front
                   | None \<Rightarrow> \<lparr>df_flags = flags, df_prefer_local = True, df_endpoints = []\<rparr>)
      in fronts(fixture_key f \<mapsto>
           front\<lparr>df_flags := df_flags front OR flags, df_endpoints := df_endpoints front @ [fixture_endpoint f]\<rparr>))"

definition fixture_fronts :: "fixture list \<Rightarrow> (lb_front_key \<rightharpoonup> desired_front)" where
  "fixture_fronts fixtures = fold add_fixture fixtures Map.empty"

text \<open>\<open>order\<close> is the order in which the hash map of fronts is visited.\<close>

definition plan_fixture_fronts ::
  "(lb_front_key set \<Rightarrow> lb_front_key list) \<Rightarrow> meta_entries \<Rightarrow> endpoint_entries \<Rightarrow> fixture list \<Rightarrow> front_plan list" where
  "plan_fixture_fronts order current_meta current_endpoints fixtures =
     plan_front_writes current_meta current_endpoints (entries_of order (fixture_fronts fixtures)) True []"

datatype populate_error =
    NoHandle string map_error | RowsUnread string map_error | FrontWritesFailed nat | RowWrite string map_error

record ('m, 'e, 't, 'n) fixture_maps =
  fm_front_meta :: 'm
  fm_front_endpoints :: 'e
  fm_pod_targets :: 't
  fm_node_allow :: 'n

primrec run_fixture_plans :: "'s writer \<Rightarrow> front_plan list \<Rightarrow> 's \<Rightarrow> front_failure list \<times> 's" where
  "run_fixture_plans write [] s = ([], s)"
| "run_fixture_plans write (plan # plans) s =
     (case run_front_plan write plan s of (failures, s) \<Rightarrow>
      case run_fixture_plans write plans s of (later, s) \<Rightarrow> (failures @ later, s))"

text \<open>The first block of \<open>populate_fixtures\<close>. \<open>handle name\<close> is the error of opening a map, if any.\<close>

definition populate_fronts ::
  "(lb_front_key set \<Rightarrow> lb_front_key list) \<Rightarrow> ('m, lb_front_key, front_meta) hash_map \<Rightarrow>
   ('e, front_endpoint_key_rec, front_endpoint) hash_map \<Rightarrow> (string \<Rightarrow> map_error option) \<Rightarrow> fixture list \<Rightarrow> 'm \<times> 'e \<Rightarrow>
   populate_error option \<times> 'm \<times> 'e" where
  "populate_fronts order M E handle fixtures st =
     (case handle ''FRONT_META'' of Some e \<Rightarrow> (Some (NoHandle ''FRONT_META'' e), st) | None \<Rightarrow>
     (case handle ''FRONT_ENDPOINTS'' of Some e \<Rightarrow> (Some (NoHandle ''FRONT_ENDPOINTS'' e), st) | None \<Rightarrow>
     (case hm_iter M (fst st) of Inl e \<Rightarrow> (Some (RowsUnread ''FRONT_META'' e), st) | Inr meta_rows \<Rightarrow>
     (case hm_iter E (snd st) of Inl e \<Rightarrow> (Some (RowsUnread ''FRONT_ENDPOINTS'' e), st) | Inr endpoint_rows \<Rightarrow>
     (case run_fixture_plans (write_step M E)
             (plan_fixture_fronts order (collect_map meta_rows) (collect_map endpoint_rows) fixtures) st of
        (detail, st) \<Rightarrow> (if detail \<noteq> [] then Some (FrontWritesFailed (length detail)) else None, st))))))"

text \<open>\<open>for k in keys { map.insert(k, 1)? }\<close>.\<close>

primrec insert_members :: "('m, ip16, u8) hash_map \<Rightarrow> ip16 list \<Rightarrow> 'm \<Rightarrow> map_error option \<times> 'm" where
  "insert_members H [] m = (None, m)"
| "insert_members H (k # ks) m =
     (case hm_insert H k 1 m of (Some e, m) \<Rightarrow> (Some e, m) | (None, m) \<Rightarrow> insert_members H ks m)"

text \<open>The second and the third block: the rows the fixture set does not name are removed, then its own are
  written; both return at the first error.\<close>

definition rewrite_members ::
  "('t, ip16, u8) hash_map \<Rightarrow> string \<Rightarrow> (string \<Rightarrow> map_error option) \<Rightarrow> (ip16 list \<Rightarrow> ip16 list) \<Rightarrow> ip16 list \<Rightarrow> 't \<Rightarrow>
   populate_error option \<times> 't" where
  "rewrite_members T name handle stale live t =
     (case handle name of Some e \<Rightarrow> (Some (NoHandle name e), t) | None \<Rightarrow>
     (case hm_keys T t of Inl e \<Rightarrow> (Some (RowsUnread name e), t) | Inr existing \<Rightarrow>
     (case remove_all T (stale existing) t of
        (Some e, t) \<Rightarrow> (Some (RowWrite name e), t)
      | (None, t) \<Rightarrow> (case insert_members T live t of (r, t) \<Rightarrow> (map_option (RowWrite name) r, t)))))"

definition populate_fixtures ::
  "(lb_front_key set \<Rightarrow> lb_front_key list) \<Rightarrow> ('m, lb_front_key, front_meta) hash_map \<Rightarrow>
   ('e, front_endpoint_key_rec, front_endpoint) hash_map \<Rightarrow> ('t, ip16, u8) hash_map \<Rightarrow> ('n, ip16, u8) hash_map \<Rightarrow>
   (string \<Rightarrow> map_error option) \<Rightarrow> fixture list \<Rightarrow> ip_addr \<Rightarrow> ('m, 'e, 't, 'n) fixture_maps \<Rightarrow>
   populate_error option \<times> ('m, 'e, 't, 'n) fixture_maps" where
  "populate_fixtures order M E T N handle fixtures node_ip s =
     (case populate_fronts order M E handle fixtures (fm_front_meta s, fm_front_endpoints s) of
        (r, ms, es) \<Rightarrow>
      let s = s\<lparr>fm_front_meta := ms, fm_front_endpoints := es\<rparr>
      in case r of Some e \<Rightarrow> (Some e, s) | None \<Rightarrow>
     (let local_ips = local_pod_ips fixtures node_ip
      in case rewrite_members T ''POD_TARGETS'' handle (\<lambda>existing. stale_pod_targets existing local_ips) local_ips
                (fm_pod_targets s) of
        (r, t) \<Rightarrow>
      let s = s\<lparr>fm_pod_targets := t\<rparr>
      in case r of Some e \<Rightarrow> (Some e, s) | None \<Rightarrow>
     (let node_ip_key = tunnel_remote_v6 node_ip
      in case rewrite_members N ''NODE_ALLOW'' handle (filter (\<lambda>existing. existing \<noteq> node_ip_key)) [node_ip_key]
                (fm_node_allow s) of
        (r, n) \<Rightarrow> (r, s\<lparr>fm_node_allow := n\<rparr>))))"

section \<open>evict-pod\<close>

text \<open>The rows of the departed pods leave \<open>POD_TARGETS\<close>, a failure being logged only; then their flows are swept.
  \<open>handle name\<close> is the error of opening a pin, if any.\<close>

definition run_evict_pod ::
  "('t, ip16, u8) hash_map \<Rightarrow> 'p pending_handle \<Rightarrow> 'f flow_handle \<Rightarrow> (string \<Rightarrow> map_error option) \<Rightarrow> ip_addr list \<Rightarrow>
   't \<times> 'p \<times> 'f \<Rightarrow> (populate_error + sweep_error) option \<times> 't \<times> 'p \<times> 'f" where
  "run_evict_pod T P F handle pod_ips st =
     (let departed_pods = map wire_ip_v6 pod_ips
      in case List.map_filter (\<lambda>name. map_option (NoHandle name) (handle name)) [''POD_TARGETS'', ''FWD_PENDING'', ''FLOW_TABLE''] of
           e # _ \<Rightarrow> (Some (Inl e), st)
         | [] \<Rightarrow>
             (case st of (t, p, f) \<Rightarrow>
              let t = snd (count_failures (hm_remove T) departed_pods t)
              in case evict_pod_flows P F (set departed_pods) (p, f) of
                   (r, p, f) \<Rightarrow> (map_option Inr r, (t, p, f))))"

end
