(* ===== verification/Fixture_Props.thy ===== *)
theory Fixture_Props
  imports Fixture Apply_Props
begin

text \<open>
  Correctness of the fixture mode: the field splitter ends on every argument and inverts the bracketed notation, and
  populating the maps leaves exactly the fixture set in them.
\<close>

section \<open>Splitting an argument\<close>

lemma split_once_Some: "split_once c s = Some (a, b) \<longleftrightarrow> s = a @ c # b \<and> c \<notin> set a"
proof
  assume "split_once c s = Some (a, b)"
  then obtain x where d: "dropWhile (\<lambda>x. x \<noteq> c) s = x # b" and a: "a = takeWhile (\<lambda>x. x \<noteq> c) s"
    by (auto simp: split_once_def split: list.splits)
  have "x = c" using hd_dropWhile [of "\<lambda>x. x \<noteq> c" s] d by simp
  then show "s = a @ c # b \<and> c \<notin> set a"
    using takeWhile_dropWhile_id [of "\<lambda>x. x \<noteq> c" s] d set_takeWhileD [of c "\<lambda>x. x \<noteq> c" s] by (auto simp: a)
next
  assume s: "s = a @ c # b \<and> c \<notin> set a"
  then have "\<forall>x \<in> set a. x \<noteq> c" by auto
  then show "split_once c s = Some (a, b)"
    using s by (simp add: split_once_def)
qed

lemma split_once_None: "split_once c s = None \<longleftrightarrow> c \<notin> set s"
proof (cases "c \<in> set s")
  case True
  then obtain a b where "s = a @ c # b" "c \<notin> set a" using split_list_first by fast
  then have "split_once c s = Some (a, b)" by (simp add: split_once_Some)
  with True show ?thesis by simp
next
  case False
  then have "\<not> (\<exists>a b. split_once c s = Some (a, b))" by (auto simp: split_once_Some)
  then have "split_once c s = None" by (cases "split_once c s") auto
  with False show ?thesis by simp
qed

lemma split_once_shorter: "split_once c s = Some (a, b) \<Longrightarrow> length b < length s"
  by (simp add: split_once_Some)

lemma next_field_shorter: "rest \<noteq> [] \<Longrightarrow> next_field rest = (field, remainder) \<Longrightarrow> length remainder < length rest"
  by (cases rest) (auto simp: next_field_def dest!: split_once_shorter split: option.splits if_splits)

text \<open>The loop ends, in at most as many rounds as there are bytes.\<close>

lemma split_loop_ends: "\<exists>fs. split_loop rest parts = Some (parts @ fs) \<and> length fs \<le> length rest"
proof (induction "length rest" arbitrary: rest parts rule: less_induct)
  case less
  show ?case
  proof (cases "rest = []")
    case True
    then show ?thesis by (simp add: split_loop.simps)
  next
    case False
    obtain field remainder where f: "next_field rest = (field, remainder)" by fastforce
    note shorter = next_field_shorter [OF False f]
    from less [OF this, of "parts @ [field]"] obtain fs
      where "split_loop remainder (parts @ [field]) = Some ((parts @ [field]) @ fs)" "length fs \<le> length remainder" by blast
    then show ?thesis using False f shorter
      by (intro exI [of _ "field # fs"]) (simp add: split_loop.simps [of rest])
  qed
qed

text \<open>The notation the splitter reads: a field stands for itself, or between brackets. A plain field has no
  colon and does not open a bracket, a bracketed one does not close it, and an argument does not end in an empty
  plain field.\<close>

definition field_text :: "bool \<times> string \<Rightarrow> string" where
  "field_text tok = (case tok of (bracketed, f) \<Rightarrow> if bracketed then ''['' @ f @ '']'' else f)"

definition field_ok :: "bool \<times> string \<Rightarrow> bool" where
  "field_ok tok = (case tok of (bracketed, f) \<Rightarrow>
     if bracketed then CHR '']'' \<notin> set f else CHR '':'' \<notin> set f \<and> \<not> prefix ''['' f)"

definition notation_ok :: "(bool \<times> string) list \<Rightarrow> bool" where
  "notation_ok toks \<longleftrightarrow> list_all field_ok toks \<and> (toks = [] \<or> field_text (last toks) \<noteq> [])"

lemma next_field_last: "field_ok tok \<Longrightarrow> next_field (field_text tok) = (snd tok, [])"
proof (cases tok)
  case (Pair bracketed f)
  assume ok: "field_ok tok"
  show ?thesis
  proof (cases bracketed)
    case True
    then have "split_once (CHR '']'') (f @ '']'') = Some (f, [])"
      using ok Pair by (simp add: split_once_Some field_ok_def)
    then show ?thesis using True Pair by (simp add: next_field_def field_text_def)
  next
    case False
    then have "split_once (CHR '':'') f = None" using ok Pair by (simp add: split_once_None field_ok_def)
    then show ?thesis using False Pair ok by (simp add: next_field_def field_text_def field_ok_def)
  qed
qed

lemma next_field_more:
  assumes "field_ok tok"
  shows "next_field (field_text tok @ '':'' @ tail) = (snd tok, tail)"
proof (cases tok)
  case (Pair bracketed f)
  show ?thesis
  proof (cases bracketed)
    case True
    then have "split_once (CHR '']'') (f @ '']:'' @ tail) = Some (f, '':'' @ tail)"
      using assms Pair by (simp add: split_once_Some field_ok_def)
    then show ?thesis using True Pair by (simp add: next_field_def field_text_def)
  next
    case False
    then have "split_once (CHR '':'') (f @ '':'' @ tail) = Some (f, tail)" "\<not> prefix ''['' (f @ '':'' @ tail)"
      using assms Pair by (cases f; simp add: split_once_Some field_ok_def)+
    then show ?thesis using False Pair by (simp add: next_field_def field_text_def)
  qed
qed

lemma split_loop_notation:
  "notation_ok toks \<Longrightarrow> split_loop (join_str '':'' (map field_text toks)) parts = Some (parts @ map snd toks)"
proof (induction toks arbitrary: parts)
  case Nil
  then show ?case by (simp add: split_loop.simps)
next
  case (Cons tok toks)
  then have tok: "field_ok tok" and toks: "notation_ok toks" by (auto simp: notation_ok_def)
  show ?case
  proof (cases toks)
    case Nil
    have "field_text tok \<noteq> []" using Cons.prems Nil by (simp add: notation_ok_def)
    then show ?thesis using next_field_last [OF tok] Nil
      by (simp add: split_loop.simps [of "field_text tok"] split_loop.simps [of "[]"])
  next
    case (Cons t ts)
    then show ?thesis using next_field_more [OF tok] Cons.IH [OF toks]
      by (simp add: split_loop.simps [of "field_text tok @ _"])
  qed
qed

section \<open>What the fields denote\<close>

definition denotes :: "string list \<Rightarrow> fixture \<Rightarrow> bool" where
  "denotes parts fx \<longleftrightarrow> (\<exists>p. length p = 6 \<and> parts = p @ (if fx_client_ip_affinity fx then [''affinity''] else [])
     \<and> parse_ip (p ! 0) = Some (fx_front_ip fx) \<and> parse_u16 (p ! 1) = Some (fx_front_port fx)
     \<and> p ! 2 = (case fx_proto fx of Tcp \<Rightarrow> ''tcp'' | Udp \<Rightarrow> ''udp'')
     \<and> parse_ip (p ! 3) = Some (fx_backend_node_ip fx) \<and> parse_ip (p ! 4) = Some (fx_pod_ip fx)
     \<and> parse_u16 (p ! 5) = Some (fx_target_port fx))"

lemma bind_result_Inr: "bind_result r k = Inr v \<longleftrightarrow> (\<exists>a. r = Inr a \<and> k a = Inr v)"
  by (cases r) (auto simp: bind_result_def)

lemma parse_field_Inr: "parse_field name parse s = Inr v \<longleftrightarrow> parse s = Some v"
  by (auto simp: parse_field_def split: option.split)

lemma parse_proto_Inr: "parse_proto s = Inr p \<longleftrightarrow> s = (case p of Tcp \<Rightarrow> ''tcp'' | Udp \<Rightarrow> ''udp'')"
  by (auto simp: parse_proto_def split: proto.split)

lemma fixture_parts_Some:
  "fixture_parts parts = Some (p, affine) \<longleftrightarrow> length p = 6 \<and> parts = p @ (if affine then [''affinity''] else [])"
proof (cases "length parts = 7")
  case True
  then have "parts = take 6 parts @ [parts ! 6]"
    using take_Suc_conv_app_nth [of 6 parts] by simp
  with True show ?thesis by (auto simp: fixture_parts_def nth_append)
next
  case False
  then show ?thesis by (auto simp: fixture_parts_def)
qed

lemma fixture_of_parts_Inr:
  "fixture_of_parts p affine = Inr fx \<longleftrightarrow> affine = fx_client_ip_affinity fx
     \<and> parse_ip (p ! 0) = Some (fx_front_ip fx) \<and> parse_u16 (p ! 1) = Some (fx_front_port fx)
     \<and> p ! 2 = (case fx_proto fx of Tcp \<Rightarrow> ''tcp'' | Udp \<Rightarrow> ''udp'')
     \<and> parse_ip (p ! 3) = Some (fx_backend_node_ip fx) \<and> parse_ip (p ! 4) = Some (fx_pod_ip fx)
     \<and> parse_u16 (p ! 5) = Some (fx_target_port fx)"
  by (cases fx) (auto simp: fixture_of_parts_def bind_result_Inr parse_field_Inr parse_proto_Inr)

lemma denotes_iff: "denotes parts fx \<longleftrightarrow> (\<exists>p affine. fixture_parts parts = Some (p, affine) \<and> fixture_of_parts p affine = Inr fx)"
  by (auto simp: denotes_def fixture_parts_Some fixture_of_parts_Inr)

lemma parse_fixture_iff:
  "split_fixture_fields s = Some parts \<Longrightarrow> parse_fixture s = Some (Inr fx) \<longleftrightarrow> denotes parts fx"
  by (auto simp: parse_fixture_def denotes_iff split: option.splits)

section \<open>Populating the maps\<close>

text \<open>The two loops that stop at the first error, when none occurs.\<close>

lemma remove_all_clean:
  assumes "hash_map_ok H" "remove_all H ks m = (None, m')"
  shows "hm_rows H m' = hm_rows H m |` (- set ks)"
  using assms(2)
proof (induction ks arbitrary: m)
  case (Cons k ks)
  from Cons.prems obtain m1 where k: "hm_remove H k m = (None, m1)" and ks: "remove_all H ks m1 = (None, m')"
    by (auto split: prod.splits option.splits)
  have "hm_rows H m1 = (hm_rows H m)(k := None)"
    using bpf_map.remove_rows [OF bpf_map.intro [OF assms(1)], of k m] k by simp
  with Cons.IH [OF ks] show ?case by (auto simp: restrict_map_def fun_eq_iff)
qed (simp add: restrict_map_def)

lemma insert_members_clean:
  assumes "hash_map_ok H" "insert_members H ks m = (None, m')"
  shows "dom (hm_rows H m') = dom (hm_rows H m) \<union> set ks"
  using assms(2)
proof (induction ks arbitrary: m)
  case (Cons k ks)
  from Cons.prems obtain m1 where k: "hm_insert H k 1 m = (None, m1)" and ks: "insert_members H ks m1 = (None, m')"
    by (auto split: prod.splits option.splits)
  have "hm_rows H m1 = (hm_rows H m)(k \<mapsto> 1)"
    using bpf_map.insert_rows [OF bpf_map.intro [OF assms(1)], of k 1 m] k by simp
  with Cons.IH [OF ks] show ?case by auto
qed simp

lemma rewrite_members_exact:
  assumes "hash_map_ok T" "rewrite_members T name handle stale live t = (None, t')"
    and "\<And>existing. set (stale existing) = set existing - set live"
  shows "dom (hm_rows T t') = set live"
proof -
  from assms(2) obtain rows m where it: "hm_iter T t = Inr rows"
    and rm: "remove_all T (stale (map fst rows)) t = (None, m)" and ins: "insert_members T live m = (None, t')"
    by (auto simp: rewrite_members_def hm_keys_def split: option.splits sum.splits prod.splits)
  have "set (stale (map fst rows)) = dom (hm_rows T t) - set live"
    using bpf_map.iter_keys [OF bpf_map.intro [OF assms(1)] it] by (simp add: assms(3))
  then show ?thesis
    using remove_all_clean [OF assms(1) rm] insert_members_clean [OF assms(1) ins] by auto
qed

lemma run_fixture_plans_clean:
  assumes "writer_ok write view" "run_fixture_plans write plans s = ([], s')"
  shows "view s' = fold do_write (concat (map fp_steps plans)) (view s)"
  using assms(2)
proof (induction plans arbitrary: s)
  case (Cons plan plans)
  from Cons.prems obtain s1 where p: "run_front_plan write plan s = ([], s1)" and ps: "run_fixture_plans write plans s1 = ([], s')"
    by (auto split: prod.splits)
  have "view s1 = fold do_write (fp_steps plan) (view s)"
    using map_writer.run_clean [OF map_writer.intro [OF assms(1)], of "fp_steps plan" "[]" s] p
    by (auto simp: run_front_plan_def split: prod.splits)
  with Cons.IH [OF ps] show ?case by simp
qed simp

text \<open>The fold: each front has the endpoints of its fixtures in order, and the flag of any of them.\<close>

definition fixtures_of :: "lb_front_key \<Rightarrow> fixture list \<Rightarrow> fixture list" where
  "fixtures_of k fixtures = filter (\<lambda>f. fixture_key f = k) fixtures"

definition fixture_front :: "fixture list \<Rightarrow> desired_front" where
  "fixture_front fs =
     \<lparr>df_flags = (if list_ex fx_client_ip_affinity fs then FRONT_FLAG_CLIENT_IP_AFFINITY else 0),
      df_prefer_local = True, df_endpoints = map fixture_endpoint fs\<rparr>"

lemma fixture_fronts_eq:
  "fixture_fronts fixtures k = (if fixtures_of k fixtures = [] then None else Some (fixture_front (fixtures_of k fixtures)))"
proof (induction fixtures rule: rev_induct)
  case Nil
  then show ?case by (simp add: fixture_fronts_def fixtures_of_def)
next
  case (snoc f fs)
  have "fixture_fronts (fs @ [f]) = add_fixture f (fixture_fronts fs)" by (simp add: fixture_fronts_def)
  with snoc show ?case
    by (cases "fixture_key f = k") (auto simp: add_fixture_def fixtures_of_def fixture_front_def Let_def)
qed

lemma fixture_fronts_finite: "finite (dom (fixture_fronts fixtures))"
proof (rule finite_subset)
  show "dom (fixture_fronts fixtures) \<subseteq> fixture_key ` set fixtures"
    by (auto simp: fixture_fronts_eq fixtures_of_def filter_empty_conv split: if_splits)
qed simp

text \<open>A fixture endpoint is never flagged local, so every one of them is eligible.\<close>

lemma fixture_front_steers:
  assumes "fs \<noteq> []" "length fs < 2 ^ 16"
  shows "\<exists>f \<in> set fs. desired_steer (fixture_front fs) h =
    SteerForward (fe_backend (fixture_endpoint f)) (wire_port (fx_target_port f))"
proof -
  have local: "local_count (fixture_front fs) = 0"
    using assms(1) by (cases fs) (simp_all add: local_count_def fixture_front_def fixture_endpoint_def)
  have n: "unat (of_nat (length fs) :: u16) = length fs" using assms(2) by (rule unat_of_nat_u16)
  then have "(of_nat (length fs) :: u16) \<noteq> 0" using assms(1) by (metis length_0_conv unat_0)
  then obtain slot where slot: "select_endpoint_slot h (of_nat (length fs)) 0 = Some slot"
    using select_endpoint_slot_None_iff [of h "of_nat (length fs)" 0] by (cases "select_endpoint_slot h (of_nat (length fs)) 0") auto
  then have "unat slot < length fs"
    using select_endpoint_slot_less [of h "of_nat (length fs)" 0] n by (auto simp: word_less_nat_alt)
  then show ?thesis
    by (intro bexI [of _ "fs ! unat slot"])
      (use slot local in \<open>auto simp: desired_steer_def fixture_front_def fixture_endpoint_def Let_def\<close>)
qed

lemma populate_fronts_clean:
  assumes "hash_map_ok M" "hash_map_ok E" "enumerates order"
    and "populate_fronts order M E handle fixtures st = (None, ms, es)"
  obtains cm ce desired where "map_of desired = fixture_fronts fixtures"
    "(hm_rows M ms, hm_rows E es) =
     fold do_write (concat (map fp_steps (plan_front_writes cm ce desired True []))) (map_of cm, map_of ce)"
proof -
  let ?desired = "entries_of order (fixture_fronts fixtures)"
  from assms(4) obtain mr er where it: "hm_iter M (fst st) = Inr mr" "hm_iter E (snd st) = Inr er"
    and run: "run_fixture_plans (write_step M E)
      (plan_front_writes (collect_map mr) (collect_map er) ?desired True []) st = ([], ms, es)"
    by (auto simp: populate_fronts_def plan_fixture_fronts_def split: option.splits sum.splits prod.splits if_splits)
  note m = bpf_map.intro [OF assms(1)] and e = bpf_map.intro [OF assms(2)]
  have rows: "map_of (collect_map mr) = hm_rows M (fst st)" "map_of (collect_map er) = hm_rows E (snd st)"
    using bpf_map.iter_rows [OF m it(1)] bpf_map.iter_rows [OF e it(2)] by (simp_all add: collect_walk)
  have "(hm_rows M ms, hm_rows E es) = fold do_write
      (concat (map fp_steps (plan_front_writes (collect_map mr) (collect_map er) ?desired True [])))
      (map_of (collect_map mr), map_of (collect_map er))"
    using run_fixture_plans_clean [OF write_step_ok [OF assms(1,2)] run] by (simp add: rows case_prod_unfold)
  with map_of_entries_of [OF assms(3) fixture_fronts_finite] show ?thesis by (rule that)
qed

lemma populate_parts:
  assumes "populate_fixtures order M E T N handle fixtures node_ip s = (None, s')"
  shows "populate_fronts order M E handle fixtures (fm_front_meta s, fm_front_endpoints s) =
      (None, fm_front_meta s', fm_front_endpoints s')"
    "rewrite_members T ''POD_TARGETS'' handle (\<lambda>existing. stale_pod_targets existing (local_pod_ips fixtures node_ip))
      (local_pod_ips fixtures node_ip) (fm_pod_targets s) = (None, fm_pod_targets s')"
    "rewrite_members N ''NODE_ALLOW'' handle (filter (\<lambda>existing. existing \<noteq> tunnel_remote_v6 node_ip))
      [tunnel_remote_v6 node_ip] (fm_node_allow s) = (None, fm_node_allow s')"
  using assms by (auto simp: populate_fixtures_def Let_def split: prod.splits option.splits)

section \<open>Properties\<close>

text \<open>C27. Reading a \<open>--fixture\<close> argument ends on every input, after at most one round of the splitting loop per
  byte. The fields found are the ones written whenever the argument is in the bracketed notation, and the parse
  succeeds with exactly the fixture those fields denote; any other argument is refused.\<close>

theorem fixture_argument_read:
  "\<exists>parts r. split_fixture_fields s = Some parts \<and> length parts \<le> length s \<and> parse_fixture s = Some r
     \<and> (\<forall>fx. r = Inr fx \<longleftrightarrow> denotes parts fx)
     \<and> (\<forall>toks. notation_ok toks \<and> s = join_str '':'' (map field_text toks) \<longrightarrow> parts = map snd toks)"
proof -
  from split_loop_ends [of s "[]"] obtain parts where parts: "split_fixture_fields s = Some parts" "length parts \<le> length s"
    by (auto simp: split_fixture_fields_def)
  then obtain r where r: "parse_fixture s = Some r" by (simp add: parse_fixture_def)
  have "parts = map snd toks" if "notation_ok toks" "s = join_str '':'' (map field_text toks)" for toks
    using split_loop_notation [OF that(1), of "[]"] parts(1) that(2) by (simp add: split_fixture_fields_def)
  then show ?thesis using parts r parse_fixture_iff [OF parts(1)] by auto
qed

definition ex_fixture :: fixture where
  "ex_fixture =
     \<lparr>fx_front_ip = V6 0x20010db8000000000000000000000001, fx_front_port = 443, fx_proto = Tcp,
      fx_backend_node_ip = V4 0x0A000002, fx_pod_ip = V4 0x0AF40107, fx_target_port = 8443, fx_client_ip_affinity = True\<rparr>"

definition ex_fields :: "(bool \<times> string) list" where
  "ex_fields = [(True, ''2001:db8::1''), (False, ''443''), (False, ''tcp''), (False, ''10.0.0.2''), (True, ''10.244.1.7''),
     (False, ''8443''), (False, ''affinity'')]"

theorem fixture_argument_read_witness:
  "parse_fixture ''[2001:db8::1]:443:tcp:10.0.0.2:[10.244.1.7]:8443:affinity'' = Some (Inr ex_fixture)"
proof -
  have toks: "notation_ok ex_fields"
    by (simp add: notation_ok_def ex_fields_def field_ok_def field_text_def)
  have arg: "join_str '':'' (map field_text ex_fields) = ''[2001:db8::1]:443:tcp:10.0.0.2:[10.244.1.7]:8443:affinity''"
    by (simp add: ex_fields_def field_text_def)
  have "parse_u16 ''443'' = Some 443" "parse_u16 ''8443'' = Some 8443"
    by (simp_all add: parse_u16_def from_str_radix_def digits_value_def is_digit_def to_digit_def)
  moreover have "parse_ip ''2001:db8::1'' = Some (V6 0x20010db8000000000000000000000001)" by code_simp
  moreover have "parse_ip ''10.0.0.2'' = Some (V4 0x0A000002)" "parse_ip ''10.244.1.7'' = Some (V4 0x0AF40107)" by code_simp+
  ultimately have "fixture_of_parts (take 6 (map snd ex_fields)) True = Inr ex_fixture"
    by (simp add: fixture_of_parts_Inr ex_fields_def ex_fixture_def)
  then have "denotes (map snd ex_fields) ex_fixture"
    by (force simp: denotes_iff fixture_parts_def ex_fields_def)
  moreover obtain parts r where "parse_fixture (join_str '':'' (map field_text ex_fields)) = Some r"
    "r = Inr ex_fixture \<longleftrightarrow> denotes parts ex_fixture" "parts = map snd ex_fields"
    using fixture_argument_read [of "join_str '':'' (map field_text ex_fields)"] toks by blast
  ultimately show ?thesis unfolding arg by simp
qed

text \<open>C25. A fixture start that reports success has rewritten the four maps to exactly the fixture set, whatever
  an earlier run left pinned: the pod targets are the pods on this node, the only peer is the node itself, a front no
  fixture names has no row left, and every new flow of a front that is named goes to the node, pod and port of one of
  its fixtures, under the affinity flag if any of them asks for it.\<close>

theorem fixtures_installed:
  assumes "hash_map_ok M" "hash_map_ok E" "hash_map_ok T" "hash_map_ok N" "enumerates order"
    and pop: "populate_fixtures order M E T N handle fixtures node_ip s = (None, s')"
  shows "dom (hm_rows T (fm_pod_targets s')) =
      {wire_ip_v6 (fx_pod_ip f) | f. f \<in> set fixtures \<and> fx_backend_node_ip f = node_ip}
    \<and> dom (hm_rows N (fm_node_allow s')) = {tunnel_remote_v6 node_ip}
    \<and> (\<forall>k. let fs = fixtures_of k fixtures in
         if fs = []
         then hm_rows M (fm_front_meta s') k = None
            \<and> (\<forall>ek. fek_front ek = k \<longrightarrow> hm_rows E (fm_front_endpoints s') ek = None)
         else length fs < 2 ^ 16 \<longrightarrow>
            (\<exists>m. hm_rows M (fm_front_meta s') k = Some m
               \<and> fm_flags m = (if \<exists>f \<in> set fs. fx_client_ip_affinity f then FRONT_FLAG_CLIENT_IP_AFFINITY else 0)
               \<and> (\<forall>h. \<exists>f \<in> set fs. ingress_steer m None None h k (hm_rows E (fm_front_endpoints s')) =
                    SteerForward \<lparr>backend_node_ip = tunnel_remote_v6 (fx_backend_node_ip f),
                      pod_ip = wire_ip_v6 (fx_pod_ip f)\<rparr> (wire_port (fx_target_port f)))))"
proof (intro conjI allI)
  note parts = populate_parts [OF pop]
  show "dom (hm_rows T (fm_pod_targets s')) =
      {wire_ip_v6 (fx_pod_ip f) | f. f \<in> set fixtures \<and> fx_backend_node_ip f = node_ip}"
    by (subst rewrite_members_exact [OF assms(3) parts(2)]) (auto simp: stale_pod_targets_def local_pod_ips_def)
  show "dom (hm_rows N (fm_node_allow s')) = {tunnel_remote_v6 node_ip}"
    by (subst rewrite_members_exact [OF assms(4) parts(3)]) auto
  fix k
  obtain cm ce desired where d: "map_of desired = fixture_fronts fixtures"
    and T: "(hm_rows M (fm_front_meta s'), hm_rows E (fm_front_endpoints s')) =
      fold do_write (concat (map fp_steps (plan_front_writes cm ce desired True []))) (map_of cm, map_of ce)"
    using populate_fronts_clean [OF assms(1,2,5) parts(1)] by blast
  let ?fs = "fixtures_of k fixtures"
  show "let fs = ?fs in
         if fs = []
         then hm_rows M (fm_front_meta s') k = None
            \<and> (\<forall>ek. fek_front ek = k \<longrightarrow> hm_rows E (fm_front_endpoints s') ek = None)
         else length fs < 2 ^ 16 \<longrightarrow>
            (\<exists>m. hm_rows M (fm_front_meta s') k = Some m
               \<and> fm_flags m = (if \<exists>f \<in> set fs. fx_client_ip_affinity f then FRONT_FLAG_CLIENT_IP_AFFINITY else 0)
               \<and> (\<forall>h. \<exists>f \<in> set fs. ingress_steer m None None h k (hm_rows E (fm_front_endpoints s')) =
                    SteerForward \<lparr>backend_node_ip = tunnel_remote_v6 (fx_backend_node_ip f),
                      pod_ip = wire_ip_v6 (fx_pod_ip f)\<rparr> (wire_port (fx_target_port f))))"
  proof (cases "?fs = []")
    case True
    then show ?thesis using written_removes [OF T, of k] by (simp add: d fixture_fronts_eq)
  next
    case False
    then have "map_of desired k = Some (fixture_front ?fs)" by (simp add: d fixture_fronts_eq)
    from written_serves [OF T this] show ?thesis
      using False fixture_front_steers [OF False]
      by (auto simp: Let_def fixture_front_def fixture_endpoint_def list_ex_iff)
  qed
qed

definition ex_maps ::
  "((lb_front_key, front_meta) std_map, (front_endpoint_key_rec, front_endpoint) std_map, (ip16, u8) std_map,
    (ip16, u8) std_map) fixture_maps" where
  "ex_maps = \<lparr>fm_front_meta = ap_map [], fm_front_endpoints = ap_map [], fm_pod_targets = ap_map [(cs_pod 3, 1)],
     fm_node_allow = ap_map [(cs_pod 9, 1)]\<rparr>"

definition ex_populated ::
  "populate_error option \<times> ((lb_front_key, front_meta) std_map, (front_endpoint_key_rec, front_endpoint) std_map,
    (ip16, u8) std_map, (ip16, u8) std_map) fixture_maps" where
  "ex_populated = populate_fixtures (vo_fronts std_order) std_hash_map std_hash_map std_hash_map std_hash_map (\<lambda>_. None)
     [ex_fixture] (V4 0x0A000002) ex_maps"

lemma ex_fronts: "entries_of (vo_fronts std_order) (fixture_fronts [ex_fixture]) = [(fixture_key ex_fixture, fixture_front [ex_fixture])]"
proof -
  have m: "fixture_fronts [ex_fixture] = [fixture_key ex_fixture \<mapsto> fixture_front [ex_fixture]]"
    by (auto simp: fun_eq_iff fixture_fronts_eq fixtures_of_def)
  show ?thesis unfolding m by (simp add: entries_of_def std_order_def tuple_front_def front_tuple_def)
qed

lemma ex_populated_ok: "fst ex_populated = None"
proof -
  have "populate_fronts (vo_fronts std_order) std_hash_map std_hash_map (\<lambda>_. None) [ex_fixture] (ap_map [], ap_map []) =
      (case run_fixture_plans (write_step std_hash_map std_hash_map)
         (plan_front_writes [] [] [(fixture_key ex_fixture, fixture_front [ex_fixture])] True []) (ap_map [], ap_map []) of
        (detail, st) \<Rightarrow> (if detail \<noteq> [] then Some (FrontWritesFailed (length detail)) else None, st))"
    by (simp add: populate_fronts_def plan_fixture_fronts_def ex_fronts ap_map_def std_hash_map_def collect_map_def)
  moreover have "fst (run_fixture_plans (write_step std_hash_map std_hash_map)
         (plan_front_writes [] [] [(fixture_key ex_fixture, fixture_front [ex_fixture])] True []) (ap_map [], ap_map [])) = []"
    by code_simp
  moreover have "fst (rewrite_members std_hash_map ''POD_TARGETS'' (\<lambda>_. None)
      (\<lambda>existing. stale_pod_targets existing (local_pod_ips [ex_fixture] (V4 0x0A000002)))
      (local_pod_ips [ex_fixture] (V4 0x0A000002)) (ap_map [(cs_pod 3, 1)])) = None" by code_simp
  moreover have "fst (rewrite_members std_hash_map ''NODE_ALLOW'' (\<lambda>_. None)
      (filter (\<lambda>existing. existing \<noteq> tunnel_remote_v6 (V4 0x0A000002))) [tunnel_remote_v6 (V4 0x0A000002)]
      (ap_map [(cs_pod 9, 1)])) = None" by code_simp
  ultimately show ?thesis
    by (auto simp: ex_populated_def populate_fixtures_def ex_maps_def Let_def split: prod.splits)
qed

theorem fixtures_installed_witness:
  "dom (hm_rows std_hash_map (fm_pod_targets (snd ex_populated))) = {wire_ip_v6 (V4 0x0AF40107)}
   \<and> (\<exists>m. hm_rows std_hash_map (fm_front_meta (snd ex_populated)) (fixture_key ex_fixture) = Some m
        \<and> fm_flags m = FRONT_FLAG_CLIENT_IP_AFFINITY
        \<and> (\<forall>h. ingress_steer m None None h (fixture_key ex_fixture)
               (hm_rows std_hash_map (fm_front_endpoints (snd ex_populated))) =
             SteerForward \<lparr>backend_node_ip = tunnel_remote_v6 (V4 0x0A000002), pod_ip = wire_ip_v6 (V4 0x0AF40107)\<rparr>
               (wire_port 8443)))"
proof -
  have order: "enumerates (vo_fronts std_order)" using std_order_ok by (simp add: order_ok_def)
  have run: "populate_fixtures (vo_fronts std_order) std_hash_map std_hash_map std_hash_map std_hash_map (\<lambda>_. None)
     [ex_fixture] (V4 0x0A000002) ex_maps = (None, snd ex_populated)"
    using ex_populated_ok unfolding ex_populated_def by (metis prod.collapse)
  note r = fixtures_installed [OF std_hash_map_ok std_hash_map_ok std_hash_map_ok std_hash_map_ok order run]
  have fs: "fixtures_of (fixture_key ex_fixture) [ex_fixture] = [ex_fixture]" by (simp add: fixtures_of_def)
  from r have "dom (hm_rows std_hash_map (fm_pod_targets (snd ex_populated))) = {wire_ip_v6 (V4 0x0AF40107)}"
    by (auto simp: ex_fixture_def)
  with r [THEN conjunct2, THEN conjunct2, rule_format, of "fixture_key ex_fixture"] show ?thesis
    unfolding fs by (simp add: Let_def) (simp add: ex_fixture_def)
qed

end
