(* ===== verification/Bpffs.thy ===== *)
theory Bpffs
  imports Pin_Migrate_Props
begin

text \<open>
  \<open>BpffsPins\<close> of \<open>src/lib.rs\<close> and \<open>snapshot_pin\<close> of \<open>src/pin_migrate.rs\<close>: the pin store of the program, over bpffs
  and the \<open>bpf(2)\<close> calls. The calls are the fields of the record \<open>bpffs_ops\<close>; \<open>'fd\<close> is an open map. It is shown to
  be a \<open>PinStore\<close>, so what is proved of a start over any pin store holds of this one.
\<close>

section \<open>The calls\<close>

record ('k, 'fd) bpffs_ops =
  bo_exists :: "string \<Rightarrow> 'k \<Rightarrow> bool"
  bo_info_of_pin :: "string \<Rightarrow> 'k \<Rightarrow> pin_error + map_shape"
  bo_from_pin :: "string \<Rightarrow> 'k \<Rightarrow> pin_error + 'fd"
  bo_info :: "'fd \<Rightarrow> 'k \<Rightarrow> pin_error + map_shape"
  bo_get_next_key :: "'fd \<Rightarrow> bytes option \<Rightarrow> 'k \<Rightarrow> int option + bytes"
  bo_lookup_elem :: "'fd \<Rightarrow> bytes \<Rightarrow> 'k \<Rightarrow> int option + bytes"
  bo_remove_file :: "string \<Rightarrow> 'k \<Rightarrow> bool \<times> 'k"
  bo_pin :: "'fd \<Rightarrow> string \<Rightarrow> 'k \<Rightarrow> bool \<times> 'k"

section \<open>Snapshots\<close>

text \<open>\<open>BTreeMap::insert\<close> on the entries in key order.\<close>

primrec btree_insert :: "bytes \<Rightarrow> bytes \<Rightarrow> entry list \<Rightarrow> entry list" where
  "btree_insert k v [] = [(k, v)]"
| "btree_insert k v (e # es) =
     (if k < fst e then (k, v) # e # es else if k = fst e then (k, v) # es else e # btree_insert k v es)"

text \<open>The loop, with the number of rounds left.\<close>

primrec snapshot_walk ::
  "('k, 'fd) bpffs_ops \<Rightarrow> 'fd \<Rightarrow> 'k \<Rightarrow> nat \<Rightarrow> bytes option \<Rightarrow> entry list \<Rightarrow> pin_error + entry list" where
  "snapshot_walk B fd s 0 key out = Inr out"
| "snapshot_walk B fd s (Suc n) key out =
     (case bo_get_next_key B fd key s of
        Inl errno \<Rightarrow> if errno = Some ENOENT then Inr out else Inl PinError
      | Inr next_key \<Rightarrow>
     (case bo_lookup_elem B fd next_key s of
        Inr v \<Rightarrow> snapshot_walk B fd s n (Some next_key) (btree_insert next_key v out)
      | Inl errno \<Rightarrow>
          if errno = Some ENOENT then snapshot_walk B fd s n (Some next_key) out else Inl PinError))"

definition snapshot_pin :: "('k, 'fd) bpffs_ops \<Rightarrow> string \<Rightarrow> 'k \<Rightarrow> pin_error + entry list" where
  "snapshot_pin B path s =
     (case bo_from_pin B path s of
        Inl e \<Rightarrow> Inl e
      | Inr fd \<Rightarrow>
     (case bo_info B fd s of
        Inl e \<Rightarrow> Inl e
      | Inr info \<Rightarrow> snapshot_walk B fd s (2 * unat (ms_max_entries info) + 1) None []))"

section \<open>The store\<close>

definition pin_path :: "string \<Rightarrow> string \<Rightarrow> string" where
  "pin_path dir name = dir @ ''/'' @ name"

definition bpffs_shape :: "('k, 'fd) bpffs_ops \<Rightarrow> string \<Rightarrow> string \<Rightarrow> 'k \<Rightarrow> pin_error + map_shape option" where
  "bpffs_shape B dir name s =
     (let pin = pin_path dir name
      in if \<not> bo_exists B pin s then Inr None
         else case bo_info_of_pin B pin s of Inl e \<Rightarrow> Inl e | Inr shape \<Rightarrow> Inr (Some shape))"

definition bpffs_remove :: "('k, 'fd) bpffs_ops \<Rightarrow> string \<Rightarrow> string \<Rightarrow> 'k \<Rightarrow> pin_error option \<times> 'k" where
  "bpffs_remove B dir name s =
     (case bo_remove_file B (pin_path dir name) s of (removed, s) \<Rightarrow> (if removed then None else Some PinError, s))"

definition bpffs_repin :: "('k, 'fd) bpffs_ops \<Rightarrow> string \<Rightarrow> string \<Rightarrow> string \<Rightarrow> 'k \<Rightarrow> pin_error option \<times> 'k" where
  "bpffs_repin B dir old new s =
     (case bo_from_pin B (pin_path dir old) s of
        Inl e \<Rightarrow> (Some e, s)
      | Inr fd \<Rightarrow>
     (case bo_pin B fd (pin_path dir new) s of
        (False, s) \<Rightarrow> (Some PinError, s)
      | (True, s) \<Rightarrow>
          (case bo_remove_file B (pin_path dir old) s of (removed, s) \<Rightarrow> (if removed then None else Some PinError, s))))"

section \<open>What the kernel promises\<close>

text \<open>The map behind each pin, and the shape and rows of a map.\<close>

record ('k, 'fd) bpffs_view =
  bv_pins :: "'k \<Rightarrow> string \<Rightarrow> 'fd option"
  bv_map :: "'k \<Rightarrow> 'fd \<Rightarrow> map_shape \<times> (bytes \<rightharpoonup> bytes)"

text \<open>A walk visits the keys in some order, each once, as long as nobody changes the map; any call may fail.\<close>

primrec walks :: "(bytes option \<Rightarrow> int option + bytes) \<Rightarrow> bytes option \<Rightarrow> bytes list \<Rightarrow> bool" where
  "walks next_key key [] \<longleftrightarrow> (\<exists>errno. next_key key = Inl errno)"
| "walks next_key key (k # ks) \<longleftrightarrow>
     (next_key key = Inr k \<or> (\<exists>errno. next_key key = Inl errno \<and> errno \<noteq> Some ENOENT)) \<and> walks next_key (Some k) ks"

definition map_reads_ok :: "('k, 'fd) bpffs_ops \<Rightarrow> ('k, 'fd) bpffs_view \<Rightarrow> bool" where
  "map_reads_ok B V \<longleftrightarrow> (\<forall>fd s. case bv_map V s fd of (shape, rows) \<Rightarrow>
     finite (dom rows) \<and> card (dom rows) \<le> unat (ms_max_entries shape)
     \<and> (\<forall>info. bo_info B fd s = Inr info \<longrightarrow> info = shape)
     \<and> (\<exists>ks. distinct ks \<and> set ks = dom rows \<and> walks (\<lambda>key. bo_get_next_key B fd key s) None ks)
     \<and> (\<forall>k v. bo_lookup_elem B fd k s = Inr v \<longrightarrow> rows k = Some v)
     \<and> (\<forall>k. bo_lookup_elem B fd k s = Inl (Some ENOENT) \<longrightarrow> rows k = None))"

definition pin_reads_ok :: "('k, 'fd) bpffs_ops \<Rightarrow> ('k, 'fd) bpffs_view \<Rightarrow> bool" where
  "pin_reads_ok B V \<longleftrightarrow> (\<forall>path s.
     (bo_exists B path s \<longleftrightarrow> bv_pins V s path \<noteq> None)
     \<and> (\<forall>shape. bo_info_of_pin B path s = Inr shape \<longrightarrow> (\<exists>fd. bv_pins V s path = Some fd \<and> shape = fst (bv_map V s fd)))
     \<and> (\<forall>fd. bo_from_pin B path s = Inr fd \<longrightarrow> bv_pins V s path = Some fd))"

text \<open>Unpinning and pinning change one name and no map; a name in use cannot be pinned.\<close>

definition pin_writes_ok :: "('k, 'fd) bpffs_ops \<Rightarrow> ('k, 'fd) bpffs_view \<Rightarrow> bool" where
  "pin_writes_ok B V \<longleftrightarrow> (\<forall>path s.
     (case bo_remove_file B path s of (removed, s') \<Rightarrow>
        bv_map V s' = bv_map V s \<and> bv_pins V s' = (if removed then (bv_pins V s)(path := None) else bv_pins V s))
     \<and> (\<forall>fd. case bo_pin B fd path s of (pinned, s') \<Rightarrow>
          bv_map V s' = bv_map V s \<and> bv_pins V s' = (if pinned then (bv_pins V s)(path \<mapsto> fd) else bv_pins V s)
          \<and> (pinned \<longrightarrow> bv_pins V s path = None)))"

definition bpffs_ok :: "('k, 'fd) bpffs_ops \<Rightarrow> ('k, 'fd) bpffs_view \<Rightarrow> bool" where
  "bpffs_ok B V \<longleftrightarrow> map_reads_ok B V \<and> pin_reads_ok B V \<and> pin_writes_ok B V"

text \<open>The rows in key order; what is pinned under each name of the directory.\<close>

definition map_entries :: "(bytes \<rightharpoonup> bytes) \<Rightarrow> entry list" where
  "map_entries rows = map (\<lambda>k. (k, the (rows k))) (sorted_list_of_set (dom rows))"

definition bpffs_pins :: "('k, 'fd) bpffs_ops \<Rightarrow> ('k, 'fd) bpffs_view \<Rightarrow> string \<Rightarrow> 'k pin_store" where
  "bpffs_pins B V dir =
     \<lparr>ps_pins = \<lambda>s name. map_option (\<lambda>fd. (fst (bv_map V s fd), map_entries (snd (bv_map V s fd)))) (bv_pins V s (pin_path dir name)),
      ps_shape = bpffs_shape B dir, ps_snapshot = (\<lambda>name. snapshot_pin B (pin_path dir name)),
      ps_remove = bpffs_remove B dir, ps_repin = bpffs_repin B dir\<rparr>"

lemma pin_path_inj [simp]: "pin_path dir a = pin_path dir b \<longleftrightarrow> a = b"
  by (simp add: pin_path_def)

section \<open>The walk\<close>

lemma btree_insert_set: "sorted_wrt (<) (map fst es) \<Longrightarrow> k \<notin> fst ` set es \<Longrightarrow> set (btree_insert k v es) = insert (k, v) (set es)"
  by (induction es) auto

lemma btree_insert_sorted: "sorted_wrt (<) (map fst es) \<Longrightarrow> k \<notin> fst ` set es \<Longrightarrow> sorted_wrt (<) (map fst (btree_insert k v es))"
proof (induction es)
  case (Cons e es)
  show ?case
  proof (cases "k < fst e")
    case True
    then show ?thesis using Cons.prems by (auto intro: less_trans)
  next
    case False
    then have "fst e < k" using Cons.prems(2) by (metis fst_conv image_eqI insertI1 less_linear list.simps(15))
    moreover have "set (btree_insert k v es) = insert (k, v) (set es)" using Cons.prems by (intro btree_insert_set) auto
    ultimately show ?thesis using Cons False by auto
  qed
qed simp

lemma entries_unique:
  assumes "sorted_wrt (<) (map fst es)" "\<And>k v. (k, v) \<in> set es \<longleftrightarrow> rows k = Some v"
  shows "es = map_entries rows"
proof -
  have dom: "dom rows = set (map fst es)" using assms(2) by force
  have "map fst es = sorted_list_of_set (dom rows)"
    unfolding dom using assms(1) by (metis strict_sorted_iff sorted_list_of_set.idem_if_sorted_distinct)
  then have "map_entries rows = map (\<lambda>k. (k, the (rows k))) (map fst es)" by (simp add: map_entries_def)
  also have "\<dots> = es" using assms(2) by (auto intro!: map_idI simp: comp_def)
  finally show ?thesis by simp
qed

text \<open>With more rounds than keys to come, the walk reads all of them or reports a failure.\<close>

lemma snapshot_walk_reads:
  assumes "walks (\<lambda>key. bo_get_next_key B fd key s) key ks" "distinct ks" "length ks < n"
    and "\<And>k v. bo_lookup_elem B fd k s = Inr v \<Longrightarrow> rows k = Some v"
    and "\<And>k. bo_lookup_elem B fd k s = Inl (Some ENOENT) \<Longrightarrow> rows k = None" "set ks \<subseteq> dom rows"
    and "sorted_wrt (<) (map fst out)" "fst ` set out \<inter> set ks = {}"
    and "snapshot_walk B fd s n key out = Inr es"
  shows "sorted_wrt (<) (map fst es) \<and> set es = set out \<union> {(k, the (rows k)) | k. k \<in> set ks}"
  using assms
proof (induction ks arbitrary: n key out)
  case Nil
  then obtain m where n: "n = Suc m" by (cases n) auto
  show ?case using Nil by (auto simp: n split: if_splits)
next
  case (Cons k ks)
  then obtain m where n: "n = Suc m" by (cases n) auto
  have key: "bo_get_next_key B fd key s = Inr k" using Cons.prems(1,9) by (auto simp: n)
  obtain v where v: "rows k = Some v" using Cons.prems(6) by auto
  have look: "bo_lookup_elem B fd k s = Inr v"
  proof (cases "bo_lookup_elem B fd k s")
    case (Inl errno)
    then show ?thesis using Cons.prems(5) [of k] Cons.prems(9) v by (auto simp: n key split: if_splits)
  next
    case (Inr v')
    then show ?thesis using Cons.prems(4) v by fastforce
  qed
  have fresh: "k \<notin> fst ` set out" using Cons.prems(8) by auto
  have walk: "snapshot_walk B fd s m (Some k) (btree_insert k v out) = Inr es"
    using Cons.prems(9) by (simp add: n key look)
  note ins = btree_insert_set [OF Cons.prems(7) fresh, of v] btree_insert_sorted [OF Cons.prems(7) fresh, of v]
  have "sorted_wrt (<) (map fst es) \<and> set es = set (btree_insert k v out) \<union> {(k, the (rows k)) | k. k \<in> set ks}"
    using Cons.prems ins by (intro Cons.IH [OF _ _ _ _ _ _ _ _ walk]) (auto simp: n)
  then show ?case using ins(1) v by auto
qed

locale bpffs_kernel =
  fixes B :: "('k, 'fd) bpffs_ops" and V :: "('k, 'fd) bpffs_view"
  assumes kernel_ok: "bpffs_ok B V"
begin

lemma map_reads:
  assumes "bv_map V s fd = (shape, rows)"
  shows "finite (dom rows)" "card (dom rows) \<le> unat (ms_max_entries shape)" "bo_info B fd s = Inr info \<Longrightarrow> info = shape"
    "\<exists>ks. distinct ks \<and> set ks = dom rows \<and> walks (\<lambda>key. bo_get_next_key B fd key s) None ks"
    "bo_lookup_elem B fd k s = Inr v \<Longrightarrow> rows k = Some v" "bo_lookup_elem B fd k s = Inl (Some ENOENT) \<Longrightarrow> rows k = None"
  using kernel_ok [unfolded bpffs_ok_def map_reads_ok_def, THEN conjunct1, rule_format, where fd = fd and s = s]
  by (simp_all add: assms)

lemma pin_reads:
  "bo_exists B path s \<longleftrightarrow> bv_pins V s path \<noteq> None"
  "bo_info_of_pin B path s = Inr shape \<Longrightarrow> \<exists>fd. bv_pins V s path = Some fd \<and> shape = fst (bv_map V s fd)"
  "bo_from_pin B path s = Inr fd \<Longrightarrow> bv_pins V s path = Some fd"
  using kernel_ok unfolding bpffs_ok_def pin_reads_ok_def by blast+

lemma remove_file_view:
  assumes "bo_remove_file B path s = (removed, s')"
  shows "bv_map V s' = bv_map V s" "bv_pins V s' = (if removed then (bv_pins V s)(path := None) else bv_pins V s)"
  using kernel_ok [unfolded bpffs_ok_def pin_writes_ok_def, THEN conjunct2, THEN conjunct2, rule_format, where path = path and s = s]
  by (simp_all add: assms)

lemma pin_view:
  assumes "bo_pin B fd path s = (pinned, s')"
  shows "bv_map V s' = bv_map V s" "bv_pins V s' = (if pinned then (bv_pins V s)(path \<mapsto> fd) else bv_pins V s)"
    "pinned \<Longrightarrow> bv_pins V s path = None"
proof -
  have "pin_writes_ok B V" using kernel_ok by (simp add: bpffs_ok_def)
  note w = this [unfolded pin_writes_ok_def, THEN spec [of _ path], THEN spec [of _ s], THEN conjunct2, THEN spec [of _ fd]]
  then show "bv_map V s' = bv_map V s" "bv_pins V s' = (if pinned then (bv_pins V s)(path \<mapsto> fd) else bv_pins V s)"
    "pinned \<Longrightarrow> bv_pins V s path = None" by (simp_all add: assms)
qed

text \<open>The bound on the rounds is enough: a snapshot is all the entries of the map.\<close>

lemma snapshot_exact:
  assumes "snapshot_pin B path s = Inr es"
  shows "\<exists>fd. bv_pins V s path = Some fd \<and> es = map_entries (snd (bv_map V s fd))"
proof -
  from assms obtain fd info where fd: "bo_from_pin B path s = Inr fd" and info: "bo_info B fd s = Inr info"
    and walk: "snapshot_walk B fd s (2 * unat (ms_max_entries info) + 1) None [] = Inr es"
    by (auto simp: snapshot_pin_def split: sum.splits)
  obtain shape rows where m: "bv_map V s fd = (shape, rows)" by fastforce
  note reads = map_reads [OF m]
  obtain ks where ks: "distinct ks" "set ks = dom rows" "walks (\<lambda>key. bo_get_next_key B fd key s) None ks" using reads(4) by blast
  have "length ks < 2 * unat (ms_max_entries info) + 1"
    using reads(2) reads(3) [OF info] distinct_card [OF ks(1)] ks(2) by simp
  from snapshot_walk_reads [OF ks(3,1) this reads(5,6) _ _ _ walk] ks(2)
  have "sorted_wrt (<) (map fst es)" "set es = {(k, the (rows k)) | k. k \<in> dom rows}" by simp_all
  then have "es = map_entries rows" by (intro entries_unique) auto
  then show ?thesis using pin_reads(3) [OF fd] m by auto
qed

lemma walk_returns:
  assumes "walks (\<lambda>key. bo_get_next_key B fd key s) key ks"
    and "\<And>k errno. bo_get_next_key B fd k s = Inl errno \<Longrightarrow> errno = Some ENOENT"
    and "\<And>k errno. bo_lookup_elem B fd k s = Inl errno \<Longrightarrow> errno = Some ENOENT"
  shows "\<exists>es. snapshot_walk B fd s n key out = Inr es"
  using assms(1)
proof (induction n arbitrary: key ks out)
  case (Suc n)
  show ?case
  proof (cases ks)
    case Nil
    then show ?thesis using Suc.prems assms(2) by auto
  next
    case (Cons k ks')
    then have "bo_get_next_key B fd key s = Inr k" "walks (\<lambda>key. bo_get_next_key B fd key s) (Some k) ks'"
      using Suc.prems assms(2) by auto
    then show ?thesis using Suc.IH assms(3) by (cases "bo_lookup_elem B fd k s") auto
  qed
qed simp

lemma bpffs_pin_store: "pin_store_ok (bpffs_pins B V dir)"
  unfolding pin_store_ok_def
proof (intro conjI allI impI)
  fix n s r assume "ps_shape (bpffs_pins B V dir) n s = Inr r"
  then show "r = map_option fst (ps_pins (bpffs_pins B V dir) s n)"
    using pin_reads(1,2) by (fastforce simp: bpffs_pins_def bpffs_shape_def Let_def split: if_splits sum.splits)
next
  fix n s es assume "ps_snapshot (bpffs_pins B V dir) n s = Inr es"
  then show "map_option snd (ps_pins (bpffs_pins B V dir) s n) = Some es"
    using snapshot_exact by (fastforce simp: bpffs_pins_def)
next
  fix n s
  obtain removed s' where r: "bo_remove_file B (pin_path dir n) s = (removed, s')" by fastforce
  show "ps_pins (bpffs_pins B V dir) (snd (ps_remove (bpffs_pins B V dir) n s)) =
      (if fst (ps_remove (bpffs_pins B V dir) n s) = None then (ps_pins (bpffs_pins B V dir) s)(n := None)
       else ps_pins (bpffs_pins B V dir) s)"
    using remove_file_view [OF r] by (auto simp: bpffs_pins_def bpffs_remove_def r fun_eq_iff)
next
  fix a b s
  show "ps_pins (bpffs_pins B V dir) (snd (ps_repin (bpffs_pins B V dir) a b s)) \<in>
      (if fst (ps_repin (bpffs_pins B V dir) a b s) = None
       then {(ps_pins (bpffs_pins B V dir) s)(b := ps_pins (bpffs_pins B V dir) s a, a := None)}
       else {ps_pins (bpffs_pins B V dir) s, (ps_pins (bpffs_pins B V dir) s)(b := ps_pins (bpffs_pins B V dir) s a)})"
  proof (cases "bo_from_pin B (pin_path dir a) s")
    case (Inl e)
    then show ?thesis by (simp add: bpffs_pins_def bpffs_repin_def)
  next
    case (Inr fd)
    obtain pinned s1 where p: "bo_pin B fd (pin_path dir b) s = (pinned, s1)" by fastforce
    obtain removed s2 where r: "bo_remove_file B (pin_path dir a) s1 = (removed, s2)" by fastforce
    have a: "bv_pins V s (pin_path dir a) = Some fd" using pin_reads(3) [OF Inr] .
    show ?thesis
      using pin_view [OF p] remove_file_view [OF r] a
      by (cases pinned; cases removed) (auto simp: bpffs_pins_def bpffs_repin_def Inr p r fun_eq_iff)
  qed
qed

end

section \<open>A file system in memory\<close>

text \<open>Maps by number, with the rows that fit; the moves fail as scheduled.\<close>

record mem_bpffs =
  mk_pins :: "(string \<times> nat) list"
  mk_maps :: "nat \<Rightarrow> map_shape \<times> entry list"
  mk_faults :: "bool list"

definition mk_rows :: "mem_bpffs \<Rightarrow> nat \<Rightarrow> entry list" where
  "mk_rows m fd = take (unat (ms_max_entries (fst (mk_maps m fd)))) (snd (mk_maps m fd))"

definition next_in :: "bytes list \<Rightarrow> bytes option \<Rightarrow> int option + bytes" where
  "next_in ks key =
     (case (case key of None \<Rightarrow> ks | Some k \<Rightarrow> (case dropWhile (\<lambda>x. x \<noteq> k) ks of [] \<Rightarrow> ks | _ # later \<Rightarrow> later)) of
        [] \<Rightarrow> Inl (Some ENOENT)
      | k # _ \<Rightarrow> Inr k)"

definition mk_fault :: "mem_bpffs \<Rightarrow> bool \<times> mem_bpffs" where
  "mk_fault m = (case mk_faults m of [] \<Rightarrow> (False, m) | b # bs \<Rightarrow> (b, m\<lparr>mk_faults := bs\<rparr>))"

definition mem_bpffs_ops :: "(mem_bpffs, nat) bpffs_ops" where
  "mem_bpffs_ops =
     (let opened = (\<lambda>path m. case map_of (mk_pins m) path of None \<Rightarrow> Inl PinError | Some fd \<Rightarrow> Inr fd)
      in \<lparr>bo_exists = \<lambda>path m. map_of (mk_pins m) path \<noteq> None,
          bo_info_of_pin = \<lambda>path m. (case opened path m of Inl e \<Rightarrow> Inl e | Inr fd \<Rightarrow> Inr (fst (mk_maps m fd))),
          bo_from_pin = opened, bo_info = \<lambda>fd m. Inr (fst (mk_maps m fd)),
          bo_get_next_key = \<lambda>fd key m. next_in (remdups (map fst (mk_rows m fd))) key,
          bo_lookup_elem = \<lambda>fd k m. (case map_of (mk_rows m fd) k of None \<Rightarrow> Inl (Some ENOENT) | Some v \<Rightarrow> Inr v),
          bo_remove_file = \<lambda>path m.
            (case mk_fault m of
               (True, m) \<Rightarrow> (False, m)
             | (False, m) \<Rightarrow> (True, m\<lparr>mk_pins := filter (\<lambda>p. fst p \<noteq> path) (mk_pins m)\<rparr>)),
          bo_pin = \<lambda>fd path m.
            (case mk_fault m of
               (True, m) \<Rightarrow> (False, m)
             | (False, m) \<Rightarrow> if map_of (mk_pins m) path \<noteq> None then (False, m) else (True, m\<lparr>mk_pins := (path, fd) # mk_pins m\<rparr>))\<rparr>)"

definition mem_bpffs_view :: "(mem_bpffs, nat) bpffs_view" where
  "mem_bpffs_view = \<lparr>bv_pins = \<lambda>m. map_of (mk_pins m), bv_map = \<lambda>m fd. (fst (mk_maps m fd), map_of (mk_rows m fd))\<rparr>"

lemma next_in_walks:
  "distinct (ks @ later) \<Longrightarrow> walks (next_in (ks @ later)) (if ks = [] then None else Some (last ks)) later"
proof (induction later arbitrary: ks)
  case Nil
  show ?case
  proof (cases ks rule: rev_cases)
    case (snoc xs x)
    then have "\<forall>y \<in> set xs. y \<noteq> x" using Nil by auto
    then show ?thesis using snoc by (simp add: next_in_def)
  qed (simp add: next_in_def)
next
  case (Cons k later)
  have tail: "walks (next_in (ks @ k # later)) (Some k) later" using Cons.IH [of "ks @ [k]"] Cons.prems by simp
  show ?case
  proof (cases ks rule: rev_cases)
    case (snoc xs x)
    then have "\<forall>y \<in> set xs. y \<noteq> x" using Cons.prems by auto
    then have "next_in (ks @ k # later) (Some x) = Inr k" using snoc by (simp add: next_in_def)
    then show ?thesis using tail snoc by simp
  next
    case Nil
    have "next_in (k # later) None = Inr k" by (simp add: next_in_def)
    then show ?thesis using tail Nil by simp
  qed
qed

lemma mk_fault_state: "mk_fault m = (b, m') \<Longrightarrow> mk_pins m' = mk_pins m \<and> mk_maps m' = mk_maps m"
  by (auto simp: mk_fault_def split: list.splits)

lemma mem_bpffs_ok: "bpffs_ok mem_bpffs_ops mem_bpffs_view"
proof -
  have "map_reads_ok mem_bpffs_ops mem_bpffs_view"
    unfolding map_reads_ok_def
  proof (intro allI)
    fix fd m
    let ?rows = "mk_rows m fd" and ?ks = "remdups (map fst (mk_rows m fd))"
    have "card (dom (map_of ?rows)) \<le> length ?rows"
      by (simp add: dom_map_of_conv_image_fst) (metis card_image_le card_length finite_set le_trans)
    then have card: "card (dom (map_of ?rows)) \<le> unat (ms_max_entries (fst (mk_maps m fd)))" by (simp add: mk_rows_def)
    have walk: "\<exists>ks. distinct ks \<and> set ks = dom (map_of ?rows) \<and> walks (next_in ?ks) None ks"
      using next_in_walks [of "[]" ?ks] by (intro exI [of _ ?ks]) (simp add: dom_map_of_conv_image_fst)
    show "case bv_map mem_bpffs_view m fd of (shape, rows) \<Rightarrow>
        finite (dom rows) \<and> card (dom rows) \<le> unat (ms_max_entries shape)
        \<and> (\<forall>info. bo_info mem_bpffs_ops fd m = Inr info \<longrightarrow> info = shape)
        \<and> (\<exists>ks. distinct ks \<and> set ks = dom rows \<and> walks (\<lambda>key. bo_get_next_key mem_bpffs_ops fd key m) None ks)
        \<and> (\<forall>k v. bo_lookup_elem mem_bpffs_ops fd k m = Inr v \<longrightarrow> rows k = Some v)
        \<and> (\<forall>k. bo_lookup_elem mem_bpffs_ops fd k m = Inl (Some ENOENT) \<longrightarrow> rows k = None)"
      using card walk by (simp add: mem_bpffs_view_def mem_bpffs_ops_def finite_dom_map_of Let_def split: option.split)
  qed
  moreover have "pin_reads_ok mem_bpffs_ops mem_bpffs_view"
    by (auto simp: pin_reads_ok_def mem_bpffs_view_def mem_bpffs_ops_def Let_def split: option.splits)
  moreover have "pin_writes_ok mem_bpffs_ops mem_bpffs_view"
    unfolding pin_writes_ok_def
    by (auto simp: mem_bpffs_view_def mem_bpffs_ops_def Let_def mk_rows_def map_of_drop_key fun_eq_iff
        split: prod.splits bool.splits dest!: mk_fault_state)
  ultimately show ?thesis by (simp add: bpffs_ok_def)
qed

interpretation mem_kernel: bpffs_kernel mem_bpffs_ops mem_bpffs_view
  by unfold_locales (rule mem_bpffs_ok)

interpretation bpffs: pin_provider "bpffs_pins mem_bpffs_ops mem_bpffs_view dir" for dir
  by unfold_locales (rule mem_kernel.bpffs_pin_store)

section \<open>Properties\<close>

text \<open>C31. The program's own pin store keeps the contract of the \<open>PinStore\<close> trait, whichever of its calls fail: shapes and
  snapshots are those of the pinned map, removing changes one name, and a re-pin that fails leaves the old name in
  place. The bounded key walk of a snapshot is long enough: when no call fails it returns, with every entry of the map.\<close>

theorem bpffs_keeps_pin_contract:
  assumes "bpffs_ok B V"
  shows "pin_store_ok (bpffs_pins B V dir)
    \<and> (\<forall>s name fd. bo_from_pin B (pin_path dir name) s = Inr fd \<and> bo_info B fd s \<in> range Inr
         \<and> (\<forall>key errno. bo_get_next_key B fd key s = Inl errno \<longrightarrow> errno = Some ENOENT)
         \<and> (\<forall>k errno. bo_lookup_elem B fd k s = Inl errno \<longrightarrow> errno = Some ENOENT) \<longrightarrow>
         snapshot_pin B (pin_path dir name) s = Inr (map_entries (snd (bv_map V s fd))))"
proof (intro conjI allI impI; (elim conjE)?)
  have k: "bpffs_kernel B V" using assms by (rule bpffs_kernel.intro)
  show "pin_store_ok (bpffs_pins B V dir)" by (rule bpffs_kernel.bpffs_pin_store [OF k])
  fix s name fd
  assume fd: "bo_from_pin B (pin_path dir name) s = Inr fd" and i: "bo_info B fd s \<in> range Inr"
    and n: "\<forall>key errno. bo_get_next_key B fd key s = Inl errno \<longrightarrow> errno = Some ENOENT"
    and l: "\<forall>k errno. bo_lookup_elem B fd k s = Inl errno \<longrightarrow> errno = Some ENOENT"
  from i obtain info where info: "bo_info B fd s = Inr info" by auto
  obtain shape rows where m: "bv_map V s fd = (shape, rows)" by fastforce
  obtain ks where ks: "walks (\<lambda>key. bo_get_next_key B fd key s) None ks" using bpffs_kernel.map_reads(4) [OF k m] by blast
  have "\<exists>es. snapshot_walk B fd s (2 * unat (ms_max_entries info) + 1) None [] = Inr es"
    by (rule bpffs_kernel.walk_returns [OF k ks]) (use n l in blast)+
  then obtain es where "snapshot_pin B (pin_path dir name) s = Inr es" by (auto simp: snapshot_pin_def fd info)
  moreover from bpffs_kernel.snapshot_exact [OF k this] bpffs_kernel.pin_reads(3) [OF k fd]
  have "es = map_entries (snd (bv_map V s fd))" by auto
  ultimately show "snapshot_pin B (pin_path dir name) s = Inr (map_entries (snd (bv_map V s fd)))" by simp
qed

definition bx_shape :: map_shape where
  "bx_shape = \<lparr>ms_type = BPF_MAP_TYPE_HASH_ID, ms_key_size = 1, ms_value_size = 1, ms_max_entries = 4, ms_flags = 0\<rparr>"

definition bx_disk :: mem_bpffs where
  "bx_disk = \<lparr>mk_pins = [(pin_path ''/p'' ''POD_TARGETS'', 0)], mk_maps = (\<lambda>_. (bx_shape, [([3], [1]), ([2], [1])])), mk_faults = []\<rparr>"

theorem bpffs_keeps_pin_contract_witness:
  "pin_store_ok (bpffs_pins mem_bpffs_ops mem_bpffs_view ''/p'')
   \<and> ps_snapshot (bpffs_pins mem_bpffs_ops mem_bpffs_view ''/p'') ''POD_TARGETS'' bx_disk = Inr [([2], [1]), ([3], [1])]"
proof -
  note r = bpffs_keeps_pin_contract [OF mem_bpffs_ok, of "''/p''"]
  have fd: "bo_from_pin mem_bpffs_ops (pin_path ''/p'' ''POD_TARGETS'') bx_disk = Inr 0"
    and info: "bo_info mem_bpffs_ops 0 bx_disk \<in> range Inr"
    by (simp_all add: mem_bpffs_ops_def bx_disk_def Let_def)
  have next_key: "errno = Some ENOENT" if "bo_get_next_key mem_bpffs_ops fd key bx_disk = Inl errno" for fd key errno
    using that by (auto simp: mem_bpffs_ops_def next_in_def Let_def split: list.splits)
  have look: "errno = Some ENOENT" if "bo_lookup_elem mem_bpffs_ops fd k bx_disk = Inl errno" for fd k errno
    using that by (auto simp: mem_bpffs_ops_def Let_def split: option.splits)
  have rows: "snd (bv_map mem_bpffs_view bx_disk 0) = [[3] \<mapsto> [1], [2] \<mapsto> [1]]"
    by (auto simp: mem_bpffs_view_def bx_disk_def mk_rows_def bx_shape_def fun_eq_iff)
  have "map_entries [[3] \<mapsto> [1], [2] \<mapsto> [1]] = [([2 :: u8], [1 :: u8]), ([3], [1])]"
    by (rule entries_unique [symmetric]) (auto split: if_splits)
  with r [THEN conjunct2, THEN spec [of _ bx_disk], THEN spec [of _ "''POD_TARGETS''"], THEN spec [of _ 0]] fd info next_key look r [THEN conjunct1]
  show ?thesis by (simp add: rows) (simp add: bpffs_pins_def)
qed

end
