(* ===== verification/Load_Ebpf.thy ===== *)
theory Load_Ebpf
  imports Bpffs Interfaces
begin

text \<open>
  \<open>load_ebpf\<close> of \<open>src/lib.rs\<close>: from the pins an earlier version left to maps of the requested shapes that hold their
  entries. The parsed object, loading it with aya and the element writes of the restore are parameters; the pins are
  those of a \<open>PinStore\<close>, the state of all of them.
\<close>

section \<open>Requested shapes\<close>

datatype load_error =
    LegacyPins start_error | ObjectUnparsed | MapMissing string | PinsFailed pin_error | ObjectNotLoaded
  | FaultBeforeRestore | RestoreFailed restore_failure | UnparkFailed pin_error

text \<open>The map definitions of the object, with the sizes that are overridden.\<close>

definition requested_shape :: "(string \<times> u32) list \<Rightarrow> string \<Rightarrow> map_shape \<Rightarrow> map_shape" where
  "requested_shape max_entries name m =
     (case List.find (\<lambda>(n, _). n = name) max_entries of None \<Rightarrow> m | Some (_, v) \<Rightarrow> m\<lparr>ms_max_entries := v\<rparr>)"

primrec shapes_of :: "(string \<rightharpoonup> map_shape) \<Rightarrow> (string \<times> u32) list \<Rightarrow> string list \<Rightarrow> load_error + (string \<times> map_shape) list" where
  "shapes_of maps max_entries [] = Inr []"
| "shapes_of maps max_entries (name # names) =
     (case maps name of
        None \<Rightarrow> Inl (MapMissing name)
      | Some m \<Rightarrow>
     (case shapes_of maps max_entries names of
        Inl e \<Rightarrow> Inl e
      | Inr shapes \<Rightarrow> Inr ((name, requested_shape max_entries name m) # shapes)))"

definition requested_shapes ::
  "(string \<rightharpoonup> map_shape) option \<Rightarrow> (string \<times> u32) list \<Rightarrow> load_error + (string \<times> map_shape) list" where
  "requested_shapes object max_entries =
     (case object of None \<Rightarrow> Inl ObjectUnparsed | Some maps \<Rightarrow> shapes_of maps max_entries MAP_NAMES)"

section \<open>The load\<close>

record map_sizes =
  sz_fwd_pending :: u32
  sz_flow_table :: u32
  sz_front_meta :: u32
  sz_front_endpoints :: u32
  sz_node_allow :: u32
  sz_pod_targets :: u32

definition size_overrides :: "map_sizes \<Rightarrow> (string \<times> u32) list" where
  "size_overrides z =
     [(''FWD_PENDING'', sz_fwd_pending z), (''FLOW_TABLE'', sz_flow_table z), (''FRONT_META'', sz_front_meta z),
      (''FRONT_ENDPOINTS'', sz_front_endpoints z), (''NODE_ALLOW'', sz_node_allow z), (''POD_TARGETS'', sz_pod_targets z)]"

text \<open>What the load calls: the pin store, removing a file, aya's loader, and the writes of the restore. \<open>ld_fault\<close> says
  whether the environment asks to stop before the restore.\<close>

record 's loader =
  ld_pins :: "'s pin_store"
  ld_remove_file :: "string \<Rightarrow> 's \<Rightarrow> remove_result \<times> 's"
  ld_object :: "(string \<rightharpoonup> map_shape) option"
  ld_load :: "(string \<times> map_shape) list \<Rightarrow> 's \<Rightarrow> bool \<times> 's"
  ld_write :: "'s entry_writer"
  ld_fault :: bool

definition load_ebpf :: "'s loader \<Rightarrow> string \<Rightarrow> map_sizes \<Rightarrow> 's \<Rightarrow> load_error option \<times> 's" where
  "load_ebpf D pin_dir sizes s =
     (case remove_legacy_map_pins (ld_remove_file D) pin_dir s of
        (Inl e, s) \<Rightarrow> (Some (LegacyPins e), s)
      | (Inr _, s) \<Rightarrow>
     (case requested_shapes (ld_object D) (size_overrides sizes) of
        Inl e \<Rightarrow> (Some e, s)
      | Inr requested \<Rightarrow>
     (case recreate_mismatched_pins (ld_pins D) requested s of
        (Inl e, s) \<Rightarrow> (Some (PinsFailed e), s)
      | (Inr recreated, s) \<Rightarrow>
     (let parked = map rc_name (filter rc_parked recreated)
      in case ld_load D requested s of
        (False, s) \<Rightarrow> (Some ObjectNotLoaded, s)
      | (True, s) \<Rightarrow>
          if parked \<noteq> [] \<and> ld_fault D then (Some FaultBeforeRestore, s)
          else
     (case restore_migrated (ld_write D) recreated requested s of
        (Some f, s) \<Rightarrow> (Some (RestoreFailed f), s)
      | (None, s) \<Rightarrow>
     (case unpark_migrated (ld_pins D) parked s of
        (Some e, s) \<Rightarrow> (Some (UnparkFailed e), s)
      | (None, s) \<Rightarrow> (None, s)))))))"

section \<open>What the calls promise\<close>

text \<open>Removing a file takes away at most the pin it is.\<close>

definition remove_file_ok :: "'s loader \<Rightarrow> string \<Rightarrow> bool" where
  "remove_file_ok D pin_dir \<longleftrightarrow> (\<forall>name s a. a \<noteq> name \<longrightarrow>
     ps_pins (ld_pins D) (snd (ld_remove_file D (pin_dir @ ''/'' @ name) s)) a = ps_pins (ld_pins D) s a)"

text \<open>aya reuses a map that is pinned, whatever its shape, and pins a new one where there is none.\<close>

definition load_ok :: "'s loader \<Rightarrow> bool" where
  "load_ok D \<longleftrightarrow> (\<forall>requested s loaded s'. distinct (map fst requested) \<and> ld_load D requested s = (loaded, s') \<longrightarrow>
     (\<forall>a. ps_pins (ld_pins D) s a \<noteq> None \<or> a \<notin> fst ` set requested \<longrightarrow> ps_pins (ld_pins D) s' a = ps_pins (ld_pins D) s a)
     \<and> (\<forall>n w. loaded \<and> (n, w) \<in> set requested \<and> ps_pins (ld_pins D) s n = None \<longrightarrow>
          (\<exists>es. ps_pins (ld_pins D) s' n = Some (w, es))))"

text \<open>The rows of the map pinned under a name. A write of the restore fills a gap of the named map, which is pinned since
  the load, and changes no shape.\<close>

definition pin_rows :: "'s pin_store \<Rightarrow> 's \<Rightarrow> string \<Rightarrow> bytes \<rightharpoonup> bytes" where
  "pin_rows S s name = (case ps_pins S s name of None \<Rightarrow> Map.empty | Some (_, es) \<Rightarrow> map_of es)"

definition write_ok :: "'s loader \<Rightarrow> bool" where
  "write_ok D \<longleftrightarrow> entry_writer_ok (ld_write D) (pin_rows (ld_pins D))
     \<and> (\<forall>name e s a. map_option fst (ps_pins (ld_pins D) (snd (ld_write D name e BPF_NOEXIST s)) a)
          = map_option fst (ps_pins (ld_pins D) s a))"

definition loader_ok :: "'s loader \<Rightarrow> string \<Rightarrow> bool" where
  "loader_ok D pin_dir \<longleftrightarrow> pin_store_ok (ld_pins D) \<and> remove_file_ok D pin_dir \<and> load_ok D \<and> write_ok D
     \<and> (\<forall>a s. ps_pins (ld_pins D) s a \<noteq> None \<longrightarrow> (\<exists>es. ps_snapshot (ld_pins D) a s = Inr es))"

end
