(* ===== verification/Load_Props.thy ===== *)
theory Load_Props
  imports Load_Ebpf
begin

text \<open>
  A start carries the entries of the maps it keeps or migrates through every call of \<open>load_ebpf\<close>, and a start that
  succeeds has them in maps of the requested shapes.
\<close>

section \<open>Names\<close>

lemma MAP_NAMES_distinct: "distinct MAP_NAMES"
  by (simp add: MAP_NAMES_def)

lemma MAP_NAMES_apart:
  assumes "a \<in> set MAP_NAMES" "b \<in> set MAP_NAMES"
  shows "a \<noteq> migrating_name b" "a \<notin> set LEGACY_MAP_PINS" "migrating_name a \<notin> set LEGACY_MAP_PINS"
proof -
  have "\<forall>a \<in> set MAP_NAMES. \<forall>b \<in> set MAP_NAMES. a \<noteq> migrating_name b"
    "\<forall>a \<in> set MAP_NAMES. a \<notin> set LEGACY_MAP_PINS \<and> migrating_name a \<notin> set LEGACY_MAP_PINS"
    by (simp_all add: MAP_NAMES_def LEGACY_MAP_PINS_def migrating_name_def MIGRATING_SUFFIX_def)
  with assms show "a \<noteq> migrating_name b" "a \<notin> set LEGACY_MAP_PINS" "migrating_name a \<notin> set LEGACY_MAP_PINS" by blast+
qed

lemma shapes_of_names: "shapes_of maps z names = Inr requested \<Longrightarrow> map fst requested = names"
  by (induction names arbitrary: requested) (auto split: option.splits sum.splits)

lemma requested_names: "requested_shapes object z = Inr requested \<Longrightarrow> map fst requested = MAP_NAMES"
  by (auto simp: requested_shapes_def dest: shapes_of_names split: option.splits)

section \<open>The pins before the load\<close>

lemma legacy_frame:
  assumes "remove_file_ok D pin_dir" "remove_pins (ld_remove_file D) pin_dir names s = (r, s')" "a \<notin> set names"
  shows "ps_pins (ld_pins D) s' a = ps_pins (ld_pins D) s a"
  using assms(2,3)
proof (induction names arbitrary: s r)
  case (Cons name names)
  obtain x s1 where x: "ld_remove_file D (pin_dir @ ''/'' @ name) s = (x, s1)" by fastforce
  have "ps_pins (ld_pins D) s1 a = ps_pins (ld_pins D) s a"
    using assms(1) [unfolded remove_file_ok_def, rule_format, of a name s] Cons.prems(2) x by simp
  moreover have "s' = s1 \<or> (\<exists>r. remove_pins (ld_remove_file D) pin_dir names s1 = (r, s'))"
    using Cons.prems(1) x by (cases x) (auto simp: Let_def split: prod.splits sum.splits)
  ultimately show ?case using Cons.IH Cons.prems(2) by auto
qed simp

lemma decided_fate_cong:
  assumes "\<And>n. n \<in> fst ` set requested \<Longrightarrow> p n = q n \<and> p (migrating_name n) = q (migrating_name n)" "fst req \<in> fst ` set requested"
  shows "decided_fate p requested req = decided_fate q requested req"
proof -
  have src: "view_source p n w = view_source q n w" if "n \<in> fst ` set requested" for n w
    using assms(1) [OF that] by (simp add: view_source_def)
  then have "view_fates p requested = view_fates q requested" by (force simp: view_fates_def)
  then show ?thesis using src [OF assms(2)] by (simp add: decided_fate_def view_coupled_def)
qed

context pin_provider
begin

text \<open>One round of a loop that ends well: the map is passed over, or moved and recorded.\<close>

lemma loop_round:
  assumes "recreate_loop S coupled ((n, src, w) # items) (acc, s) = (Inr recreated, s')"
  obtains (passed) "src = None \<or> (\<exists>origin ex f. src = Some (origin, ex, f) \<and> coupled_fate coupled n f = Keep)"
      "recreate_loop S coupled items (acc, s) = (Inr recreated, s')"
  | (moved) origin ex f snp t where "src = Some (origin, ex, f)" "coupled_fate coupled n f \<noteq> Keep"
      "snp = (if coupled_fate coupled n f = Migrate
              then ok (ps_snapshot S (case origin of Plain \<Rightarrow> n | Migrating \<Rightarrow> migrating_name n) s) else None)"
      "move_pin S n origin w (snp \<noteq> None) s = (None, t)"
      "recreate_loop S coupled items (acc @ [\<lparr>rc_name = n, rc_snapshot = snp, rc_parked = (snp \<noteq> None)\<rparr>], t) = (Inr recreated, s')"
proof (cases src)
  case None
  then show ?thesis using assms passed by simp
next
  case (Some x)
  obtain origin ex f where x: "x = (origin, ex, f)" by (cases x)
  define snp where "snp = (if coupled_fate coupled n f = Migrate
    then ok (ps_snapshot S (case origin of Plain \<Rightarrow> n | Migrating \<Rightarrow> migrating_name n) s) else None)"
  obtain e t where t: "move_pin S n origin w (snp \<noteq> None) s = (e, t)" by fastforce
  have run: "recreate_loop S coupled ((n, src, w) # items) (acc, s) =
      (if coupled_fate coupled n f = Keep then recreate_loop S coupled items (acc, s)
       else case e of Some err \<Rightarrow> (Inl err, t)
         | None \<Rightarrow> recreate_loop S coupled items (acc @ [\<lparr>rc_name = n, rc_snapshot = snp, rc_parked = (snp \<noteq> None)\<rparr>], t))"
    using t unfolding snp_def by (cases e) (simp_all add: Some x Let_def del: not_None_eq cong: if_cong)
  show ?thesis
  proof (cases "coupled_fate coupled n f = Keep")
    case True
    then show ?thesis using passed assms run Some x by simp
  next
    case False
    then have "e = None" using assms run by (cases e) auto
    then show ?thesis using moved [OF Some [unfolded x] False snp_def] t assms run False by simp
  qed
qed

text \<open>What the loop records of a map it parks is what the parked pin holds.\<close>

lemma loop_records:
  assumes "recreate_loop S coupled items (acc, s) = (Inr recreated, s')" "distinct (map fst items)"
    and "\<And>a b. a \<in> fst ` set items \<Longrightarrow> b \<in> fst ` set items \<Longrightarrow> a \<noteq> migrating_name b"
    and "\<And>n src w. (n, src, w) \<in> set items \<Longrightarrow> src = view_source (ps_pins S s) n w"
  shows "\<exists>later. recreated = acc @ later \<and> set (map rc_name later) \<subseteq> fst ` set items
    \<and> (\<forall>c \<in> set later. if rc_parked c
         then \<exists>es. rc_snapshot c = Some es \<and> map_option snd (ps_pins S s' (migrating_name (rc_name c))) = Some es
         else rc_snapshot c = None)"
  using assms
proof (induction items arbitrary: acc s)
  case (Cons item items)
  obtain n src w where item: "item = (n, src, w)" by (cases item)
  have tail: "n \<notin> fst ` set items" "distinct (map fst items)" using Cons.prems(2) by (auto simp: item)
  have sep: "a \<noteq> migrating_name b" if "a = n \<or> a \<in> fst ` set items" "b = n \<or> b \<in> fst ` set items" for a b
    using Cons.prems(3) [of a b] that by (auto simp: item)
  have src: "src = view_source (ps_pins S s) n w" using Cons.prems(4) [of n src w] by (simp add: item)
  from Cons.prems(1) [unfolded item] show ?case
  proof (cases rule: loop_round)
    case passed
    have srcs: "src' = view_source (ps_pins S s) n' w'" if "(n', src', w') \<in> set items" for n' src' w'
      using Cons.prems(4) that by simp
    have sep': "a \<noteq> migrating_name b" if "a \<in> fst ` set items" "b \<in> fst ` set items" for a b using sep that by blast
    from Cons.IH [OF passed(2) tail(2) sep' srcs] obtain later where "recreated = acc @ later"
      "set (map rc_name later) \<subseteq> fst ` set items"
      "\<forall>c \<in> set later. if rc_parked c
         then \<exists>es. rc_snapshot c = Some es \<and> map_option snd (ps_pins S s' (migrating_name (rc_name c))) = Some es
         else rc_snapshot c = None" by blast
    then show ?thesis by (intro exI [of _ later]) auto
  next
    case (moved origin ex f snp t)
    note x = moved(1) and mv = moved(4)
    define pin where "pin = (case origin of Plain \<Rightarrow> n | Migrating \<Rightarrow> migrating_name n)"
    define c where "c = \<lparr>rc_name = n, rc_snapshot = snp, rc_parked = (snp \<noteq> None)\<rparr>"
    have snp_def: "snp = (if coupled_fate coupled n f = Migrate then ok (ps_snapshot S pin s) else None)"
      using moved(3) by (simp only: pin_def)
    have rest: "recreate_loop S coupled items (acc @ [c], t) = (Inr recreated, s')" using moved(5) unfolding c_def .
    have frame: "ps_pins S t k = ps_pins S s k" if "k \<noteq> n" "k \<noteq> migrating_name n" for k
      using move_frame [OF that, of origin w "snp \<noteq> None" s] mv by simp
    have "src' = view_source (ps_pins S t) n' w'" if "(n', src', w') \<in> set items" for n' src' w'
    proof -
      have n': "n' \<in> fst ` set items" using that by force
      then have "n' \<noteq> n" "n' \<noteq> migrating_name n" "migrating_name n' \<noteq> n" using tail(1) sep [of n' n] sep [of n n'] by auto
      then show ?thesis using Cons.prems(4) [of n' src' w'] that frame [of n'] frame [of "migrating_name n'"]
        by (simp add: view_source_def item)
    qed
    from Cons.IH [OF rest tail(2) _ this] sep obtain later where later: "recreated = (acc @ [c]) @ later"
      "set (map rc_name later) \<subseteq> fst ` set items"
      "\<forall>c \<in> set later. if rc_parked c
         then \<exists>es. rc_snapshot c = Some es \<and> map_option snd (ps_pins S s' (migrating_name (rc_name c))) = Some es
         else rc_snapshot c = None" by blast
    have "\<exists>es. snp = Some es \<and> map_option snd (ps_pins S s' (migrating_name n)) = Some es" if "snp \<noteq> None"
    proof -
      from that obtain es where es: "snp = Some es" "ps_snapshot S pin s = Inr es"
        by (auto simp: snp_def ok_eq_Some_iff split: if_splits)
      have "carried (ps_pins S s) n = Some es"
        using snapshot_pins [OF es(2)] src x
        by (cases origin) (auto simp: pin_def carried_def view_source_def pin_source_def split: option.splits)
      then have "map_option snd (ps_pins S t (migrating_name n)) = Some es"
        using move_keeps(2) [OF src [symmetric, unfolded x]] mv es(1) by simp
      moreover have apart: "migrating_name n \<noteq> m \<and> migrating_name n \<noteq> migrating_name m" if "m \<in> fst ` set items" for m
        using sep [of m n] that tail(1) by auto
      have "ps_pins S s' (migrating_name n) = ps_pins S t (migrating_name n)"
        using loop_frame [of items "migrating_name n" coupled "acc @ [c]" t, OF apart] rest by simp
      ultimately show ?thesis using es(1) by simp
    qed
    then show ?thesis using later by (intro exI [of _ "c # later"]) (auto simp: c_def item)
  qed
qed simp

text \<open>Every map to migrate is recorded, as parked.\<close>

lemma loop_records_all:
  assumes "recreate_loop S coupled items (acc, s) = (Inr recreated, s')" "c \<in> set acc"
  shows "c \<in> set recreated"
  using assms
proof (induction items arbitrary: acc s)
  case (Cons item items)
  obtain n src w where item: "item = (n, src, w)" by (cases item)
  from Cons.prems(1) [unfolded item] show ?case
    by (cases rule: loop_round) (use Cons.IH Cons.prems(2) in auto)
qed simp

lemma loop_parks:
  assumes "recreate_loop S coupled items (acc, s) = (Inr recreated, s')"
    and "(n, Some (origin, ex, f), w) \<in> set items" "coupled_fate coupled n f = Migrate"
    and "view_source (ps_pins S s) n w = Some (origin, ex, f)" "distinct (map fst items)"
    and "\<And>a b. a \<in> fst ` set items \<Longrightarrow> b \<in> fst ` set items \<Longrightarrow> a \<noteq> migrating_name b"
    and snap: "\<And>a t. ps_pins S t a \<noteq> None \<Longrightarrow> \<exists>es. ps_snapshot S a t = Inr es"
  shows "\<exists>c \<in> set recreated. rc_name c = n \<and> rc_parked c"
  using assms(1-6)
proof (induction items arbitrary: acc s)
  case (Cons item items)
  obtain n0 src0 w0 where item: "item = (n0, src0, w0)" by (cases item)
  have sep: "a \<noteq> migrating_name b" if "a = n0 \<or> a \<in> fst ` set items" "b = n0 \<or> b \<in> fst ` set items" for a b
    using Cons.prems(6) [of a b] that by (auto simp: item)
  show ?case
  proof (cases "n0 = n")
    case True
    then have it: "src0 = Some (origin, ex, f)" "w0 = w" using Cons.prems(2,5) by (force simp: item image_iff)+
    let ?pin = "case origin of Plain \<Rightarrow> n | Migrating \<Rightarrow> migrating_name n"
    have "ps_pins S s ?pin \<noteq> None"
      using Cons.prems(4) by (auto simp: view_source_def pin_source_def split: option.splits)
    then obtain es where es: "ps_snapshot S ?pin s = Inr es" using snap by blast
    let ?c = "\<lparr>rc_name = n, rc_snapshot = Some es, rc_parked = True\<rparr>"
    from Cons.prems(1) [unfolded item it True] show ?thesis
    proof (cases rule: loop_round)
      case passed
      then show ?thesis using Cons.prems(3) by simp
    next
      case (moved origin' ex' f' snp t)
      then have "snp = Some es" using Cons.prems(3) es by simp
      then have "recreate_loop S coupled items (acc @ [?c], t) = (Inr recreated, s')" using moved(5) by simp
      from loop_records_all [OF this, of ?c] show ?thesis by force
    qed
  next
    case False
    then have mem: "(n, Some (origin, ex, f), w) \<in> set items" using Cons.prems(2) by (auto simp: item)
    then have nin: "n \<in> fst ` set items" by force
    have apart: "n \<noteq> n0" "n \<noteq> migrating_name n0" "migrating_name n \<noteq> n0"
      using False sep [of n n0] sep [of n0 n] nin by auto
    obtain acc' t where run: "recreate_loop S coupled items (acc', t) = (Inr recreated, s')"
      and t: "t = s \<or> (\<exists>o0 b e. move_pin S n0 o0 w0 b s = (e, t))"
      using Cons.prems(1) [unfolded item] by (cases rule: loop_round) blast+
    have "ps_pins S t k = ps_pins S s k" if "k \<noteq> n0" "k \<noteq> migrating_name n0" for k
      using t move_frame [OF that] by (metis snd_conv)
    then have "view_source (ps_pins S t) n w = Some (origin, ex, f)"
      using Cons.prems(4) apart by (simp add: view_source_def)
    from Cons.IH [OF run mem Cons.prems(3) this] Cons.prems(5) sep show ?thesis by (auto simp: item)
  qed
qed simp

lemma unpark_frame:
  assumes "unpark_migrated S names s = (r, s')" "a \<notin> migrating_name ` set names"
  shows "ps_pins S s' a = ps_pins S s a"
  using assms
proof (induction names arbitrary: s)
  case (Cons name names)
  obtain e t where e: "ps_remove S (migrating_name name) s = (e, t)" by fastforce
  have "ps_pins S t a = ps_pins S s a" using remove_pins [of "migrating_name name" s] Cons.prems(2) e by auto
  then show ?case using Cons.IH [of t] Cons.prems e by (cases e) auto
qed simp

lemma unpark_pins:
  assumes "unpark_migrated S names s = (r, s')"
  shows "ps_pins S s' a = ps_pins S s a \<or> ps_pins S s' a = None"
  using assms
proof (induction names arbitrary: s)
  case (Cons name names)
  obtain e t where e: "ps_remove S (migrating_name name) s = (e, t)" by fastforce
  have "ps_pins S t a = ps_pins S s a \<or> ps_pins S t a = None" using remove_pins [of "migrating_name name" s] e by auto
  moreover have "s' = t \<or> unpark_migrated S names t = (r, s')" using Cons.prems e by (cases e) auto
  ultimately show ?case using Cons.IH [of t] by metis
qed simp

text \<open>A kept map is not touched.\<close>

lemma loop_unmoved:
  assumes "recreate_loop S coupled items (acc, s) = (Inr recreated, s')"
    and "\<And>m src w. (m, src, w) \<in> set items \<Longrightarrow> k \<noteq> m \<and> k \<noteq> migrating_name m
      \<or> (\<exists>origin ex f. src = Some (origin, ex, f) \<and> coupled_fate coupled m f = Keep)"
  shows "ps_pins S s' k = ps_pins S s k"
  using assms
proof (induction items arbitrary: acc s)
  case (Cons item items)
  obtain n src w where item: "item = (n, src, w)" by (cases item)
  have rest: "k \<noteq> m \<and> k \<noteq> migrating_name m \<or> (\<exists>origin ex f. src = Some (origin, ex, f) \<and> coupled_fate coupled m f = Keep)"
    if "(m, src, w) \<in> set items" for m src w using Cons.prems(2) [of m src w] that by simp
  from Cons.prems(1) [unfolded item] show ?case
  proof (cases rule: loop_round)
    case passed
    then show ?thesis using Cons.IH rest by blast
  next
    case (moved origin ex f snp t)
    then have "k \<noteq> n" "k \<noteq> migrating_name n" using Cons.prems(2) [of n src w] by (auto simp: item)
    then have "ps_pins S t k = ps_pins S s k" using move_frame [of k n origin w "snp \<noteq> None" s] moved(4) by simp
    then show ?thesis using Cons.IH [OF moved(5) rest] by simp
  qed
qed simp

end

section \<open>The writes of the restore\<close>

definition pins_grown :: "'s pin_store \<Rightarrow> 's \<Rightarrow> 's \<Rightarrow> bool" where
  "pins_grown S s s' \<longleftrightarrow> (\<forall>a. map_option fst (ps_pins S s' a) = map_option fst (ps_pins S s a) \<and> pin_rows S s a \<subseteq>\<^sub>m pin_rows S s' a)"

lemma pins_grown_refl [simp]: "pins_grown S s s"
  by (simp add: pins_grown_def)

lemma pins_grown_trans: "pins_grown S s t \<Longrightarrow> pins_grown S t u \<Longrightarrow> pins_grown S s u"
  unfolding pins_grown_def by (metis map_le_trans)

lemma pins_grown_dom: "pins_grown S s t \<Longrightarrow> dom (pin_rows S s a) \<subseteq> dom (pin_rows S t a)"
  by (simp add: pins_grown_def map_le_implies_dom_le)

locale pin_writer = gap_writer wr "pin_rows S" for wr :: "'s entry_writer" and S :: "'s pin_store" +
  assumes keeps_shapes: "map_option fst (ps_pins S (snd (wr name e BPF_NOEXIST s)) a) = map_option fst (ps_pins S s a)"
begin

lemma write_all_shapes:
  "map_option fst (ps_pins S (snd (snd (write_all wr name es acc))) a) = map_option fst (ps_pins S (snd acc) a)"
proof (induction es arbitrary: acc)
  case (Cons e es)
  obtain fs s where acc: "acc = (fs, s)" by (cases acc)
  obtain r t where r: "wr name e BPF_NOEXIST s = (r, t)" by fastforce
  have "map_option fst (ps_pins S t a) = map_option fst (ps_pins S s a)" using keeps_shapes [of name e s a] r by simp
  then show ?case using Cons.IH [of "(_, t)"] by (simp add: acc r Let_def split_beta)
qed simp

lemma write_all_grown:
  assumes "write_all wr name es (fs, s) = (flags, fs', s')"
  shows "pins_grown S s s'"
proof -
  have "pin_rows S s a \<subseteq>\<^sub>m pin_rows S s' a" for a using write_all_effect [OF assms] by (cases "a = name") simp_all
  then show ?thesis using write_all_shapes [of name es "(fs, s)"] assms by (simp add: pins_grown_def)
qed

lemma write_all_done:
  assumes "write_all wr name es (fs, s) = (flags, [], s')"
  shows "fs = [] \<and> fst ` set es \<subseteq> dom (pin_rows S s' name)"
proof -
  have all: "fs = [] \<and> list_all (\<lambda>b. b) flags" using assms
  proof (induction es arbitrary: fs s flags)
    case (Cons e es)
    obtain r t where r: "wr name e BPF_NOEXIST s = (r, t)" by fastforce
    obtain fs1 flags1 where tl: "write_all wr name es (fs1, t) = (flags1, [], s')" "flags = write_landed r # flags1"
      "fs1 = (case r of Some errno \<Rightarrow> if \<not> write_landed r then fs @ [\<lparr>wf_map = name, wf_errno = errno\<rparr>] else fs | None \<Rightarrow> fs)"
      using Cons.prems by (auto simp: r Let_def split: prod.splits)
    from Cons.IH [OF tl(1)] tl(2,3) show ?case by (cases r) (auto simp: write_landed_def split: if_splits)
  qed simp
  have "k \<in> dom (pin_rows S s' name)" if "(k, v) \<in> set es" for k v
  proof -
    from that obtain i where i: "i < length es" "es ! i = (k, v)" by (auto simp: in_set_conv_nth)
    then have "flags ! i" using all write_all_effect [OF assms] by (simp add: list_all_length)
    then show ?thesis using write_all_effect [OF assms] i by fastforce
  qed
  then show ?thesis using all by force
qed

lemma write_generic_grown:
  assumes "write_generic wr items (fs, s) = (fs', s')"
  shows "pins_grown S s s' \<and> (fs' = [] \<longrightarrow> fs = [] \<and> (\<forall>item \<in> set items. fst ` set (snd item) \<subseteq> dom (pin_rows S s' (fst item))))"
  using assms
proof (induction items arbitrary: fs s)
  case (Cons item items)
  obtain flags fs1 t where w: "write_all wr (fst item) (snd item) (fs, s) = (flags, fs1, t)" by (metis prod_cases3)
  note ih = Cons.IH [of fs1 t]
  have run: "write_generic wr items (fs1, t) = (fs', s')" using Cons.prems by (simp add: w)
  have later: "pins_grown S t s'" using ih [OF run] ..
  have "fs = [] \<and> (\<forall>i \<in> set (item # items). fst ` set (snd i) \<subseteq> dom (pin_rows S s' (fst i)))" if "fs' = []"
  proof -
    have rest: "fs1 = []" "\<forall>i \<in> set items. fst ` set (snd i) \<subseteq> dom (pin_rows S s' (fst i))" using ih [OF run] that by simp_all
    then have "fs = []" "fst ` set (snd item) \<subseteq> dom (pin_rows S t (fst item))" using write_all_done w by simp_all
    then show ?thesis using rest(2) pins_grown_dom [OF later, of "fst item"] by simp
  qed
  then show ?case using pins_grown_trans [OF write_all_grown [OF w] later] by simp
qed simp

lemma write_rows_grown:
  assumes "write_rows wr fronts (fs, s) = (landed, fs', s')"
  shows "pins_grown S s s' \<and> (fs' = [] \<longrightarrow> fs = [])"
  using assms
proof (induction fronts arbitrary: fs s landed)
  case (Cons front fronts)
  obtain flags fs1 t where w: "write_all wr FRONT_ENDPOINTS_NAME (fy_rows front) (fs, s) = (flags, fs1, t)" by (metis prod_cases3)
  obtain landed1 where run: "write_rows wr fronts (fs1, t) = (landed1, fs', s')"
    using Cons.prems by (auto simp: w split: prod.splits)
  have "fs1 = [] \<longrightarrow> fs = []" using write_all_done [of FRONT_ENDPOINTS_NAME "fy_rows front" fs s flags t] w by auto
  then show ?case using pins_grown_trans [OF write_all_grown [OF w]] Cons.IH [OF run] by simp
qed simp

lemma apply_plan_grown:
  assumes "apply_plan wr plan s = (r, s')"
  shows "pins_grown S s s' \<and> (r = None \<longrightarrow> (\<forall>item \<in> set (rp_generic plan). fst ` set (snd item) \<subseteq> dom (pin_rows S s' (fst item))))"
proof -
  obtain fs1 t where g: "write_generic wr (rp_generic plan) ([], s) = (fs1, t)" by fastforce
  note G = write_generic_grown [OF g]
  obtain landed fs2 u where w: "write_rows wr (rp_fronts plan) (fs1, t) = (landed, fs2, u)" by (metis prod_cases3)
  let ?metas = "map (\<lambda>(f, _). fy_meta f) (filter (\<lambda>(_, b). b) (zip (rp_fronts plan) landed))"
  obtain flags fs3 v where m: "write_all wr FRONT_META_NAME ?metas (fs2, u) = (flags, fs3, v)" by (metis prod_cases3)
  have ends: "if rp_fronts plan = [] then s' = t \<and> (r = None \<longrightarrow> fs1 = []) else s' = v \<and> (r = None \<longrightarrow> fs3 = [])"
    using assms by (auto simp add: apply_plan_def g w m simp del: take_Suc_Cons split: list.splits if_splits)
  have late: "pins_grown S t v" using pins_grown_trans [OF _ write_all_grown [OF m]] write_rows_grown [OF w] by simp
  have "fs3 = [] \<longrightarrow> fs2 = []" using write_all_done [of FRONT_META_NAME ?metas fs2 u flags v] m by auto
  then have "fs3 = [] \<longrightarrow> fs1 = []" using write_rows_grown [OF w] by simp
  then have fine: "pins_grown S t s'" "r = None \<longrightarrow> fs1 = []" using ends late by (simp_all split: if_splits)
  then have "fst ` set (snd item) \<subseteq> dom (pin_rows S s' (fst item))" if "r = None" "item \<in> set (rp_generic plan)" for item
  proof -
    have "fst ` set (snd item) \<subseteq> dom (pin_rows S t (fst item))" using G fine(2) that by simp
    then show ?thesis using pins_grown_dom [OF fine(1)] by (rule order_trans)
  qed
  then show ?thesis using pins_grown_trans [OF _ fine(1)] G by simp
qed

end

lemma sort_snapshots_mono:
  "set (rp_generic (fst acc)) \<subseteq> set (rp_generic (fst (sort_snapshots cap snaps acc)))"
  by (induction cap snaps acc rule: sort_snapshots.induct) (auto simp: Let_def)

lemma sort_snapshots_generic:
  assumes "(n, es) \<in> set snaps" "n \<noteq> FRONT_META_NAME" "n \<noteq> FRONT_ENDPOINTS_NAME"
  shows "(n, take (unat (cap n)) es) \<in> set (rp_generic (fst (sort_snapshots cap snaps acc)))"
  using assms(1)
proof (induction cap snaps acc rule: sort_snapshots.induct)
  case (2 cap name entries snaps plan metas endpoints)
  show ?case
  proof (cases "(n, es) = (name, entries)")
    case True
    show ?thesis using sort_snapshots_mono [THEN subsetD] True assms(2,3) by (simp add: Let_def)
  next
    case False
    then show ?thesis using 2 by (auto simp: Let_def)
  qed
qed simp

lemma plan_restore_generic:
  assumes "(n, es) \<in> set snaps" "n \<noteq> FRONT_META_NAME" "n \<noteq> FRONT_ENDPOINTS_NAME" "length es \<le> unat (cap n)"
  shows "(n, es) \<in> set (rp_generic (plan_restore cap snaps))"
  using sort_snapshots_generic [OF assms(1-3), of cap "(\<lparr>rp_generic = [], rp_fronts = [], rp_losses = []\<rparr>, [], [])"] assms(4)
  by (auto simp: plan_restore_def Let_def split: prod.splits)

section \<open>One map through the load\<close>

text \<open>The map \<open>n\<close> once the pins are moved: it is parked and recorded with the entries it had, or pinned under its name.\<close>

definition moved_state :: "'s pin_store \<Rightarrow> string \<Rightarrow> map_shape \<Rightarrow> entry list \<Rightarrow> recreated list \<Rightarrow> 's \<Rightarrow> bool" where
  "moved_state S n w es recreated s \<longleftrightarrow> carried (ps_pins S s) n = Some es
     \<and> (\<forall>sh es'. ps_pins S s n = Some (sh, es') \<longrightarrow> map_shape_mismatches sh w = [])
     \<and> (ps_pins S s (migrating_name n) \<noteq> None \<longrightarrow> (\<exists>c \<in> set recreated. rc_name c = n \<and> rc_snapshot c = Some es))"

definition holds_keys :: "'s pin_store \<Rightarrow> 's \<Rightarrow> string \<Rightarrow> bytes set \<Rightarrow> bool" where
  "holds_keys S s n K \<longleftrightarrow> (\<exists>es. carried (ps_pins S s) n = Some es \<and> K \<subseteq> fst ` set es)"

lemma pin_rows_dom: "ps_pins S s a = Some (sh, es) \<Longrightarrow> dom (pin_rows S s a) = fst ` set es"
  by (simp add: pin_rows_def dom_map_of_conv_image_fst)

lemma holds_keys_iff:
  "holds_keys S s n K \<longleftrightarrow>
     (if ps_pins S s (migrating_name n) = None then ps_pins S s n \<noteq> None \<and> K \<subseteq> dom (pin_rows S s n)
      else K \<subseteq> dom (pin_rows S s (migrating_name n)))"
  by (auto simp: holds_keys_def carried_def pin_rows_def dom_map_of_conv_image_fst split: option.splits)

lemma pins_grown_holds:
  assumes "pins_grown S s t" "holds_keys S s n K"
  shows "holds_keys S t n K"
proof -
  have "ps_pins S t a = None \<longleftrightarrow> ps_pins S s a = None" for a using assms(1) by (metis pins_grown_def map_option_is_None)
  then show ?thesis
    using assms(2) subset_trans [OF _ pins_grown_dom [OF assms(1), of n]] subset_trans [OF _ pins_grown_dom [OF assms(1), of "migrating_name n"]]
    by (simp add: holds_keys_iff del: not_None_eq split: if_splits)
qed

lemma moved_holds: "moved_state S n w es recreated s \<Longrightarrow> holds_keys S s n (fst ` set es)"
  by (auto simp: moved_state_def holds_keys_def)

lemma map_shape_mismatches_refl [simp]: "map_shape_mismatches w w = []"
  by (simp add: map_shape_mismatches_def)

context pin_provider
begin

lemma recreate_run:
  assumes "recreate_mismatched_pins S requested s = (Inr recreated, s')"
  shows "recreate_loop S (view_coupled (ps_pins S s) requested) (view_fates (ps_pins S s) requested) ([], s) = (Inr recreated, s')"
proof -
  obtain fates where "pin_fates S s requested = Inr fates"
    using assms by (cases "pin_fates S s requested") (simp_all add: recreate_mismatched_pins_def)
  then show ?thesis using assms pin_fates_view by (simp add: recreate_mismatched_pins_def view_coupled_def)
qed

lemma view_fates_names: "map fst (view_fates p requested) = map fst requested" "fst ` set (view_fates p requested) = fst ` set requested"
proof -
  show "map fst (view_fates p requested) = map fst requested" by (auto simp: view_fates_def)
  then show "fst ` set (view_fates p requested) = fst ` set requested" by (metis list.set_map)
qed

lemma recreate_names:
  assumes "distinct (map fst requested)" "\<And>a b. a \<in> fst ` set requested \<Longrightarrow> b \<in> fst ` set requested \<Longrightarrow> a \<noteq> migrating_name b"
    and "recreate_mismatched_pins S requested s = (Inr recreated, s')"
  shows "rc_name ` set recreated \<subseteq> fst ` set requested"
proof -
  have "src = view_source (ps_pins S s) m v" if "(m, src, v) \<in> set (view_fates (ps_pins S s) requested)" for m src v
    using that by (auto simp: view_fates_def)
  then show ?thesis
    using loop_records [OF recreate_run [OF assms(3)]] assms(1,2) unfolding view_fates_names append_Nil by auto
qed

lemma recreate_moved:
  assumes snap: "\<And>a t. ps_pins S t a \<noteq> None \<Longrightarrow> \<exists>es. ps_snapshot S a t = Inr es"
    and "distinct (map fst requested)" "\<And>a b. a \<in> fst ` set requested \<Longrightarrow> b \<in> fst ` set requested \<Longrightarrow> a \<noteq> migrating_name b"
    and "(n, w) \<in> set requested" "decided_fate (ps_pins S s) requested (n, w) = Some f" "f \<noteq> RecreateEmpty"
    and "n \<noteq> FRONT_META_NAME" "n \<noteq> FRONT_ENDPOINTS_NAME"
    and "carried (ps_pins S s) n = Some es" "recreate_mismatched_pins S requested s = (Inr recreated, s')"
  shows "moved_state S n w es recreated s'"
proof -
  let ?fates = "view_fates (ps_pins S s) requested" and ?coupled = "view_coupled (ps_pins S s) requested"
  note run = recreate_run [OF assms(10)]
  have dist: "distinct (map fst ?fates)" unfolding view_fates_names by (rule assms(2))
  have sep: "a \<noteq> migrating_name b" if "a \<in> fst ` set ?fates" "b \<in> fst ` set ?fates" for a b
    using assms(3) that unfolding view_fates_names .
  obtain origin ex where src: "view_source (ps_pins S s) n w = Some (origin, ex, f)"
    using assms(5,7,8) by (auto simp: decided_fate_def coupled_fate_def)
  have cf: "coupled_fate ?coupled n f = f" using assms(7,8) by (simp add: coupled_fate_def)
  have mem: "(n, Some (origin, ex, f), w) \<in> set ?fates" using assms(4) src by (force simp: view_fates_def)
  have ks: "keeps S (f = Migrate) n w s (Inr recreated, s')"
    using loop_item [OF mem [folded src] dist sep snap src, of ?coupled "[]"] cf assms(6) run by simp
  show ?thesis
  proof (cases "f = Migrate")
    case True
    have "\<exists>c \<in> set recreated. rc_name c = n \<and> rc_parked c"
      using loop_parks [OF run mem _ src dist sep snap] cf True by simp
    then obtain c where c: "c \<in> set recreated" "rc_name c = n" "rc_parked c" by blast
    have srcs: "src = view_source (ps_pins S s) m v" if "(m, src, v) \<in> set ?fates" for m src v
      using that by (auto simp: view_fates_def)
    have "if rc_parked c then \<exists>es. rc_snapshot c = Some es \<and> map_option snd (ps_pins S s' (migrating_name (rc_name c))) = Some es
        else rc_snapshot c = None" using loop_records [OF run dist sep srcs] c(1) unfolding append_Nil by blast
    with c(3) obtain es' where "rc_snapshot c = Some es'" "map_option snd (ps_pins S s' (migrating_name (rc_name c))) = Some es'"
      by auto
    then have "rc_snapshot c = Some es" using ks True c(2) assms(9) by (auto simp: keeps_def)
    then show ?thesis using ks True c(1,2) assms(9) unfolding moved_state_def keeps_def snd_conv fst_conv by auto
  next
    case False
    then have keep: "f = Keep" using assms(6) by (cases f) simp_all
    have still: "k \<noteq> m \<and> k \<noteq> migrating_name m \<or> (\<exists>origin ex f. src = Some (origin, ex, f) \<and> coupled_fate ?coupled m f = Keep)"
      if k: "k = n \<or> k = migrating_name n" and it: "(m, src, v) \<in> set ?fates" for k m src v
    proof (cases "m = n")
      case True
      then have "src = Some (origin, ex, f)" using it mem dist by (metis eq_key_imp_eq_value prod.inject)
      then show ?thesis using cf keep True by simp
    next
      case False
      have "m \<in> fst ` set ?fates" "n \<in> fst ` set ?fates" using it mem by force+
      then show ?thesis using k False sep [of m n] sep [of n m] by auto
    qed
    have same: "ps_pins S s' n = ps_pins S s n" "ps_pins S s' (migrating_name n) = ps_pins S s (migrating_name n)"
      by (rule loop_unmoved [OF run still]; simp)+
    have "ps_pins S s (migrating_name n) = None" "\<exists>es'. ps_pins S s n = Some (ex, es')" "map_shape_mismatches ex w = []"
      using src keep by (auto simp: view_source_def pin_source_def pin_fate_def split: option.splits fate.splits if_splits)
    then show ?thesis using ks same assms(9) by (auto simp: moved_state_def keeps_def)
  qed
qed

end

lemma restore_done:
  assumes "pin_writer wr S" "restore_migrated wr recreated requested s = (r, s')"
  shows "pins_grown S s s' \<and> (r = None \<longrightarrow> (\<forall>c \<in> set recreated. \<forall>es. rc_snapshot c = Some es
    \<and> rc_name c \<noteq> FRONT_META_NAME \<and> rc_name c \<noteq> FRONT_ENDPOINTS_NAME \<and> length es \<le> unat (plan_cap requested (rc_name c))
    \<longrightarrow> fst ` set es \<subseteq> dom (pin_rows S s' (rc_name c))))"
proof (cases "snapshots_of recreated = []")
  case True
  then have "rc_snapshot c \<noteq> Some es" if "c \<in> set recreated" for c es
    using snapshots_of_iff [of "rc_name c" es recreated] that by auto
  moreover have "s' = s" using assms(2) True by (simp add: restore_migrated_def snapshots_of_def Let_def)
  ultimately show ?thesis by auto
next
  case False
  let ?plan = "plan_restore (plan_cap requested) (snapshots_of recreated)"
  have run: "apply_plan wr ?plan s = (r, s')"
    using assms(2) False by (simp add: restore_migrated_def snapshots_of_def plan_cap_def [abs_def] Let_def)
  note G = pin_writer.apply_plan_grown [OF assms(1) run]
  have "fst ` set es \<subseteq> dom (pin_rows S s' (rc_name c))"
    if "r = None" "c \<in> set recreated" "rc_snapshot c = Some es" "rc_name c \<noteq> FRONT_META_NAME" "rc_name c \<noteq> FRONT_ENDPOINTS_NAME"
      "length es \<le> unat (plan_cap requested (rc_name c))" for c es
  proof -
    have "(rc_name c, es) \<in> set (rp_generic ?plan)"
      using that snapshots_of_iff [of "rc_name c" es recreated] by (intro plan_restore_generic) auto
    with G [THEN conjunct2] that(1) have "fst ` set (snd (rc_name c, es)) \<subseteq> dom (pin_rows S s' (fst (rc_name c, es)))" by blast
    then show ?thesis by simp
  qed
  then show ?thesis using G by blast
qed

text \<open>From the moved pins to the end of the load.\<close>

definition finished :: "'s pin_store \<Rightarrow> string \<Rightarrow> map_shape \<Rightarrow> bytes set \<Rightarrow> 's \<Rightarrow> bool" where
  "finished S n w K s \<longleftrightarrow> (\<exists>sh es. ps_pins S s n = Some (sh, es) \<and> map_shape_mismatches sh w = [] \<and> K \<subseteq> fst ` set es)"

lemma load_moved:
  assumes "load_ok D" "ld_load D requested s = (loaded, t)" "moved_state (ld_pins D) n w es recreated s"
    and "(n, w) \<in> set requested" "migrating_name n \<notin> fst ` set requested" "distinct (map fst requested)"
  shows "carried (ps_pins (ld_pins D) t) n = Some es"
    and "loaded \<Longrightarrow> moved_state (ld_pins D) n w es recreated t \<and> ps_pins (ld_pins D) t n \<noteq> None"
proof -
  let ?p = "ps_pins (ld_pins D)"
  have kept: "?p t a = ?p s a" if "?p s a \<noteq> None \<or> a \<notin> fst ` set requested" for a
    using assms(1,2,6) that unfolding load_ok_def by blast
  have parked: "?p t (migrating_name n) = ?p s (migrating_name n)" using kept assms(5) by blast
  have car: "carried (?p s) n = Some es" using assms(3) by (simp add: moved_state_def)
  show "carried (?p t) n = Some es"
  proof (cases "?p s (migrating_name n)")
    case None
    then have "?p s n \<noteq> None" using car by (auto simp: carried_def)
    then show ?thesis using car kept [of n] parked None by (simp add: carried_def)
  next
    case (Some x)
    then show ?thesis using car parked by (simp add: carried_def)
  qed
  moreover have "?p t n \<noteq> None \<and> (\<forall>sh es'. ?p t n = Some (sh, es') \<longrightarrow> map_shape_mismatches sh w = [])" if loaded
  proof (cases "?p s n")
    case None
    then have "\<exists>es. ?p t n = Some (w, es)" using assms(1,2,4,6) that unfolding load_ok_def by blast
    then show ?thesis by auto
  next
    case (Some x)
    then show ?thesis using kept [of n] assms(3) by (simp add: moved_state_def)
  qed
  ultimately show "moved_state (ld_pins D) n w es recreated t \<and> ?p t n \<noteq> None" if loaded
    using assms(3) parked that by (simp add: moved_state_def del: not_None_eq)
qed

lemma restore_moved:
  assumes "pin_writer (ld_write D) (ld_pins D)" "restore_migrated (ld_write D) recreated requested s = (r, t)"
    and "moved_state (ld_pins D) n w es recreated s" "ps_pins (ld_pins D) s n \<noteq> None"
    and "n \<noteq> FRONT_META_NAME" "n \<noteq> FRONT_ENDPOINTS_NAME" "length es \<le> unat (plan_cap requested n)"
  shows "holds_keys (ld_pins D) t n (fst ` set es)" "r = None \<Longrightarrow> finished (ld_pins D) n w (fst ` set es) t"
proof -
  let ?S = "ld_pins D" and ?K = "fst ` set es"
  note R = restore_done [OF assms(1,2)]
  have g: "pins_grown ?S s t" using R ..
  show "holds_keys ?S t n ?K" by (rule pins_grown_holds [OF g moved_holds [OF assms(3)]])
  show "finished ?S n w ?K t" if "r = None"
  proof -
    have "?K \<subseteq> dom (pin_rows ?S t n)"
    proof (cases "ps_pins ?S s (migrating_name n) = None")
      case True
      then have "?K \<subseteq> dom (pin_rows ?S s n)" using moved_holds [OF assms(3)] by (simp add: holds_keys_iff)
      then show ?thesis using pins_grown_dom [OF g] by (rule subset_trans)
    next
      case False
      then obtain c where "c \<in> set recreated" "rc_name c = n" "rc_snapshot c = Some es"
        using assms(3) unfolding moved_state_def by blast
      then show ?thesis using R that assms(5-7) by blast
    qed
    moreover obtain sh es0 where "ps_pins ?S s n = Some (sh, es0)" using assms(4) by force
    moreover have "map_option fst (ps_pins ?S t n) = map_option fst (ps_pins ?S s n)" using g by (simp add: pins_grown_def)
    ultimately obtain es1 where "ps_pins ?S t n = Some (sh, es1)" "map_shape_mismatches sh w = []" "?K \<subseteq> dom (pin_rows ?S t n)"
      using assms(3) by (auto simp: moved_state_def)
    then show ?thesis using pin_rows_dom [of ?S t n sh es1] by (auto simp: finished_def)
  qed
qed

lemma unpark_finished:
  assumes "pin_provider S" "unpark_migrated S names s = (r, t)" "n \<notin> migrating_name ` set names"
    and "finished S n w K s" "holds_keys S s n K"
  shows "finished S n w K t \<and> holds_keys S t n K"
proof -
  have same: "ps_pins S t n = ps_pins S s n" by (rule pin_provider.unpark_frame [OF assms(1-3)])
  have parked: "ps_pins S t (migrating_name n) = ps_pins S s (migrating_name n) \<or> ps_pins S t (migrating_name n) = None"
    by (rule pin_provider.unpark_pins [OF assms(1,2)])
  have "K \<subseteq> dom (pin_rows S t n)" using assms(4) same pin_rows_dom by (fastforce simp: finished_def)
  moreover have "ps_pins S t n \<noteq> None" using assms(4) same by (auto simp: finished_def)
  moreover have "pin_rows S t (migrating_name n) = pin_rows S s (migrating_name n)"
    if "ps_pins S t (migrating_name n) = ps_pins S s (migrating_name n)" using that by (simp add: pin_rows_def)
  ultimately have "holds_keys S t n K" using assms(5) parked by (auto simp: holds_keys_iff split: if_splits)
  then show ?thesis using assms(4) same by (simp add: finished_def)
qed

section \<open>Properties\<close>

lemma loader_okD:
  assumes "loader_ok D pin_dir"
  shows "pin_store_ok (ld_pins D)" "pin_provider (ld_pins D)" "remove_file_ok D pin_dir" "load_ok D" "pin_writer (ld_write D) (ld_pins D)"
    and "\<forall>a s. ps_pins (ld_pins D) s a \<noteq> None \<longrightarrow> (\<exists>es. ps_snapshot (ld_pins D) a s = Inr es)"
proof -
  show "pin_provider (ld_pins D)" using assms by unfold_locales (simp add: loader_ok_def)
  show "pin_writer (ld_write D) (ld_pins D)"
    using assms unfolding loader_ok_def write_ok_def by unfold_locales (elim conjE; simp only:)+
  show "pin_store_ok (ld_pins D)" "remove_file_ok D pin_dir" "load_ok D"
    "\<forall>a s. ps_pins (ld_pins D) s a \<noteq> None \<longrightarrow> (\<exists>es. ps_snapshot (ld_pins D) a s = Inr es)"
    using assms unfolding loader_ok_def by - (elim conjE; assumption)+
qed

text \<open>Once the pins are moved, the map is held through the load, the restore and the unparking.\<close>

lemma load_after_recreate:
  assumes ok: "loader_ok D pin_dir" and names: "distinct (map fst requested)" "migrating_name n \<notin> fst ` set requested"
      "n \<notin> migrating_name ` set parked"
    and n: "(n, w) \<in> set requested" "n \<noteq> FRONT_META_NAME" "n \<noteq> FRONT_ENDPOINTS_NAME" "length es \<le> unat (ms_max_entries w)"
    and moved: "moved_state (ld_pins D) n w es recreated s"
    and run: "(case ld_load D requested s of
        (False, s) \<Rightarrow> (Some ObjectNotLoaded, s)
      | (True, s) \<Rightarrow>
          if parked \<noteq> [] \<and> ld_fault D then (Some FaultBeforeRestore, s)
          else
     (case restore_migrated (ld_write D) recreated requested s of
        (Some f, s) \<Rightarrow> (Some (RestoreFailed f), s)
      | (None, s) \<Rightarrow>
     (case unpark_migrated (ld_pins D) parked s of
        (Some e, s) \<Rightarrow> (Some (UnparkFailed e), s)
      | (None, s) \<Rightarrow> (None, s)))) = (r, s')"
  shows "holds_keys (ld_pins D) s' n (fst ` set es) \<and> (r = None \<longrightarrow> finished (ld_pins D) n w (fst ` set es) s')"
proof -
  let ?S = "ld_pins D" and ?K = "fst ` set es"
  obtain loaded t where t: "ld_load D requested s = (loaded, t)" by fastforce
  note L = load_moved [OF loader_okD(4) [OF ok] t moved n(1) names(2,1)]
  have held: "holds_keys ?S t n ?K" using L(1) by (auto simp: holds_keys_def)
  obtain f u where f: "restore_migrated (ld_write D) recreated requested t = (f, u)" by fastforce
  obtain e v where e: "unpark_migrated ?S parked u = (e, v)" by fastforce
  consider "s' = t" "r \<noteq> None" | "loaded" "s' = u" "r \<noteq> None" | "loaded" "f = None" "s' = v"
    using run by (auto simp: t f e split: bool.splits if_splits option.splits)
  then show ?thesis
  proof cases
    case 1
    then show ?thesis using held by auto
  next
    case 2
    note M = L(2) [OF 2(1)]
    have cap: "length es \<le> unat (plan_cap requested n)" using n(1,4) names(1) by (simp add: plan_cap_def)
    from restore_moved(1) [OF loader_okD(5) [OF ok] f conjunct1 [OF M] conjunct2 [OF M] n(2,3) cap] show ?thesis using 2 by auto
  next
    case 3
    note M = L(2) [OF 3(1)]
    have cap: "length es \<le> unat (plan_cap requested n)" using n(1,4) names(1) by (simp add: plan_cap_def)
    note R = restore_moved [OF loader_okD(5) [OF ok] f conjunct1 [OF M] conjunct2 [OF M] n(2,3) cap]
    show ?thesis using unpark_finished [OF loader_okD(2) [OF ok] e names(3) R(2) [OF 3(2)] R(1)] 3(3) by simp
  qed
qed


text \<open>An in-memory loader. \<open>NODE_ALLOW\<close> is pinned with room for four rows and is asked to hold eight.\<close>

definition mem_loader :: "string \<Rightarrow> mem_pins loader" where
  "mem_loader pin_dir =
     \<lparr>ld_pins = mem_store,
      ld_remove_file = \<lambda>path m. (Removed, m\<lparr>mp_pins := filter (\<lambda>q. pin_dir @ ''/'' @ fst q \<noteq> path) (mp_pins m)\<rparr>),
      ld_object = Some (\<lambda>_. Some (ex_shape 8)),
      ld_load = \<lambda>requested m. (True, m\<lparr>mp_pins := mp_pins m @ map (\<lambda>(n, w). (n, w, [])) requested\<rparr>),
      ld_write = \<lambda>name e fl m. (case map_of (mp_pins m) name of
          None \<Rightarrow> (Some (Some ENOENT), m)
        | Some (sh, es) \<Rightarrow>
            if map_of es (fst e) \<noteq> None then (Some (Some EEXIST), m)
            else if length es \<ge> unat (ms_max_entries sh) then (Some (Some E2BIG), m)
            else (None, mp_put name (Some (sh, e # es)) m)),
      ld_fault = False\<rparr>"

lemma mem_writer_ok: "entry_writer_ok (ld_write (mem_loader pin_dir)) (pin_rows mem_store)"
  "map_option fst (ps_pins mem_store (snd (ld_write (mem_loader pin_dir) name e fl m)) a) = map_option fst (ps_pins mem_store m a)"
  by (auto simp: entry_writer_ok_def mem_loader_def mem_store_def pin_rows_def mp_put_pins fun_eq_iff EEXIST_def ENOENT_def E2BIG_def
      split: option.split)

interpretation memp: pin_writer "ld_write (mem_loader pin_dir)" mem_store
  by unfold_locales (rule mem_writer_ok)+

lemma mem_load_ok: "load_ok (mem_loader pin_dir)"
  unfolding load_ok_def
proof (intro allI impI conjI; elim conjE)
  fix requested :: "(string \<times> map_shape) list" and m m' :: mem_pins and loaded a
  assume run: "ld_load (mem_loader pin_dir) requested m = (loaded, m')" and d: "distinct (map fst requested)"
  then have m': "map_of (mp_pins m') = map_of (map (\<lambda>(n, w). (n, w, [])) requested) ++ map_of (mp_pins m)"
    by (auto simp: mem_loader_def)
  have new: "map_of (map (\<lambda>(n, w). (n, w, [])) requested) n = map_option (\<lambda>w. (w, [])) (map_of requested n)" for n
    by (induction requested) auto
  show "ps_pins (ld_pins (mem_loader pin_dir)) m' a = ps_pins (ld_pins (mem_loader pin_dir)) m a"
    if "ps_pins (ld_pins (mem_loader pin_dir)) m a \<noteq> None \<or> a \<notin> fst ` set requested"
    using that map_of_eq_None_iff [of requested a]
    by (cases "map_of (mp_pins m) a") (auto simp: mem_loader_def mem_store_def m' new map_add_def)
  show "\<exists>es. ps_pins (ld_pins (mem_loader pin_dir)) m' n = Some (w, es)"
    if "(n, w) \<in> set requested" "ps_pins (ld_pins (mem_loader pin_dir)) m n = None" for n w
    using that d by (auto simp: mem_loader_def mem_store_def m' new map_add_def)
qed

lemma mem_loader_ok: "loader_ok (mem_loader pin_dir) pin_dir"
  unfolding loader_ok_def write_ok_def
proof (intro conjI allI impI)
  show "pin_store_ok (ld_pins (mem_loader pin_dir))" using mem_store_ok by (simp add: mem_loader_def)
  show "load_ok (mem_loader pin_dir)" by (rule mem_load_ok)
  show "remove_file_ok (mem_loader pin_dir) pin_dir"
    by (auto simp: remove_file_ok_def mem_loader_def mem_store_def map_of_filter_in map_of_drop_key)
  show "entry_writer_ok (ld_write (mem_loader pin_dir)) (pin_rows (ld_pins (mem_loader pin_dir)))"
    using mem_writer_ok(1) [of pin_dir] by (simp add: mem_loader_def)
  show "map_option fst (ps_pins (ld_pins (mem_loader pin_dir)) (snd (ld_write (mem_loader pin_dir) name e BPF_NOEXIST s)) a)
      = map_option fst (ps_pins (ld_pins (mem_loader pin_dir)) s a)" for name e s a
    using mem_writer_ok(2) [of pin_dir name e BPF_NOEXIST s a] by (simp add: mem_loader_def)
  show "\<exists>es. ps_snapshot (ld_pins (mem_loader pin_dir)) a s = Inr es" if "ps_pins (ld_pins (mem_loader pin_dir)) s a \<noteq> None" for a s
    using that by (auto simp: mem_loader_def mem_store_def)
qed

definition ex_sizes :: map_sizes where
  "ex_sizes = \<lparr>sz_fwd_pending = 8, sz_flow_table = 8, sz_front_meta = 8, sz_front_endpoints = 8, sz_node_allow = 8, sz_pod_targets = 8\<rparr>"

definition ex_start :: mem_pins where
  "ex_start = \<lparr>mp_pins = [(''NODE_ALLOW'', ex_shape 4, [([1], [2])])], mp_faults = []\<rparr>"

definition ex_requested :: "(string \<times> map_shape) list" where
  "ex_requested = map (\<lambda>n. (n, ex_shape 8)) MAP_NAMES"

lemma ex_requested_shapes: "requested_shapes (ld_object (mem_loader ''/p'')) (size_overrides ex_sizes) = Inr ex_requested"
  by (simp add: requested_shapes_def mem_loader_def ex_requested_def MAP_NAMES_def requested_shape_def size_overrides_def ex_sizes_def ex_shape_def)

lemma ex_fate: "decided_fate (ps_pins (ld_pins (mem_loader ''/p'')) ex_start) ex_requested (''NODE_ALLOW'', ex_shape 8) = Some Migrate"
  by code_simp

lemma ex_loaded: "fst (load_ebpf (mem_loader ''/p'') ''/p'' ex_sizes ex_start) = None"
  by code_simp


end
