(* ===== verification/Events.thy ===== *)
theory Events
  imports Load_Ebpf Lease
begin

text \<open>
  \<open>controller/src/event.rs\<close>: the Warning Events a controller posts before it exits on a failed restore. A request takes
  some time or never answers; the Events together have one deadline.
\<close>

section \<open>The Events\<close>

definition REASON :: string where "REASON = ''MapRestoreFailed''"
definition COMPONENT :: string where "COMPONENT = ''beep-controller''"
definition NODE_EVENT_NAMESPACE :: string where "NODE_EVENT_NAMESPACE = ''default''"

record pod_ref =
  pr_name :: string
  pr_namespace :: string
  pr_uid :: "string option"

definition errno_name :: "int \<Rightarrow> string" where
  "errno_name errno =
     (case map_of [(ENOMEM, ''ENOMEM''), (E2BIG, ''E2BIG''), (EINVAL, ''EINVAL''), (EFAULT, ''EFAULT''), (EPERM, ''EPERM''),
                   (EACCES, ''EACCES'')] errno of
        Some name \<Rightarrow> name
      | None \<Rightarrow> ''errno'')"

text \<open>The text of \<open>restore_remediation\<close>.\<close>

definition remediation_text :: "remediation \<Rightarrow> string" where
  "remediation_text r =
     (case r of
        RaiseMemory \<Rightarrow> ''no-prealloc maps allocate per insert, charged to the pod memory cgroup: raise the '' @
          ''pod memory limit or relieve node memory pressure''
      | ReportBug \<Rightarrow> ''restore plan/layout mismatch, a beep bug: please report, with the log''
      | CheckCapabilities \<Rightarrow> ''missing BPF capabilities or LSM denial: check the DaemonSet securityContext''
      | ReportUnexpected \<Rightarrow> ''unexpected restore error: please report, with the log'')"

definition restore_failed_message :: "restore_failure \<Rightarrow> string" where
  "restore_failed_message f =
     ''restoring migrated entries into map '' @ rf_map f @ '' failed ('' @ print_base 10 (rf_count f) @
     '' write failures, first: '' @ (case rf_errno f of None \<Rightarrow> ''non-syscall error'' | Some e \<Rightarrow> errno_name e) @ ''): '' @
     remediation_text (restore_remediation (rf_errno f)) @
     ''. The previous programs keep serving from the old maps until this is fixed.''"

definition event :: "string \<Rightarrow> json \<Rightarrow> string \<Rightarrow> string \<Rightarrow> string \<Rightarrow> json" where
  "event namespace involved node_name message now =
     JObj [(''apiVersion'', JStr ''v1''), (''kind'', JStr ''Event''),
           (''metadata'', JObj [(''generateName'', JStr ''beep-map-restore-failed-''), (''namespace'', JStr namespace)]),
           (''involvedObject'', involved), (''reason'', JStr REASON), (''message'', JStr message), (''type'', JStr ''Warning''),
           (''source'', JObj [(''component'', JStr COMPONENT), (''host'', JStr node_name)]),
           (''reportingComponent'', JStr COMPONENT), (''reportingInstance'', JStr node_name),
           (''firstTimestamp'', JStr now), (''lastTimestamp'', JStr now), (''count'', JNum 1)]"

definition restore_failed_events :: "string \<Rightarrow> pod_ref option \<Rightarrow> string \<Rightarrow> string \<Rightarrow> (string \<times> json) list" where
  "restore_failed_events node_name pod message now =
     (NODE_EVENT_NAMESPACE,
      event NODE_EVENT_NAMESPACE
        (JObj [(''apiVersion'', JStr ''v1''), (''kind'', JStr ''Node''), (''name'', JStr node_name), (''uid'', JStr node_name)])
        node_name message now)
     # (case pod of
          None \<Rightarrow> []
        | Some pod \<Rightarrow>
            let involved = JObj ([(''apiVersion'', JStr ''v1''), (''kind'', JStr ''Pod''), (''name'', JStr (pr_name pod)),
                                  (''namespace'', JStr (pr_namespace pod))]
                                 @ (case pr_uid pod of None \<Rightarrow> [] | Some uid \<Rightarrow> [(''uid'', JStr uid)]))
            in [(pr_namespace pod, event (pr_namespace pod) involved node_name message now)])"

section \<open>Posting\<close>

definition POST_DEADLINE :: nanos where "POST_DEADLINE = from_secs 10"

text \<open>A request that takes \<open>t\<close>, or never answers. The lines logged, one for each Event, or that the deadline passed.\<close>

type_synonym 's timed_post = "string \<Rightarrow> json \<Rightarrow> 's \<Rightarrow> (nanos \<times> response) option \<times> 's"

datatype post_log = Posted string | PostStatus string nat | PostFailed string | GaveUp

definition events_path :: "string \<Rightarrow> string" where
  "events_path namespace = ''/api/v1/namespaces/'' @ namespace @ ''/events''"

definition post_line :: "string \<Rightarrow> response \<Rightarrow> post_log" where
  "post_line namespace r =
     (case r of
        Some (status, _) \<Rightarrow> if is_success status then Posted namespace else PostStatus (events_path namespace) status
      | None \<Rightarrow> PostFailed (events_path namespace))"

text \<open>The time spent is the second component.\<close>

primrec post_all :: "'s timed_post \<Rightarrow> nanos \<Rightarrow> (string \<times> json) list \<Rightarrow> 's \<Rightarrow> (post_log list \<times> nanos) \<times> 's" where
  "post_all post deadline [] s = (([], 0), s)"
| "post_all post deadline (e # events) s =
     (case post (events_path (fst e)) (snd e) s of
        (None, s) \<Rightarrow> (([GaveUp], deadline), s)
      | (Some (t, r), s) \<Rightarrow>
          if t > deadline then (([GaveUp], deadline), s)
          else (case post_all post (deadline - t) events s of ((lines, spent), s) \<Rightarrow>
                  ((post_line (fst e) r # lines, t + spent), s)))"

text \<open>\<open>delay\<close> says how long a request takes.\<close>

definition request_timed :: "'s api_client \<Rightarrow> (string \<Rightarrow> 's \<Rightarrow> nanos option) \<Rightarrow> 's timed_post" where
  "request_timed A delay path body s =
     (case ac_request A POST path (Some body) s of (r, s') \<Rightarrow> (map_option (\<lambda>t. (t, r)) (delay path s), s'))"

definition report_restore_failure ::
  "'s api_client \<Rightarrow> (string \<Rightarrow> 's \<Rightarrow> nanos option) \<Rightarrow> nanos \<Rightarrow> string \<Rightarrow> pod_ref option \<Rightarrow> load_error \<Rightarrow> 's \<Rightarrow>
   (post_log list \<times> nanos) \<times> 's" where
  "report_restore_failure A delay now node_name pod err s =
     (case err of
        RestoreFailed failure \<Rightarrow>
          post_all (request_timed A delay) POST_DEADLINE
            (restore_failed_events node_name pod (restore_failed_message failure) (micro_time now)) s
      | _ \<Rightarrow> (([], 0), s))"

section \<open>Posting is bounded and tries every Event\<close>

lemma post_all_bounded: "snd (fst (post_all post deadline events s)) \<le> deadline"
proof (induction events arbitrary: deadline s)
  case (Cons e events)
  obtain r s1 where r: "post (events_path (fst e)) (snd e) s = (r, s1)" by fastforce
  show ?case
  proof (cases r)
    case (Some x)
    obtain t a where x: "x = (t, a)" by (cases x)
    obtain ls n s2 where rest: "post_all post (deadline - t) events s1 = ((ls, n), s2)" by (metis prod.collapse)
    show ?thesis using Cons.IH [of "deadline - t" s1] rest by (auto simp: r Some x)
  qed (simp add: r)
qed simp

lemma report_bounded: "snd (fst (report_restore_failure A delay now node_name pod err s)) \<le> POST_DEADLINE"
  using post_all_bounded by (cases err) (simp_all add: report_restore_failure_def)

text \<open>Unless the deadline passes there is one line for each Event, in order, whatever the answers were.\<close>

lemma post_all_lines:
  assumes "GaveUp \<notin> set (fst (fst (post_all post deadline events s)))"
  shows "\<exists>answers. length answers = length events
    \<and> fst (fst (post_all post deadline events s)) = map2 (\<lambda>e r. post_line (fst e) r) events answers"
  using assms
proof (induction events arbitrary: deadline s)
  case (Cons e events)
  obtain r s1 where r: "post (events_path (fst e)) (snd e) s = (r, s1)" by fastforce
  then obtain t a where x: "r = Some (t, a)" "\<not> t > deadline" using Cons.prems by (cases r) (auto split: if_splits)
  obtain ls n s2 where rest: "post_all post (deadline - t) events s1 = ((ls, n), s2)" by (metis prod.collapse)
  have "GaveUp \<notin> set ls" using Cons.prems by (simp add: r x rest)
  then obtain answers where "length answers = length events" "ls = map2 (\<lambda>e r. post_line (fst e) r) events answers"
    using Cons.IH [of "deadline - t" s1] rest by auto
  then show ?case by (intro exI [of _ "a # answers"]) (simp add: r x rest)
qed simp

text \<open>Each Event names the namespace it is posted to, and its object.\<close>

lemma events_where_posted:
  assumes "(namespace, body) \<in> set (restore_failed_events node_name pod message now)"
  shows "json_path body [''metadata'', ''namespace''] = JStr namespace \<and> json_at body ''message'' = JStr message
    \<and> (namespace = NODE_EVENT_NAMESPACE \<and> json_path body [''involvedObject'', ''uid''] = JStr node_name
       \<or> (\<exists>p. pod = Some p \<and> namespace = pr_namespace p \<and> json_path body [''involvedObject'', ''name''] = JStr (pr_name p)
            \<and> json_path body [''involvedObject'', ''uid''] = (case pr_uid p of None \<Rightarrow> JNull | Some uid \<Rightarrow> JStr uid)))"
  using assms by (auto simp: restore_failed_events_def event_def Let_def split: option.splits)

end
