(* ===== verification/Startup.thy ===== *)
theory Startup
  imports Events Attach Seed Controller
begin

text \<open>
  \<open>main\<close> of \<open>controller/src/main.rs\<close> up to the attached hooks, and what the process does besides its watches: the Lease
  turn and the answer to SIGTERM. The state has four parts that the calls change separately: the operating system
  (directories, commands), the pinned maps, the apiserver, and the programs and links.
\<close>

section \<open>Credentials\<close>

datatype client_source = Kubeconfig string | InCluster

text \<open>The error names what is missing. \<open>paths\<close> are the token and CA files of a pod, constants of the client library.\<close>

definition select_client_source ::
  "string \<times> string \<Rightarrow> string option \<Rightarrow> bool \<Rightarrow> bool \<Rightarrow> bool \<Rightarrow> string list + client_source" where
  "select_client_source paths kubeconfig token_exists ca_exists service_env_set =
     (case kubeconfig of
        Some path \<Rightarrow> Inr (Kubeconfig path)
      | None \<Rightarrow>
          let missing = (if token_exists then [] else [fst paths])
                @ (if ca_exists then [] else [snd paths])
                @ (if service_env_set then [] else [''KUBERNETES_SERVICE_HOST/KUBERNETES_SERVICE_PORT''])
          in if missing = [] then Inr InCluster else Inl missing)"

section \<open>The start\<close>

datatype boot_error =
    PinDirFailed | BadFrontSizes size_error | NoCredentials "string list" | NoClient | NotLoaded load_error
  | NodeNotReady start_error | NoSeed seed_error

record ('o, 'p, 'a, 'l) boot_state =
  bs_os :: 'o
  bs_maps :: 'p
  bs_api :: 'a
  bs_links :: 'l

record ('o, 'p, 'a, 'l, 'g, 'k) boot_env =
  be_create_dir :: "string \<Rightarrow> 'o \<Rightarrow> bool \<times> 'o"
  be_fs :: "'o \<Rightarrow> file_system"
  be_run :: "string list \<Rightarrow> 'o \<Rightarrow> bool \<times> 'o"
  be_put :: "string \<Rightarrow> string \<Rightarrow> 'o \<Rightarrow> bool \<times> 'o"
  be_is_file :: "'o \<Rightarrow> string \<Rightarrow> bool"
  be_var_set :: "string \<Rightarrow> bool"
  be_credential_paths :: "string \<times> string"
  be_client :: "client_source \<Rightarrow> 'a api_client option"
  be_delay :: "string \<Rightarrow> 'a \<Rightarrow> nanos option"
  be_now :: nanos
  be_random :: "u64 option"
  be_b64 :: "string \<Rightarrow> string option"
  be_loader :: "'p loader"
  be_config :: "'p config_handle"
  be_uplinks :: "('p, u32, uplink_config) hash_map"
  be_uplink_capacity :: u32
  be_links :: "('l, 'g, 'k) link_ops"

text \<open>The arguments a start reads.\<close>

record boot_args =
  ba_node_prep :: bool
  ba_geneve_iface :: string
  ba_uplink_ifaces :: "string list"
  ba_pin_dir :: string
  ba_kubeconfig :: "string option"
  ba_node_name :: string
  ba_pod_name :: "string option"
  ba_pod_namespace :: "string option"
  ba_pod_uid :: "string option"
  ba_seed_namespace :: string
  ba_fwd_pending_max_entries :: u32
  ba_flow_table_max_entries :: u32
  ba_max_fronts :: u32
  ba_endpoints_per_front :: u32
  ba_node_allow_max_entries :: u32
  ba_pod_targets_max_entries :: u32

definition boot_sizes :: "boot_args \<Rightarrow> u32 \<times> u32 \<Rightarrow> map_sizes" where
  "boot_sizes args fronts =
     \<lparr>sz_fwd_pending = ba_fwd_pending_max_entries args, sz_flow_table = ba_flow_table_max_entries args,
      sz_front_meta = fst fronts, sz_front_endpoints = snd fronts, sz_node_allow = ba_node_allow_max_entries args,
      sz_pod_targets = ba_pod_targets_max_entries args\<rparr>"

definition boot_pod :: "boot_args \<Rightarrow> pod_ref option" where
  "boot_pod args =
     (case (ba_pod_name args, ba_pod_namespace args) of
        (Some name, Some namespace) \<Rightarrow> Some \<lparr>pr_name = name, pr_namespace = namespace, pr_uid = ba_pod_uid args\<rparr>
      | _ \<Rightarrow> None)"

text \<open>\<open>--node-prep\<close>.\<close>

definition node_prep :: "('o, 'p, 'a, 'l, 'g, 'k) boot_env \<Rightarrow> boot_args \<Rightarrow> 'o \<Rightarrow> boot_error option \<times> 'o" where
  "node_prep E args s =
     (case ensure_geneve_iface (be_run E) (be_fs E) (ba_geneve_iface args) s of
        (Some e, s) \<Rightarrow> (Some (NodeNotReady e), s)
      | (None, s) \<Rightarrow>
          (case disable_rp_filter (be_put E) (ba_geneve_iface args) s of (r, s) \<Rightarrow> (map_option NodeNotReady r, s)))"

definition boot_client :: "('o, 'p, 'a, 'l, 'g, 'k) boot_env \<Rightarrow> boot_args \<Rightarrow> 'o \<Rightarrow> boot_error + 'a api_client" where
  "boot_client E args s =
     (case select_client_source (be_credential_paths E) (ba_kubeconfig args)
             (be_is_file E s (fst (be_credential_paths E))) (be_is_file E s (snd (be_credential_paths E)))
             (be_var_set E ''KUBERNETES_SERVICE_HOST'' \<and> be_var_set E ''KUBERNETES_SERVICE_PORT'') of
        Inl missing \<Rightarrow> Inl (NoCredentials missing)
      | Inr source \<Rightarrow> (case be_client E source of None \<Rightarrow> Inl NoClient | Some A \<Rightarrow> Inr A))"

text \<open>Loading: the maps, or the Events about a failed restore.\<close>

definition boot_load ::
  "('o, 'p, 'a, 'l, 'g, 'k) boot_env \<Rightarrow> boot_args \<Rightarrow> 'a api_client \<Rightarrow> u32 \<times> u32 \<Rightarrow> ('o, 'p, 'a, 'l) boot_state \<Rightarrow>
   boot_error option \<times> ('o, 'p, 'a, 'l) boot_state" where
  "boot_load E args A fronts s =
     (case load_ebpf (be_loader E) (ba_pin_dir args) (boot_sizes args fronts) (bs_maps s) of
        (None, m) \<Rightarrow> (None, s\<lparr>bs_maps := m\<rparr>)
      | (Some e, m) \<Rightarrow>
          (case report_restore_failure A (be_delay E) (be_now E) (ba_node_name args) (boot_pod args) e (bs_api s) of
             (_, a) \<Rightarrow> (Some (NotLoaded e), s\<lparr>bs_maps := m, bs_api := a\<rparr>)))"

text \<open>From the loaded maps to the attached hooks.\<close>

definition boot_hooks ::
  "('o, 'p, 'a, 'l, 'g, 'k) boot_env \<Rightarrow> boot_args \<Rightarrow> ('o, 'p, 'a, 'l) boot_state \<Rightarrow>
   boot_error option \<times> ('o, 'p, 'a, 'l) boot_state" where
  "boot_hooks E args s =
     (case attach_hooks (be_links E) (ba_pin_dir args) (hooks (ba_uplink_ifaces args) (ba_geneve_iface args)) (bs_links s) of
        (r, l) \<Rightarrow> (map_option NodeNotReady r, s\<lparr>bs_links := l\<rparr>))"

definition boot_maps ::
  "('o, 'p, 'a, 'l, 'g, 'k) boot_env \<Rightarrow> boot_args \<Rightarrow> u64 \<Rightarrow> ('o, 'p, 'a, 'l) boot_state \<Rightarrow>
   boot_error option \<times> ('o, 'p, 'a, 'l) boot_state" where
  "boot_maps E args seed s =
     (case populate_config (be_fs E (bs_os s)) (be_config E) (ba_geneve_iface args) seed (bs_maps s) of
        (Some e, m) \<Rightarrow> (Some (NodeNotReady e), s\<lparr>bs_maps := m\<rparr>)
      | (None, m) \<Rightarrow>
     (case populate_uplink_config (be_fs E (bs_os s)) (be_uplinks E) (be_uplink_capacity E) (ba_uplink_ifaces args) m of
        (r, m) \<Rightarrow> (map_option NodeNotReady r, s\<lparr>bs_maps := m\<rparr>)))"

definition controller_boot ::
  "('o, 'p, 'a, 'l, 'g, 'k) boot_env \<Rightarrow> boot_args \<Rightarrow> ('o, 'p, 'a, 'l) boot_state \<Rightarrow>
   boot_error option \<times> ('o, 'p, 'a, 'l) boot_state" where
  "controller_boot E args s =
     (if ba_node_prep args then (case node_prep E args (bs_os s) of (r, os) \<Rightarrow> (r, s\<lparr>bs_os := os\<rparr>))
      else
     (case be_create_dir E (ba_pin_dir args) (bs_os s) of
        (False, os) \<Rightarrow> (Some PinDirFailed, s\<lparr>bs_os := os\<rparr>)
      | (True, os) \<Rightarrow>
      let s = s\<lparr>bs_os := os\<rparr> in
     (case front_map_max_entries (ba_max_fronts args) (ba_endpoints_per_front args) of
        Inl e \<Rightarrow> (Some (BadFrontSizes e), s)
      | Inr fronts \<Rightarrow>
     (case boot_client E args (bs_os s) of
        Inl e \<Rightarrow> (Some e, s)
      | Inr A \<Rightarrow>
     (case boot_load E args A fronts s of
        (Some e, s) \<Rightarrow> (Some e, s)
      | (None, s) \<Rightarrow>
     (case ensure_geneve_iface (be_run E) (be_fs E) (ba_geneve_iface args) (bs_os s) of
        (Some e, os) \<Rightarrow> (Some (NodeNotReady e), s\<lparr>bs_os := os\<rparr>)
      | (None, os) \<Rightarrow>
     (case load_or_create_seed A (be_b64 E) (ba_seed_namespace args) (be_random E) (bs_api s) of
        (Inl e, a) \<Rightarrow> (Some (NoSeed e), s\<lparr>bs_os := os, bs_api := a\<rparr>)
      | (Inr seed, a) \<Rightarrow>
     (case boot_maps E args seed (s\<lparr>bs_os := os, bs_api := a\<rparr>) of
        (Some e, s) \<Rightarrow> (Some e, s)
      | (None, s) \<Rightarrow> boot_hooks E args s))))))))"

section \<open>The Lease\<close>

text \<open>One turn of \<open>run_lease_loop\<close>, with the time it sleeps afterwards.\<close>

definition lease_turn ::
  "'s api_client \<Rightarrow> watch_order \<Rightarrow> nanos \<Rightarrow> string \<Rightarrow> string \<Rightarrow> ip_addr \<Rightarrow> watch_state \<Rightarrow> 's \<Rightarrow> nanos \<times> 's" where
  "lease_turn A wo now namespace node_name node_ip ws s =
     (case lease_ips wo ws node_ip of
        None \<Rightarrow> (RETRY_POLL, s)
      | Some ips \<Rightarrow> (LEASE_RENEW, snd (renew_lease A now namespace node_name ips s)))"

text \<open>On SIGTERM the process withdraws its addresses and ends, whether or not that worked.\<close>

definition on_sigterm :: "'s api_client \<Rightarrow> nanos \<Rightarrow> string \<Rightarrow> string \<Rightarrow> 's \<Rightarrow> 's" where
  "on_sigterm A now namespace node_name s = snd (withdraw_lease A now namespace node_name s)"

end
