(* ===== verification/Startup_Props.thy ===== *)
theory Startup_Props
  imports Startup Seed_Props Attach_Props
begin

text \<open>
  A classifier never runs before its tables are ready: whichever step of a start fails, the hooks are as they were, or
  \<open>CONFIG\<close> holds a seed the shared Secret has held and \<open>UPLINK_CONFIG\<close> exactly the uplinks of the node.
\<close>

section \<open>The uplink rows\<close>

context bpf_map
begin

lemma removes_rows:
  assumes "remove_all H ks m = (None, m')"
  shows "hm_rows H m' = hm_rows H m |` (- set ks)"
  using assms
proof (induction ks arbitrary: m)
  case (Cons k ks)
  obtain t where t: "hm_remove H k m = (None, t)" "remove_all H ks t = (None, m')"
    using Cons.prems by (auto split: prod.splits option.splits)
  have "hm_rows H t = (hm_rows H m)(k := None)" using remove_rows [of k m] t(1) by simp
  then show ?case using Cons.IH [OF t(2)] by (auto simp: restrict_map_def fun_eq_iff)
qed (simp add: restrict_map_def)

end

text \<open>What a write to \<open>UPLINK_CONFIG\<close> leaves alone, the loops leave alone.\<close>

lemma removes_keep:
  assumes "remove_all H ks m = (r, m')" and "\<And>k m. f (snd (hm_remove H k m)) = f m"
  shows "f m' = f m"
  using assms(1)
proof (induction ks arbitrary: m)
  case (Cons k ks)
  obtain e t where t: "hm_remove H k m = (e, t)" by fastforce
  have "f t = f m" using assms(2) [of k m] t by simp
  then show ?case using Cons.IH [of t] Cons.prems t by (cases e) auto
qed simp

lemma inserts_keep:
  assumes "insert_uplinks fs H ifaces u = (r, u')" and "\<And>k v u. f (snd (hm_insert H k v u)) = f u"
  shows "f u' = f u"
  using assms(1)
proof (induction ifaces arbitrary: u r)
  case (Cons iface ifaces)
  show ?case
  proof (cases "resolve_uplink fs iface")
    case (Inr x)
    obtain k v where x: "x = (k, v)" by (cases x)
    obtain e t where t: "hm_insert H k v u = (e, t)" by fastforce
    have "f t = f u" using assms(2) [of k v u] t by simp
    moreover have "u' = t \<or> (\<exists>r. insert_uplinks fs H ifaces t = (r, u'))"
      using Cons.prems by (cases e) (auto simp: Inr x t split: prod.splits sum.splits)
    ultimately show ?thesis using Cons.IH by auto
  qed (use Cons.prems in simp)
qed simp

text \<open>The rows of the uplinks; of two names for one interface the later one counts.\<close>

definition uplink_rows :: "file_system \<Rightarrow> string list \<Rightarrow> (u32 \<rightharpoonup> uplink_config) \<Rightarrow> bool" where
  "uplink_rows fs ifaces rows \<longleftrightarrow> (\<exists>resolved. map (resolve_uplink fs) ifaces = map Inr resolved \<and> rows = map_of (rev resolved))"

lemma inserted_rows:
  assumes "bpf_map U" "insert_uplinks fs U ifaces u = (Inr configured, u')"
  shows "\<exists>resolved. map (resolve_uplink fs) ifaces = map Inr resolved \<and> configured = map fst resolved
    \<and> hm_rows U u' = hm_rows U u ++ map_of (rev resolved)"
  using assms(2)
proof (induction ifaces arbitrary: u configured)
  case (Cons iface ifaces)
  obtain k v where kv: "resolve_uplink fs iface = Inr (k, v)" using Cons.prems by (cases "resolve_uplink fs iface") auto
  obtain t where t: "hm_insert U k v u = (None, t)" using Cons.prems kv by (auto split: prod.splits option.splits)
  obtain rest where rest: "insert_uplinks fs U ifaces t = (Inr rest, u')" "configured = k # rest"
    using Cons.prems kv t by (auto split: prod.splits sum.splits)
  obtain resolved where ih: "map (resolve_uplink fs) ifaces = map Inr resolved" "rest = map fst resolved"
    "hm_rows U u' = hm_rows U t ++ map_of (rev resolved)" using Cons.IH [OF rest(1)] by blast
  have "hm_rows U t = (hm_rows U u)(k \<mapsto> v)" using bpf_map.insert_rows [OF assms(1), of k v u] t by simp
  then show ?case using ih rest(2) kv by (intro exI [of _ "(k, v) # resolved"]) (simp add: map_add_upd_left [symmetric])
qed simp

lemma populate_uplinks:
  assumes "hash_map_ok U" "populate_uplink_config fs U capacity ifaces u = (None, u')"
  shows "uplink_rows fs ifaces (hm_rows U u')"
proof -
  have U: "bpf_map U" using assms(1) by unfold_locales
  obtain configured t rows where steps: "insert_uplinks fs U ifaces u = (Inr configured, t)" "hm_iter U t = Inr rows"
    "remove_all U (stale_uplink_ifindexes (map fst rows) configured) t = (None, u')"
    using assms(2) by (auto simp: populate_uplink_config_def split: option.splits prod.splits sum.splits)
  obtain resolved where ins: "map (resolve_uplink fs) ifaces = map Inr resolved" "configured = map fst resolved"
    "hm_rows U t = hm_rows U u ++ map_of (rev resolved)" using inserted_rows [OF U steps(1)] by blast
  have keys: "fst ` set rows = dom (hm_rows U t)" by (rule bpf_map.iter_keys [OF U steps(2)])
  have stale: "set (stale_uplink_ifindexes (map fst rows) configured) = dom (hm_rows U t) - fst ` set resolved"
    using keys ins(2) by (auto simp: stale_uplink_ifindexes_def stale_pod_targets_def)
  have "hm_rows U u' k = map_of (rev resolved) k" for k
  proof (cases "k \<in> fst ` set resolved")
    case True
    then have "map_of (rev resolved) k \<noteq> None" by (simp add: map_of_eq_None_iff)
    then show ?thesis using True bpf_map.removes_rows [OF U steps(3)] stale ins(3) by (auto simp: restrict_map_def)
  next
    case False
    then have "map_of (rev resolved) k = None" by (simp add: map_of_eq_None_iff)
    then show ?thesis using False bpf_map.removes_rows [OF U steps(3)] stale by (auto simp: restrict_map_def)
  qed
  then show ?thesis using ins(1) by (auto simp: uplink_rows_def)
qed

lemma populate_uplinks_keep:
  assumes "populate_uplink_config fs U capacity ifaces u = (r, u')"
    and "\<And>k v u. f (snd (hm_insert U k v u)) = f u" "\<And>k u. f (snd (hm_remove U k u)) = f u"
  shows "f u' = f u"
proof (cases "check_uplink_count (length ifaces) capacity")
  case None
  obtain x t where x: "insert_uplinks fs U ifaces u = (x, t)" by fastforce
  have t: "f t = f u" by (rule inserts_keep [OF x assms(2)])
  have "u' = t \<or> (\<exists>ks r. remove_all U ks t = (r, u'))"
    using assms(1) by (auto simp: populate_uplink_config_def None x split: sum.splits prod.splits)
  then show ?thesis using t removes_keep [of U _ t _ u' f, OF _ assms(3)] by auto
qed (use assms(1) in \<open>simp add: populate_uplink_config_def\<close>)

section \<open>The start\<close>

text \<open>The documented behaviour of what a start calls: the handles of \<open>CONFIG\<close> and \<open>UPLINK_CONFIG\<close>, which are different maps,
  and the apiserver behind any client.\<close>

definition boot_env_ok :: "('o, 'p, 'a, 'l, 'g, 'k) boot_env \<Rightarrow> boot_args \<Rightarrow> 'a secret_log \<Rightarrow> bool" where
  "boot_env_ok E args log \<longleftrightarrow> config_handle_ok (be_config E) \<and> hash_map_ok (be_uplinks E)
     \<and> (\<forall>k v m. ca_slot (be_config E) (snd (hm_insert (be_uplinks E) k v m)) = ca_slot (be_config E) m)
     \<and> (\<forall>k m. ca_slot (be_config E) (snd (hm_remove (be_uplinks E) k m)) = ca_slot (be_config E) m)
     \<and> (\<forall>source A. be_client E source = Some A \<longrightarrow> seed_api_ok A (be_b64 E) (ba_seed_namespace args) log)"

definition tables_ready ::
  "('o, 'p, 'a, 'l, 'g, 'k) boot_env \<Rightarrow> boot_args \<Rightarrow> 'a secret_log \<Rightarrow> ('o, 'p, 'a, 'l) boot_state \<Rightarrow> bool" where
  "tables_ready E args log s \<longleftrightarrow>
     cfg_flow_hash_seed (ca_slot (be_config E) (bs_maps s)) \<in> seeds_held (be_b64 E) (log (bs_api s))
     \<and> iface_index (be_fs E (bs_os s)) (ba_geneve_iface args) = Inr (cfg_geneve_ifindex (ca_slot (be_config E) (bs_maps s)))
     \<and> uplink_rows (be_fs E (bs_os s)) (ba_uplink_ifaces args) (hm_rows (be_uplinks E) (bs_maps s))"

lemma populated_config:
  assumes "config_handle_ok C" "populate_config fs C iface seed c = (None, c')"
  shows "cfg_flow_hash_seed (ca_slot C c') = seed" "iface_index fs iface = Inr (cfg_geneve_ifindex (ca_slot C c'))"
proof -
  obtain idx old where steps: "iface_index fs iface = Inr idx" "ca_get C c = Inr old"
    "ca_set C (config_keeping_parity old idx seed) c = (None, c')"
    using assms(2) by (auto simp: populate_config_def split: sum.splits prod.splits)
  have "ca_slot C c' = config_keeping_parity old idx seed"
    using assms(1) steps(3) unfolding config_handle_ok_def by (metis fst_conv snd_conv)
  then show "cfg_flow_hash_seed (ca_slot C c') = seed" "iface_index fs iface = Inr (cfg_geneve_ifindex (ca_slot C c'))"
    using steps(1) by (simp_all add: config_keeping_parity_def)
qed

lemma boot_maps_ready:
  assumes "boot_env_ok E args log" "seed \<in> seeds_held (be_b64 E) (log (bs_api s))" "boot_maps E args seed s = (None, s')"
  shows "tables_ready E args log s'"
proof -
  obtain m m' where steps: "populate_config (be_fs E (bs_os s)) (be_config E) (ba_geneve_iface args) seed (bs_maps s) = (None, m)"
    "populate_uplink_config (be_fs E (bs_os s)) (be_uplinks E) (be_uplink_capacity E) (ba_uplink_ifaces args) m = (None, m')"
    "s' = s\<lparr>bs_maps := m'\<rparr>"
    using assms(3) by (auto simp: boot_maps_def split: prod.splits option.splits)
  have slot: "ca_slot (be_config E) m' = ca_slot (be_config E) m"
    by (rule populate_uplinks_keep [OF steps(2)]) (use assms(1) in \<open>simp_all add: boot_env_ok_def\<close>)
  have C: "config_handle_ok (be_config E)" and U: "hash_map_ok (be_uplinks E)" using assms(1) by (simp_all add: boot_env_ok_def)
  show ?thesis
    using populated_config [OF C steps(1)] populate_uplinks [OF U steps(2)] assms(2) by (simp add: tables_ready_def slot steps(3))
qed

lemma boot_links_kept:
  "boot_load E args A fronts s = (r, s') \<Longrightarrow> bs_links s' = bs_links s"
  "boot_maps E args seed s = (r, s') \<Longrightarrow> bs_links s' = bs_links s"
  by (auto simp: boot_load_def boot_maps_def split: prod.splits option.splits)

section \<open>Property\<close>

text \<open>C16: a start changes the hooks only once the tables they read are ready. Wherever it stops, the programs and links are
  as before the start, or \<open>CONFIG\<close> has the index of the tunnel device and a seed the shared Secret has held, and \<open>UPLINK_CONFIG\<close>
  has exactly the rows of the node's uplinks. A start that succeeds has both.\<close>

theorem hooks_wait_for_tables:
  assumes "boot_env_ok E args log" "\<not> ba_node_prep args" "controller_boot E args s = (r, s')"
  shows "(bs_links s' = bs_links s \<or> tables_ready E args log s') \<and> (r = None \<longrightarrow> tables_ready E args log s')"
proof -
  let ?ensure = "ensure_geneve_iface (be_run E) (be_fs E) (ba_geneve_iface args)"
  obtain made os where os: "be_create_dir E (ba_pin_dir args) (bs_os s) = (made, os)" by fastforce
  let ?s = "s\<lparr>bs_os := os\<rparr>"
  show ?thesis
  proof (cases "\<exists>fronts A t os' a seed u. made \<and> front_map_max_entries (ba_max_fronts args) (ba_endpoints_per_front args) = Inr fronts
      \<and> boot_client E args (bs_os ?s) = Inr A \<and> boot_load E args A fronts ?s = (None, t) \<and> ?ensure (bs_os t) = (None, os')
      \<and> load_or_create_seed A (be_b64 E) (ba_seed_namespace args) (be_random E) (bs_api t) = (Inr seed, a)
      \<and> boot_maps E args seed (t\<lparr>bs_os := os', bs_api := a\<rparr>) = (None, u)")
    case False
    then have "r \<noteq> None \<and> bs_links s' = bs_links s"
      using assms(2,3)
      by (auto simp: controller_boot_def os Let_def split: bool.splits sum.splits prod.splits option.splits
          dest: boot_links_kept) (drule boot_links_kept(2), drule boot_links_kept(1), simp)
    then show ?thesis by auto
  next
    case True
    then obtain fronts A t os' a seed u where go: made "front_map_max_entries (ba_max_fronts args) (ba_endpoints_per_front args) = Inr fronts"
      "boot_client E args (bs_os ?s) = Inr A" "boot_load E args A fronts ?s = (None, t)" "?ensure (bs_os t) = (None, os')"
      "load_or_create_seed A (be_b64 E) (ba_seed_namespace args) (be_random E) (bs_api t) = (Inr seed, a)"
      "boot_maps E args seed (t\<lparr>bs_os := os', bs_api := a\<rparr>) = (None, u)" by blast
    obtain source where "be_client E source = Some A"
      using go(3) by (auto simp: boot_client_def split: sum.splits option.splits)
    then have A: "seed_store A (be_b64 E) (ba_seed_namespace args) log" using assms(1) by unfold_locales (simp add: boot_env_ok_def)
    have held: "seed \<in> seeds_held (be_b64 E) (log a)"
      using go(6) seed_store.create_held [OF A] by (auto simp: load_or_create_seed_def split: option.splits)
    have ready: "tables_ready E args log u" by (rule boot_maps_ready [OF assms(1) _ go(7)]) (simp add: held)
    have "(r, s') = boot_hooks E args u" using assms(2,3) go os by (simp add: controller_boot_def)
    then have "tables_ready E args log s'" using ready by (auto simp: boot_hooks_def tables_ready_def split: prod.splits)
    then show ?thesis by simp
  qed
qed

text \<open>A node with nothing pinned, on a cluster without the Secret.\<close>

type_synonym boot_maps_state = "config \<times> (u32, uplink_config) std_map"

definition bx_loader :: "boot_maps_state loader" where
  "bx_loader =
     \<lparr>ld_pins = \<lparr>ps_pins = \<lambda>_ _. None, ps_shape = \<lambda>_ _. Inr None, ps_snapshot = \<lambda>_ _. Inl PinError, ps_remove = \<lambda>_ m. (None, m),
                 ps_repin = \<lambda>_ _ m. (Some PinError, m)\<rparr>,
      ld_remove_file = \<lambda>_ m. (NotFound, m), ld_object = Some (\<lambda>_. Some (ex_shape 8)), ld_load = \<lambda>_ m. (True, m),
      ld_write = \<lambda>_ _ _ m. (Some None, m), ld_fault = False\<rparr>"

definition bx_uplinks :: "(boot_maps_state, u32, uplink_config) hash_map" where
  "bx_uplinks =
     \<lparr>hm_rows = \<lambda>(c, m). hm_rows std_hash_map m, hm_iter = \<lambda>(c, m). hm_iter std_hash_map m, hm_get = \<lambda>k (c, m). hm_get std_hash_map k m,
      hm_insert = \<lambda>k v (c, m). map_prod id (Pair c) (hm_insert std_hash_map k v m),
      hm_remove = \<lambda>k (c, m). map_prod id (Pair c) (hm_remove std_hash_map k m)\<rparr>"

definition bx_fs :: file_system where
  "bx_fs path = (if path = net_path ''geneve0'' ''ifindex'' then Some ''3'' else if path = net_path ''eth0'' ''ifindex'' then Some ''2''
     else if path = net_path ''eth0'' ''type'' then Some ''1'' else None)"

definition bx_env :: "(unit, boot_maps_state, json option list, mem_links, nat, nat) boot_env" where
  "bx_env =
     \<lparr>be_create_dir = \<lambda>_ s. (True, s), be_fs = \<lambda>_. bx_fs, be_run = \<lambda>_ s. (True, s), be_put = \<lambda>_ _ s. (True, s),
      be_is_file = \<lambda>_ _. True, be_var_set = \<lambda>_. True, be_credential_paths = (''/token'', ''/ca''),
      be_client = \<lambda>_. Some (mem_secret ''kube''), be_delay = \<lambda>_ _. Some 0, be_now = 0, be_random = Some 7, be_b64 = Some,
      be_loader = bx_loader,
      be_config = \<lparr>ca_slot = fst, ca_get = \<lambda>(c, m). Inr c, ca_set = \<lambda>v (c, m). (None, (v, m))\<rparr>,
      be_uplinks = bx_uplinks, be_uplink_capacity = 8, be_links = mem_link_ops\<rparr>"

definition bx_args :: boot_args where
  "bx_args =
     \<lparr>ba_node_prep = False, ba_geneve_iface = ''geneve0'', ba_uplink_ifaces = [''eth0''], ba_pin_dir = ''/p'', ba_kubeconfig = None,
      ba_node_name = ''n'', ba_pod_name = None, ba_pod_namespace = None, ba_pod_uid = None, ba_seed_namespace = ''kube'',
      ba_fwd_pending_max_entries = 8, ba_flow_table_max_entries = 8, ba_max_fronts = 2, ba_endpoints_per_front = 4,
      ba_node_allow_max_entries = 8, ba_pod_targets_max_entries = 8\<rparr>"

definition bx_start :: "(unit, boot_maps_state, json option list, mem_links) boot_state" where
  "bx_start = \<lparr>bs_os = (), bs_maps = (sx_node 0, \<lparr>sm_rows = [], sm_max = 8, sm_faults = []\<rparr>), bs_api = [None], bs_links = ml_before\<rparr>"

lemma bx_env_ok: "boot_env_ok bx_env bx_args mem_secret_log"
proof -
  have std: "hash_map_ok (std_hash_map :: ((u32, uplink_config) std_map, u32, uplink_config) hash_map)" by (rule std_hash_map_ok)
  have "hash_map_ok bx_uplinks"
    using std unfolding hash_map_ok_def insert_contract_def remove_contract_def iter_contract_def get_contract_def
    by (simp add: bx_uplinks_def)
  moreover have "seed_api_ok (mem_secret ''kube'') Some ''kube'' mem_secret_log" by (rule mem_seed.store_ok)
  ultimately show ?thesis
    by (simp add: boot_env_ok_def config_handle_ok_def bx_env_def bx_args_def bx_uplinks_def)
qed

lemma bx_resolved:
  "iface_index bx_fs ''geneve0'' = Inr 3" "resolve_uplink bx_fs ''eth0'' = Inr (2, \<lparr>l2_hlen = 14\<rparr>)"
proof -
  show "iface_index bx_fs ''geneve0'' = Inr 3"
    by (simp add: bx_fs_def net_path_def iface_index_def parse_ifindex_def trim_hex is_digit_def to_digit_def from_str_radix_def
        digits_value_def Let_def)
  have "iface_index bx_fs ''eth0'' = Inr 2" "iface_arphrd_type bx_fs ''eth0'' = Inr 1"
    by (simp_all add: bx_fs_def net_path_def iface_index_def iface_arphrd_type_def parse_ifindex_def trim_hex is_digit_def to_digit_def
        from_str_radix_def digits_value_def Let_def)
  moreover have "uplink_l2_hlen_or_err ''eth0'' 1 = Inr 14" by code_simp
  ultimately show "resolve_uplink bx_fs ''eth0'' = Inr (2, \<lparr>l2_hlen = 14\<rparr>)" by (simp add: resolve_uplink_def)
qed

lemma bx_load: "load_ebpf bx_loader ''/p'' sizes m = (None, m)"
proof -
  have "remove_legacy_map_pins (ld_remove_file bx_loader) ''/p'' m = (Inr [], m)"
    by (simp add: remove_legacy_map_pins_def LEGACY_MAP_PINS_def bx_loader_def)
  moreover obtain requested where "requested_shapes (ld_object bx_loader) (size_overrides sizes) = Inr requested"
    by (simp add: requested_shapes_def MAP_NAMES_def bx_loader_def)
  moreover have "pin_fates (ld_pins bx_loader) m requested = Inr (map (\<lambda>(n, w). (n, None, w)) requested)" for requested
    by (induction requested) (auto simp: bx_loader_def pin_source_def)
  moreover have "recreate_loop (ld_pins bx_loader) c (map (\<lambda>(n, w). (n, None, w)) requested) (acc, m) = (Inr acc, m)" for c requested acc
    by (induction requested) auto
  ultimately show ?thesis
    by (simp add: load_ebpf_def recreate_mismatched_pins_def restore_migrated_def bx_loader_def List.map_filter_simps)
qed

lemma bx_boots: "fst (controller_boot bx_env bx_args bx_start) = None"
proof -
  have sizes: "front_map_max_entries (ba_max_fronts bx_args) (ba_endpoints_per_front bx_args) = Inr (2, 16)"
    by (simp add: front_map_max_entries_def checked_mul_def bx_args_def)
  have client: "boot_client bx_env bx_args () = Inr (mem_secret ''kube'')"
    by (simp add: boot_client_def select_client_source_def bx_env_def bx_args_def)
  have load: "boot_load bx_env bx_args A fronts s = (None, s)" for A fronts s
    by (simp add: boot_load_def bx_env_def bx_args_def bx_load)
  have ensure: "ensure_geneve_iface (be_run bx_env) (be_fs bx_env) (ba_geneve_iface bx_args) () = (None, ())"
    using bx_resolved(1) by (simp add: ensure_geneve_iface_def run_checked_def bx_env_def bx_args_def)
  have "fst (load_or_create_seed (mem_secret ''kube'') Some ''kube'' (Some 7) [None]) = Inr 7"
    by (simp add: load_or_create_seed_def create_or_read_def mem_secret_def create_outcome_def is_success_def)
  then obtain a where seed: "load_or_create_seed (mem_secret ''kube'') (be_b64 bx_env) (ba_seed_namespace bx_args) (be_random bx_env) (bs_api bx_start) = (Inr 7, a)"
    by (cases "load_or_create_seed (mem_secret ''kube'') Some ''kube'' (Some 7) [None]") (simp add: bx_env_def bx_args_def bx_start_def)
  let ?s = "bx_start\<lparr>bs_os := (), bs_api := a\<rparr>"
  let ?c = "config_keeping_parity (sx_node 0) 3 7" and ?m = "\<lparr>sm_rows = [], sm_max = 8, sm_faults = []\<rparr> :: (u32, uplink_config) std_map"
  let ?m' = "\<lparr>sm_rows = [(2, \<lparr>l2_hlen = 14\<rparr>)], sm_max = 8, sm_faults = []\<rparr> :: (u32, uplink_config) std_map"
  have "populate_config (be_fs bx_env ()) (be_config bx_env) (ba_geneve_iface bx_args) 7 (bs_maps ?s) = (None, (?c, ?m))"
    using bx_resolved(1) by (simp add: populate_config_def bx_env_def bx_args_def bx_start_def)
  moreover have "populate_uplink_config bx_fs bx_uplinks 8 [''eth0''] (?c, ?m) = (None, (?c, ?m'))"
  proof -
    have ins: "hm_insert bx_uplinks 2 \<lparr>l2_hlen = 14\<rparr> (?c, ?m) = (None, (?c, ?m'))"
      by (simp add: bx_uplinks_def std_hash_map_def std_insert_def sm_tick_def)
    have "hm_iter bx_uplinks (?c, ?m') = Inr [(2, \<lparr>l2_hlen = 14\<rparr>)]" by (simp add: bx_uplinks_def std_hash_map_def collect_map_def)
    then show ?thesis
      by (simp add: populate_uplink_config_def check_uplink_count_def bx_resolved ins stale_uplink_ifindexes_def stale_pod_targets_def)
  qed
  ultimately have maps: "boot_maps bx_env bx_args 7 ?s = (None, ?s\<lparr>bs_maps := (?c, ?m')\<rparr>)"
    by (simp add: boot_maps_def bx_env_def bx_args_def)
  have "fst (attach_hooks mem_link_ops ''/p'' (hooks [''eth0''] ''geneve0'') ml_before) = None" by code_simp
  then have hook: "fst (boot_hooks bx_env bx_args (?s\<lparr>bs_maps := (?c, ?m')\<rparr>)) = None"
    by (simp add: boot_hooks_def bx_env_def bx_args_def bx_start_def split_beta)
  have "be_create_dir bx_env (ba_pin_dir bx_args) (bs_os bx_start) = (True, ())" "\<not> ba_node_prep bx_args"
    by (simp_all add: bx_env_def bx_args_def)
  then show ?thesis using sizes client ensure seed maps hook by (simp add: controller_boot_def load)
qed

theorem hooks_wait_for_tables_witness:
  "\<exists>s'. controller_boot bx_env bx_args bx_start = (None, s') \<and> tables_ready bx_env bx_args mem_secret_log s'"
proof -
  obtain s' where s': "controller_boot bx_env bx_args bx_start = (None, s')"
    using bx_boots by (cases "controller_boot bx_env bx_args bx_start") simp
  have "\<not> ba_node_prep bx_args" by (simp add: bx_args_def)
  from hooks_wait_for_tables [OF bx_env_ok this s'] s' show ?thesis by blast
qed

end
