(* ===== verification/Btf_Ext.thy ===== *)
theory Btf_Ext
  imports Beep_Prelude
begin

text \<open>
  \<open>build_support/btf_ext.rs\<close>: the rewriting of the \<open>.BTF.ext\<close> section of the compiled object. The result is a section
  again, with the same func_info and nothing else; a second run changes nothing.
\<close>

section \<open>The rewriting\<close>

definition BTF_MAGIC :: u16 where "BTF_MAGIC = 0xEB9F"
definition HDR_BASE_LEN :: nat where "HDR_BASE_LEN = 24"
definition HDR_CORE_LEN :: nat where "HDR_CORE_LEN = 32"

definition u32_at :: "bytes \<Rightarrow> nat \<Rightarrow> nat" where
  "u32_at b off = unat (u32_of_ne (span b off (off + 4)))"

definition put_u32 :: "bytes \<Rightarrow> nat \<Rightarrow> nat \<Rightarrow> bytes" where
  "put_u32 b off v = patch b off (u32_to_ne (of_nat v))"

datatype btf_error = ShorterThanHeader | BadMagic | HeaderLenOutOfRange nat | CoreRelocations | FuncInfoOutOfBounds

definition strip_line_info :: "bytes \<Rightarrow> btf_error + bytes" where
  "strip_line_info ext =
     (if length ext < HDR_BASE_LEN then Inl ShorterThanHeader
      else if u16_of_ne [ext ! 0, ext ! 1] \<noteq> BTF_MAGIC then Inl BadMagic
      else
        let hdr_len = u32_at ext 4
        in if \<not> (HDR_BASE_LEN \<le> hdr_len \<and> hdr_len \<le> length ext) then Inl (HeaderLenOutOfRange hdr_len)
           else
             let func_off = u32_at ext 8;
                 func_len = u32_at ext 12;
                 has_core = (hdr_len \<ge> HDR_CORE_LEN)
             in if has_core \<and> u32_at ext 28 \<noteq> 0 then Inl CoreRelocations
                else
                  let func_start = hdr_len + func_off
                  in if \<not> (func_start + func_len \<le> length ext) then Inl FuncInfoOutOfBounds
                     else
                       let out = take hdr_len ext @ span ext func_start (func_start + func_len);
                           out = put_u32 out 8 0;
                           out = put_u32 out 16 func_len;
                           out = put_u32 out 20 0;
                           out = (if has_core then put_u32 (put_u32 out 24 func_len) 28 0 else out)
                       in Inr out)"

section \<open>What a section holds\<close>

definition func_info :: "bytes \<Rightarrow> bytes" where
  "func_info ext = span ext (u32_at ext 4 + u32_at ext 8) (u32_at ext 4 + u32_at ext 8 + u32_at ext 12)"

lemma u32_at_bound: "u32_at b off < 2 ^ 32"
  using unsigned_less [of "u32_of_ne (span b off (off + 4))"] by (simp add: u32_at_def)

lemma put_u32_length [simp]: "off + 4 \<le> length b \<Longrightarrow> length (put_u32 b off v) = length b"
  by (simp add: put_u32_def)

lemma u32_at_put_same: "off + 4 \<le> length b \<Longrightarrow> v < 2 ^ 32 \<Longrightarrow> u32_at (put_u32 b off v) off = v"
  by (simp add: u32_at_def put_u32_def span_patch_same unsigned_of_nat take_bit_nat_eq_self)

lemma span_put:
  assumes "off + 4 \<le> length b" "j \<le> off \<or> off + 4 \<le> i"
  shows "span (put_u32 b off v) i j = span b i j"
  using assms by (auto simp: put_u32_def span_patch_before span_patch_after)

lemma u32_at_put_other:
  assumes "off + 4 \<le> length b" "i + 4 \<le> off \<or> off + 4 \<le> i"
  shows "u32_at (put_u32 b off v) i = u32_at b i"
  using span_put [of off b "i + 4" i v] assms by (simp add: u32_at_def)

lemma u32_at_append: "i + 4 \<le> length a \<Longrightarrow> u32_at (a @ b) i = u32_at a i"
  by (simp add: u32_at_def span_def)

lemma u32_at_take: "i + 4 \<le> n \<Longrightarrow> n \<le> length b \<Longrightarrow> u32_at (take n b) i = u32_at b i"
  by (simp add: u32_at_def span_def drop_take min_def)

lemma put_u32_again:
  assumes "off + 4 \<le> length b" "u32_at b off = v"
  shows "put_u32 b off v = b"
proof -
  have "length (span b off (off + 4)) = 4" using assms(1) by (simp add: span_def)
  then have "u32_to_ne (of_nat v) = span b off (off + 4)" using assms(2) by (auto simp: u32_at_def)
  moreover have "take off b @ span b off (off + 4) @ drop (off + 4) b = b"
    using append_take_drop_id [of off b] append_take_drop_id [of 4 "drop off b"] by (simp add: span_def add.commute)
  ultimately show ?thesis using assms(1) by (simp add: put_u32_def patch_def)
qed

section \<open>The result\<close>

text \<open>The header fields and the body of what the rewriting returns.\<close>

lemma strip_result:
  assumes "strip_line_info ext = Inr out"
  shows "length out = u32_at ext 4 + u32_at ext 12" "take 8 out = take 8 ext"
    and "u32_at out 4 = u32_at ext 4" "u32_at out 8 = 0" "u32_at out 12 = u32_at ext 12" "u32_at out 16 = u32_at ext 12" "u32_at out 20 = 0"
    and "u32_at ext 4 \<ge> HDR_CORE_LEN \<Longrightarrow> u32_at out 24 = u32_at ext 12 \<and> u32_at out 28 = 0"
    and "func_info out = func_info ext" "HDR_BASE_LEN \<le> u32_at ext 4"
proof -
  let ?h = "u32_at ext 4" and ?o = "u32_at ext 8" and ?n = "u32_at ext 12"
  let ?body = "span ext (?h + ?o) (?h + ?o + ?n)"
  define b where "b = take ?h ext @ ?body"
  have ok: "24 \<le> ?h" "?h \<le> length ext" "?h + ?o + ?n \<le> length ext"
    and out: "out = (let out = put_u32 (put_u32 (put_u32 b 8 0) 16 ?n) 20 0
      in if HDR_CORE_LEN \<le> ?h then put_u32 (put_u32 out 24 ?n) 28 0 else out)"
    using assms by (auto simp: strip_line_info_def Let_def b_def HDR_BASE_LEN_def split: if_splits)
  have len: "length b = ?h + ?n" using ok by (simp add: b_def span_def)
  have n: "?n < 2 ^ 32" by (rule u32_at_bound)
  have b: "u32_at b i = u32_at ext i" if "i + 4 \<le> 24" for i using that ok by (simp add: b_def u32_at_append u32_at_take)
  have keep: "span out i j = span b i j" if "j \<le> 8 \<or> ?h \<le> i \<or> 12 \<le> i \<and> j \<le> 16" for i j
    using that ok len by (auto simp: out Let_def HDR_CORE_LEN_def span_put)
  show "length out = ?h + ?n" using ok by (simp add: out Let_def HDR_CORE_LEN_def len)
  show h: "u32_at out 4 = ?h" "u32_at out 12 = ?n" using keep [of 8 4] keep [of 16 12] b [of 4] b [of 12] by (simp_all add: u32_at_def)
  show z: "u32_at out 8 = 0" "u32_at out 16 = ?n" "u32_at out 20 = 0"
    using ok n by (auto simp: out Let_def HDR_CORE_LEN_def u32_at_put_same u32_at_put_other len)
  show "u32_at out 24 = ?n \<and> u32_at out 28 = 0" if "?h \<ge> HDR_CORE_LEN"
    using that ok n by (auto simp: out Let_def HDR_CORE_LEN_def u32_at_put_same u32_at_put_other len)
  show "take 8 out = take 8 ext" using keep [of 8 0] ok by (simp add: span_def b_def min_def)
  have "func_info out = span b ?h (?h + ?n)" using keep [of "?h + ?n" ?h] by (simp add: func_info_def h z)
  also have "\<dots> = ?body" using ok by (simp add: b_def span_def)
  finally show "func_info out = func_info ext" by (simp add: func_info_def)
  show "HDR_BASE_LEN \<le> ?h" using ok by (simp add: HDR_BASE_LEN_def)
qed

text \<open>The result is accepted again and is not changed by a second run; it ends with its func_info.\<close>

lemma strip_idempotent:
  assumes "strip_line_info ext = Inr out"
  shows "strip_line_info out = Inr out \<and> drop (u32_at out 4) out = func_info ext"
proof -
  note r = strip_result [OF assms]
  let ?h = "u32_at ext 4" and ?n = "u32_at ext 12"
  have ext: "length ext \<ge> 24" "u16_of_ne [ext ! 0, ext ! 1] = BTF_MAGIC"
    using assms by (auto simp: strip_line_info_def Let_def HDR_BASE_LEN_def split: if_splits)
  have len: "24 \<le> ?h" "?h \<le> length out" using r(1,10) by (simp_all add: HDR_BASE_LEN_def)
  have "out ! i = ext ! i" if "i < 8" for i using r(2) that by (metis nth_take)
  then have magic: "u16_of_ne [out ! 0, out ! 1] = BTF_MAGIC" using ext(2) by simp
  have body: "take ?h out @ span out ?h (?h + ?n) = out" using r(1) by (simp add: span_def)
  have puts: "put_u32 out 8 0 = out" "put_u32 out 16 ?n = out" "put_u32 out 20 0 = out"
    using r(4,6,7) len by (simp_all add: put_u32_again)
  have core: "put_u32 out 24 ?n = out" "put_u32 out 28 0 = out" "u32_at out 28 = 0" if "HDR_CORE_LEN \<le> ?h"
    using r(8) [OF that] that len by (simp_all add: put_u32_again HDR_CORE_LEN_def)
  have "strip_line_info out = Inr out"
    using len magic r(1,3-7) core by (simp add: strip_line_info_def Let_def HDR_BASE_LEN_def body puts)
  moreover have "drop ?h out = func_info out" using r(1) by (simp add: func_info_def r(3-5) span_def)
  ultimately show ?thesis using r(3,9) by simp
qed

text \<open>A section with CO-RE relocations is refused, so none is dropped unseen.\<close>

lemma strip_refuses_core:
  assumes "strip_line_info ext = Inr out" "HDR_CORE_LEN \<le> u32_at ext 4"
  shows "u32_at ext 28 = 0"
  using assms by (auto simp: strip_line_info_def Let_def split: if_splits)

end
