(* ===== verification/Spec2Isabelle.thy ===== *)
theory Spec2Isabelle
  imports Remap_Props Front_Swap_Props Conntrack_Props Pin_Migrate_Props Reconcile_Props Lease_Props Controller_Props List_Watch
    Attach_Props Seed_Props Fixture_Props Load_Props Startup_Props Btf_Ext
begin

text \<open>
  Verification of beep, a node-local eBPF load balancer.

  \<^bold>\<open>The program.\<close> Traffic for a front (address, port, protocol) enters a node on an uplink. The ingress
  classifier picks an endpoint of the front, pins the flow to it and tunnels the packet (Geneve) to the
  endpoint's node; the tunnel classifier there delivers it to the pod and records the reverse flow; the
  egress classifier tunnels the pod's reply back, and the tunnel classifier of the first node restores
  the front's address and sends the reply to the client. The three classifiers (\<open>ebpf/src/main.rs\<close>) share
  pinned maps; all their pure decisions and byte layouts are in \<open>common/src/lib.rs\<close>. User space writes the
  maps: \<open>src/front_swap.rs\<close> publishes the endpoints of a front by generations, \<open>src/lib.rs\<close> evicts the
  flows of departed pods and sweeps idle ones, \<open>src/pin_migrate.rs\<close> carries the entries of a pinned map
  over a change of its shape. The controller (\<open>controller/src\<close>) drives them: \<open>watch.rs\<close> follows Services,
  EndpointSlices and Nodes, \<open>reconcile.rs\<close> turns them into desired entries, \<open>apply.rs\<close> brings the maps to those
  entries in ticks, \<open>status.rs\<close> publishes the node's addresses in the ingress status of a Service, \<open>lease.rs\<close> lets
  the other nodes withdraw the addresses of a dead node, \<open>seed.rs\<close> makes all nodes hash with one seed, and \<open>main.rs\<close>
  ties events, lists and timers together. The loader binary (\<open>src/main.rs\<close>) prepares the interfaces, attaches the hooks
  and can fill the maps from a fixture set given as arguments.

  \<^bold>\<open>Theories.\<close>
  \<^item> \<open>Beep_Prelude\<close>: bytes, little-endian fields, spans and patches of a packet, the sequencing of fallible
    stateful code, and their simplification rules (collections \<open>wire_simps\<close> and friends). \<open>Ip_Addr\<close>, \<open>Ip_Parse\<close>:
    the standard library's addresses, their printing and parsing. \<open>Std_Text\<close>: UTF-8, \<open>trim\<close> and the parsing of
    integers. \<open>Hash_Order\<close>: visiting a hash map.
  \<^item> \<open>Wire_Codec\<close>, \<open>Steering\<close>, \<open>Port_Remap\<close>, \<open>Flow_State\<close>: \<open>common/src/lib.rs\<close>. Keys, values and options
    with their round trips; hashing and slot choice; the search for a free client port; the flag word of a
    flow with its two-parity idle marking. C23.
  \<^item> \<open>Ebpf_Base\<close>, \<open>Ebpf_Kernel\<close>, \<open>Ebpf_Ingress\<close>, \<open>Ebpf_Decap\<close>, \<open>Ebpf_Egress\<close>: \<open>ebpf/src/main.rs\<close>. The record
    \<open>node\<close> holds the maps, the current packet and its metadata; one definition per function of the source.
    The kernel helpers are the fields of the record \<open>kern\<close>; the predicate on it states their documented
    behaviour, and \<open>std_kern\<close> satisfies it.
  \<^item> \<open>Dataplane\<close>, \<open>Dataplane_Props\<close>, \<open>Remap_Props\<close>: the hooks as steps of a node, reachability, and the
    properties C1 to C11 of the packet path.
  \<^item> \<open>Bpf_Map\<close>: the aya handle of a pinned hash map (record \<open>hash_map\<close>), its contract, and a bounded map with
    injected faults that satisfies it.
  \<^item> \<open>Front_Swap\<close>, \<open>Front_Swap_Props\<close>: \<open>src/front_swap.rs\<close>; C28 to C30.
  \<^item> \<open>Conntrack_Sweep\<close>, \<open>Conntrack_Props\<close>: the sweeps of \<open>src/lib.rs\<close>, the parity byte of
    \<open>controller/src/seed.rs\<close> and the sweep clock of \<open>controller/src/main.rs\<close>; C32 to C34.
  \<^item> \<open>Pin_Migrate\<close>, \<open>Pin_Migrate_Props\<close>: \<open>src/pin_migrate.rs\<close> and the pin handling of \<open>src/lib.rs\<close>; C36.
    \<open>Bpffs\<close>: the program's pin store \<open>BpffsPins\<close> and \<open>snapshot_pin\<close>; C31. \<open>Load_Ebpf\<close>, \<open>Load_Props\<close>: \<open>load_ebpf\<close>, from the
    legacy pins to the unparking; C35.
  \<^item> \<open>Reconcile\<close>, \<open>Reconcile_Props\<close>: \<open>controller/src/reconcile.rs\<close>; C37, C38.
  \<^item> \<open>Kube\<close>: JSON values and the HTTP client as a parameter. \<open>Ingress_Status\<close>: \<open>controller/src/status.rs\<close>; C18.
    \<open>Lease\<close>, \<open>Lease_Props\<close>: \<open>controller/src/lease.rs\<close> and the prune loop of \<open>main.rs\<close>; C39, C40.
  \<^item> \<open>Apply_Entries\<close>, \<open>Apply_Props\<close>: \<open>controller/src/apply.rs\<close>. \<open>pinned_maps\<close> is \<open>PinnedMaps\<close>, \<open>plan_tick\<close> and
    \<open>apply_tick\<close> are the planner and the whole tick; C17, C20, C26.
  \<^item> \<open>Watch\<close>, \<open>Watch_Desired\<close>, \<open>Watch_Props\<close>: \<open>controller/src/watch.rs\<close>. \<open>watch_state\<close> is \<open>WatchState\<close>; parsing,
    events, relists, what to publish and \<open>desired\<close>; C13, C15, C19, C24. \<open>List_Watch\<close>: the loop that lists and watches.
  \<^item> \<open>Controller\<close>, \<open>Controller_Props\<close>: the handlers and timers of \<open>controller/src/main.rs\<close>. The record \<open>controller\<close>
    holds what the tasks share and the status writes in flight; \<open>controller_step\<close> is one turn of one task,
    \<open>controller_reach\<close> every interleaving of them; C12, C14.
  \<^item> \<open>Seed\<close>, \<open>Seed_Props\<close>: the shared seed of \<open>controller/src/seed.rs\<close>, its Secret and its loop; C21.
  \<^item> \<open>Interfaces\<close>: what \<open>src/lib.rs\<close> reads and writes on a node before the classifiers run (interface indexes, the
    \<open>CONFIG\<close> and \<open>UPLINK_CONFIG\<close> rows, legacy pins, sizes, the kernel version). \<open>Attach\<close>, \<open>Attach_Props\<close>:
    \<open>attach_and_pin\<close> and the loop over the hooks; C22.
  \<^item> \<open>Events\<close>: \<open>controller/src/event.rs\<close>, the Events about a failed restore and their deadline. \<open>Startup\<close>,
    \<open>Startup_Props\<close>: \<open>main\<close> of \<open>controller/src/main.rs\<close> up to the attached hooks (\<open>controller_boot\<close>), the Lease turn and
    SIGTERM; C16.
  \<^item> \<open>Fixture\<close>, \<open>Fixture_Props\<close>: the fixture mode of \<open>src/main.rs\<close> with the argument formats of \<open>src/lib.rs\<close>, and
    \<open>evict-pod\<close>; C25, C27.
  \<^item> \<open>Btf_Ext\<close>: \<open>build_support/btf_ext.rs\<close>, what the build leaves of the object's \<open>.BTF.ext\<close> section.

  \<^bold>\<open>Interfaces.\<close> What the program calls but does not contain is a parameter: \<open>kern\<close> (BPF helpers, LRU
  eviction on insert, the clock), \<open>hash_map\<close> (aya), \<open>pin_store\<close> (the source's own trait, implemented over \<open>bpffs_ops\<close>), \<open>loader\<close> (aya's loader), \<open>api_client\<close> and
  \<open>watch_stream\<close> (the apiserver), \<open>link_ops\<close> (aya's programs and links), the file system, the commands run, the
  base64 decoder and the writer closures. Each comes with a contract that says what the documentation
  promises, allows any call to fail, and is shown satisfiable by an executable instance. The order in which a hash map
  or hash set is visited is a parameter too (\<open>visit_order\<close>, \<open>watch_order\<close>): any order that enumerates the keys once.
  Clients use the contracts through locales (\<open>bpf_map\<close>, \<open>map_writer\<close>, \<open>pin_provider\<close>, \<open>bpffs_kernel\<close>, \<open>gap_writer\<close>, \<open>link_provider\<close>,
  \<open>seed_store\<close> and those of the classifiers), interpreted on the model's own definitions.

  \<^bold>\<open>What is shown.\<close> For the packet path: floods cannot fill the flow table, a forward row exists only for a
  flow this node admitted, both directions are gated by the peer and pod tables, delivery and return rewrite
  exactly the addresses and ports they should, and a pinned flow keeps its backend. For the tables: a packet
  racing a generation swap is steered as before or as desired, never by a mixture; a clean pass refines the
  abstract steering \<open>desired_steer\<close>; eviction and sweeping delete exactly the rows they should and idle rows
  are collected. For a tick: one that succeeds has converged every map, and an address whose old flows could not be
  swept is neither installed nor forgotten. For the cluster view: every reachable watch state is well formed, a
  list replaces exactly what it lists, the fronts are exactly those of the tracked Services, and a node advertises only
  addresses it forwards for. For the controller: whatever order events, lists and timers come in, a restarted
  process leaves the pinned maps serving until it has listed everything, and no owed status write is dropped; a dead
  node's address is withdrawn in bounded time and a live one's is kept. For restarts of the loader: no failed call loses the
  entries of a map that is kept or migrated, a load that succeeds has them in the requested shape, restored fronts are whole, and a hook that was attached stays attached
  whichever call fails; a start touches the hooks only when the seed, the tunnel device and the uplinks they read are in
  the maps. For the seed: a node only ever hashes with one the shared Secret has held. For the fixture
  mode: every argument is read in bounded time and to exactly the fixture it denotes, and a successful start leaves
  exactly the fixture set in the maps.

  Some lemmas state behaviour that contradicts the source's comments: \<open>memo_is_shared_across_fronts\<close> and
  \<open>commit_replaces_foreign_live_row\<close> (\<open>Remap_Props\<close>), \<open>remap_base_on_the_wire\<close> (\<open>Port_Remap\<close>),
  \<open>failed_sweep_adds_nothing_known\<close> (\<open>Apply_Props\<close>) and \<open>lost_node_still_advertises\<close> (\<open>Watch_Props\<close>).

  \<^bold>\<open>Bounds.\<close> All integers are words of the source's width; counts taken by \<open>len\<close> are natural numbers, and so are
  durations, in nanoseconds. Loops are structural recursions over the lists they walk; the port probe is a function
  with a measure on its sixteen candidates, and the splitting of an argument, a \<open>partial_function\<close> whose result is
  proved to exist, takes at most one round per byte. The endless loops are given by their turns: a property of a loop speaks of
  every number of turns. The walk over the keys of a pinned map has the source's own bound on its rounds, twice the size of
  the map and one; it is shown to reach every key. There is no other fuel.

  \<^bold>\<open>Not modelled.\<close> Parsing and loading the object (aya), the bpf(2) calls themselves, the commands of \<open>build.rs\<close>, the
  command-line declarations and the tokio wiring: calls into libraries with no decision of their own. The text of log
  lines and of error messages is left out, that of the Events is not; the errors themselves are kept.
\<close>

end
